(* ===== verification/Prelude.thy ===== *)
theory Prelude
  imports Main "HOL-Library.Word" "HOL-Library.Monad_Syntax"
begin

text \<open>
  Shared ground of the development: the machine types of \<^verbatim>\<open>public/common/typedefs.h\<close>, raw
  memory with uninitialised cells, \<^verbatim>\<open>memcpy\<close>, the byte order of scalars, and the lemma
  collections the component theories use.

  Conventions used everywhere.
  \<^item> An unsigned integer of width \<open>w\<close> is a \<open>w word\<close>; a signed one is the same word read with
    \<open>sint\<close> where the code reads it signed.
  \<^item> A block of memory is a list of cells; \<open>None\<close> is a byte that was never written
    (\<^verbatim>\<open>malloc\<close> gives such bytes), \<open>Some b\<close> a byte holding \<open>b\<close>.  Allocation succeeds.
  \<^item> A result of type \<open>option\<close> is \<open>None\<close> when the code would leave the block it was given
    (undefined behaviour), or when it has not returned within the replies it was given.
\<close>

unbundle bit_operations_syntax

type_synonym u8 = "8 word"
type_synonym u16 = "16 word"
type_synonym u32 = "32 word"
type_synonym u64 = "64 word"
type_synonym byte = "8 word"
type_synonym cell = "byte option"
type_synonym mem = "cell list"

named_theorems mem_simps \<open>facts about blocks of memory\<close>
named_theorems code_defs \<open>definitions unfolded when a concrete run is evaluated\<close>

section \<open>Blocks of memory\<close>

definition mem_alloc :: "nat \<Rightarrow> mem" where
  "mem_alloc n = replicate n None"

text \<open>Reading and writing \<open>n\<close> bytes at an offset, as \<^verbatim>\<open>memcpy\<close> does; outside the block, \<open>None\<close>.\<close>

definition mem_read :: "nat \<Rightarrow> nat \<Rightarrow> mem \<Rightarrow> mem option" where
  "mem_read p n m = (if p + n \<le> length m then Some (take n (drop p m)) else None)"

definition mem_write :: "nat \<Rightarrow> mem \<Rightarrow> mem \<Rightarrow> mem option" where
  "mem_write p d m =
     (if p + length d \<le> length m then Some (take p m @ d @ drop (p + length d) m) else None)"

declare mem_alloc_def [code_defs] mem_read_def [code_defs] mem_write_def [code_defs]

lemma length_mem_alloc [simp]: "length (mem_alloc n) = n"
  by (simp add: mem_alloc_def)

lemma mem_read_Some_iff [mem_simps]:
  "mem_read p n m = Some d \<longleftrightarrow> p + n \<le> length m \<and> d = take n (drop p m)"
  by (auto simp: mem_read_def)

lemma mem_write_Some_iff [mem_simps]:
  "mem_write p d m = Some m' \<longleftrightarrow>
     p + length d \<le> length m \<and> m' = take p m @ d @ drop (p + length d) m"
  by (auto simp: mem_write_def)

lemma mem_read_length: "mem_read p n m = Some d \<Longrightarrow> length d = n"
  by (auto simp: mem_simps)

lemma mem_write_length: "mem_write p d m = Some m' \<Longrightarrow> length m' = length m"
  by (auto simp: mem_simps)

lemma mem_write_take: "mem_write p d m = Some m' \<Longrightarrow> take (p + length d) m' = take p m @ d"
  by (auto simp: mem_simps)

lemma mem_write_take_low: "mem_write p d m = Some m' \<Longrightarrow> q \<le> p \<Longrightarrow> take q m' = take q m"
  by (auto simp: mem_simps)

lemma mem_write_window:
  assumes "mem_write p d m = Some m'" and "q \<le> p"
  shows "take (p + length d - q) (drop q m') = take (p - q) (drop q m) @ d"
proof -
  have "take (p + length d - q) (drop q m') = drop q (take (p + length d) m')"
    by (simp add: drop_take)
  also have "\<dots> = drop q (take p m @ d)"
    using assms(1) by (simp add: mem_write_take)
  also have "\<dots> = take (p - q) (drop q m) @ d"
    using assms by (auto simp: drop_take mem_simps)
  finally show ?thesis .
qed

section \<open>Scalars in memory\<close>

text \<open>
  Scalars are stored as the machine stores them, least significant byte first (the build
  targets x86-64).
\<close>

fun nat_bytes :: "nat \<Rightarrow> nat \<Rightarrow> byte list" where
  "nat_bytes 0 x = []"
| "nat_bytes (Suc n) x = word_of_nat x # nat_bytes n (x div 256)"

lemma nat_bytes_numeral:
  "nat_bytes (numeral v) x = word_of_nat x # nat_bytes (pred_numeral v) (x div 256)"
  by (simp only: numeral_eq_Suc nat_bytes.simps)

fun bytes_nat :: "byte list \<Rightarrow> nat" where
  "bytes_nat [] = 0"
| "bytes_nat (b # bs) = unat b + 256 * bytes_nat bs"

definition word_bytes :: "'a::len word \<Rightarrow> byte list" where
  "word_bytes w = nat_bytes (LENGTH('a) div 8) (unat w)"

definition bytes_word :: "byte list \<Rightarrow> 'a::len word" where
  "bytes_word bs = word_of_nat (bytes_nat bs)"

declare word_bytes_def [code_defs] bytes_word_def [code_defs]

lemma unat_bound: "unat w < 2 ^ LENGTH('a)" for w :: "'a::len word"
  by (rule unsigned_less)

lemma uint_bound: "uint w < 2 ^ LENGTH('a)" for w :: "'a::len word"
  by (rule unsigned_less)

lemma length_nat_bytes [simp]: "length (nat_bytes n x) = n"
  by (induction n arbitrary: x) auto

lemma bytes_nat_nat_bytes: "bytes_nat (nat_bytes n x) = x mod 256 ^ n"
proof (induction n arbitrary: x)
  case 0
  then show ?case by simp
next
  case (Suc n)
  have "unat (word_of_nat x :: byte) = x mod 256"
    by (simp add: unat_of_nat)
  with Suc show ?case by (simp add: mod_mult2_eq)
qed

lemma bytes_nat_less: "bytes_nat bs < 256 ^ length bs"
proof (induction bs)
  case Nil
  then show ?case by simp
next
  case (Cons b bs)
  have "unat b < 256" using unat_bound [of b] by simp
  with Cons show ?case by simp
qed

lemma length_word_bytes [simp]: "length (word_bytes (w :: 'a::len word)) = LENGTH('a) div 8"
  by (simp add: word_bytes_def)

lemma bytes_word_word_bytes:
  fixes w :: "'a::len word"
  assumes "LENGTH('a) = 8 * (LENGTH('a) div 8)"
  shows "bytes_word (word_bytes w) = w"
proof -
  have "(256::nat) ^ (LENGTH('a) div 8) = 2 ^ LENGTH('a)"
    by (subst assms) (simp add: power_mult)
  then show ?thesis
    using unat_bound [of w] by (simp add: bytes_word_def word_bytes_def bytes_nat_nat_bytes)
qed

lemma unat_bytes_word32:
  "length bs = 4 \<Longrightarrow> unat (bytes_word bs :: u32) = bytes_nat bs"
  using bytes_nat_less [of bs] by (simp add: bytes_word_def unat_of_nat)

section \<open>Lists\<close>

lemma those_map_Some [simp]: "those (map Some xs) = Some xs"
  by (induction xs) auto

lemma those_eq_Some_iff: "those ms = Some xs \<longleftrightarrow> ms = map Some xs"
  by (induction ms arbitrary: xs) (auto split: option.splits)

lemma take_min_length: "take (min n (length xs)) xs = take n xs"
  by (simp add: min_def)

section \<open>Unsigned 32-bit arithmetic\<close>

text \<open>A \<^verbatim>\<open>uint32\<close> subtraction that does not wrap, and one that is bounded by a smaller number.\<close>

lemma unat_sub_le: "b \<le> a \<Longrightarrow> unat (a - b) = unat a - unat b"
  for a b :: "'a::len word"
  by (simp add: unat_sub)

lemma unat_add_bounded:
  fixes a b :: "'a::len word"
  assumes "unat a + unat b < 2 ^ LENGTH('a)"
  shows "unat (a + b) = unat a + unat b"
  using assms by (simp add: unat_word_ariths)

lemma unat_mult_bounded:
  fixes a b :: "'a::len word"
  assumes "unat a * unat b < 2 ^ LENGTH('a)"
  shows "unat (a * b) = unat a * unat b"
  using assms by (simp add: unat_word_ariths)

lemma unat_min: "unat (min a b) = min (unat a) (unat b)"
  for a b :: "'a::len word"
  by (simp add: min_def word_le_nat_alt)

text \<open>
  Signed 32-bit addition as C has it: defined only when the sum is an \<^verbatim>\<open>int32\<close>.
\<close>

definition c_add_i32 :: "u32 \<Rightarrow> u32 \<Rightarrow> int option" where
  "c_add_i32 a b =
     (let s = sint a + sint b in if - (2 ^ 31) \<le> s \<and> s < 2 ^ 31 then Some s else None)"

declare c_add_i32_def [code_defs]

lemma uint_small: "unat w < 2 ^ 31 \<Longrightarrow> uint w < 2 ^ 31" for w :: u32
  by (metis of_nat_less_iff of_nat_numeral of_nat_power uint_nat)

lemma sint_small: "unat w < 2 ^ 31 \<Longrightarrow> sint w = int (unat w)" for w :: u32
proof -
  assume "unat w < 2 ^ 31"
  then have "uint w < 2 ^ 31" by (rule uint_small)
  moreover have "- (2 ^ 31) \<le> uint w" by (rule order_trans [OF _ uint_ge_0]) simp
  ultimately have "signed_take_bit 31 (uint w) = uint w" by (intro signed_take_bit_int_eq_self)
  then show ?thesis by (simp add: sint_uint)
qed

lemma sint_range: "- (2 ^ 31) \<le> sint w" "sint w < 2 ^ 31" for w :: u32
  using sint_greater_eq [of w] sint_less [of w] by simp_all

text \<open>Adding a signed offset to a small position, when the sum is not negative.\<close>

lemma add_offset:
  fixes p off :: u32
  assumes "unat p < 2 ^ 31" and "0 \<le> int (unat p) + sint off"
  shows "p + off = word_of_int (int (unat p) + sint off)"
    and "unat (p + off) = nat (int (unat p) + sint off)"
proof -
  have "word_of_int (int (unat p) + sint off) = word_of_int (int (unat p)) + word_of_int (sint off)"
    by simp
  then show eq: "p + off = word_of_int (int (unat p) + sint off)" by simp
  have "int (unat p) + sint off < 2 ^ 32" using uint_small [OF assms(1)] sint_range(2) [of off] by simp
  then have "uint (p + off) = int (unat p) + sint off"
    using assms(2) by (simp only: eq uint_word_of_int) simp
  then show "unat (p + off) = nat (int (unat p) + sint off)" by (metis unat_eq_nat_uint)
qed

end
