(* ===== verification/Messages.thy ===== *)
theory Messages
  imports Prelude
begin

text \<open>
  \<^verbatim>\<open>libcore/include/messagequeue.h\<close>, \<^verbatim>\<open>libcore/src/messagequeue.cpp\<close> and the buffer sizes of
  \<^verbatim>\<open>netbase.h\<close>: the message buffer that the sessions fill, the packet view of it, and the queue
  pair through which the network side hands messages to the logic thread.

  A message object is always reached through exactly one pointer (a queue entry or one member
  of a session), so a queue holds the messages themselves.  The mutexes make every queue
  operation atomic; a run of several threads is a list of operations in the order in which the
  mutex was taken.
\<close>

definition MAX_BUFFER_SIZE :: u32 where "MAX_BUFFER_SIZE = 0x1000"
definition MAX_PACKET_SIZE :: u32 where "MAX_PACKET_SIZE = 0x4000"
definition MEMORY_UNIT_SIZE :: u32 where "MEMORY_UNIT_SIZE = MAX_BUFFER_SIZE"

declare MAX_BUFFER_SIZE_def [code_defs] MAX_PACKET_SIZE_def [code_defs] MEMORY_UNIT_SIZE_def [code_defs]

section \<open>Message\<close>

text \<open>\<open>m_ptr\<close> is the \<^verbatim>\<open>void*\<close> member; it holds the session the message came from.\<close>

record message =
  m_size :: u32
  m_data :: mem
  m_curr_len :: u32
  m_data_len :: u32
  m_param :: u32
  m_ptr :: "nat option"

definition message_new :: "u32 \<Rightarrow> message" where
  "message_new sz =
     \<lparr>m_size = sz, m_data = (if sz \<noteq> 0 then mem_alloc (unat sz) else []),
      m_curr_len = 0, m_data_len = 0, m_param = 0, m_ptr = None\<rparr>"

definition message_Reset :: "message \<Rightarrow> u32 \<Rightarrow> message" where
  "message_Reset m sz =
     (let m1 = (if sz > m_size m
                then let n = m_size m + ((sz div MEMORY_UNIT_SIZE) + 1) * MEMORY_UNIT_SIZE
                     in m\<lparr>m_size := n, m_data := mem_alloc (unat n)\<rparr>
                else m)
      in m1\<lparr>m_curr_len := 0, m_data_len := sz, m_param := 0, m_ptr := None\<rparr>)"

definition message_Full :: "message \<Rightarrow> bool" where
  "message_Full m \<longleftrightarrow> m_data_len m = m_curr_len m"

definition message_DataLength :: "message \<Rightarrow> u32" where
  "message_DataLength m = m_curr_len m"

text \<open>
  The loop of \<^verbatim>\<open>Fill\<close>: the caller's pointer is the list of cells it points to, so advancing
  the pointer drops cells.
\<close>

function message_Fill_loop :: "message \<Rightarrow> mem \<Rightarrow> u32 \<Rightarrow> (message \<times> mem \<times> u32) option" where
  "message_Fill_loop m data sz =
     (if \<not> message_Full m \<and> sz \<noteq> 0
      then let free = m_data_len m - m_curr_len m; byte = min free sz
           in do {
             d \<leftarrow> mem_read 0 (unat byte) data;
             buf \<leftarrow> mem_write (unat (m_curr_len m)) d (m_data m);
             message_Fill_loop (m\<lparr>m_data := buf, m_curr_len := m_curr_len m + byte\<rparr>)
               (drop (unat byte) data) (sz - byte)
           }
      else Some (m, data, sz))"
  by pat_completeness auto
termination
proof (relation "measure (\<lambda>(m, data, sz). unat sz)", simp)
  fix m :: message and data :: mem and sz free byte :: u32 and d buf :: mem
  assume a: "\<not> message_Full m \<and> sz \<noteq> 0"
    and f: "free = m_data_len m - m_curr_len m" and b: "byte = min free sz"
  have "free \<noteq> 0" using a f by (simp add: message_Full_def)
  then have "unat byte \<noteq> 0" "unat byte \<le> unat sz"
    using a b by (auto simp: min_def unat_eq_zero word_le_nat_alt)
  moreover have "byte \<le> sz" using b by simp
  ultimately have "unat (sz - byte) < unat sz"
    by (simp add: unat_sub_le)
  then show "((m\<lparr>m_data := buf, m_curr_len := m_curr_len m + byte\<rparr>, drop (unat byte) data, sz - byte),
      m, data, sz) \<in> measure (\<lambda>(m, data, sz). unat sz)"
    by simp
qed

declare message_Fill_loop.simps [simp del]

definition message_Fill :: "message \<Rightarrow> mem \<Rightarrow> u32 \<Rightarrow> (message \<times> mem \<times> u32) option" where
  "message_Fill m data sz =
     (if m_data_len m = 0 then Some (m, data, sz) else message_Fill_loop m data sz)"

declare message_new_def [code_defs] message_Reset_def [code_defs] message_Full_def [code_defs]
  message_DataLength_def [code_defs] message_Fill_def [code_defs] message_Fill_loop.simps [code_defs]

section \<open>Packet\<close>

text \<open>A packet is a message whose first two bytes are the opcode.\<close>

definition packet_Opcode :: "message \<Rightarrow> u16 option" where
  "packet_Opcode p = do { d \<leftarrow> mem_read 0 2 (m_data p); bs \<leftarrow> those d; Some (bytes_word bs) }"

definition packet_set_Opcode :: "message \<Rightarrow> u16 \<Rightarrow> message option" where
  "packet_set_Opcode p v =
     do { buf \<leftarrow> mem_write 0 (map Some (word_bytes v)) (m_data p); Some (p\<lparr>m_data := buf\<rparr>) }"

definition packet_PacketData :: "message \<Rightarrow> mem" where
  "packet_PacketData p = drop 2 (m_data p)"

definition packet_PacketLength :: "message \<Rightarrow> u32" where
  "packet_PacketLength p = m_curr_len p - 2"

declare packet_Opcode_def [code_defs] packet_set_Opcode_def [code_defs]
  packet_PacketData_def [code_defs] packet_PacketLength_def [code_defs]

section \<open>Well-formed messages\<close>

text \<open>The block has the recorded size and the fill level never passes the announced length.\<close>

definition msg_wf :: "message \<Rightarrow> bool" where
  "msg_wf m \<longleftrightarrow> unat (m_size m) = length (m_data m)
     \<and> m_curr_len m \<le> m_data_len m \<and> m_data_len m \<le> m_size m"

text \<open>What has been filled in so far, and how much is still missing.\<close>

definition msg_bytes :: "message \<Rightarrow> mem" where
  "msg_bytes m = take (unat (m_curr_len m)) (m_data m)"

definition msg_room :: "message \<Rightarrow> nat" where
  "msg_room m = unat (m_data_len m) - unat (m_curr_len m)"

lemma msg_wf_le:
  assumes "msg_wf m"
  shows "unat (m_curr_len m) \<le> unat (m_data_len m)" "unat (m_data_len m) \<le> length (m_data m)"
  using assms by (auto simp: msg_wf_def word_le_nat_alt)

lemma length_msg_bytes: "msg_wf m \<Longrightarrow> length (msg_bytes m) = unat (m_curr_len m)"
  using msg_wf_le [of m] by (simp add: msg_bytes_def)

lemma message_Full_iff: "msg_wf m \<Longrightarrow> message_Full m \<longleftrightarrow> msg_room m = 0"
  using msg_wf_le [of m] by (auto simp: message_Full_def msg_room_def word_unat_eq_iff)

lemma msg_wf_new: "msg_wf (message_new sz)"
  by (auto simp: msg_wf_def message_new_def)

text \<open>
  \<^verbatim>\<open>Reset\<close> grows the block when the new length does not fit.  For lengths up to a quarter of
  the address space the growth cannot wrap.
\<close>

lemma Reset_grown_size:
  fixes s sz :: u32
  assumes "s < sz" and "unat sz < 2 ^ 30"
  shows "unat (s + ((sz div MEMORY_UNIT_SIZE) + 1) * MEMORY_UNIT_SIZE)
    = unat s + (unat sz div 4096 + 1) * 4096"
proof -
  have s: "unat s < 2 ^ 30" using assms by (simp add: word_less_nat_alt)
  have d: "unat (sz div 0x1000 :: u32) = unat sz div 4096"
    by (simp add: unat_div)
  have q: "unat sz div 4096 \<le> 2 ^ 18" using assms(2) by simp
  have "unat (sz div 0x1000 + 1 :: u32) = unat sz div 4096 + 1"
    using q d by (subst unat_add_bounded) auto
  then have m: "unat ((sz div 0x1000 + 1) * 0x1000 :: u32) = (unat sz div 4096 + 1) * 4096"
    using q by (subst unat_mult_bounded) auto
  show ?thesis
    unfolding MEMORY_UNIT_SIZE_def MAX_BUFFER_SIZE_def
    using q s m by (subst unat_add_bounded) auto
qed

lemma msg_wf_Reset:
  assumes "unat (m_size m) = length (m_data m)" and "unat sz < 2 ^ 30"
  shows "msg_wf (message_Reset m sz)"
proof (cases "sz > m_size m")
  case True
  have "unat sz < (unat sz div 4096 + 1) * 4096"
    by (metis Suc_eq_plus1 dividend_less_div_times mult.commute mult_Suc_right zero_less_numeral add.commute)
  then show ?thesis
    using True Reset_grown_size [OF True assms(2)]
    by (simp add: msg_wf_def message_Reset_def Let_def word_le_nat_alt)
next
  case False
  then show ?thesis using assms by (simp add: msg_wf_def message_Reset_def)
qed

lemma message_Reset_sel [simp]:
  "m_curr_len (message_Reset m sz) = 0" "m_data_len (message_Reset m sz) = sz"
  "m_param (message_Reset m sz) = 0" "m_ptr (message_Reset m sz) = None"
  "msg_bytes (message_Reset m sz) = []" "msg_room (message_Reset m sz) = unat sz"
  by (simp_all add: message_Reset_def msg_bytes_def msg_room_def Let_def)

section \<open>Filling\<close>

lemma message_Fill_loop_spec:
  assumes wf: "msg_wf m" and len: "unat sz \<le> length data"
    and n: "n = min (msg_room m) (unat sz)" and c: "c = unat (m_curr_len m)"
  shows "message_Fill_loop m data sz =
    Some (m\<lparr>m_data := take c (m_data m) @ take n data @ drop (c + n) (m_data m),
             m_curr_len := m_curr_len m + word_of_nat n\<rparr>,
          drop n data, sz - word_of_nat n)"
proof (cases "\<not> message_Full m \<and> sz \<noteq> 0")
  case False
  then have "n = 0" using wf n by (auto simp: message_Full_iff)
  with False show ?thesis by (subst message_Fill_loop.simps) auto
next
  case True
  let ?free = "m_data_len m - m_curr_len m" and ?byte = "min (m_data_len m - m_curr_len m) sz"
  let ?d = "take n data" and ?c' = "m_curr_len m + ?byte"
  let ?buf = "take c (m_data m) @ ?d @ drop (c + n) (m_data m)"
  note le = msg_wf_le [OF wf]
  have free: "unat ?free = msg_room m"
    using wf by (simp add: msg_room_def msg_wf_def unat_sub_le)
  then have byte: "unat ?byte = n" by (simp add: unat_min n)
  then have wb: "?byte = word_of_nat n" by (simp flip: byte)
  have rd: "mem_read 0 (unat ?byte) data = Some ?d"
    using len byte n by (simp add: mem_simps)
  have wr: "mem_write (unat (m_curr_len m)) ?d (m_data m) = Some ?buf"
    using le len n c by (simp add: mem_simps msg_room_def)
  have stop: "m_data_len m = ?c' \<or> sz - ?byte = 0"
    by (auto simp: min_def)
  then have "message_Fill_loop (m\<lparr>m_data := ?buf, m_curr_len := ?c'\<rparr>) (drop n data) (sz - ?byte)
    = Some (m\<lparr>m_data := ?buf, m_curr_len := ?c'\<rparr>, drop n data, sz - ?byte)"
    by (subst message_Fill_loop.simps) (auto simp: message_Full_def)
  then show ?thesis
    using True rd wr byte wb by (subst message_Fill_loop.simps) (simp add: Let_def)
qed

lemma message_Fill_spec:
  assumes wf: "msg_wf m" and len: "unat sz \<le> length data"
    and n: "n = min (msg_room m) (unat sz)"
  obtains m' where "message_Fill m data sz = Some (m', drop n data, sz - word_of_nat n)"
    and "msg_wf m'" and "msg_bytes m' = msg_bytes m @ take n data"
    and "unat (m_curr_len m') = unat (m_curr_len m) + n"
    and "m_data_len m' = m_data_len m" and "m_size m' = m_size m"
    and "m_param m' = m_param m" and "m_ptr m' = m_ptr m"
proof -
  let ?c = "unat (m_curr_len m)"
  let ?m = "m\<lparr>m_data := take ?c (m_data m) @ take n data @ drop (?c + n) (m_data m),
              m_curr_len := m_curr_len m + word_of_nat n\<rparr>"
  note le = msg_wf_le [OF wf]
  have n_le: "n \<le> length data" "?c + n \<le> unat (m_data_len m)" using n len le by (auto simp: msg_room_def)
  then have "n < 2 ^ 32" "?c + n < 2 ^ 32" using unat_bound [of "m_data_len m"] by simp_all
  then have cur: "unat (m_curr_len m + word_of_nat n) = ?c + n"
    by (subst unat_add_bounded) (auto simp: unat_of_nat)
  have fill: "message_Fill m data sz = Some (?m, drop n data, sz - word_of_nat n)"
  proof (cases "m_data_len m = 0")
    case True
    then have "n = 0" using n by (simp add: msg_room_def)
    with True show ?thesis by (simp add: message_Fill_def)
  next
    case False
    then show ?thesis using message_Fill_loop_spec [OF wf len n refl] by (simp add: message_Fill_def)
  qed
  have "msg_wf ?m"
    using wf cur n_le le by (auto simp: msg_wf_def word_le_nat_alt)
  moreover have "msg_bytes ?m = msg_bytes m @ take n data"
    using cur n_le le by (simp add: msg_bytes_def min_def)
  ultimately show thesis using fill cur that [of ?m] by simp
qed

end
