(* ===== verification/MessageQueue.thy ===== *)
theory MessageQueue
  imports Messages
begin

text \<open>
  The queue pair of \<^verbatim>\<open>libcore/src/messagequeue.cpp\<close>: \<^verbatim>\<open>_msg_waiting\<close> from the network side to
  the logic thread and \<^verbatim>\<open>_msg_recycle\<close> for used message objects, and the first-in first-out
  contract that this queue and the task list of the worker pool share.
\<close>

section \<open>The contract of a shared queue\<close>

text \<open>
  A run of a shared queue is the sequence of its operations in the order in which the lock was
  taken; \<open>Other\<close> stands for the operations of the same object that do not concern the queue.
\<close>

datatype ('a, 'o) queue_op = Enq 'a | Deq | Other 'o

fun fifo_run :: "('q \<Rightarrow> 'a \<Rightarrow> 'q) \<Rightarrow> ('q \<Rightarrow> 'a option \<times> 'q) \<Rightarrow> ('q \<Rightarrow> 'o \<Rightarrow> 'q) \<Rightarrow>
    'q \<Rightarrow> ('a, 'o) queue_op list \<Rightarrow> 'a list \<times> 'q" where
  "fifo_run enq deq other q [] = ([], q)"
| "fifo_run enq deq other q (Enq x # ops) = fifo_run enq deq other (enq q x) ops"
| "fifo_run enq deq other q (Deq # ops) =
     (let (r, q1) = deq q; (out, q2) = fifo_run enq deq other q1 ops
      in (case r of None \<Rightarrow> out | Some x \<Rightarrow> x # out, q2))"
| "fifo_run enq deq other q (Other p # ops) = fifo_run enq deq other (other q p) ops"

fun enqueued :: "('a, 'o) queue_op list \<Rightarrow> 'a list" where
  "enqueued [] = []"
| "enqueued (Enq x # ops) = x # enqueued ops"
| "enqueued (Deq # ops) = enqueued ops"
| "enqueued (Other p # ops) = enqueued ops"

locale fifo_queue =
  fixes enq :: "'q \<Rightarrow> 'a \<Rightarrow> 'q"
    and deq :: "'q \<Rightarrow> 'a option \<times> 'q"
    and other :: "'q \<Rightarrow> 'o \<Rightarrow> 'q"
    and items :: "'q \<Rightarrow> 'a list"
  assumes items_enq: "items (enq q x) = items q @ [x]"
    and deq_empty: "items q = [] \<Longrightarrow> deq q = (None, q') \<Longrightarrow> items q' = []"
    and deq_none: "items q = [] \<Longrightarrow> fst (deq q) = None"
    and deq_cons: "items q = x # xs \<Longrightarrow> \<exists>q'. deq q = (Some x, q') \<and> items q' = xs"
    and items_other: "items (other q p) = items q"
begin

lemma deq_cases:
  obtains (Empty) q' where "items q = []" "deq q = (None, q')" "items q' = []"
  | (Cons) x xs q' where "items q = x # xs" "deq q = (Some x, q')" "items q' = xs"
proof (cases "items q")
  case Nil
  then have "deq q = (None, snd (deq q))" using deq_none by (metis prod.collapse)
  with Nil show thesis using Empty deq_empty by metis
next
  case (Cons x xs)
  then show thesis using that(2) deq_cons by metis
qed

text \<open>What was taken out, followed by what is left, is what was there, followed by what was put in.\<close>

lemma fifo_history:
  "fifo_run enq deq other q ops = (out, q') \<Longrightarrow> out @ items q' = items q @ enqueued ops"
proof (induction ops arbitrary: q out q')
  case Nil
  then show ?case by simp
next
  case (Cons p ops)
  show ?case
  proof (cases p)
    case (Enq x)
    then show ?thesis using Cons.prems Cons.IH [of "enq q x" out] by (simp add: items_enq)
  next
    case (Other r)
    then show ?thesis using Cons.prems Cons.IH [of "other q r" out] by (simp add: items_other)
  next
    case Deq
    obtain r q1 where d: "deq q = (r, q1)" by fastforce
    obtain out1 q2 where f: "fifo_run enq deq other q1 ops = (out1, q2)" by fastforce
    have q': "q' = q2" and out: "out = (case r of None \<Rightarrow> out1 | Some x \<Rightarrow> x # out1)"
      using Cons.prems Deq d f by auto
    have IH: "out1 @ items q2 = items q1 @ enqueued ops" by (rule Cons.IH [OF f])
    show ?thesis
      by (rule deq_cases [of q]) (use Deq d IH q' out in auto)
  qed
qed

text \<open>Nothing is delivered out of order or twice, and once the queue is empty nothing is missing.\<close>

lemma fifo_prefix:
  assumes "fifo_run enq deq other q ops = (out, q')" and "items q = []"
  shows "out = take (length out) (enqueued ops)"
  using fifo_history [OF assms(1)] assms(2) by (metis append_eq_conv_conj append_Nil)

lemma fifo_drained:
  assumes "fifo_run enq deq other q ops = (out, q')" and "items q = []" and "items q' = []"
  shows "out = enqueued ops"
  using fifo_history [OF assms(1)] assms(2,3) by simp

end

section \<open>MessageQueue\<close>

record mqueue =
  msg_waiting :: "message list"
  msg_recycle :: "message list"

definition mqueue_new :: mqueue where
  "mqueue_new = \<lparr>msg_waiting = [], msg_recycle = []\<rparr>"

definition ApplyMessage :: "mqueue \<Rightarrow> message \<times> mqueue" where
  "ApplyMessage q =
     (case msg_recycle q of
        m # ms \<Rightarrow> (m, q\<lparr>msg_recycle := ms\<rparr>)
      | [] \<Rightarrow> (message_new MEMORY_UNIT_SIZE, q))"

definition FreeMessage :: "mqueue \<Rightarrow> message \<Rightarrow> mqueue" where
  "FreeMessage q m = q\<lparr>msg_recycle := msg_recycle q @ [m]\<rparr>"

definition PushMessage :: "mqueue \<Rightarrow> message \<Rightarrow> mqueue" where
  "PushMessage q m = q\<lparr>msg_waiting := msg_waiting q @ [m]\<rparr>"

definition PopMessage :: "mqueue \<Rightarrow> message option \<times> mqueue" where
  "PopMessage q =
     (case msg_waiting q of
        m # ms \<Rightarrow> (Some m, q\<lparr>msg_waiting := ms\<rparr>)
      | [] \<Rightarrow> (None, q))"

text \<open>\<^verbatim>\<open>_clean_up\<close> deletes what is left in the two queues; the value lists the deleted objects.\<close>

definition mq_clean_up :: "mqueue \<Rightarrow> message list \<times> mqueue" where
  "mq_clean_up q = (msg_waiting q @ msg_recycle q, q\<lparr>msg_waiting := [], msg_recycle := []\<rparr>)"

declare mqueue_new_def [code_defs] ApplyMessage_def [code_defs] FreeMessage_def [code_defs]
  PushMessage_def [code_defs] PopMessage_def [code_defs]

text \<open>The operations on the recycle queue, as seen from the waiting queue.\<close>

datatype pool_op = Apply | Free message

fun mq_pool :: "mqueue \<Rightarrow> pool_op \<Rightarrow> mqueue" where
  "mq_pool q Apply = snd (ApplyMessage q)"
| "mq_pool q (Free m) = FreeMessage q m"

definition mq_run :: "mqueue \<Rightarrow> (message, pool_op) queue_op list \<Rightarrow> message list \<times> mqueue" where
  "mq_run = fifo_run PushMessage PopMessage mq_pool"

lemma msg_waiting_pool [simp]: "msg_waiting (mq_pool q p) = msg_waiting q"
  by (cases p) (auto simp: ApplyMessage_def FreeMessage_def split: list.splits)

interpretation wq: fifo_queue PushMessage PopMessage mq_pool msg_waiting
  by unfold_locales (auto simp: PushMessage_def PopMessage_def split: list.splits)

text \<open>
  C6. Whatever the interleaving of the threads that push, pop, apply and free messages, the
  logic thread receives the messages in the order in which they were pushed, none twice, and
  the ones it has not received are still in the queue in that order.
\<close>

theorem mq_fifo:
  "mq_run q ops = (out, q') \<Longrightarrow> out @ msg_waiting q' = msg_waiting q @ enqueued ops"
  unfolding mq_run_def by (rule wq.fifo_history)

theorem mq_fifo_witness:
  "mq_run mqueue_new [Enq (message_new 4), Other Apply, Enq (message_new 8), Deq]
     = ([message_new 4], \<lparr>msg_waiting = [message_new 8], msg_recycle = []\<rparr>)
   \<and> [message_new 4] @ [message_new 8]
     = msg_waiting mqueue_new
       @ enqueued [Enq (message_new 4), Other Apply, Enq (message_new 8), Deq]"
proof -
  let ?ops = "[Enq (message_new 4), Other Apply, Enq (message_new 8), Deq]"
  have run: "mq_run mqueue_new ?ops
      = ([message_new 4], \<lparr>msg_waiting = [message_new 8], msg_recycle = []\<rparr>)"
    by (simp add: mq_run_def mqueue_new_def PushMessage_def PopMessage_def ApplyMessage_def)
  show ?thesis using run mq_fifo [OF run] by simp
qed

section \<open>Pools of well-formed messages\<close>

text \<open>The recycle queue only ever holds objects whose recorded size is the size of their block.\<close>

definition msg_sized :: "message \<Rightarrow> bool" where
  "msg_sized m \<longleftrightarrow> unat (m_size m) = length (m_data m)"

definition pool_wf :: "mqueue \<Rightarrow> bool" where
  "pool_wf q \<longleftrightarrow> list_all msg_sized (msg_recycle q)"

lemma msg_wf_sized [simp]: "msg_wf m \<Longrightarrow> msg_sized m"
  by (simp add: msg_wf_def msg_sized_def)

lemma ApplyMessage_wf:
  assumes "pool_wf q" and "ApplyMessage q = (m, q')"
  shows "msg_sized m" and "pool_wf q'" and "msg_waiting q' = msg_waiting q"
  using assms
  by (auto simp: ApplyMessage_def pool_wf_def msg_wf_new split: list.splits)

lemma FreeMessage_wf: "pool_wf q \<Longrightarrow> msg_sized m \<Longrightarrow> pool_wf (FreeMessage q m)"
  by (simp add: FreeMessage_def pool_wf_def)

lemma FreeMessage_waiting [simp]: "msg_waiting (FreeMessage q m) = msg_waiting q"
  by (simp add: FreeMessage_def)

lemma PushMessage_sel [simp]:
  "msg_waiting (PushMessage q m) = msg_waiting q @ [m]" "msg_recycle (PushMessage q m) = msg_recycle q"
  by (simp_all add: PushMessage_def)

lemma pool_wf_Push [simp]: "pool_wf (PushMessage q m) = pool_wf q"
  by (simp add: pool_wf_def)

text \<open>A message taken from the pool and reset for \<open>sz\<close> bytes is well formed, empty and expects \<open>sz\<close> bytes.\<close>

lemma Apply_Reset_wf:
  assumes "pool_wf q" and "ApplyMessage q = (m, q')" and "unat sz < 2 ^ 30"
  shows "msg_wf (message_Reset m sz)"
  using ApplyMessage_wf(1) [OF assms(1,2)] assms(3) msg_wf_Reset by (simp add: msg_sized_def)

end
