(* ===== verification/Session.thy ===== *)
theory Session
  imports MessageQueue
begin

text \<open>
  The platform-independent half of a session: \<^verbatim>\<open>libcore/include/session.h\<close> (the Linux class) and
  \<^verbatim>\<open>libcore/src/session.cpp\<close>.  A session frames every outgoing message by a four byte length and
  cuts the incoming byte stream back into messages.

  The session's identity (its address) is \<open>s_id\<close>; a socket descriptor is an \<open>int\<close>, \<open>-1\<close> being
  no socket.  The clock the session reads is a sequence of readings.
\<close>

section \<open>State\<close>

datatype io_status = IO_STATUS_IDLE | IO_STATUS_ERROR | IO_STATUS_PENDING | IO_STATUS_COMPLETED

text \<open>The completion key that is registered with the poller: whose it is, which callback, its status.\<close>

datatype io_callback = SessionCb | ListenerCb | ConnectorCb

record completion_key =
  ck_obj :: nat
  ck_func :: io_callback
  ck_status :: io_status

datatype sock_status = SS_NONE | SS_RUNNING | SS_ERROR | SS_PRECLOSED | SS_CLOSED

record session =
  s_id :: nat
  s_socket :: int
  s_status :: sock_status
  s_key :: "completion_key option"
  s_msg_header :: message
  s_msg_recv :: "message option"
  s_que_send :: "message list"
  s_msg_send :: "message option"
  s_send_len :: u64
  s_send_error :: u32
  s_recv_error :: u32
  s_othe_error :: u32
  s_rd_ready :: bool
  s_wr_ready :: bool
  s_events :: u32
  s_disconnect :: bool
  s_send_over :: bool
  s_recv_over :: bool
  s_in_epoll :: bool
  s_last_active_t :: u64

text \<open>
  What a session uses of the process: the queue of received messages (\<^verbatim>\<open>INSTANCE(MessageQueue)\<close>),
  the pool of send buffers (\<^verbatim>\<open>INSTANCE_2(MessageQueue)\<close>) and the clock.
\<close>

record net_env =
  ne_mq :: mqueue
  ne_mq2 :: mqueue
  ne_clock :: "nat \<Rightarrow> u64"
  ne_reads :: nat

definition read_clock :: "net_env \<Rightarrow> u64 \<times> net_env" where
  "read_clock e = (ne_clock e (ne_reads e), e\<lparr>ne_reads := Suc (ne_reads e)\<rparr>)"

definition session_Active :: "session \<Rightarrow> bool" where
  "session_Active s \<longleftrightarrow> s_status s = SS_RUNNING"

definition session_Disposable :: "session \<Rightarrow> bool" where
  "session_Disposable s \<longleftrightarrow> s_status s = SS_CLOSED"

definition session_set_socket_status :: "session \<Rightarrow> sock_status \<Rightarrow> session" where
  "session_set_socket_status s st = s\<lparr>s_status := st\<rparr>"

definition session_on_recv_error :: "session \<Rightarrow> u32 \<Rightarrow> session" where
  "session_on_recv_error s err = s\<lparr>s_recv_error := err\<rparr>"

definition session_on_send_error :: "session \<Rightarrow> u32 \<Rightarrow> session" where
  "session_on_send_error s err = s\<lparr>s_send_error := err\<rparr>"

definition session_Disconnect :: "session \<Rightarrow> session" where
  "session_Disconnect s = (if \<not> s_disconnect s then s\<lparr>s_disconnect := True\<rparr> else s)"

declare read_clock_def [code_defs] session_Active_def [code_defs] session_Disposable_def [code_defs]
  session_set_socket_status_def [code_defs] session_on_recv_error_def [code_defs]
  session_on_send_error_def [code_defs] session_Disconnect_def [code_defs]

section \<open>Sending\<close>

text \<open>The tail of the send queue with room, appended from the pool when there is none.\<close>

definition session_writer :: "session \<Rightarrow> net_env \<Rightarrow> session \<times> net_env" where
  "session_writer s e =
     (if s_que_send s = [] \<or> message_Full (last (s_que_send s))
      then let (msg, q) = ApplyMessage (ne_mq2 e)
           in (s\<lparr>s_que_send := s_que_send s @ [message_Reset msg MAX_BUFFER_SIZE]\<rparr>, e\<lparr>ne_mq2 := q\<rparr>)
      else (s, e))"

text \<open>
  \<^verbatim>\<open>_send\<close>.  The pointer that \<^verbatim>\<open>Fill\<close> advances is a local of the loop body that starts at
  \<^verbatim>\<open>data\<close> in every round, so only the size carries over to the next round.
\<close>

partial_function (option) session_send :: "session \<Rightarrow> net_env \<Rightarrow> mem \<Rightarrow> u32 \<Rightarrow> (session \<times> net_env) option" where
  "session_send s e data sz =
     (if sz \<noteq> 0
      then let (s1, e1) = session_writer s e
           in do {
             (m, pdata, sz1) \<leftarrow> message_Fill (last (s_que_send s1)) data sz;
             session_send (s1\<lparr>s_que_send := butlast (s_que_send s1) @ [m]\<rparr>) e1 data sz1
           }
      else Some (s, e))"

definition session_Send :: "session \<Rightarrow> net_env \<Rightarrow> mem \<Rightarrow> u32 \<Rightarrow> (session \<times> net_env) option" where
  "session_Send s e data sz =
     (if \<not> session_Active s then Some (s, e)
      else do {
        (s1, e1) \<leftarrow> session_send s e (map Some (word_bytes sz)) 4;
        session_send s1 e1 data sz
      })"

section \<open>Receiving\<close>

text \<open>The two loops \<^verbatim>\<open>while (size && !m->Full()) m->Fill(pdata, size)\<close>.\<close>

partial_function (option) fill_while :: "message \<Rightarrow> mem \<Rightarrow> u32 \<Rightarrow> (message \<times> mem \<times> u32) option" where
  "fill_while m pdata sz =
     (if sz \<noteq> 0 \<and> \<not> message_Full m
      then do {
        (m1, pdata1, sz1) \<leftarrow> message_Fill m pdata sz;
        fill_while m1 pdata1 sz1
      }
      else Some (m, pdata, sz))"

text \<open>
  Once the header is complete: the message being received, a new one from the pool if there is
  none.  The inner \<open>None\<close> is an announced length that is refused.
\<close>

definition session_begin :: "session \<Rightarrow> net_env \<Rightarrow> (message \<times> net_env) option option" where
  "session_begin s e =
     (case s_msg_recv s of
        Some m \<Rightarrow> Some (Some (m, e))
      | None \<Rightarrow> do {
          d \<leftarrow> mem_read 0 4 (m_data (s_msg_header s));
          bs \<leftarrow> those d;
          let data_len = bytes_word bs;
          if data_len > MAX_PACKET_SIZE \<or> data_len < 2 then Some None
          else let (msg, q) = ApplyMessage (ne_mq e)
               in Some (Some (message_Reset msg data_len, e\<lparr>ne_mq := q\<rparr>))
        })"

text \<open>A complete message goes to the logic thread and the header is reset for the next one.\<close>

definition session_finish :: "session \<Rightarrow> net_env \<Rightarrow> message \<Rightarrow> session \<times> net_env" where
  "session_finish s e m =
     (if message_Full m
      then let e1 = e\<lparr>ne_mq := PushMessage (ne_mq e) (m\<lparr>m_param := 0, m_ptr := Some (s_id s)\<rparr>)\<rparr>;
               (now, e2) = read_clock e1
           in (s\<lparr>s_msg_recv := None, s_msg_header := message_Reset (s_msg_header s) 4,
                 s_last_active_t := now\<rparr>, e2)
      else (s\<lparr>s_msg_recv := Some m\<rparr>, e))"

partial_function (option) session_on_recv :: "session \<Rightarrow> net_env \<Rightarrow> mem \<Rightarrow> u32 \<Rightarrow> (session \<times> net_env) option" where
  "session_on_recv s e pdata sz = do {
     (h, pdata1, sz1) \<leftarrow> fill_while (s_msg_header s) pdata sz;
     let s1 = s\<lparr>s_msg_header := h\<rparr>;
     if \<not> message_Full h then Some (s1, e)
     else do {
       r \<leftarrow> session_begin s1 e;
       (case r of
          None \<Rightarrow> Some (session_Disconnect s1, e)
        | Some (m, e1) \<Rightarrow> do {
            (m1, pdata2, sz2) \<leftarrow> fill_while m pdata1 sz1;
            let (s2, e2) = session_finish s1 e1 m1;
            if sz2 \<noteq> 0 then session_on_recv s2 e2 pdata2 sz2 else Some (s2, e2)
          })
     }
   }"

declare session_writer_def [code_defs] session_send.simps [code_defs] session_Send_def [code_defs]
  fill_while.simps [code_defs] session_begin_def [code_defs] session_finish_def [code_defs]
  session_on_recv.simps [code_defs]

end
