(* ===== verification/Framing.thy ===== *)
theory Framing
  imports Session
begin

text \<open>
  The framing protocol of the sessions.  The receiving side is compared with an abstract decoder
  that takes the stream byte by byte; the sending side with the list of bytes it puts on the wire.
\<close>

section \<open>The abstract decoder\<close>

text \<open>
  The decoder either collects a frame (the bytes of the current frame, length field included) or
  has refused an announced length, after which it stays silent.
\<close>

datatype decoder = Pending "byte list" | Rejected

definition frame_len :: "byte list \<Rightarrow> nat" where
  "frame_len acc = bytes_nat (take 4 acc)"

definition len_ok :: "nat \<Rightarrow> bool" where
  "len_ok n \<longleftrightarrow> 2 \<le> n \<and> n \<le> 0x4000"

fun feed :: "decoder \<Rightarrow> byte \<Rightarrow> decoder \<times> byte list list" where
  "feed Rejected b = (Rejected, [])"
| "feed (Pending acc) b =
     (let acc' = acc @ [b]
      in if length acc' < 4 then (Pending acc', [])
         else if \<not> len_ok (frame_len acc') then (Rejected, [])
         else if length acc' = 4 + frame_len acc' then (Pending [], [drop 4 acc'])
         else (Pending acc', []))"

fun feeds :: "decoder \<Rightarrow> byte list \<Rightarrow> decoder \<times> byte list list" where
  "feeds d [] = (d, [])"
| "feeds d (b # bs) = (let (d1, o1) = feed d b; (d2, o2) = feeds d1 bs in (d2, o1 @ o2))"

definition frame :: "byte list \<Rightarrow> byte list" where
  "frame payload = word_bytes (word_of_nat (length payload) :: u32) @ payload"

lemma feeds_append:
  "feeds d (xs @ ys) = (let (d1, o1) = feeds d xs; (d2, o2) = feeds d1 ys in (d2, o1 @ o2))"
  by (induction xs arbitrary: d) (auto simp: Let_def split: prod.splits)

lemma feeds_append_sel:
  "fst (feeds d (xs @ ys)) = fst (feeds (fst (feeds d xs)) ys)"
  "snd (feeds d (xs @ ys)) = snd (feeds d xs) @ snd (feeds (fst (feeds d xs)) ys)"
  by (simp_all add: feeds_append split: prod.splits)

lemma feeds_split:
  "feeds d xs = (d1, o1) \<Longrightarrow> feeds d (xs @ ys) = (fst (feeds d1 ys), o1 @ snd (feeds d1 ys))"
  by (simp add: feeds_append split: prod.splits)

lemma feeds_Rejected [simp]: "feeds Rejected bs = (Rejected, [])"
  by (induction bs) auto

text \<open>A prefix after which the decoder has neither refused nor completed a frame.\<close>

definition quiet :: "byte list \<Rightarrow> bool" where
  "quiet acc \<longleftrightarrow> length acc < 4 \<or> (len_ok (frame_len acc) \<and> length acc \<noteq> 4 + frame_len acc)"

lemma feed_quiet: "quiet (acc @ [b]) \<Longrightarrow> feed (Pending acc) b = (Pending (acc @ [b]), [])"
  by (auto simp: quiet_def Let_def)

lemma feeds_quiet:
  "(\<And>k. 0 < k \<Longrightarrow> k \<le> length bs \<Longrightarrow> quiet (acc @ take k bs)) \<Longrightarrow>
   feeds (Pending acc) bs = (Pending (acc @ bs), [])"
proof (induction bs arbitrary: acc)
  case Nil
  then show ?case by simp
next
  case (Cons b bs)
  have "feed (Pending acc) b = (Pending (acc @ [b]), [])"
    using Cons.prems [of 1] by (intro feed_quiet) simp
  moreover have "feeds (Pending (acc @ [b])) bs = (Pending ((acc @ [b]) @ bs), [])"
  proof (rule Cons.IH)
    fix k assume "0 < k" "k \<le> length bs"
    then show "quiet ((acc @ [b]) @ take k bs)" using Cons.prems [of "Suc k"] by simp
  qed
  ultimately show ?case by simp
qed

lemma feeds_header: "length acc + length bs < 4 \<Longrightarrow> feeds (Pending acc) bs = (Pending (acc @ bs), [])"
  by (rule feeds_quiet) (simp add: quiet_def)

lemma feeds_header_full:
  assumes "length acc < 4" and "length acc + length bs = 4"
  shows "feeds (Pending acc) bs =
    (if len_ok (frame_len (acc @ bs)) then Pending (acc @ bs) else Rejected, [])"
proof -
  obtain bs' b where bs: "bs = bs' @ [b]" using assms by (cases bs rule: rev_cases) auto
  have "feeds (Pending acc) bs' = (Pending (acc @ bs'), [])"
    using assms bs by (intro feeds_header) simp
  moreover have "feed (Pending (acc @ bs')) b =
      (if len_ok (frame_len (acc @ bs)) then Pending (acc @ bs) else Rejected, [])"
    using assms bs by (auto simp: Let_def len_ok_def)
  ultimately show ?thesis by (simp add: bs feeds_append)
qed

lemma frame_len_append: "4 \<le> length acc \<Longrightarrow> frame_len (acc @ bs) = frame_len acc"
  by (simp add: frame_len_def)

lemma feeds_body:
  assumes "4 \<le> length acc" and "len_ok (frame_len acc)"
    and "length acc + length bs < 4 + frame_len acc"
  shows "feeds (Pending acc) bs = (Pending (acc @ bs), [])"
  using assms by (intro feeds_quiet) (auto simp: quiet_def frame_len_append)

lemma feeds_body_full:
  assumes "4 \<le> length acc" and "len_ok (frame_len acc)" and "bs \<noteq> []"
    and "length acc + length bs = 4 + frame_len acc"
  shows "feeds (Pending acc) bs = (Pending [], [drop 4 (acc @ bs)])"
proof -
  obtain bs' b where bs: "bs = bs' @ [b]" using assms(3) by (cases bs rule: rev_cases) auto
  have "feeds (Pending acc) bs' = (Pending (acc @ bs'), [])"
    using assms bs by (intro feeds_body) simp_all
  moreover have "feed (Pending (acc @ bs')) b = (Pending [], [drop 4 (acc @ bs)])"
    using assms bs frame_len_append [of acc bs] by (simp add: Let_def)
  ultimately show ?thesis by (simp add: bs feeds_append)
qed

text \<open>Decoding frames gives the payloads back.\<close>

lemma bytes_nat_word32: "n < 2 ^ 32 \<Longrightarrow> bytes_nat (word_bytes (word_of_nat n :: u32)) = n"
  by (simp add: word_bytes_def bytes_nat_nat_bytes unat_of_nat)

lemma feeds_frame:
  assumes "len_ok (length p)"
  shows "feeds (Pending []) (frame p) = (Pending [], [p])"
proof -
  let ?h = "word_bytes (word_of_nat (length p) :: u32)"
  have n: "frame_len ?h = length p"
    using assms by (simp add: frame_len_def len_ok_def bytes_nat_word32)
  have "feeds (Pending []) ?h = (Pending ?h, [])"
    using feeds_header_full [of "[]" ?h] n assms by simp
  moreover have "feeds (Pending ?h) p = (Pending [], [drop 4 (?h @ p)])"
    using n assms by (intro feeds_body_full) (auto simp: len_ok_def)
  ultimately show ?thesis by (simp add: frame_def feeds_append)
qed

lemma feeds_frames:
  "list_all (len_ok \<circ> length) ps \<Longrightarrow> feeds (Pending []) (concat (map frame ps)) = (Pending [], ps)"
  by (induction ps) (simp_all add: feeds_append feeds_frame)

section \<open>The receiving session implements the decoder\<close>

definition header_ok :: "session \<Rightarrow> bool" where
  "header_ok s \<longleftrightarrow> msg_wf (s_msg_header s) \<and> m_data_len (s_msg_header s) = 4"

text \<open>Which decoder state a session's receive members stand for.\<close>

fun recv_rel :: "session \<Rightarrow> decoder \<Rightarrow> bool" where
  "recv_rel s (Pending acc) \<longleftrightarrow> header_ok s \<and>
     (if length acc < 4
      then s_msg_recv s = None \<and> msg_bytes (s_msg_header s) = map Some acc
      else msg_bytes (s_msg_header s) = map Some (take 4 acc) \<and>
           (\<exists>m. s_msg_recv s = Some m \<and> msg_wf m \<and> msg_bytes m = map Some (drop 4 acc) \<and>
                unat (m_data_len m) = frame_len acc \<and> len_ok (frame_len acc) \<and>
                length acc < 4 + frame_len acc))"
| "recv_rel s Rejected \<longleftrightarrow> header_ok s \<and> s_msg_recv s = None \<and> s_disconnect s \<and>
     (\<exists>hb. msg_bytes (s_msg_header s) = map Some hb \<and> length hb = 4 \<and> \<not> len_ok (frame_len hb))"

declare recv_rel.simps [simp del]

lemma fill_while_spec:
  assumes wf: "msg_wf m" and len: "unat sz \<le> length data"
    and n: "n = min (msg_room m) (unat sz)"
  obtains m' where "fill_while m data sz = Some (m', drop n data, sz - word_of_nat n)"
    and "msg_wf m'" and "msg_bytes m' = msg_bytes m @ take n data"
    and "m_data_len m' = m_data_len m"
    and "m_param m' = m_param m" and "m_ptr m' = m_ptr m"
proof (cases "sz \<noteq> 0 \<and> \<not> message_Full m")
  case False
  then have "n = 0" using wf n by (auto simp: message_Full_iff)
  moreover have "fill_while m data sz = Some (m, data, sz)"
    using False by (subst fill_while.simps) auto
  ultimately show thesis using that [of m] wf by simp
next
  case True
  obtain m' where m': "message_Fill m data sz = Some (m', drop n data, sz - word_of_nat n)"
    "msg_wf m'" "msg_bytes m' = msg_bytes m @ take n data"
    "unat (m_curr_len m') = unat (m_curr_len m) + n"
    "m_data_len m' = m_data_len m" "m_param m' = m_param m" "m_ptr m' = m_ptr m"
    by (rule message_Fill_spec [OF wf len n])
  have "sz - word_of_nat n = 0 \<or> message_Full m'"
  proof (cases "msg_room m \<le> unat sz")
    case True
    then show ?thesis using n m' by (simp add: message_Full_iff msg_room_def)
  next
    case False
    then show ?thesis using n by simp
  qed
  then have "fill_while m' (drop n data) (sz - word_of_nat n) = Some (m', drop n data, sz - word_of_nat n)"
    by (subst fill_while.simps) auto
  then have "fill_while m data sz = Some (m', drop n data, sz - word_of_nat n)"
    using True m'(1) by (subst fill_while.simps) simp
  with m' that show thesis by simp
qed

lemma unat_sub_of_nat: "n \<le> unat (w :: 'a::len word) \<Longrightarrow> unat (w - word_of_nat n) = unat w - n"
proof -
  assume "n \<le> unat w"
  then have "n < 2 ^ LENGTH('a)" using unat_bound [of w] by (rule le_less_trans)
  then have "unat (word_of_nat n :: 'a word) = n" by (simp add: unat_of_nat)
  then show ?thesis using \<open>n \<le> unat w\<close> by (simp add: unat_sub_le word_le_nat_alt)
qed

text \<open>The length field as the code reads it from a complete header.\<close>

lemma len_ok_word:
  assumes "length hb = 4"
  shows "bytes_word hb > MAX_PACKET_SIZE \<or> bytes_word hb < (2 :: u32) \<longleftrightarrow> \<not> len_ok (frame_len hb)"
  using unat_bytes_word32 [OF assms] assms
  by (auto simp: len_ok_def frame_len_def MAX_PACKET_SIZE_def word_less_nat_alt)

lemma session_begin_None:
  assumes "s_msg_recv s = None" and wf: "msg_wf (s_msg_header s)"
    and h: "msg_bytes (s_msg_header s) = map Some hb" "length hb = 4"
  shows "session_begin s e =
    (if len_ok (frame_len hb)
     then Some (Some (message_Reset (fst (ApplyMessage (ne_mq e))) (bytes_word hb),
                      e\<lparr>ne_mq := snd (ApplyMessage (ne_mq e))\<rparr>))
     else Some None)"
proof -
  have c: "unat (m_curr_len (s_msg_header s)) = 4"
    using length_msg_bytes [OF wf] h by simp
  then have "mem_read 0 4 (m_data (s_msg_header s)) = Some (map Some hb)"
    using msg_wf_le [OF wf] h by (simp add: mem_simps msg_bytes_def)
  then show ?thesis
    using assms(1) len_ok_word [OF h(2)] by (auto simp: session_begin_def Let_def split: prod.splits)
qed

text \<open>The messages that arrived in the logic thread's queue between two environments.\<close>

definition delivers :: "nat \<Rightarrow> net_env \<Rightarrow> net_env \<Rightarrow> byte list list \<Rightarrow> bool" where
  "delivers i e e' ps \<longleftrightarrow> pool_wf (ne_mq e') \<and> ne_mq2 e' = ne_mq2 e \<and>
     (\<exists>ms. msg_waiting (ne_mq e') = msg_waiting (ne_mq e) @ ms \<and>
       list_all2 (\<lambda>m p. msg_wf m \<and> msg_bytes m = map Some p \<and> m_ptr m = Some i) ms ps)"

lemma delivers_trans:
  "delivers i e e1 ps \<Longrightarrow> delivers i e1 e2 qs \<Longrightarrow> delivers i e e2 (ps @ qs)"
  unfolding delivers_def by (elim conjE exE) (intro conjI exI, auto intro: list_all2_appendI)

text \<open>The same, whatever became of the pool of send buffers in the meantime.\<close>

definition arrived :: "nat \<Rightarrow> net_env \<Rightarrow> net_env \<Rightarrow> byte list list \<Rightarrow> bool" where
  "arrived i e0 e qs \<longleftrightarrow> delivers i e0 (e\<lparr>ne_mq2 := ne_mq2 e0\<rparr>) qs"

lemma arrived_trans: "arrived i e0 e qs \<Longrightarrow> delivers i e e1 os \<Longrightarrow> arrived i e0 e1 (qs @ os)"
  unfolding arrived_def delivers_def by (elim conjE exE) (intro conjI exI, auto intro: list_all2_appendI)

lemma arrived_cong: "arrived i e0 e qs \<Longrightarrow> ne_mq e1 = ne_mq e \<Longrightarrow> arrived i e0 e1 qs"
  by (simp add: arrived_def delivers_def)

text \<open>Filling the body of a frame and finishing it, as far as the bytes at hand allow.\<close>

lemma body_continues:
  assumes hdr: "header_ok s" "msg_bytes (s_msg_header s) = map Some (take 4 acc)" "4 \<le> length acc"
    and m1: "msg_wf m1" "msg_bytes m1 = map Some (drop 4 (acc @ bs))" "unat (m_data_len m1) = frame_len acc" "\<not> message_Full m1"
    and ok: "len_ok (frame_len acc)" "length acc + length bs < 4 + frame_len acc"
  shows "session_finish s e m1 = (s\<lparr>s_msg_recv := Some m1\<rparr>, e)" and "recv_rel (s\<lparr>s_msg_recv := Some m1\<rparr>) (Pending (acc @ bs))"
    and "feeds (Pending acc) bs = (Pending (acc @ bs), [])"
proof -
  show "session_finish s e m1 = (s\<lparr>s_msg_recv := Some m1\<rparr>, e)" using m1(4) by (simp add: session_finish_def)
  show "recv_rel (s\<lparr>s_msg_recv := Some m1\<rparr>) (Pending (acc @ bs))"
    using hdr m1 ok by (simp add: recv_rel.simps frame_len_append header_ok_def)
  show "feeds (Pending acc) bs = (Pending (acc @ bs), [])" by (rule feeds_body [OF hdr(3) ok])
qed

lemma body_ends:
  assumes hdr: "header_ok s" and m1: "msg_wf m1" "msg_bytes m1 = map Some p" "message_Full m1" and pool: "pool_wf (ne_mq e)"
  obtains s1 e1 where "session_finish s e m1 = (s1, e1)" and "s_id s1 = s_id s" and "recv_rel s1 (Pending [])"
    and "delivers (s_id s) e e1 [p]"
proof -
  let ?m = "m1\<lparr>m_param := 0, m_ptr := Some (s_id s)\<rparr>"
  define s1 where "s1 = fst (session_finish s e m1)"
  define e1 where "e1 = snd (session_finish s e m1)"
  have "msg_wf (message_Reset (s_msg_header s) 4)"
    using hdr by (intro msg_wf_Reset) (auto simp: header_ok_def msg_wf_def)
  then have "recv_rel s1 (Pending [])" "s_id s1 = s_id s"
    using m1(3) by (simp_all add: s1_def session_finish_def read_clock_def header_ok_def Let_def recv_rel.simps)
  moreover have "msg_wf ?m" "msg_bytes ?m = map Some p" using m1(1,2) by (simp_all add: msg_wf_def msg_bytes_def)
  then have "delivers (s_id s) e e1 [p]"
    using m1(3) pool by (simp add: e1_def session_finish_def read_clock_def Let_def delivers_def)
  ultimately show thesis using that [of s1 e1] by (simp add: s1_def e1_def)
qed

lemma recv_body:
  assumes hdr: "header_ok s" "msg_bytes (s_msg_header s) = map Some (take 4 acc)" "4 \<le> length acc"
    and m: "msg_wf m" "msg_bytes m = map Some (drop 4 acc)" "unat (m_data_len m) = frame_len acc"
    and ok: "len_ok (frame_len acc)" "length acc < 4 + frame_len acc"
    and sz: "unat sz = length bs" and pool: "pool_wf (ne_mq e)"
  obtains m1 sz1 rest s1 e1 d1 o1 where
    "fill_while m (map Some bs) sz = Some (m1, map Some rest, sz1)" "unat sz1 = length rest"
    "session_finish s e m1 = (s1, e1)" "s_id s1 = s_id s" "recv_rel s1 d1" "delivers (s_id s) e e1 o1"
    "feeds (Pending acc) bs = (fst (feeds d1 rest), o1 @ snd (feeds d1 rest))"
    "rest = [] \<or> length rest < length bs"
proof -
  have room: "msg_room m = 4 + frame_len acc - length acc"
    using m length_msg_bytes [OF m(1)] hdr(3) by (simp add: msg_room_def)
  define n where "n = min (msg_room m) (unat sz)"
  have "unat sz \<le> length (map Some bs :: mem)" by (simp add: sz)
  note fw = fill_while_spec [OF m(1) this n_def]
  obtain m1 where m1: "fill_while m (map Some bs) sz = Some (m1, drop n (map Some bs), sz - word_of_nat n)"
    "msg_wf m1" "msg_bytes m1 = msg_bytes m @ take n (map Some bs)" "m_data_len m1 = m_data_len m" by (rule fw)
  have b1: "msg_bytes m1 = map Some (drop 4 (acc @ take n bs))" using m1(3) m(2) hdr(3) by (simp add: take_map)
  have full: "message_Full m1 \<longleftrightarrow> 4 + frame_len acc \<le> length acc + length bs"
    using length_msg_bytes [OF m(1)] length_msg_bytes [OF m1(2)] m1(3,4) sz room ok(2)
    by (auto simp: message_Full_iff [OF m1(2)] msg_room_def n_def)
  have sz1: "unat (sz - word_of_nat n) = length (drop n bs)" using sz by (simp add: unat_sub_of_nat n_def)
  have fill: "fill_while m (map Some bs) sz = Some (m1, map Some (drop n bs), sz - word_of_nat n)"
    using m1(1) by (simp add: drop_map)
  show thesis
  proof (cases "length acc + length bs < 4 + frame_len acc")
    case True
    then have n: "n = length bs" using room sz by (simp add: n_def)
    have ml: "unat (m_data_len m1) = frame_len acc" "\<not> message_Full m1" using m1(4) m(3) full True by simp_all
    have "msg_bytes m1 = map Some (drop 4 (acc @ bs))" using b1 n by simp
    note c = body_continues [OF hdr m1(2) this ml ok(1) True]
    have "delivers (s_id s) e e []" using pool by (simp add: delivers_def)
    from that [OF fill sz1 c(1) _ c(2) this] c(3) show thesis using n by simp
  next
    case False
    then have n: "n = 4 + frame_len acc - length acc" using room sz by (simp add: n_def)
    have fl: "message_Full m1" using full False by simp
    note be = body_ends [OF hdr(1) m1(2) b1 fl pool]
    obtain s1 e1 where e: "session_finish s e m1 = (s1, e1)" "s_id s1 = s_id s" "recv_rel s1 (Pending [])"
      "delivers (s_id s) e e1 [drop 4 (acc @ take n bs)]" by (rule be)
    have "feeds (Pending acc) (take n bs) = (Pending [], [drop 4 (acc @ take n bs)])"
      using hdr(3) ok False n by (intro feeds_body_full) auto
    from feeds_split [OF this, of "drop n bs"] have "feeds (Pending acc) bs
        = (fst (feeds (Pending []) (drop n bs)), [drop 4 (acc @ take n bs)] @ snd (feeds (Pending []) (drop n bs)))"
      unfolding append_take_drop_id .
    moreover have "drop n bs = [] \<or> length (drop n bs) < length bs" using n ok(2) by auto
    ultimately show thesis by (rule that [OF fill sz1 e])
  qed
qed

text \<open>A call of \<^verbatim>\<open>_on_recv\<close> from the point where the header has been filled.\<close>

definition recv_tail :: "session \<Rightarrow> net_env \<Rightarrow> mem \<Rightarrow> u32 \<Rightarrow> (session \<times> net_env) option" where
  "recv_tail s e pdata sz = do {
     r \<leftarrow> session_begin s e;
     (case r of
        None \<Rightarrow> Some (session_Disconnect s, e)
      | Some (m, e1) \<Rightarrow> do {
          (m1, pdata2, sz2) \<leftarrow> fill_while m pdata sz;
          let (s2, e2) = session_finish s e1 m1;
          if sz2 \<noteq> 0 then session_on_recv s2 e2 pdata2 sz2 else Some (s2, e2)
        })
   }"

text \<open>A result that agrees with the decoder: its state, and the messages handed to the logic thread.\<close>

definition follows :: "session \<Rightarrow> net_env \<Rightarrow> decoder \<Rightarrow> byte list \<Rightarrow> (session \<times> net_env) option \<Rightarrow> bool" where
  "follows s e d bs r \<longleftrightarrow> (\<exists>s' e'. r = Some (s', e') \<and> s_id s' = s_id s
     \<and> recv_rel s' (fst (feeds d bs)) \<and> delivers (s_id s) e e' (snd (feeds d bs)))"

lemma follows_split:
  assumes "feeds d (take n bs) = (d', [])" and "follows s1 e d' (drop n bs) r" and "s_id s1 = s_id s"
  shows "follows s e d bs r"
proof -
  have "feeds d bs = feeds d' (drop n bs)" using feeds_split [OF assms(1), of "drop n bs"] by simp
  then show ?thesis using assms(2,3) by (simp add: follows_def)
qed

lemma follows_append:
  assumes "follows s e d xs (Some (s1, e1))" and "follows s1 e1 (fst (feeds d xs)) ys r"
  shows "follows s e d (xs @ ys) r"
proof -
  have 1: "s_id s1 = s_id s" "delivers (s_id s) e e1 (snd (feeds d xs))" using assms(1) by (auto simp: follows_def)
  obtain s2 e2 where "r = Some (s2, e2)" "s_id s2 = s_id s1" "recv_rel s2 (fst (feeds (fst (feeds d xs)) ys))"
    "delivers (s_id s1) e1 e2 (snd (feeds (fst (feeds d xs)) ys))" using assms(2) by (auto simp: follows_def)
  then show ?thesis using 1 delivers_trans [OF 1(2)] by (simp add: follows_def feeds_append_sel)
qed

lemma on_recv_head:
  assumes "header_ok s" and "unat sz = length bs"
  obtains h n where "n = min (4 - length (msg_bytes (s_msg_header s))) (length bs)"
    and "header_ok (s\<lparr>s_msg_header := h\<rparr>)" and "msg_bytes h = msg_bytes (s_msg_header s) @ map Some (take n bs)"
    and "unat (sz - word_of_nat n) = length (drop n bs)"
    and "session_on_recv s e (map Some bs) sz = (if length (msg_bytes h) \<noteq> 4 then Some (s\<lparr>s_msg_header := h\<rparr>, e)
      else recv_tail (s\<lparr>s_msg_header := h\<rparr>) e (map Some (drop n bs)) (sz - word_of_nat n))"
proof -
  have hwf: "msg_wf (s_msg_header s)" and hlen: "m_data_len (s_msg_header s) = 4" using assms(1) by (auto simp: header_ok_def)
  have room: "msg_room (s_msg_header s) = 4 - length (msg_bytes (s_msg_header s))"
    using length_msg_bytes [OF hwf] hlen by (simp add: msg_room_def)
  let ?n = "min (msg_room (s_msg_header s)) (unat sz)"
  have "unat sz \<le> length (map Some bs :: mem)" by (simp add: assms(2))
  note fw = fill_while_spec [OF hwf this HOL.refl]
  obtain h where h: "fill_while (s_msg_header s) (map Some bs) sz = Some (h, drop ?n (map Some bs), sz - word_of_nat ?n)"
    "msg_wf h" "msg_bytes h = msg_bytes (s_msg_header s) @ take ?n (map Some bs)"
    "m_data_len h = m_data_len (s_msg_header s)" by (rule fw)
  have full: "message_Full h \<longleftrightarrow> length (msg_bytes h) = 4"
    using length_msg_bytes [OF h(2)] h(4) hlen msg_wf_le [OF h(2)]
    by (auto simp: message_Full_iff [OF h(2)] msg_room_def)
  show ?thesis
  proof (rule that)
    show "?n = min (4 - length (msg_bytes (s_msg_header s))) (length bs)" using room assms(2) by simp
    show "header_ok (s\<lparr>s_msg_header := h\<rparr>)" using h hlen by (simp add: header_ok_def)
    show "msg_bytes h = msg_bytes (s_msg_header s) @ map Some (take ?n bs)" using h(3) by (simp add: take_map)
    show "unat (sz - word_of_nat ?n) = length (drop ?n bs)" using assms(2) by (simp add: unat_sub_of_nat)
    show "session_on_recv s e (map Some bs) sz = (if length (msg_bytes h) \<noteq> 4 then Some (s\<lparr>s_msg_header := h\<rparr>, e)
      else recv_tail (s\<lparr>s_msg_header := h\<rparr>) e (map Some (drop ?n bs)) (sz - word_of_nat ?n))"
      using h(1) full unfolding recv_tail_def by (subst session_on_recv.simps) (unfold Let_def, simp add: drop_map)
  qed
qed

text \<open>The header is complete and holds a refused length.\<close>

lemma tail_refuses:
  assumes "header_ok s" and "msg_bytes (s_msg_header s) = map Some hb" and "length hb = 4" and "\<not> len_ok (frame_len hb)"
    and "s_msg_recv s = None" and "pool_wf (ne_mq e)"
  shows "follows s e Rejected bs (recv_tail s e pdata sz)"
proof -
  have "session_begin s e = Some None" using session_begin_None [of s hb e] assms by (simp add: header_ok_def)
  moreover have "recv_rel (session_Disconnect s) Rejected"
    using assms by (auto simp: session_Disconnect_def recv_rel.simps header_ok_def)
  moreover have "delivers (s_id s) e e []" using assms(6) by (simp add: delivers_def)
  ultimately show ?thesis by (simp add: follows_def recv_tail_def session_Disconnect_def)
qed

text \<open>The header is complete and the frame \<open>acc\<close> with a valid length is being collected.\<close>

lemma tail_collects:
  assumes "header_ok s" and "msg_bytes (s_msg_header s) = map Some (take 4 acc)" and "4 \<le> length acc"
    and beg: "session_begin s e = Some (Some (m, e0))" "delivers (s_id s) e e0 []"
    and m: "msg_wf m" "msg_bytes m = map Some (drop 4 acc)" "unat (m_data_len m) = frame_len acc"
    and acc: "len_ok (frame_len acc)" "length acc < 4 + frame_len acc" and sz: "unat sz = length bs"
    and IH: "\<forall>s2 d2 e2 sz2 rest. length rest < length bs \<longrightarrow> recv_rel s2 d2 \<longrightarrow> pool_wf (ne_mq e2) \<longrightarrow> unat sz2 = length rest \<longrightarrow>
      follows s2 e2 d2 rest (session_on_recv s2 e2 (map Some rest) sz2)"
  shows "follows s e (Pending acc) bs (recv_tail s e (map Some bs) sz)"
proof -
  have pool0: "pool_wf (ne_mq e0)" using beg(2) by (simp add: delivers_def)
  note rb = recv_body [OF assms(1-3) m acc sz pool0]
  obtain m1 sz2 rest2 s2 e2 d2 o2 where r: "fill_while m (map Some bs) sz = Some (m1, map Some rest2, sz2)"
    "unat sz2 = length rest2" "session_finish s e0 m1 = (s2, e2)" "s_id s2 = s_id s" "recv_rel s2 d2"
    "delivers (s_id s) e0 e2 o2" "feeds (Pending acc) bs = (fst (feeds d2 rest2), o2 @ snd (feeds d2 rest2))"
    "rest2 = [] \<or> length rest2 < length bs" by (rule rb)
  have del: "delivers (s_id s) e e2 o2" using delivers_trans [OF beg(2) r(6)] by simp
  have run: "recv_tail s e (map Some bs) sz
      = (if sz2 \<noteq> 0 then session_on_recv s2 e2 (map Some rest2) sz2 else Some (s2, e2))"
    using beg(1) r(1,3) by (simp add: recv_tail_def)
  show ?thesis
  proof (cases "rest2 = []")
    case True
    then have "sz2 = 0" using r(2) by (simp add: unat_eq_zero)
    then show ?thesis using run r(4,5,7) del True by (simp add: follows_def)
  next
    case False
    have "follows s2 e2 d2 rest2 (session_on_recv s2 e2 (map Some rest2) sz2)"
      using False r(2,5,8) del IH by (simp add: delivers_def)
    moreover have "sz2 \<noteq> 0" using False r(2) by auto
    ultimately show ?thesis using run r(4,7) delivers_trans [OF del] by (auto simp: follows_def)
  qed
qed

text \<open>The header of a frame with a valid length has just been completed.\<close>

lemma begin_frame:
  assumes "header_ok s" and "msg_bytes (s_msg_header s) = map Some hb" and "length hb = 4" and "len_ok (frame_len hb)"
    and "s_msg_recv s = None" and "pool_wf (ne_mq e)"
  obtains m e0 where "session_begin s e = Some (Some (m, e0))" and "delivers (s_id s) e e0 []" and "msg_wf m"
    and "msg_bytes m = []" and "unat (m_data_len m) = frame_len hb"
proof
  let ?m = "message_Reset (fst (ApplyMessage (ne_mq e))) (bytes_word hb)"
  let ?e0 = "e\<lparr>ne_mq := snd (ApplyMessage (ne_mq e))\<rparr>"
  have ap: "ApplyMessage (ne_mq e) = (fst (ApplyMessage (ne_mq e)), snd (ApplyMessage (ne_mq e)))" by simp
  have bw: "unat (bytes_word hb :: u32) = frame_len hb"
    using unat_bytes_word32 [OF assms(3)] assms(3) by (simp add: frame_len_def)
  show "session_begin s e = Some (Some (?m, ?e0))"
    using session_begin_None [of s hb e] assms by (simp add: header_ok_def)
  show "delivers (s_id s) e ?e0 []" using ApplyMessage_wf [OF assms(6) ap] by (simp add: delivers_def)
  show "msg_wf ?m" by (rule Apply_Reset_wf [OF assms(6) ap]) (use bw assms(4) in \<open>simp add: len_ok_def\<close>)
  show "msg_bytes ?m = []" "unat (m_data_len ?m) = frame_len hb" using bw by (simp, simp only: message_Reset_sel)
qed

text \<open>The two ways into the body: the header has just been completed, or the message is already there.\<close>

lemma tail_starts:
  assumes "header_ok s" and "msg_bytes (s_msg_header s) = map Some hb" and "length hb = 4" and "s_msg_recv s = None"
    and "pool_wf (ne_mq e)" and "unat sz = length bs"
    and IH: "\<forall>s2 d2 e2 sz2 rest. length rest < length bs \<longrightarrow> recv_rel s2 d2 \<longrightarrow> pool_wf (ne_mq e2) \<longrightarrow> unat sz2 = length rest \<longrightarrow>
      follows s2 e2 d2 rest (session_on_recv s2 e2 (map Some rest) sz2)"
  shows "follows s e (if len_ok (frame_len hb) then Pending hb else Rejected) bs (recv_tail s e (map Some bs) sz)"
proof (cases "len_ok (frame_len hb)")
  case False
  then show ?thesis using tail_refuses [OF assms(1-3) False assms(4,5)] by simp
next
  case True
  have len: "take 4 hb = hb" "drop 4 hb = []" using assms(3) by simp_all
  obtain m e0 where m: "session_begin s e = Some (Some (m, e0))" "delivers (s_id s) e e0 []" "msg_wf m" "msg_bytes m = []"
      "unat (m_data_len m) = frame_len hb" by (rule begin_frame [OF assms(1-3) True assms(4,5)])
  have "length hb < 4 + frame_len hb" using True assms(3) unfolding len_ok_def by linarith
  moreover have "msg_bytes (s_msg_header s) = map Some (take 4 hb)" "4 \<le> length hb" "msg_bytes m = map Some (drop 4 hb)"
    using assms(2,3) len m(4) by simp_all
  ultimately have "follows s e (Pending hb) bs (recv_tail s e (map Some bs) sz)"
    by (intro tail_collects [OF assms(1) _ _ m(1-3) _ m(5) True _ assms(6) IH])
  then show ?thesis using True by simp
qed

lemma tail_continues:
  assumes "recv_rel s (Pending acc)" and "4 \<le> length acc" and "pool_wf (ne_mq e)" and "unat sz = length bs"
    and IH: "\<forall>s2 d2 e2 sz2 rest. length rest < length bs \<longrightarrow> recv_rel s2 d2 \<longrightarrow> pool_wf (ne_mq e2) \<longrightarrow> unat sz2 = length rest \<longrightarrow>
      follows s2 e2 d2 rest (session_on_recv s2 e2 (map Some rest) sz2)"
  shows "follows s e (Pending acc) bs (recv_tail s e (map Some bs) sz)"
proof -
  obtain m where m: "s_msg_recv s = Some m" "msg_wf m" "msg_bytes m = map Some (drop 4 acc)"
    "unat (m_data_len m) = frame_len acc" "len_ok (frame_len acc)" "length acc < 4 + frame_len acc"
    and h: "header_ok s" "msg_bytes (s_msg_header s) = map Some (take 4 acc)"
    using assms(1,2) by (auto simp: recv_rel.simps)
  have "session_begin s e = Some (Some (m, e))" "delivers (s_id s) e e []"
    using m(1) assms(3) by (simp_all add: session_begin_def delivers_def)
  from tail_collects [OF h assms(2) this m(2-6) assms(4) IH] show ?thesis .
qed

text \<open>The three states a call can find: a refused length, a message that is there, a header that is not complete.\<close>

lemma on_recv_rejected:
  assumes "recv_rel s Rejected" and "pool_wf (ne_mq e)" and "unat sz = length bs"
  shows "follows s e Rejected bs (session_on_recv s e (map Some bs) sz)"
proof -
  obtain hb where hb: "header_ok s" "msg_bytes (s_msg_header s) = map Some hb" "length hb = 4" "\<not> len_ok (frame_len hb)" "s_msg_recv s = None"
    using assms(1) by (auto simp: recv_rel.simps)
  obtain h n where n: "n = min (4 - length (msg_bytes (s_msg_header s))) (length bs)"
    and h: "header_ok (s\<lparr>s_msg_header := h\<rparr>)" "msg_bytes h = msg_bytes (s_msg_header s) @ map Some (take n bs)"
    and run: "session_on_recv s e (map Some bs) sz = (if length (msg_bytes h) \<noteq> 4 then Some (s\<lparr>s_msg_header := h\<rparr>, e)
      else recv_tail (s\<lparr>s_msg_header := h\<rparr>) e (map Some (drop n bs)) (sz - word_of_nat n))"
    using on_recv_head [OF hb(1) assms(3)] by metis
  have "n = 0" "msg_bytes h = map Some hb" using n h(2) hb(2,3) by simp_all
  then have "follows (s\<lparr>s_msg_header := h\<rparr>) e Rejected (drop n bs) (session_on_recv s e (map Some bs) sz)"
    using run hb tail_refuses [OF h(1), of hb] assms(2) by simp
  then show ?thesis using follows_split [of Rejected n bs Rejected "s\<lparr>s_msg_header := h\<rparr>"] \<open>n = 0\<close> by simp
qed

lemma on_recv_collecting:
  assumes rel: "recv_rel s (Pending acc)" and "4 \<le> length acc" and "pool_wf (ne_mq e)" and sz: "unat sz = length bs"
    and IH: "\<forall>s2 d2 e2 sz2 rest. length rest < length bs \<longrightarrow> recv_rel s2 d2 \<longrightarrow> pool_wf (ne_mq e2) \<longrightarrow> unat sz2 = length rest \<longrightarrow>
      follows s2 e2 d2 rest (session_on_recv s2 e2 (map Some rest) sz2)"
  shows "follows s e (Pending acc) bs (session_on_recv s e (map Some bs) sz)"
proof -
  have hdr: "header_ok s" using rel by (simp add: recv_rel.simps)
  obtain h n where n: "n = min (4 - length (msg_bytes (s_msg_header s))) (length bs)"
    and h: "header_ok (s\<lparr>s_msg_header := h\<rparr>)" "msg_bytes h = msg_bytes (s_msg_header s) @ map Some (take n bs)"
    and run: "session_on_recv s e (map Some bs) sz = (if length (msg_bytes h) \<noteq> 4 then Some (s\<lparr>s_msg_header := h\<rparr>, e)
      else recv_tail (s\<lparr>s_msg_header := h\<rparr>) e (map Some (drop n bs)) (sz - word_of_nat n))"
    using on_recv_head [OF hdr sz] by metis
  have n0: "n = 0" "msg_bytes h = msg_bytes (s_msg_header s)" "length (msg_bytes h) = 4"
    using n h(2) rel assms(2) by (auto simp: recv_rel.simps)
  then have "recv_rel (s\<lparr>s_msg_header := h\<rparr>) (Pending acc)" using rel h(1) assms(2) by (simp add: recv_rel.simps header_ok_def)
  from tail_continues [OF this assms(2,3) sz IH]
  have "follows (s\<lparr>s_msg_header := h\<rparr>) e (Pending acc) bs (session_on_recv s e (map Some bs) sz)" using run n0 by simp
  then show ?thesis using follows_split [of "Pending acc" 0 bs "Pending acc" "s\<lparr>s_msg_header := h\<rparr>"] by simp
qed

lemma on_recv_short:
  assumes rel: "recv_rel s (Pending acc)" and short: "length acc < 4" and pool: "pool_wf (ne_mq e)" and sz: "unat sz = length bs"
    and IH: "\<forall>s2 d2 e2 sz2 rest. length rest < length bs \<longrightarrow> recv_rel s2 d2 \<longrightarrow> pool_wf (ne_mq e2) \<longrightarrow> unat sz2 = length rest \<longrightarrow>
      follows s2 e2 d2 rest (session_on_recv s2 e2 (map Some rest) sz2)"
  shows "follows s e (Pending acc) bs (session_on_recv s e (map Some bs) sz)"
proof -
  have hb: "header_ok s" "msg_bytes (s_msg_header s) = map Some acc" "s_msg_recv s = None" using rel short by (auto simp: recv_rel.simps)
  obtain h n where n: "n = min (4 - length (msg_bytes (s_msg_header s))) (length bs)"
    and h: "header_ok (s\<lparr>s_msg_header := h\<rparr>)" "msg_bytes h = msg_bytes (s_msg_header s) @ map Some (take n bs)"
    and sz1: "unat (sz - word_of_nat n) = length (drop n bs)"
    and run: "session_on_recv s e (map Some bs) sz = (if length (msg_bytes h) \<noteq> 4 then Some (s\<lparr>s_msg_header := h\<rparr>, e)
      else recv_tail (s\<lparr>s_msg_header := h\<rparr>) e (map Some (drop n bs)) (sz - word_of_nat n))"
    using on_recv_head [OF hb(1) sz] by metis
  let ?s1 = "s\<lparr>s_msg_header := h\<rparr>"
  have hb1: "msg_bytes h = map Some (acc @ take n bs)" using h(2) hb(2) by simp
  show ?thesis
  proof (cases "length acc + length bs < 4")
    case True
    then have "n = length bs" "length (msg_bytes h) \<noteq> 4" using n hb(2) hb1 by simp_all
    moreover have "recv_rel ?s1 (Pending (acc @ bs))" using h(1) hb hb1 n True by (simp add: recv_rel.simps)
    ultimately show ?thesis
      using run pool feeds_header [OF True] by (simp add: follows_def delivers_def)
  next
    case False
    define hd where "hd = acc @ take n bs"
    have l4: "length acc + length (take n bs) = 4" using False short n hb(2) by simp
    then have len: "length hd = 4" by (simp add: hd_def)
    have hb2: "msg_bytes h = map Some hd" using hb1 by (simp add: hd_def)
    then have run1: "session_on_recv s e (map Some bs) sz = recv_tail ?s1 e (map Some (drop n bs)) (sz - word_of_nat n)"
      using run len by simp
    have IH1: "\<forall>s2 d2 e2 sz2 rest. length rest < length (drop n bs) \<longrightarrow> recv_rel s2 d2 \<longrightarrow> pool_wf (ne_mq e2) \<longrightarrow> unat sz2 = length rest \<longrightarrow>
      follows s2 e2 d2 rest (session_on_recv s2 e2 (map Some rest) sz2)" using IH by simp
    from tail_starts [OF h(1) _ len _ pool sz1 IH1]
    have "follows ?s1 e (if len_ok (frame_len hd) then Pending hd else Rejected) (drop n bs) (session_on_recv s e (map Some bs) sz)"
      using run1 hb(3) hb2 by simp
    moreover have "feeds (Pending acc) (take n bs) = (if len_ok (frame_len hd) then Pending hd else Rejected, [])"
      using feeds_header_full [OF short l4] unfolding hd_def by simp
    ultimately show ?thesis using follows_split [of "Pending acc" n bs _ ?s1] by simp
  qed
qed

text \<open>
  One call of \<^verbatim>\<open>_on_recv\<close> does to the session what the decoder does to the bytes, and hands the
  completed messages to the logic thread.
\<close>

lemma on_recv_follows:
  "recv_rel s d \<Longrightarrow> pool_wf (ne_mq e) \<Longrightarrow> unat sz = length bs \<Longrightarrow> follows s e d bs (session_on_recv s e (map Some bs) sz)"
proof (induction "length bs" arbitrary: s d e sz bs rule: less_induct)
  case less
  have IH: "\<forall>s2 d2 e2 sz2 rest. length rest < length bs \<longrightarrow> recv_rel s2 d2 \<longrightarrow> pool_wf (ne_mq e2) \<longrightarrow> unat sz2 = length rest \<longrightarrow>
      follows s2 e2 d2 rest (session_on_recv s2 e2 (map Some rest) sz2)" by (intro allI impI less.hyps) simp_all
  show ?case
  proof (cases d)
    case Rejected
    then show ?thesis using on_recv_rejected less.prems by simp
  next
    case (Pending acc)
    then show ?thesis using on_recv_short on_recv_collecting less.prems IH by (cases "length acc < 4") simp_all
  qed
qed

lemma on_recv_sim:
  assumes "recv_rel s d" and "pool_wf (ne_mq e)" and "unat sz = length bs"
  shows "\<exists>s' e'. session_on_recv s e (map Some bs) sz = Some (s', e') \<and> s_id s' = s_id s
    \<and> recv_rel s' (fst (feeds d bs)) \<and> delivers (s_id s) e e' (snd (feeds d bs))"
  using on_recv_follows [OF assms] by (simp add: follows_def)

end
