(* ===== verification/Sending.thy ===== *)
theory Sending
  imports Framing
begin

text \<open>
  The sending side of a session (\<^verbatim>\<open>_send\<close> and \<^verbatim>\<open>Send\<close> of \<^verbatim>\<open>libcore/src/session.cpp\<close>): which bytes a
  call leaves in the queue of send buffers, and what the receiving side makes of them.
\<close>

section \<open>The bytes in the send queue\<close>

text \<open>Every send buffer holds up to 4096 bytes; the queue spells the bytes that are still to go out.\<close>

definition sendbuf_ok :: "message \<Rightarrow> bool" where
  "sendbuf_ok m \<longleftrightarrow> msg_wf m \<and> m_data_len m = MAX_BUFFER_SIZE"

definition send_wf :: "session \<Rightarrow> net_env \<Rightarrow> bool" where
  "send_wf s e \<longleftrightarrow> list_all sendbuf_ok (s_que_send s) \<and> pool_wf (ne_mq2 e)"

definition wire :: "session \<Rightarrow> mem" where
  "wire s = concat (map msg_bytes (s_que_send s))"

definition filled :: "session \<Rightarrow> bool" where
  "filled s \<longleftrightarrow> (\<forall>m\<in>set (s_que_send s). m_curr_len m \<noteq> 0)"

definition send_room :: "session \<Rightarrow> nat" where
  "send_room s = (if s_que_send s = [] then 0 else msg_room (last (s_que_send s)))"

text \<open>The room of the buffer the next byte goes into: a full buffer is followed by a new one.\<close>

definition free_room :: "nat \<Rightarrow> nat" where
  "free_room r = (if r = 0 then 4096 else r)"

text \<open>
  The bytes that one call of \<^verbatim>\<open>_send\<close> appends, starting with room \<open>r\<close>, and the room it leaves.
  Each buffer takes a prefix of the same data, as the code's inner pointer starts over.
\<close>

function resend :: "nat \<Rightarrow> mem \<Rightarrow> nat \<Rightarrow> mem \<times> nat" where
  "resend r data n =
     (if n = 0 then ([], r)
      else let k = min (free_room r) n; (bs, r') = resend (free_room r - k) data (n - k)
           in (take k data @ bs, r'))"
  by pat_completeness auto
termination
  by (relation "measure (\<lambda>(r, data, n). n)") (auto simp: free_room_def)

declare resend.simps [simp del]

lemma resend_0 [simp]: "resend r data 0 = ([], r)"
  by (simp add: resend.simps)

lemma resend_fits: "n \<le> free_room r \<Longrightarrow> 0 < n \<Longrightarrow> resend r data n = (take n data, free_room r - n)"
  by (subst resend.simps) (simp add: min_def)

lemma resend_straddles:
  assumes "free_room r < n" and "n \<le> free_room r + 4096"
  shows "resend r data n = (take (free_room r) data @ take (n - free_room r) data,
                            4096 - (n - free_room r))"
proof -
  have "resend 0 data (n - free_room r) = (take (n - free_room r) data, 4096 - (n - free_room r))"
    using assms by (subst resend_fits) (auto simp: free_room_def)
  moreover have "0 < n" using assms by simp
  ultimately show ?thesis using assms by (subst resend.simps) (simp add: min_def Let_def)
qed

section \<open>What the code appends\<close>

text \<open>The writer: afterwards the queue ends in a buffer with room.\<close>

lemma session_writer_spec:
  assumes wf: "send_wf s e"
  obtains ms m e1 where "session_writer s e = (s\<lparr>s_que_send := ms @ [m]\<rparr>, e1)"
    and "list_all sendbuf_ok (ms @ [m])" and "pool_wf (ne_mq2 e1)"
    and "concat (map msg_bytes (ms @ [m])) = wire s" and "msg_room m = free_room (send_room s)"
    and "e1 = e\<lparr>ne_mq2 := ne_mq2 e1\<rparr>"
    and "set ms \<subseteq> set (s_que_send s)" and "length ms \<le> length (s_que_send s)"
proof (cases "s_que_send s = [] \<or> message_Full (last (s_que_send s))")
  case True
  obtain m q where ap: "ApplyMessage (ne_mq2 e) = (m, q)" by (rule prod.exhaust)
  let ?m = "message_Reset m MAX_BUFFER_SIZE"
  have pool: "pool_wf (ne_mq2 e)" using wf by (simp add: send_wf_def)
  have room: "send_room s = 0"
    using True wf message_Full_iff [of "last (s_que_send s)"]
    by (auto simp: send_room_def send_wf_def sendbuf_ok_def list_all_iff)
  have "unat MAX_BUFFER_SIZE < 2 ^ 30" by (simp add: MAX_BUFFER_SIZE_def)
  then have "sendbuf_ok ?m" using Apply_Reset_wf [OF pool ap] by (simp add: sendbuf_ok_def)
  moreover have "pool_wf q" using ApplyMessage_wf [OF pool ap] by simp
  moreover have "msg_room ?m = 4096" by (simp add: MAX_BUFFER_SIZE_def)
  ultimately show thesis
    using True ap room wf
    by (intro that [of "s_que_send s" ?m "e\<lparr>ne_mq2 := q\<rparr>"])
      (auto simp: session_writer_def free_room_def send_wf_def wire_def)
next
  case False
  then have last: "s_que_send s = butlast (s_que_send s) @ [last (s_que_send s)]" by simp
  have "msg_room (last (s_que_send s)) \<noteq> 0"
    using False wf message_Full_iff [of "last (s_que_send s)"]
    by (auto simp: send_wf_def sendbuf_ok_def list_all_iff)
  then have "msg_room (last (s_que_send s)) = free_room (send_room s)"
    using False by (simp add: send_room_def free_room_def)
  moreover have "session_writer s e = (s\<lparr>s_que_send := s_que_send s\<rparr>, e)"
    using False by (simp add: session_writer_def)
  ultimately show thesis
    using False wf last
    by (intro that [of "butlast (s_que_send s)" "last (s_que_send s)" e])
      (auto simp: send_wf_def wire_def dest: in_set_butlastD)
qed

text \<open>The effect of \<^verbatim>\<open>_send\<close>: it returns, and only the queue and the pool change.\<close>

definition sends :: "session \<Rightarrow> net_env \<Rightarrow> session \<Rightarrow> net_env \<Rightarrow> mem \<Rightarrow> nat \<Rightarrow> bool" where
  "sends s e s' e' bs r \<longleftrightarrow> send_wf s' e' \<and> (\<exists>q. s' = s\<lparr>s_que_send := q\<rparr>)
     \<and> (\<exists>q. e' = e\<lparr>ne_mq2 := q\<rparr>) \<and> wire s' = wire s @ bs \<and> send_room s' = r
     \<and> (filled s \<longrightarrow> filled s') \<and> length (s_que_send s') \<le> length (s_que_send s) + length bs"

lemma sends_trans:
  assumes "sends s e s1 e1 bs r1" and "sends s1 e1 s2 e2 bs2 r2"
  shows "sends s e s2 e2 (bs @ bs2) r2"
proof -
  obtain q1 q2 where "s1 = s\<lparr>s_que_send := q1\<rparr>" "s2 = s1\<lparr>s_que_send := q2\<rparr>"
    using assms by (auto simp: sends_def)
  then have "s2 = s\<lparr>s_que_send := q2\<rparr>" by simp
  moreover obtain q1 q2 where "e1 = e\<lparr>ne_mq2 := q1\<rparr>" "e2 = e1\<lparr>ne_mq2 := q2\<rparr>"
    using assms by (auto simp: sends_def)
  then have "e2 = e\<lparr>ne_mq2 := q2\<rparr>" by simp
  ultimately show ?thesis using assms unfolding sends_def by auto
qed

lemma session_send_round:
  assumes wf: "send_wf s e" and len: "unat sz \<le> length data" and nz: "sz \<noteq> 0" and k: "k = min (free_room (send_room s)) (unat sz)"
  obtains s1 e1 where "session_send s e data sz = session_send s1 e1 data (sz - word_of_nat k)"
    and "sends s e s1 e1 (take k data) (send_room s1)" and "send_wf s1 e1" and "send_room s1 = free_room (send_room s) - k"
proof -
  note sw = session_writer_spec [OF wf]
  obtain ms m e1 where w: "session_writer s e = (s\<lparr>s_que_send := ms @ [m]\<rparr>, e1)"
    "list_all sendbuf_ok (ms @ [m])" "pool_wf (ne_mq2 e1)"
    "concat (map msg_bytes (ms @ [m])) = wire s" "msg_room m = free_room (send_room s)"
    "e1 = e\<lparr>ne_mq2 := ne_mq2 e1\<rparr>" "set ms \<subseteq> set (s_que_send s)"
    "length ms \<le> length (s_que_send s)" by (rule sw)
  have mwf: "msg_wf m" and ml: "m_data_len m = MAX_BUFFER_SIZE" using w(2) by (auto simp: sendbuf_ok_def)
  have km: "k = min (msg_room m) (unat sz)" using w(5) k by simp
  note fl = message_Fill_spec [OF mwf len km]
  obtain m' where m': "message_Fill m data sz = Some (m', drop k data, sz - word_of_nat k)"
    "msg_wf m'" "msg_bytes m' = msg_bytes m @ take k data"
    "unat (m_curr_len m') = unat (m_curr_len m) + k" "m_data_len m' = m_data_len m" by (rule fl)
  define s1 where "s1 = s\<lparr>s_que_send := ms @ [m']\<rparr>"
  have room1: "send_room s1 = free_room (send_room s) - k"
    using m'(4,5) w(5) by (simp add: s1_def send_room_def msg_room_def)
  have wf1: "send_wf s1 e1" using w(2,3) m' ml by (simp add: s1_def send_wf_def sendbuf_ok_def)
  have "unat sz \<noteq> 0" using nz by (simp add: unat_eq_zero)
  then have k0: "k \<noteq> 0" using k by (simp add: free_room_def)
  have "wire s1 = wire s @ take k data" using w(4) m'(3) by (simp add: s1_def wire_def)
  moreover have "m_curr_len m' \<noteq> 0" using m'(4) k0 by (metis add_is_0 unsigned_0)
  then have "filled s \<longrightarrow> filled s1" using w(7) by (auto simp: filled_def s1_def)
  moreover have "length (s_que_send s1) \<le> length (s_que_send s) + length (take k data)"
  proof -
    have "length (take k data) = k" using len k by simp
    then show ?thesis using w(8) k0 by (simp add: s1_def)
  qed
  ultimately have "sends s e s1 e1 (take k data) (send_room s1)"
    using wf1 w(6) unfolding sends_def s1_def by blast
  moreover have "session_send s e data sz = session_send s1 e1 data (sz - word_of_nat k)"
    using nz w(1) m'(1) by (subst session_send.simps) (simp add: s1_def)
  ultimately show ?thesis using wf1 room1 that by blast
qed

lemma session_send_spec:
  assumes "send_wf s e" and "unat sz \<le> length data"
  shows "\<exists>s' e'. session_send s e data sz = Some (s', e')
    \<and> sends s e s' e' (fst (resend (send_room s) data (unat sz))) (snd (resend (send_room s) data (unat sz)))"
  using assms
proof (induction "unat sz" arbitrary: s e sz rule: less_induct)
  case less
  show ?case
  proof (cases "sz = 0")
    case True
    have "sends s e s e [] (send_room s)"
      using less.prems(1) exI [of "\<lambda>q. s = s\<lparr>s_que_send := q\<rparr>" "s_que_send s"]
        exI [of "\<lambda>q. e = e\<lparr>ne_mq2 := q\<rparr>" "ne_mq2 e"] by (simp add: sends_def)
    then show ?thesis using True by (subst session_send.simps) simp
  next
    case False
    define k where "k = min (free_room (send_room s)) (unat sz)"
    note rd = session_send_round [OF less.prems False k_def]
    obtain s1 e1 where 1: "session_send s e data sz = session_send s1 e1 data (sz - word_of_nat k)"
      "sends s e s1 e1 (take k data) (send_room s1)" "send_wf s1 e1" "send_room s1 = free_room (send_room s) - k" by (rule rd)
    define sz1 where "sz1 = sz - word_of_nat k"
    have n0: "unat sz \<noteq> 0" using False by (simp add: unat_eq_zero)
    have n1: "unat sz1 = unat sz - k" by (simp add: sz1_def k_def unat_sub_of_nat)
    have lt: "unat sz1 < unat sz" unfolding n1 k_def using n0 by (simp add: free_room_def)
    have "unat sz1 \<le> length data" unfolding n1 using less.prems(2) by simp
    then obtain s' e' where r: "session_send s1 e1 data sz1 = Some (s', e')"
      "sends s1 e1 s' e' (fst (resend (send_room s1) data (unat sz1))) (snd (resend (send_room s1) data (unat sz1)))"
      using less.hyps [OF lt 1(3)] by blast
    have "resend (send_room s) data (unat sz) =
        (take k data @ fst (resend (send_room s1) data (unat sz1)), snd (resend (send_room s1) data (unat sz1)))"
      unfolding 1(4) n1 using n0 by (subst resend.simps) (simp add: k_def Let_def split: prod.split)
    then show ?thesis using sends_trans [OF 1(2) r(2)] 1(1) r(1) by (simp add: sz1_def)
  qed
qed

section \<open>Sending one message\<close>

text \<open>The length field and the payload, as two consecutive calls put them into the buffers.\<close>

definition sent :: "nat \<Rightarrow> mem \<Rightarrow> nat \<Rightarrow> mem \<times> nat" where
  "sent r data n =
     (let (hs, r1) = resend r (map Some (word_bytes (word_of_nat n :: u32))) 4; (bs, r2) = resend r1 data n
      in (hs @ bs, r2))"

lemma session_Send_sends:
  assumes "session_Active s" and wf: "send_wf s e" and len: "unat sz \<le> length data"
  shows "\<exists>s' e'. session_Send s e data sz = Some (s', e')
    \<and> sends s e s' e' (fst (sent (send_room s) data (unat sz))) (snd (sent (send_room s) data (unat sz)))"
proof -
  let ?h = "map Some (word_bytes sz)"
  obtain s1 e1 where 1: "session_send s e ?h 4 = Some (s1, e1)"
    "sends s e s1 e1 (fst (resend (send_room s) ?h 4)) (snd (resend (send_room s) ?h 4))"
    using session_send_spec [OF wf, of 4 ?h] by auto
  have wf1: "send_wf s1 e1" and r1: "send_room s1 = snd (resend (send_room s) ?h 4)"
    using 1(2) by (simp_all add: sends_def)
  obtain s2 e2 where 2: "session_send s1 e1 data sz = Some (s2, e2)"
    "sends s1 e1 s2 e2 (fst (resend (send_room s1) data (unat sz))) (snd (resend (send_room s1) data (unat sz)))"
    using session_send_spec [OF wf1 len] by auto
  have "session_Send s e data sz = Some (s2, e2)"
    using assms(1) 1(1) 2(1) by (simp add: session_Send_def)
  then show ?thesis
    using sends_trans [OF 1(2) 2(2)] by (auto simp: sent_def r1 split: prod.split)
qed

lemma free_room_le: "send_wf s e \<Longrightarrow> free_room (send_room s) \<le> 4096"
  by (auto simp: free_room_def send_room_def msg_room_def send_wf_def sendbuf_ok_def list_all_iff
      MAX_BUFFER_SIZE_def)

text \<open>The length field goes out whole when there is room for it and for more.\<close>

lemma sent_header:
  assumes "4 < free_room r"
  shows "sent r data n =
    (map Some (word_bytes (word_of_nat n :: u32)) @ fst (resend (free_room r - 4) data n),
     snd (resend (free_room r - 4) data n))"
  using assms by (simp add: sent_def resend_fits split: prod.split)

lemma sent_fits:
  assumes "4 + n \<le> free_room r" and "0 < n" and "n = length p"
  shows "sent r (map Some p) n = (map Some (frame p), free_room r - 4 - n)"
proof -
  have gt: "4 < free_room r" using assms(1,2) by linarith
  then have "free_room (free_room r - 4) = free_room r - 4" by (simp add: free_room_def [of "_ - 4"])
  then show ?thesis using assms by (simp add: sent_header [OF gt] resend_fits frame_def)
qed

lemma sent_straddles:
  assumes "free_room r = 4 + k" and "0 < k" and "k < n" and "n \<le> k + 4096"
  shows "sent r (map Some p) n =
    (map Some (word_bytes (word_of_nat n :: u32) @ take k p @ take (n - k) p), 4096 - (n - k))"
proof -
  have "free_room k = k" using assms(2) by (simp add: free_room_def)
  then show ?thesis using assms by (simp add: sent_header resend_straddles take_map)
qed

lemma Send_appends_frame:
  assumes "session_Active s" and "send_wf s e" and "p \<noteq> []" and "4 + length p \<le> free_room (send_room s)"
  shows "\<exists>s' e'. session_Send s e (map Some p) (word_of_nat (length p)) = Some (s', e')
    \<and> sends s e s' e' (map Some (frame p)) (free_room (send_room s) - 4 - length p)"
proof -
  have n: "unat (word_of_nat (length p) :: u32) = length p"
    using assms(4) free_room_le [OF assms(2)] by (simp add: unat_of_nat)
  show ?thesis
    using session_Send_sends [OF assms(1,2), of "word_of_nat (length p)" "map Some p"] n
      sent_fits [OF assms(4) _ refl] assms(3) by simp
qed

end
