(* ===== verification/Sockets.thy ===== *)
theory Sockets
  imports Session
begin

text \<open>
  The system calls under the network layer, as \<^verbatim>\<open>libcore/src/netbase.cpp\<close> and the Linux half of
  \<^verbatim>\<open>libcore/src/poller.cpp\<close> use them.  The kernel is not modelled: the calls a function makes are
  logged in order, and what the kernel answers is an input (a list of replies for the calls that a
  loop repeats, a numbered reading for \<^verbatim>\<open>epoll_ctl\<close>).  Numbers are those of the Linux headers.
\<close>

definition EINTR :: u32 where "EINTR = 4"
definition ENOENT :: u32 where "ENOENT = 2"
definition EAGAIN :: u32 where "EAGAIN = 11"
definition EINPROGRESS :: u32 where "EINPROGRESS = 115"
definition ECONNABORTED :: u32 where "ECONNABORTED = 103"

definition EPOLLIN :: u32 where "EPOLLIN = 0x1"
definition EPOLLOUT :: u32 where "EPOLLOUT = 0x4"
definition EPOLLERR :: u32 where "EPOLLERR = 0x8"
definition EPOLLHUP :: u32 where "EPOLLHUP = 0x10"
definition EPOLLRDHUP :: u32 where "EPOLLRDHUP = 0x2000"
definition EPOLLONESHOT :: u32 where "EPOLLONESHOT = 0x40000000"
definition EPOLLET :: u32 where "EPOLLET = 0x80000000"

definition has_flag :: "u32 \<Rightarrow> u32 \<Rightarrow> bool" where
  "has_flag e f \<longleftrightarrow> and e f \<noteq> 0"

named_theorems sys_consts
declare EINTR_def [sys_consts] ENOENT_def [sys_consts] EAGAIN_def [sys_consts]
  EINPROGRESS_def [sys_consts] ECONNABORTED_def [sys_consts] EPOLLIN_def [sys_consts]
  EPOLLOUT_def [sys_consts] EPOLLERR_def [sys_consts] EPOLLHUP_def [sys_consts]
  EPOLLRDHUP_def [sys_consts] EPOLLONESHOT_def [sys_consts] EPOLLET_def [sys_consts]

section \<open>The log of system calls\<close>

datatype epoll_op = CtlAdd | CtlMod | CtlDel

datatype sys_call =
    SysClose int
  | SysShutdown int
  | SysSend int "byte list"
  | SysSetsockopt int string int
  | SysBind int u16
  | SysListen int int
  | SysEpollCtl epoll_op int u32 "completion_key option"

text \<open>\<open>sy_ctl n\<close> is the errno of the n-th \<^verbatim>\<open>epoll_ctl\<close>, 0 when it succeeds.\<close>

record sys =
  sy_log :: "sys_call list"
  sy_ctl :: "nat \<Rightarrow> u32"
  sy_ctls :: nat

definition sys_do :: "sys_call \<Rightarrow> sys \<Rightarrow> sys" where
  "sys_do c y = y\<lparr>sy_log := sy_log y @ [c]\<rparr>"

definition epoll_ctl :: "epoll_op \<Rightarrow> int \<Rightarrow> u32 \<Rightarrow> completion_key option \<Rightarrow> sys \<Rightarrow> u32 \<times> sys" where
  "epoll_ctl op fd events key y =
     (sy_ctl y (sy_ctls y), (sys_do (SysEpollCtl op fd events key) y)\<lparr>sy_ctls := Suc (sy_ctls y)\<rparr>)"

text \<open>The bytes the kernel took from one socket.\<close>

fun taken :: "sys_call list \<Rightarrow> byte list" where
  "taken [] = []"
| "taken (SysSend fd bs # cs) = bs @ taken cs"
| "taken (c # cs) = taken cs"

lemma taken_append [simp]: "taken (cs @ ds) = taken cs @ taken ds"
  by (induction cs rule: taken.induct) simp_all

lemma sys_do_sel [simp]:
  "sy_log (sys_do c y) = sy_log y @ [c]" "sy_ctl (sys_do c y) = sy_ctl y" "sy_ctls (sys_do c y) = sy_ctls y"
  by (simp_all add: sys_do_def)

section \<open>netbase.cpp\<close>

text \<open>The socket is a reference argument: the result carries its new value.\<close>

definition g_net_close_socket :: "int \<Rightarrow> sys \<Rightarrow> int \<times> sys" where
  "g_net_close_socket sock y = (if sock \<noteq> - 1 then (- 1, sys_do (SysClose sock) y) else (sock, y))"

lemma g_net_close_socket_fst [simp]: "fst (g_net_close_socket sock y) = - 1"
  by (simp add: g_net_close_socket_def)

lemma close_socket_result: "g_net_close_socket sock y = (sock', y') \<Longrightarrow> sock' = - 1"
  by (auto simp: g_net_close_socket_def split: if_splits)

section \<open>Poller\<close>

record poller =
  po_epoll_fd :: int
  po_joinable :: bool
  po_running :: bool

text \<open>
  The source leaves \<^verbatim>\<open>_running\<close> uninitialised until the thread writes \<^verbatim>\<open>true\<close>; nothing reads it before.
\<close>

definition poller_new :: poller where
  "poller_new = \<lparr>po_epoll_fd = - 1, po_joinable = False, po_running = False\<rparr>"

text \<open>\<open>fd\<close> is what \<^verbatim>\<open>epoll_create1\<close> returned.\<close>

definition Poller_Init :: "poller \<Rightarrow> int \<Rightarrow> bool \<times> poller" where
  "Poller_Init p fd =
     (if fd = - 1 then (False, p\<lparr>po_epoll_fd := fd\<rparr>)
      else (True, p\<lparr>po_epoll_fd := fd, po_joinable := True\<rparr>))"

definition Poller_Release :: "poller \<Rightarrow> sys \<Rightarrow> poller \<times> sys" where
  "Poller_Release p y =
     (let p1 = p\<lparr>po_running := False\<rparr>;
          (p2, y2) = (if po_epoll_fd p1 \<noteq> - 1
                      then (p1\<lparr>po_epoll_fd := - 1\<rparr>, sys_do (SysClose (po_epoll_fd p1)) y)
                      else (p1, y));
          p3 = (if po_joinable p2 then p2\<lparr>po_joinable := False\<rparr> else p2)
      in (p3, y2))"

text \<open>The key keeps its callback and is marked as waiting; the result is whether epoll took it.\<close>

definition RegisterHandler :: "int \<Rightarrow> completion_key \<Rightarrow> u32 \<Rightarrow> sys \<Rightarrow> bool \<times> completion_key \<times> sys" where
  "RegisterHandler fd key events y =
     (let key1 = key\<lparr>ck_status := IO_STATUS_PENDING\<rparr>;
          evs = or events EPOLLET;
          (err, y1) = epoll_ctl CtlMod fd evs (Some key1) y;
          (err2, y2) = (if err = ENOENT then epoll_ctl CtlAdd fd evs (Some key1) y1 else (err, y1))
      in (err2 = 0, key1, y2))"

definition UnregisterHandler :: "int \<Rightarrow> sys \<Rightarrow> sys" where
  "UnregisterHandler fd y = snd (epoll_ctl CtlDel fd 0 None y)"

text \<open>
  The poller thread.  A round finds \<^verbatim>\<open>_running\<close> as the other threads left it and then waits: the
  kernel reports events or an error.  The result lists the callbacks that were made, each with the
  object and function of its key.  \<open>None\<close>: the list of rounds ended and the thread is still running.
\<close>

datatype wait_reply = WaitEvents "(completion_key \<times> u32) list" | WaitError u32

type_synonym poll_call = "nat \<times> io_callback \<times> u32"

definition dispatch :: "(completion_key \<times> u32) list \<Rightarrow> poll_call list" where
  "dispatch evs = map (\<lambda>(key, ev). (ck_obj key, ck_func key, ev)) (take 128 evs)"

fun poller_loop :: "(bool \<times> wait_reply) list \<Rightarrow> poll_call list option" where
  "poller_loop [] = None"
| "poller_loop ((running, reply) # rs) =
     (if \<not> running then Some []
      else (case reply of
              WaitError err \<Rightarrow> if err = EINTR then poller_loop rs else Some []
            | WaitEvents evs \<Rightarrow> map_option ((@) (dispatch evs)) (poller_loop rs)))"

declare g_net_close_socket_def [code_defs] epoll_ctl_def [code_defs] sys_do_def [code_defs]
  RegisterHandler_def [code_defs] UnregisterHandler_def [code_defs] Poller_Init_def [code_defs]
  Poller_Release_def [code_defs] poller_new_def [code_defs] dispatch_def [code_defs] has_flag_def [code_defs]

text \<open>Registering leaves the key pending, and only adds calls to the log.\<close>

lemma RegisterHandler_key: "fst (snd (RegisterHandler fd key events y)) = key\<lparr>ck_status := IO_STATUS_PENDING\<rparr>"
  by (simp add: RegisterHandler_def Let_def split: prod.split)

lemma taken_Register [simp]: "taken (sy_log (snd (snd (RegisterHandler fd key events y)))) = taken (sy_log y)"
  by (auto simp: RegisterHandler_def epoll_ctl_def Let_def)

lemma taken_Unregister [simp]: "taken (sy_log (UnregisterHandler fd y)) = taken (sy_log y)"
  by (simp add: UnregisterHandler_def epoll_ctl_def)

lemma taken_close [simp]: "taken (sy_log (snd (g_net_close_socket fd y))) = taken (sy_log y)"
  by (simp add: g_net_close_socket_def)

end
