(* ===== verification/SessionLinux.thy ===== *)
theory SessionLinux
  imports Sockets
begin

text \<open>
  The Linux half of a session: \<^verbatim>\<open>libcore/src/session_linux.cpp\<close>.  \<^verbatim>\<open>Update\<close> is called by the logic
  thread over and over; the poller thread calls \<^verbatim>\<open>__session_cb__\<close>.  The answers of the kernel are
  inputs: what \<^verbatim>\<open>try_lock\<close>, \<^verbatim>\<open>getsockopt\<close>, \<^verbatim>\<open>recv\<close> and \<^verbatim>\<open>send\<close> return in the order of the calls.
  A function that used up its list of answers without returning is \<open>None\<close>, as is a read outside a
  buffer.  The virtual hooks are those of the base class, which only write to the log file.
\<close>

section \<open>Construction, attachment, destruction\<close>

definition session_new :: "nat \<Rightarrow> net_env \<Rightarrow> session \<times> net_env" where
  "session_new i e =
     (let (now, e1) = read_clock e
      in (\<lparr>s_id = i, s_socket = - 1, s_status = SS_NONE, s_key = None, s_msg_header = message_new 4,
           s_msg_recv = None, s_que_send = [], s_msg_send = None, s_send_len = 0,
           s_send_error = 0, s_recv_error = 0, s_othe_error = 0, s_rd_ready = True, s_wr_ready = True,
           s_events = 0, s_disconnect = False, s_send_over = False, s_recv_over = False,
           s_in_epoll = False, s_last_active_t = now\<rparr>, e1))"

definition session_callback :: "session \<Rightarrow> u32 \<Rightarrow> session" where
  "session_callback s events = s\<lparr>s_events := events, s_in_epoll := False\<rparr>"

definition session_Attach :: "session \<Rightarrow> int \<Rightarrow> completion_key option \<Rightarrow> sys \<Rightarrow> session \<times> sys" where
  "session_Attach s sock key y =
     (let s1 = s\<lparr>s_socket := sock, s_msg_header := message_Reset (s_msg_header s) 4\<rparr>;
          y1 = sys_do (SysSetsockopt sock ''SO_LINGER'' 1) y;
          y2 = sys_do (SysSetsockopt sock ''SO_KEEPALIVE'' 1) y1;
          y3 = sys_do (SysSetsockopt sock ''TCP_KEEPIDLE'' 30) y2;
          y4 = sys_do (SysSetsockopt sock ''TCP_KEEPINTVL'' 10) y3;
          y5 = sys_do (SysSetsockopt sock ''TCP_KEEPCNT'' 3) y4;
          k = (case key of
                 Some k \<Rightarrow> k\<lparr>ck_obj := s_id s, ck_func := SessionCb\<rparr>
               | None \<Rightarrow> \<lparr>ck_obj = s_id s, ck_func = SessionCb, ck_status = IO_STATUS_COMPLETED\<rparr>)
      in (session_set_socket_status (s1\<lparr>s_key := Some k\<rparr>) SS_RUNNING, y5))"

text \<open>
  The destructor: the message being sent goes back to the pool and the socket is closed; the
  messages still in the send queue are not given back.
\<close>

definition session_destroy :: "session \<Rightarrow> net_env \<Rightarrow> sys \<Rightarrow> session \<times> net_env \<times> sys" where
  "session_destroy s e y =
     (let s1 = s\<lparr>s_msg_recv := None\<rparr>;
          (s2, e2) = (case s_msg_send s1 of
                        Some m \<Rightarrow> (s1\<lparr>s_msg_send := None\<rparr>, e\<lparr>ne_mq2 := FreeMessage (ne_mq2 e) m\<rparr>)
                      | None \<Rightarrow> (s1, e));
          s3 = s2\<lparr>s_key := None\<rparr>;
          (sock, y3) = g_net_close_socket (s_socket s3) y
      in (s3\<lparr>s_socket := sock\<rparr>, e2, y3))"

section \<open>Sending\<close>

datatype send_reply = SendOk nat | SendErr u32

text \<open>The kernel takes at most what it is offered.\<close>

definition send_ret :: "nat \<Rightarrow> nat \<Rightarrow> nat" where
  "send_ret len k = min k len"

text \<open>
  The head of the loop: the message to send.  \<open>Inl\<close>: the function returns with this state.
\<close>

definition post_send_pick :: "session \<Rightarrow> session + session \<times> message" where
  "post_send_pick s =
     (case s_msg_send s of
        Some m \<Rightarrow> Inr (s, m)
      | None \<Rightarrow>
          (case s_que_send s of
             [] \<Rightarrow> Inl s
           | m # ms \<Rightarrow>
               if message_DataLength m = 0 then Inl (s\<lparr>s_msg_send := None, s_send_len := 0\<rparr>)
               else Inr (s\<lparr>s_msg_send := Some m, s_send_len := 0, s_que_send := ms\<rparr>, m)))"

text \<open>What is left of the message, read from its buffer.\<close>

definition post_send_data :: "session \<Rightarrow> message \<Rightarrow> byte list option" where
  "post_send_data s m =
     do { d \<leftarrow> mem_read (unat (s_send_len s))
                (unat (ucast (message_DataLength m) - s_send_len s :: u64)) (m_data m);
          those d }"

fun post_send_loop :: "send_reply list \<Rightarrow> session \<Rightarrow> net_env \<Rightarrow> sys \<Rightarrow> (session \<times> net_env \<times> sys) option" where
  "post_send_loop rs s e y =
     (case post_send_pick s of
        Inl s' \<Rightarrow> Some (s', e, y)
      | Inr (s1, m) \<Rightarrow> do {
          bs \<leftarrow> post_send_data s1 m;
          (case rs of
             [] \<Rightarrow> None
           | SendErr err # rs' \<Rightarrow>
               if err = EAGAIN then Some (s1\<lparr>s_wr_ready := False\<rparr>, e, y)
               else if err = EINTR then post_send_loop rs' s1 e y
               else Some (session_set_socket_status (session_on_send_error s1 err) SS_ERROR, e, y)
           | SendOk k # rs' \<Rightarrow>
               let ret = send_ret (length bs) k; y1 = sys_do (SysSend (s_socket s1) (take ret bs)) y
               in if ret = length bs
                  then post_send_loop rs' (s1\<lparr>s_msg_send := None, s_send_len := 0\<rparr>)
                         (e\<lparr>ne_mq2 := FreeMessage (ne_mq2 e) m\<rparr>) y1
                  else Some (s1\<lparr>s_send_len := s_send_len s1 + word_of_nat ret\<rparr>, e, y1))
        })"

declare post_send_loop.simps [simp del]

definition post_send :: "send_reply list \<Rightarrow> session \<Rightarrow> net_env \<Rightarrow> sys \<Rightarrow> (session \<times> net_env \<times> sys) option" where
  "post_send rs s e y =
     (if s_msg_send s = None \<and> s_que_send s = []
      then if s_disconnect s \<and> \<not> s_send_over s
           then Some (s\<lparr>s_send_over := True\<rparr>, e, sys_do (SysShutdown (s_socket s)) y)
           else Some (s, e, y)
      else if s_send_over s \<or> s_status s \<noteq> SS_RUNNING \<or> \<not> s_wr_ready s then Some (s, e, y)
      else post_send_loop rs s e y)"

section \<open>Receiving\<close>

text \<open>\<open>RecvBytes []\<close> is the return value 0, the end of the stream; the last one is below \<open>-1\<close>.\<close>

datatype recv_reply = RecvBytes "byte list" | RecvErr u32 | RecvOther u32

fun post_recv_loop :: "recv_reply list \<Rightarrow> session \<Rightarrow> net_env \<Rightarrow> (session \<times> net_env) option" where
  "post_recv_loop [] s e = None"
| "post_recv_loop (RecvBytes bs # rs) s e =
     (let data = take (unat MAX_BUFFER_SIZE) bs; ret = length data
      in if ret > 0
         then do {
           (s1, e1) \<leftarrow> session_on_recv s e (map Some data) (word_of_nat ret);
           if ret = unat MAX_BUFFER_SIZE then post_recv_loop rs s1 e1 else Some (s1, e1)
         }
         else Some (session_Disconnect (s\<lparr>s_recv_over := True\<rparr>), e))"
| "post_recv_loop (RecvErr err # rs) s e =
     (if err = EAGAIN then Some (s\<lparr>s_rd_ready := False\<rparr>, e)
      else if err = EINTR then post_recv_loop rs s e
      else Some (session_set_socket_status (session_on_recv_error s err) SS_ERROR, e))"
| "post_recv_loop (RecvOther err # rs) s e = Some (session_on_recv_error s err, e)"

definition post_recv :: "recv_reply list \<Rightarrow> session \<Rightarrow> net_env \<Rightarrow> (session \<times> net_env) option" where
  "post_recv rs s e =
     (if s_recv_over s \<or> s_status s \<noteq> SS_RUNNING \<or> \<not> s_rd_ready s then Some (s, e)
      else post_recv_loop rs s e)"

section \<open>Update\<close>

text \<open>The answers of one call: the lock, the pending socket error, \<^verbatim>\<open>recv\<close> and \<^verbatim>\<open>send\<close>.\<close>

record update_io =
  io_lock :: bool
  io_so_error :: u32
  io_recvs :: "recv_reply list"
  io_sends :: "send_reply list"

text \<open>The reported events: the flags they set, and whether the session is to be closed.\<close>

definition update_events :: "session \<Rightarrow> u32 \<Rightarrow> session \<times> bool" where
  "update_events s so_error =
     (if s_events s \<noteq> 0
      then let ev = s_events s;
               (s1, c1) = (if has_flag ev EPOLLERR then (s\<lparr>s_othe_error := so_error\<rparr>, True) else (s, False));
               (s2, c2) = (if has_flag ev EPOLLHUP then (s1\<lparr>s_rd_ready := True\<rparr>, True) else (s1, c1));
               c3 = (if has_flag ev EPOLLRDHUP then True else c2);
               s4 = (if has_flag ev EPOLLIN then s2\<lparr>s_rd_ready := True\<rparr> else s2);
               s5 = (if has_flag ev EPOLLOUT then s4\<lparr>s_wr_ready := True\<rparr> else s4)
           in (s5\<lparr>s_events := 0\<rparr>, c3)
      else (s, False))"

definition update_status :: "session \<Rightarrow> net_env \<Rightarrow> sys \<Rightarrow> session \<times> net_env \<times> sys" where
  "update_status s e y =
     (case s_status s of
        SS_RUNNING \<Rightarrow>
          let s1 = (if s_send_over s \<and> s_recv_over s then session_set_socket_status s SS_PRECLOSED else s);
              (now, e1) = read_clock e
          in if now - s_last_active_t s1 > 60
             then let (now2, e2) = read_clock e1
                  in ((session_Disconnect s1)\<lparr>s_last_active_t := now2\<rparr>, e2, y)
             else (s1, e1, y)
      | SS_ERROR \<Rightarrow> (session_set_socket_status s SS_PRECLOSED, e, y)
      | SS_PRECLOSED \<Rightarrow>
          let (sock, y1) = g_net_close_socket (s_socket s) y;
              y2 = UnregisterHandler sock y1
          in (session_set_socket_status (s\<lparr>s_socket := sock\<rparr>) SS_CLOSED, e, y2)
      | _ \<Rightarrow> (s, e, y))"

text \<open>The key is always present once a session is attached; without it nothing can be registered.\<close>

definition update_register :: "session \<Rightarrow> sys \<Rightarrow> (session \<times> sys) option" where
  "update_register s y =
     (if \<not> s_in_epoll s \<and> s_status s = SS_RUNNING
      then do {
        k \<leftarrow> s_key s;
        let (ok, k1, y1) = RegisterHandler (s_socket s) k
              (or (or (or EPOLLRDHUP EPOLLONESHOT) EPOLLIN) EPOLLOUT) y;
        Some (s\<lparr>s_key := Some k1, s_in_epoll := True\<rparr>, y1)
      }
      else Some (s, y))"

definition session_Update :: "update_io \<Rightarrow> session \<Rightarrow> net_env \<Rightarrow> sys \<Rightarrow> (session \<times> net_env \<times> sys) option" where
  "session_Update io s e y =
     (if \<not> io_lock io then Some (s, e, y)
      else do {
        let (s1, should_close) = update_events s (io_so_error io);
        (s2, e2) \<leftarrow> post_recv (io_recvs io) s1 e;
        (s3, e3, y3) \<leftarrow> post_send (io_sends io) s2 e2 y;
        let s4 = (if should_close then session_set_socket_status s3 SS_ERROR else s3);
        let (s5, e5, y5) = update_status s4 e3 y3;
        (s6, y6) \<leftarrow> update_register s5 y5;
        Some (s6, e5, y6)
      })"

declare session_new_def [code_defs] session_callback_def [code_defs] session_Attach_def [code_defs]
  session_destroy_def [code_defs] post_send_def [code_defs] post_recv_def [code_defs]
  update_events_def [code_defs] update_status_def [code_defs] update_register_def [code_defs]
  session_Update_def [code_defs]

section \<open>A new session\<close>

text \<open>The session the witnesses start from: created and attached to descriptor 7, with empty queues.\<close>

definition first_env :: net_env where
  "first_env = \<lparr>ne_mq = mqueue_new, ne_mq2 = mqueue_new, ne_clock = (\<lambda>n. word_of_nat n), ne_reads = 0\<rparr>"

definition first_sys :: sys where
  "first_sys = \<lparr>sy_log = [], sy_ctl = (\<lambda>n. 0), sy_ctls = 0\<rparr>"

definition first_session :: session where
  "first_session = fst (session_Attach (fst (session_new 1 first_env)) 7 None first_sys)"

lemma first_session_sel:
  "s_status first_session = SS_RUNNING" "s_que_send first_session = []" "s_msg_send first_session = None"
  "s_id first_session = 1" "s_msg_recv first_session = None" "s_wr_ready first_session"
  "\<not> s_send_over first_session" "s_msg_header first_session = message_Reset (message_new 4) 4"
  "s_rd_ready first_session" "\<not> s_recv_over first_session" "\<not> s_disconnect first_session"
  "s_socket first_session = 7" "s_events first_session = 0" "s_last_active_t first_session = 0"
  "\<not> s_in_epoll first_session" "s_key first_session = Some \<lparr>ck_obj = 1, ck_func = SessionCb, ck_status = IO_STATUS_COMPLETED\<rparr>"
  by (simp_all add: first_env_def first_session_def session_Attach_def session_new_def session_set_socket_status_def
      read_clock_def Let_def)

end
