(* ===== verification/SessionWire.thy ===== *)
theory SessionWire
  imports Sending SessionLinux
begin

text \<open>
  What the socket loops of \<^verbatim>\<open>session_linux.cpp\<close> do to the two byte streams: the bytes that leave
  through \<^verbatim>\<open>send\<close> are those of the send buffers, in order and each once, and the bytes that arrive
  through \<^verbatim>\<open>recv\<close> are decoded frame by frame.  The status machine of \<^verbatim>\<open>Update\<close> is in the last section.
\<close>

section \<open>The outgoing stream\<close>

text \<open>What is still to go out: the rest of the message being sent, then the queue.\<close>

definition pending :: "session \<Rightarrow> mem" where
  "pending s = (case s_msg_send s of None \<Rightarrow> []
                | Some m \<Rightarrow> drop (unat (s_send_len s)) (msg_bytes m)) @ wire s"

definition out_ok :: "session \<Rightarrow> net_env \<Rightarrow> bool" where
  "out_ok s e \<longleftrightarrow> send_wf s e \<and>
     (\<forall>m. s_msg_send s = Some m \<longrightarrow> sendbuf_ok m \<and> unat (s_send_len s) \<le> unat (m_curr_len m))"

lemma pick_pending:
  assumes "out_ok s e" and "post_send_pick s = Inr (s1, m)"
  shows "out_ok s1 e" "s_msg_send s1 = Some m" "pending s1 = pending s"
    "s_status s1 = s_status s" "s_socket s1 = s_socket s"
  using assms
  by (auto simp: post_send_pick_def out_ok_def pending_def send_wf_def wire_def
      split: option.splits list.splits if_splits)

lemma pick_stop:
  assumes "out_ok s e" and "post_send_pick s = Inl s'"
  shows "out_ok s' e" "pending s' = pending s"
  using assms
  by (auto simp: post_send_pick_def out_ok_def pending_def send_wf_def wire_def
      split: option.splits list.splits if_splits)

lemma message_left:
  assumes ok: "sendbuf_ok m" and le: "unat l \<le> unat (m_curr_len m)"
  shows "mem_read (unat l) (unat (ucast (message_DataLength m) - l :: u64)) (m_data m)
    = Some (drop (unat l) (msg_bytes m))"
proof -
  have c: "unat (ucast (m_curr_len m) :: u64) = unat (m_curr_len m)"
    using unat_bound [of "m_curr_len m"] by (simp add: unsigned_ucast_eq take_bit_nat_eq_self)
  then have "unat (ucast (message_DataLength m) - l :: u64) = unat (m_curr_len m) - unat l"
    using le by (simp add: message_DataLength_def unat_sub_le word_le_nat_alt)
  then show ?thesis
    using msg_wf_le [of m] ok le
    by (simp add: mem_simps sendbuf_ok_def msg_bytes_def drop_take)
qed

lemma send_data:
  assumes "out_ok s e" and "s_msg_send s = Some m" and "pending s = map Some bs"
  obtains ds where "post_send_data s m = Some ds" and "drop (unat (s_send_len s)) (msg_bytes m) = map Some ds"
    and "bs = ds @ drop (length ds) bs" and "wire s = map Some (drop (length ds) bs)"
proof -
  have m: "sendbuf_ok m" "unat (s_send_len s) \<le> unat (m_curr_len m)" using assms by (auto simp: out_ok_def)
  have p: "drop (unat (s_send_len s)) (msg_bytes m) @ wire s = map Some bs"
    using assms by (simp add: pending_def)
  then obtain ds ws where ds: "bs = ds @ ws" "drop (unat (s_send_len s)) (msg_bytes m) = map Some ds"
    "wire s = map Some ws" unfolding append_eq_map_conv by blast
  then have "post_send_data s m = Some ds"
    using message_left [OF m] by (simp add: post_send_data_def)
  with ds that show thesis by simp
qed

text \<open>A message that went out whole is given back to the pool.\<close>

lemma send_whole:
  assumes "out_ok s e" and "s_msg_send s = Some m" and "pending s = map Some bs"
    and "post_send_data s m = Some ds"
  shows "out_ok (s\<lparr>s_msg_send := None, s_send_len := 0\<rparr>) (e\<lparr>ne_mq2 := FreeMessage (ne_mq2 e) m\<rparr>)"
    "pending (s\<lparr>s_msg_send := None, s_send_len := 0\<rparr>) = map Some (drop (length ds) bs)"
    "ds @ drop (length ds) bs = bs"
proof -
  have "msg_sized m" using assms by (auto simp: out_ok_def sendbuf_ok_def)
  then show "out_ok (s\<lparr>s_msg_send := None, s_send_len := 0\<rparr>) (e\<lparr>ne_mq2 := FreeMessage (ne_mq2 e) m\<rparr>)"
    using assms by (simp add: out_ok_def send_wf_def FreeMessage_wf)
  note sd = send_data [OF assms(1-3)]
  obtain ds' where d: "post_send_data s m = Some ds'" "bs = ds' @ drop (length ds') bs"
    "wire s = map Some (drop (length ds') bs)" by (rule sd)
  then have eq: "ds' = ds" using assms(4) by simp
  show "pending (s\<lparr>s_msg_send := None, s_send_len := 0\<rparr>) = map Some (drop (length ds) bs)"
    using d(3) unfolding eq by (simp add: pending_def wire_def)
  show "ds @ drop (length ds) bs = bs" using d(2) unfolding eq by simp
qed

lemma send_part:
  assumes "out_ok s e" and "s_msg_send s = Some m" and "pending s = map Some bs"
    and "post_send_data s m = Some ds" and "k < length ds"
  shows "out_ok (s\<lparr>s_send_len := s_send_len s + word_of_nat k\<rparr>) e"
    "pending (s\<lparr>s_send_len := s_send_len s + word_of_nat k\<rparr>) = map Some (drop k bs)"
    "take k ds @ drop k bs = bs"
proof -
  note sd = send_data [OF assms(1-3)]
  obtain ds' where d: "post_send_data s m = Some ds'" "drop (unat (s_send_len s)) (msg_bytes m) = map Some ds'"
    "bs = ds' @ drop (length ds') bs" "wire s = map Some (drop (length ds') bs)" by (rule sd)
  then have eq: "ds' = ds" using assms(4) by simp
  have m: "sendbuf_ok m" "unat (s_send_len s) \<le> unat (m_curr_len m)" using assms by (auto simp: out_ok_def)
  have "length (drop (unat (s_send_len s)) (msg_bytes m)) = length ds" using d(2) eq by simp
  then have len: "length ds = unat (m_curr_len m) - unat (s_send_len s)"
    using m length_msg_bytes [of m] by (simp add: sendbuf_ok_def)
  have k64: "unat (word_of_nat k :: u64) = k"
    using assms(5) len unat_bound [of "m_curr_len m"] by (simp add: unat_of_nat)
  have l: "unat (s_send_len s + word_of_nat k) = unat (s_send_len s) + k"
    using m(2) assms(5) len unat_bound [of "m_curr_len m"] by (subst unat_add_bounded) (simp_all add: k64)
  show "out_ok (s\<lparr>s_send_len := s_send_len s + word_of_nat k\<rparr>) e"
    using assms(1,2,5) m len l by (simp add: out_ok_def send_wf_def)
  have bs: "bs = ds @ drop (length ds) bs" using d(3) unfolding eq .
  have "drop k bs = drop k ds @ drop (length ds) bs"
    using assms(5) by (subst bs) simp
  moreover have "drop (unat (s_send_len s) + k) (msg_bytes m) = map Some (drop k ds)"
    using d(2) unfolding eq by (metis add.commute drop_drop drop_map)
  ultimately show "pending (s\<lparr>s_send_len := s_send_len s + word_of_nat k\<rparr>) = map Some (drop k bs)"
    using assms(2) l d(4) unfolding eq by (simp add: pending_def wire_def)
  show "take k ds @ drop k bs = bs"
    using \<open>drop k bs = drop k ds @ _\<close> bs by (metis append.assoc append_take_drop_id)
qed

text \<open>The loop neither loses, repeats nor reorders a byte, whatever the kernel takes.\<close>

lemma post_send_loop_stream:
  assumes "out_ok s e" and "pending s = map Some bs" and "post_send_loop rs s e y = Some (s', e', y')"
  shows "\<exists>bs'. out_ok s' e' \<and> pending s' = map Some bs' \<and> taken (sy_log y') @ bs' = taken (sy_log y) @ bs"
  using assms
proof (induction rs arbitrary: s e y bs)
  case Nil
  then show ?case
    using pick_stop [OF Nil.prems(1)]
    by (auto simp: post_send_loop.simps Option.bind_eq_Some_conv split: sum.splits prod.splits)
next
  case (Cons r rs)
  show ?case
  proof (cases "post_send_pick s")
    case (Inl s1)
    then show ?thesis using Cons.prems pick_stop [OF Cons.prems(1) Inl]
      by (auto simp: post_send_loop.simps)
  next
    case (Inr p)
    obtain s1 m where p: "post_send_pick s = Inr (s1, m)" using Inr by (cases p) auto
    note pk = pick_pending [OF Cons.prems(1) p]
    have pend: "pending s1 = map Some bs" using pk(3) Cons.prems(2) by simp
    note sd = send_data [OF pk(1,2) pend]
    obtain ds where ds: "post_send_data s1 m = Some ds" by (rule sd)
    show ?thesis
    proof (cases r)
      case (SendErr err)
      then show ?thesis
        using Cons.prems(3) p ds pk pend Cons.IH [OF pk(1) pend, of y]
        by (auto simp: post_send_loop.simps session_set_socket_status_def session_on_send_error_def
            pending_def wire_def out_ok_def send_wf_def split: if_splits)
    next
      case (SendOk k)
      let ?k = "send_ret (length ds) k"
      show ?thesis
      proof (cases "?k = length ds")
        case True
        note w = send_whole [OF pk(1,2) pend ds]
        have "post_send_loop rs (s1\<lparr>s_msg_send := None, s_send_len := 0\<rparr>)
            (e\<lparr>ne_mq2 := FreeMessage (ne_mq2 e) m\<rparr>) (sys_do (SysSend (s_socket s1) ds) y) = Some (s', e', y')"
          using Cons.prems(3) p ds SendOk True by (simp add: post_send_loop.simps [of "_ # _"] Let_def)
        from Cons.IH [OF w(1,2) this] obtain bs' where "out_ok s' e'" "pending s' = map Some bs'"
          "taken (sy_log y') @ bs' = (taken (sy_log y) @ ds) @ drop (length ds) bs" by auto
        then show ?thesis using w(3) by simp
      next
        case False
        then have k: "?k < length ds" by (simp add: send_ret_def)
        note w = send_part [OF pk(1,2) pend ds k]
        have "s' = s1\<lparr>s_send_len := s_send_len s1 + word_of_nat ?k\<rparr>" "e' = e"
          "y' = sys_do (SysSend (s_socket s1) (take ?k ds)) y"
          using Cons.prems(3) p ds SendOk False by (simp_all add: post_send_loop.simps Let_def)
        then show ?thesis using w by (intro exI [of _ "drop ?k bs"]) simp
      qed
    qed
  qed
qed

text \<open>An invariant of the session that every step of the loop keeps is kept by the loop.\<close>

lemma post_send_loop_invariant:
  assumes "post_send_loop rs s e y = Some (s', e', y')" and "P s"
    and pick: "\<And>s s1 m. P s \<Longrightarrow> post_send_pick s = Inr (s1, m) \<Longrightarrow> P s1"
    and stop: "\<And>s s1. P s \<Longrightarrow> post_send_pick s = Inl s1 \<Longrightarrow> P s1"
    and again: "\<And>s. P s \<Longrightarrow> P (s\<lparr>s_wr_ready := False\<rparr>)"
    and fail: "\<And>s err. P s \<Longrightarrow> P (session_set_socket_status (session_on_send_error s err) SS_ERROR)"
    and whole: "\<And>s. P s \<Longrightarrow> P (s\<lparr>s_msg_send := None, s_send_len := 0\<rparr>)"
    and part: "\<And>s l. P s \<Longrightarrow> P (s\<lparr>s_send_len := l\<rparr>)"
  shows "P s'"
  using assms(1,2)
proof (induction rs arbitrary: s e y)
  case Nil
  then show ?case using stop
    by (auto simp: post_send_loop.simps Option.bind_eq_Some_conv split: sum.splits)
next
  case (Cons r rs)
  show ?case
  proof (cases "post_send_pick s")
    case (Inl s1)
    then show ?thesis using Cons.prems stop by (auto simp: post_send_loop.simps)
  next
    case (Inr p)
    obtain s1 m where p: "post_send_pick s = Inr (s1, m)" using Inr by (cases p) auto
    have P1: "P s1" by (rule pick [OF Cons.prems(2) p])
    obtain ds where ds: "post_send_data s1 m = Some ds"
      using Cons.prems(1) p by (auto simp: post_send_loop.simps Option.bind_eq_Some_conv)
    show ?thesis
    proof (cases r)
      case (SendErr err)
      then show ?thesis using Cons.prems(1) p ds Cons.IH [OF _ P1] again [OF P1] fail [OF P1]
        by (auto simp: post_send_loop.simps [of "_ # _"] split: if_splits)
    next
      case (SendOk k)
      then show ?thesis using Cons.prems(1) p ds Cons.IH [OF _ whole [OF P1]] part [OF P1]
        by (auto simp: post_send_loop.simps [of "_ # _"] Let_def split: if_splits)
    qed
  qed
qed

text \<open>A kernel that takes whatever it is offered, called often enough, empties the queue.\<close>

lemma send_data_length:
  assumes "out_ok s e" and "s_msg_send s = Some m" and "post_send_data s m = Some ds"
  shows "length ds \<le> 4096"
proof -
  have m: "sendbuf_ok m" "unat (s_send_len s) \<le> unat (m_curr_len m)" using assms by (auto simp: out_ok_def)
  have "drop (unat (s_send_len s)) (msg_bytes m) = map Some ds"
    using message_left [OF m] assms(3) by (simp add: post_send_data_def those_eq_Some_iff)
  then have "length ds = length (drop (unat (s_send_len s)) (msg_bytes m))" by simp
  then show ?thesis
    using m(1) length_msg_bytes [of m] msg_wf_le [of m] by (simp add: sendbuf_ok_def MAX_BUFFER_SIZE_def)
qed

definition takes_all :: "send_reply \<Rightarrow> bool" where
  "takes_all r \<longleftrightarrow> (case r of SendOk k \<Rightarrow> 4096 \<le> k | SendErr err \<Rightarrow> False)"

lemma loop_empty:
  assumes "s_msg_send s = None" and "s_que_send s = []"
  shows "post_send_loop rs s e y = Some (s, e, y)"
    "s = s\<lparr>s_que_send := [], s_msg_send := None, s_send_len := s_send_len s\<rparr>" "pending s = []"
  using assms by (simp_all add: post_send_loop.simps [of rs] post_send_pick_def pending_def wire_def)

lemma loop_stop:
  assumes "s_msg_send s = None" and "s_que_send s = []"
  shows "\<exists>l q c. post_send_loop rs s e y = Some (s\<lparr>s_que_send := [], s_msg_send := None, s_send_len := l\<rparr>,
      e\<lparr>ne_mq2 := q\<rparr>, y\<lparr>sy_log := sy_log y @ c\<rparr>) \<and> taken c = []"
proof -
  have "e = e\<lparr>ne_mq2 := ne_mq2 e\<rparr>" "y = y\<lparr>sy_log := sy_log y @ []\<rparr>" by simp_all
  then show ?thesis using loop_empty [OF assms] by (metis taken.simps(1))
qed

lemma pick_some:
  assumes "\<not> (s_msg_send s = None \<and> s_que_send s = [])" and "\<forall>m\<in>set (s_que_send s). m_curr_len m \<noteq> 0"
  obtains q m l where "post_send_pick s = Inr (s\<lparr>s_que_send := q, s_msg_send := Some m, s_send_len := l\<rparr>, m)"
    and "length q + 1 = length (s_que_send s) + (if s_msg_send s = None then 0 else 1)"
    and "set q \<subseteq> set (s_que_send s)"
proof (cases "s_msg_send s")
  case None
  then obtain m ms where ms: "s_que_send s = m # ms" using assms(1) by (cases "s_que_send s") auto
  then show thesis
    using None assms(2) that [where q = ms and m = m and l = 0] by (auto simp: post_send_pick_def message_DataLength_def)
next
  case (Some m)
  then show thesis using that [where q = "s_que_send s" and m = m and l = "s_send_len s"] by (simp add: post_send_pick_def)
qed

lemma post_send_loop_drains:
  assumes "out_ok s e" and "pending s = map Some bs" and "\<forall>m\<in>set (s_que_send s). m_curr_len m \<noteq> 0"
    and "length (s_que_send s) + (if s_msg_send s = None then 0 else 1) \<le> length rs"
    and "list_all takes_all rs"
  shows "\<exists>l q c. post_send_loop rs s e y = Some (s\<lparr>s_que_send := [], s_msg_send := None, s_send_len := l\<rparr>,
      e\<lparr>ne_mq2 := q\<rparr>, y\<lparr>sy_log := sy_log y @ c\<rparr>) \<and> taken c = bs"
  using assms
proof (induction rs arbitrary: s e y bs)
  case Nil
  then have e: "s_msg_send s = None" "s_que_send s = []" by (auto split: if_splits)
  then have "bs = []" using Nil.prems(2) loop_empty(3) [OF e] by simp
  then show ?case using loop_stop [OF e, of "[]" e y] by auto
next
  case (Cons r rs)
  show ?case
  proof (cases "s_msg_send s = None \<and> s_que_send s = []")
    case True
    then have e: "s_msg_send s = None" "s_que_send s = []" by auto
    then have "bs = []" using Cons.prems(2) loop_empty(3) [OF e] by simp
    then show ?thesis using loop_stop [OF e, of "r # rs" e y] by auto
  next
    case False
    note ps = pick_some [OF False Cons.prems(3)]
    obtain q m l where p: "post_send_pick s = Inr (s\<lparr>s_que_send := q, s_msg_send := Some m, s_send_len := l\<rparr>, m)"
      "length q + 1 = length (s_que_send s) + (if s_msg_send s = None then 0 else 1)"
      "set q \<subseteq> set (s_que_send s)" by (rule ps)
    let ?s1 = "s\<lparr>s_que_send := q, s_msg_send := Some m, s_send_len := l\<rparr>"
    note pk = pick_pending [OF Cons.prems(1) p(1)]
    have pend: "pending ?s1 = map Some bs" using pk(3) Cons.prems(2) by simp
    note sd = send_data [OF pk(1,2) pend]
    obtain ds where ds: "post_send_data ?s1 m = Some ds" by (rule sd)
    obtain k where k: "r = SendOk k" "4096 \<le> k" using Cons.prems(5) by (cases r) (auto simp: takes_all_def)
    have ret: "send_ret (length ds) k = length ds"
      using send_data_length [OF pk(1,2) ds] k(2) by (simp add: send_ret_def)
    note w = send_whole [OF pk(1,2) pend ds]
    let ?s2 = "?s1\<lparr>s_msg_send := None, s_send_len := 0\<rparr>"
    let ?e2 = "e\<lparr>ne_mq2 := FreeMessage (ne_mq2 e) m\<rparr>" and ?y2 = "sys_do (SysSend (s_socket ?s1) ds) y"
    have run: "post_send_loop (r # rs) s e y = post_send_loop rs ?s2 ?e2 ?y2"
      using p(1) ds k(1) ret by (simp add: post_send_loop.simps [of "_ # _"] Let_def)
    have "\<forall>m\<in>set (s_que_send ?s2). m_curr_len m \<noteq> 0" using p(3) Cons.prems(3) by auto
    moreover have "length (s_que_send ?s2) + (if s_msg_send ?s2 = None then 0 else 1) \<le> length rs"
      using p(2) Cons.prems(4) by simp
    moreover have "list_all takes_all rs" using Cons.prems(5) by simp
    ultimately obtain l' q' c where IH: "post_send_loop rs ?s2 ?e2 ?y2 =
        Some (?s2\<lparr>s_que_send := [], s_msg_send := None, s_send_len := l'\<rparr>, ?e2\<lparr>ne_mq2 := q'\<rparr>,
              ?y2\<lparr>sy_log := sy_log ?y2 @ c\<rparr>)" "taken c = drop (length ds) bs"
      using Cons.IH [OF w(1,2), of ?y2] by blast
    have "post_send_loop (r # rs) s e y = Some (s\<lparr>s_que_send := [], s_msg_send := None, s_send_len := l'\<rparr>,
        e\<lparr>ne_mq2 := q'\<rparr>, y\<lparr>sy_log := sy_log y @ SysSend (s_socket s) ds # c\<rparr>)"
      using run IH(1) by (simp add: sys_do_def)
    moreover have "taken (SysSend (s_socket s) ds # c) = bs" using w(3) IH(2) by simp
    ultimately show ?thesis by blast
  qed
qed

section \<open>The incoming stream\<close>

text \<open>Receiving does not touch the sending half, the socket or the status of the session.\<close>

definition keeps_out :: "session \<Rightarrow> session \<Rightarrow> bool" where
  "keeps_out s s' \<longleftrightarrow> s_que_send s' = s_que_send s \<and> s_msg_send s' = s_msg_send s
     \<and> s_send_len s' = s_send_len s \<and> s_status s' = s_status s \<and> s_socket s' = s_socket s
     \<and> s_id s' = s_id s \<and> s_key s' = s_key s \<and> s_send_over s' = s_send_over s
     \<and> s_wr_ready s' = s_wr_ready s \<and> s_events s' = s_events s \<and> s_in_epoll s' = s_in_epoll s
     \<and> s_recv_over s' = s_recv_over s"

definition keeps :: "session \<Rightarrow> net_env \<Rightarrow> session \<times> net_env \<Rightarrow> bool" where
  "keeps s e r \<longleftrightarrow> keeps_out s (fst r) \<and> ne_mq2 (snd r) = ne_mq2 e"

lemma keeps_refl [simp]: "keeps s e (s, e)"
  by (simp add: keeps_def keeps_out_def)

lemma keeps_trans: "keeps s e (s1, e1) \<Longrightarrow> keeps s1 e1 r \<Longrightarrow> keeps s e r"
  by (simp add: keeps_def keeps_out_def)

lemma finish_keeps: "session_finish s e m = r \<Longrightarrow> keeps s e r"
  by (auto simp: session_finish_def keeps_def keeps_out_def Let_def read_clock_def split: if_splits)

lemma begin_keeps: "session_begin s e = Some (Some (m, e1)) \<Longrightarrow> keeps s e (s, e1)"
  by (auto simp: session_begin_def keeps_def keeps_out_def Let_def Option.bind_eq_Some_conv
      split: option.splits if_splits prod.splits)

lemma on_recv_keeps:
  assumes "session_on_recv s e p n = Some r"
  shows "keeps s e r"
proof (rule session_on_recv.raw_induct [where P = "\<lambda>s e p n r. keeps s e r", OF _ assms])
  fix rec s e p n r
  assume 1: "\<And>s e p n r. rec s e p n = Some r \<Longrightarrow> keeps s e r"
    "do {
       (h, pdata1, sz1) \<leftarrow> fill_while (s_msg_header s) p n;
       let s1 = s\<lparr>s_msg_header := h\<rparr>;
       if \<not> message_Full h then Some (s1, e)
       else do {
         r \<leftarrow> session_begin s1 e;
         (case r of
            None \<Rightarrow> Some (session_Disconnect s1, e)
          | Some (m, e1) \<Rightarrow> do {
              (m1, pdata2, sz2) \<leftarrow> fill_while m pdata1 sz1;
              let (s2, e2) = session_finish s1 e1 m1;
              if sz2 \<noteq> 0 then rec s2 e2 pdata2 sz2 else Some (s2, e2)
            })
       }
     } = Some r"
  then obtain h p1 n1 where h: "fill_while (s_msg_header s) p n = Some (h, p1, n1)"
    by (auto simp: Option.bind_eq_Some_conv)
  let ?s1 = "s\<lparr>s_msg_header := h\<rparr>"
  have k1: "keeps s e (?s1, e)" by (simp add: keeps_def keeps_out_def)
  show "keeps s e r"
  proof (cases "message_Full h")
    case False
    then have "r = (?s1, e)" using 1(2) h by simp
    then show ?thesis using k1 by simp
  next
    case True
    then obtain b where b: "session_begin ?s1 e = Some b"
      using 1(2) h by (auto simp: Option.bind_eq_Some_conv Let_def)
    show ?thesis
    proof (cases b)
      case None
      then show ?thesis using 1(2) h b True
        by (auto simp: session_Disconnect_def keeps_def keeps_out_def Let_def split: if_splits)
    next
      case (Some me)
      obtain m e1 where me: "me = (m, e1)" by (cases me)
      obtain m1 p2 n2 where f: "fill_while m p1 n1 = Some (m1, p2, n2)"
        using 1(2) h b True Some me by (auto simp: Option.bind_eq_Some_conv Let_def)
      obtain s2 e2 where fin: "session_finish ?s1 e1 m1 = (s2, e2)" by (cases "session_finish ?s1 e1 m1")
      have "keeps ?s1 e (?s1, e1)" using b Some me by (simp add: begin_keeps)
      note k2 = keeps_trans [OF k1 keeps_trans [OF this finish_keeps [OF fin]]]
      have "(if n2 \<noteq> 0 then rec s2 e2 p2 n2 else Some (s2, e2)) = Some r"
        using 1(2) h b True Some me f fin by (simp add: Let_def)
      then show ?thesis
        using 1(1) [of s2 e2 p2 n2 r] k2 by (auto split: if_splits intro: keeps_trans)
    qed
  qed
qed

text \<open>The bytes that one call of \<^verbatim>\<open>_post_recv\<close> gets from the kernel before it returns.\<close>

fun recv_stream :: "recv_reply list \<Rightarrow> byte list" where
  "recv_stream (RecvBytes bs # rs) =
     (if length bs \<ge> 4096 then take 4096 bs @ recv_stream rs else bs)"
| "recv_stream (RecvErr err # rs) = (if err = EINTR then recv_stream rs else [])"
| "recv_stream _ = []"

text \<open>An answer after which the loop is left.\<close>

fun recv_ends :: "recv_reply \<Rightarrow> bool" where
  "recv_ends (RecvBytes bs) \<longleftrightarrow> length bs < 4096"
| "recv_ends (RecvErr err) \<longleftrightarrow> err \<noteq> EINTR"
| "recv_ends (RecvOther err) \<longleftrightarrow> True"

lemma recv_rel_cong:
  assumes "s_msg_header s' = s_msg_header s" "s_msg_recv s' = s_msg_recv s" "s_disconnect s \<longrightarrow> s_disconnect s'"
  shows "recv_rel s d \<Longrightarrow> recv_rel s' d"
  using assms by (cases d) (auto simp: recv_rel.simps header_ok_def)

lemma Disconnect_sel [simp]:
  "s_msg_header (session_Disconnect s) = s_msg_header s" "s_msg_recv (session_Disconnect s) = s_msg_recv s"
  "s_disconnect (session_Disconnect s)" "s_id (session_Disconnect s) = s_id s"
  by (simp_all add: session_Disconnect_def)

lemma follows_none:
  assumes "recv_rel s d" and "pool_wf (ne_mq e)" and "recv_rel s d \<Longrightarrow> recv_rel s' d" and "s_id s' = s_id s"
  shows "follows s e d [] (Some (s', e))"
  using assms by (simp add: follows_def delivers_def)

text \<open>One successful \<^verbatim>\<open>recv\<close>.\<close>

lemma recv_block:
  assumes "recv_rel s d" and "pool_wf (ne_mq e)" and "bs \<noteq> []"
  obtains s1 e1 where "follows s e d (take 4096 bs) (Some (s1, e1))"
    and "post_recv_loop (RecvBytes bs # rs) s e = (if 4096 \<le> length bs then post_recv_loop rs s1 e1 else Some (s1, e1))"
proof -
  define data where "data = take 4096 bs"
  have "length data < 2 ^ 32" by (simp add: data_def min_def)
  then have n: "unat (word_of_nat (length data) :: u32) = length data" by (simp add: unat_of_nat)
  have f: "follows s e d data (session_on_recv s e (map Some data) (word_of_nat (length data)))"
    by (rule on_recv_follows [OF assms(1,2) n])
  then obtain s1 e1 where 1: "session_on_recv s e (map Some data) (word_of_nat (length data)) = Some (s1, e1)"
    by (auto simp: follows_def)
  have "data \<noteq> []" using assms(3) by (simp add: data_def)
  then have "post_recv_loop (RecvBytes bs # rs) s e = (if length data = 4096 then post_recv_loop rs s1 e1 else Some (s1, e1))"
    using 1 by (simp add: data_def [symmetric] MAX_BUFFER_SIZE_def Let_def)
  moreover have "length data = 4096 \<longleftrightarrow> 4096 \<le> length bs" by (simp add: data_def min_def)
  ultimately show ?thesis using that [of s1 e1] f 1 by (simp add: data_def)
qed

lemma post_recv_loop_follows:
  assumes "recv_rel s d" and "pool_wf (ne_mq e)" and "\<exists>r\<in>set rs. recv_ends r"
  shows "follows s e d (recv_stream rs) (post_recv_loop rs s e)"
  using assms
proof (induction rs arbitrary: s d e)
  case Nil
  then show ?case by simp
next
  case (Cons r rs)
  show ?case
  proof (cases r)
    case (RecvOther err)
    then show ?thesis using Cons.prems(1,2)
      by (auto simp: session_on_recv_error_def intro!: follows_none intro: recv_rel_cong)
  next
    case (RecvErr err)
    show ?thesis
    proof (cases "err = EINTR")
      case True
      then have "post_recv_loop (r # rs) s e = post_recv_loop rs s e" "recv_stream (r # rs) = recv_stream rs"
        "\<exists>r\<in>set rs. recv_ends r"
        using RecvErr Cons.prems(3) by (auto simp: EINTR_def EAGAIN_def)
      then show ?thesis using Cons.IH [OF Cons.prems(1,2)] by simp
    next
      case False
      then show ?thesis using RecvErr Cons.prems(1,2)
        by (auto simp: session_on_recv_error_def session_set_socket_status_def intro!: follows_none intro: recv_rel_cong)
    qed
  next
    case (RecvBytes bs)
    show ?thesis
    proof (cases "bs = []")
      case True
      then show ?thesis using RecvBytes Cons.prems(1,2) by (auto intro!: follows_none intro: recv_rel_cong)
    next
      case False
      obtain s1 e1 where 1: "follows s e d (take 4096 bs) (Some (s1, e1))"
        "post_recv_loop (r # rs) s e = (if 4096 \<le> length bs then post_recv_loop rs s1 e1 else Some (s1, e1))"
        using recv_block [OF Cons.prems(1,2) False, of rs] RecvBytes by blast
      show ?thesis
      proof (cases "4096 \<le> length bs")
        case True
        have "recv_rel s1 (fst (feeds d (take 4096 bs)))" "pool_wf (ne_mq e1)"
          using 1(1) by (auto simp: follows_def delivers_def)
        moreover have "\<exists>r\<in>set rs. recv_ends r" using Cons.prems(3) RecvBytes True by auto
        ultimately show ?thesis
          using follows_append [OF 1(1) Cons.IH] 1(2) True RecvBytes by simp
      next
        case False
        then show ?thesis using 1 RecvBytes by simp
      qed
    qed
  qed
qed

lemma post_recv_loop_sim:
  assumes "recv_rel s d" and "pool_wf (ne_mq e)" and "\<exists>r\<in>set rs. recv_ends r"
  shows "\<exists>s' e'. post_recv_loop rs s e = Some (s', e') \<and> s_id s' = s_id s
    \<and> recv_rel s' (fst (feeds d (recv_stream rs))) \<and> delivers (s_id s) e e' (snd (feeds d (recv_stream rs)))"
  using post_recv_loop_follows [OF assms] by (simp add: follows_def)

section \<open>A whole Update and the outgoing stream\<close>

text \<open>A session state as far as the outgoing stream is concerned: what is queued, and where it goes.\<close>

lemma out_cong:
  assumes "s_que_send s' = s_que_send s" "s_msg_send s' = s_msg_send s" "s_send_len s' = s_send_len s"
    and "ne_mq2 e' = ne_mq2 e"
  shows "out_ok s' e' = out_ok s e" "pending s' = pending s"
  using assms by (simp_all add: out_ok_def send_wf_def pending_def wire_def split: option.split)

definition same_out :: "session \<Rightarrow> session \<Rightarrow> bool" where
  "same_out s s' \<longleftrightarrow> s_que_send s' = s_que_send s \<and> s_msg_send s' = s_msg_send s \<and> s_send_len s' = s_send_len s"

lemma same_out_trans: "same_out s s1 \<Longrightarrow> same_out s1 s2 \<Longrightarrow> same_out s s2"
  by (simp add: same_out_def)

lemma same_outD:
  assumes "same_out s s'" and "ne_mq2 e' = ne_mq2 e"
  shows "out_ok s' e' = out_ok s e" "pending s' = pending s"
  using assms out_cong [of s' s e' e] by (auto simp: same_out_def)

lemma keeps_same_out: "keeps s e (s', e') \<Longrightarrow> same_out s s' \<and> ne_mq2 e' = ne_mq2 e"
  by (simp add: keeps_def keeps_out_def same_out_def)

text \<open>What every step of the receiving loop keeps is kept by the loop.\<close>

lemma post_recv_loop_invariant:
  assumes "post_recv_loop rs s e = Some (s', e')" and "P s e"
    and recv: "\<And>s e s1 e1. P s e \<Longrightarrow> keeps s e (s1, e1) \<Longrightarrow> P s1 e1"
    and closed: "\<And>s e. P s e \<Longrightarrow> P (session_Disconnect (s\<lparr>s_recv_over := True\<rparr>)) e"
    and again: "\<And>s e. P s e \<Longrightarrow> P (s\<lparr>s_rd_ready := False\<rparr>) e"
    and err: "\<And>s e err. P s e \<Longrightarrow> P (session_on_recv_error s err) e"
    and fail: "\<And>s e err. P s e \<Longrightarrow> P (session_set_socket_status (session_on_recv_error s err) SS_ERROR) e"
  shows "P s' e'"
  using assms(1,2)
proof (induction rs s e rule: post_recv_loop.induct)
  case (2 bs rs s e)
  show ?case
  proof (cases "bs = []")
    case True
    then show ?thesis using 2(2,3) closed by auto
  next
    case False
    let ?d = "take (unat MAX_BUFFER_SIZE) bs"
    have ne: "?d \<noteq> []" using False by (simp add: MAX_BUFFER_SIZE_def)
    obtain s1 e1 where 1: "session_on_recv s e (map Some ?d) (word_of_nat (length ?d)) = Some (s1, e1)"
      using 2(2) ne by (auto simp: Let_def Option.bind_eq_Some_conv simp del: take_eq_Nil)
    have P1: "P s1 e1" by (rule recv [OF 2(3) on_recv_keeps [OF 1]])
    show ?thesis
    proof (cases "length ?d = unat MAX_BUFFER_SIZE")
      case True
      then have "post_recv_loop rs s1 e1 = Some (s', e')" using 2(2) ne 1 by (simp add: Let_def)
      from 2(1) [OF refl refl _ 1 refl True this P1] show ?thesis using ne by simp
    next
      case False
      then show ?thesis using 2(2) ne 1 P1 by (auto simp: Let_def min_def split: if_splits)
    qed
  qed
qed (auto split: if_splits intro: again err fail)

lemma post_recv_loop_out:
  assumes "post_recv_loop rs s e = Some (s', e')"
  shows "same_out s s' \<and> ne_mq2 e' = ne_mq2 e"
  by (rule post_recv_loop_invariant [OF assms, where P = "\<lambda>r f. same_out s r \<and> ne_mq2 f = ne_mq2 e"])
    (auto simp: same_out_def keeps_def keeps_out_def session_set_socket_status_def session_on_recv_error_def session_Disconnect_def)

lemma post_recv_out: "post_recv rs s e = Some (s', e') \<Longrightarrow> same_out s s' \<and> ne_mq2 e' = ne_mq2 e"
  using post_recv_loop_out [of rs s e s' e'] by (auto simp: post_recv_def same_out_def split: if_splits)

lemma update_events_out: "update_events s err = (s', c) \<Longrightarrow> same_out s s'"
  by (auto simp: update_events_def same_out_def Let_def split: if_splits)

lemma update_status_out:
  "update_status s e y = (s', e', y') \<Longrightarrow>
   same_out s s' \<and> ne_mq2 e' = ne_mq2 e \<and> taken (sy_log y') = taken (sy_log y)"
  by (auto simp: update_status_def same_out_def session_set_socket_status_def session_Disconnect_def
      read_clock_def g_net_close_socket_def UnregisterHandler_def epoll_ctl_def Let_def
      split: sock_status.splits if_splits)

lemma update_register_out:
  "update_register s y = Some (s', y') \<Longrightarrow> same_out s s' \<and> taken (sy_log y') = taken (sy_log y)"
  by (auto simp: update_register_def same_out_def RegisterHandler_def epoll_ctl_def Let_def
      Option.bind_eq_Some_conv split: if_splits prod.splits)

lemma post_send_stream:
  assumes "out_ok s e" and "pending s = map Some bs" and "post_send rs s e y = Some (s', e', y')"
  shows "\<exists>bs'. out_ok s' e' \<and> pending s' = map Some bs' \<and> taken (sy_log y') @ bs' = taken (sy_log y) @ bs"
proof (cases "post_send_loop rs s e y = Some (s', e', y')")
  case True
  then show ?thesis using post_send_loop_stream [OF assms(1,2)] by blast
next
  case False
  then have "same_out s s' \<and> e' = e \<and> taken (sy_log y') = taken (sy_log y)"
    using assms(3) by (auto simp: post_send_def same_out_def split: if_splits)
  then show ?thesis using same_outD [of s s' e' e] assms(1,2) by auto
qed

lemma Update_stream:
  assumes "out_ok s e" and "pending s = map Some bs" and "session_Update io s e y = Some (s', e', y')"
  shows "\<exists>bs'. out_ok s' e' \<and> pending s' = map Some bs' \<and> taken (sy_log y') @ bs' = taken (sy_log y) @ bs"
proof (cases "io_lock io")
  case False
  then show ?thesis using assms by (simp add: session_Update_def)
next
  case True
  obtain s1 c where 1: "update_events s (io_so_error io) = (s1, c)" by (rule prod.exhaust)
  obtain s2 e2 where 2: "post_recv (io_recvs io) s1 e = Some (s2, e2)"
    using assms(3) True 1 by (auto simp: session_Update_def Option.bind_eq_Some_conv)
  obtain s3 e3 y3 where 3: "post_send (io_sends io) s2 e2 y = Some (s3, e3, y3)"
    using assms(3) True 1 2 by (auto simp: session_Update_def Option.bind_eq_Some_conv)
  let ?s4 = "if c then session_set_socket_status s3 SS_ERROR else s3"
  obtain s5 e5 y5 where 5: "update_status ?s4 e3 y3 = (s5, e5, y5)" by (rule prod_cases3)
  obtain s6 y6 where 6: "update_register s5 y5 = Some (s6, y6)" and r: "s' = s6" "e' = e5" "y' = y6"
    using assms(3) True 1 2 3 5 by (auto simp: session_Update_def Let_def Option.bind_eq_Some_conv)
  have so: "same_out s s2" "ne_mq2 e2 = ne_mq2 e"
    using update_events_out [OF 1] post_recv_out [OF 2] by (auto intro: same_out_trans)
  obtain bs' where bs': "out_ok s3 e3" "pending s3 = map Some bs'" "taken (sy_log y3) @ bs' = taken (sy_log y) @ bs"
    using post_send_stream [OF _ _ 3] same_outD [OF so] assms(1,2) by auto
  have "same_out s3 ?s4" by (simp add: same_out_def session_set_socket_status_def)
  then have "same_out s3 s'" "ne_mq2 e' = ne_mq2 e3" "taken (sy_log y') = taken (sy_log y3)"
    using update_status_out [OF 5] update_register_out [OF 6] r by (auto intro: same_out_trans)
  then show ?thesis using same_outD [of s3 s' e' e3] bs' by auto
qed

end
