(* ===== verification/Wire.thy ===== *)
theory Wire
  imports SessionWire "HOL-Library.Sublist"
begin

text \<open>
  The network protocol end to end: a session that sends, updates and is called back any number of
  times, the kernel that takes its bytes in pieces of any size, and a session at the other end that
  gets the bytes in pieces of any other size.
\<close>

section \<open>Histories of the sending session\<close>

text \<open>
  \<open>talk a ps b\<close>: from \<open>a\<close> a history leads to \<open>b\<close> in which \<open>ps\<close> are the messages accepted for
  sending, each of which fitted into the buffer it started in.
\<close>

type_synonym net_state = "session \<times> net_env \<times> sys"

inductive talk :: "net_state \<Rightarrow> byte list list \<Rightarrow> net_state \<Rightarrow> bool" where
  start: "talk a [] a"
| send: "talk a ps (s, e, y) \<Longrightarrow> session_Active s \<Longrightarrow> p \<noteq> [] \<Longrightarrow> 4 + length p \<le> free_room (send_room s) \<Longrightarrow>
    session_Send s e (map Some p) (word_of_nat (length p)) = Some (s', e') \<Longrightarrow> talk a (ps @ [p]) (s', e', y)"
| refused: "talk a ps (s, e, y) \<Longrightarrow> \<not> session_Active s \<Longrightarrow>
    session_Send s e (map Some p) n = Some (s', e') \<Longrightarrow> talk a ps (s', e', y)"
| update: "talk a ps (s, e, y) \<Longrightarrow> session_Update io s e y = Some (s', e', y') \<Longrightarrow> talk a ps (s', e', y')"
| polled: "talk a ps (s, e, y) \<Longrightarrow> talk a ps (session_callback s events, e, y)"
| disconnect: "talk a ps (s, e, y) \<Longrightarrow> talk a ps (session_Disconnect s, e, y)"

inductive_cases talk_startE: "talk a ps (s, e, y)"

text \<open>A session as it is right after it was created and attached to a socket.\<close>

definition silent :: "net_state \<Rightarrow> bool" where
  "silent a \<longleftrightarrow> (case a of (s, e, y) \<Rightarrow> out_ok s e \<and> pending s = [] \<and> taken (sy_log y) = [])"

lemma sends_pending:
  assumes "out_ok s e" and "sends s e s' e' bs r"
  shows "out_ok s' e'" "pending s' = pending s @ bs"
  using assms by (auto simp: sends_def out_ok_def pending_def wire_def split: option.split)

lemma talk_stream:
  assumes "talk a ps b" and "silent a" and "b = (s, e, y)"
  shows "\<exists>bs. out_ok s e \<and> pending s = map Some bs \<and> taken (sy_log y) @ bs = concat (map frame ps)"
  using assms
proof (induction arbitrary: s e y rule: talk.induct)
  case (start a)
  then show ?case by (auto simp: silent_def)
next
  case (send a ps s1 e1 y1 p s2 e2)
  obtain bs where bs: "out_ok s1 e1" "pending s1 = map Some bs" "taken (sy_log y1) @ bs = concat (map frame ps)"
    using send.IH send.prems by blast
  obtain s3 e3 where 3: "session_Send s1 e1 (map Some p) (word_of_nat (length p)) = Some (s3, e3)"
    "sends s1 e1 s3 e3 (map Some (frame p)) (free_room (send_room s1) - 4 - length p)"
    using Send_appends_frame [OF send.hyps(2) _ send.hyps(3,4), of e1] bs(1)
    by (simp only: out_ok_def) blast
  show ?case
    using sends_pending [OF bs(1) 3(2)] 3(1) send.hyps(5) send.prems bs by (auto intro!: exI [of _ "bs @ frame p"])
next
  case (refused a ps s1 e1 y1 p n s2 e2)
  then show ?case by (auto simp: session_Send_def)
next
  case (update a ps s1 e1 y1 io s2 e2 y2)
  then show ?case using Update_stream [of s1 e1 _ io y1 s2 e2 y2] by fastforce
next
  case (polled a ps s1 e1 y1 events)
  then show ?case
    using out_cong [of "session_callback s1 events" s1 e1 e1] by (fastforce simp: session_callback_def)
next
  case (disconnect a ps s1 e1 y1)
  then show ?case
    using out_cong [of "session_Disconnect s1" s1 e1 e1] by (fastforce simp: session_Disconnect_def)
qed

section \<open>A new session\<close>

lemma first_session_ok:
  "session_Active first_session" "send_wf first_session first_env" "free_room (send_room first_session) = 4096"
  "out_ok first_session first_env" "pending first_session = []" "pool_wf (ne_mq first_env)"
  "recv_rel first_session (Pending [])" "silent (first_session, first_env, first_sys)"
proof -
  have "msg_wf (message_Reset (message_new 4) 4)"
    by (rule msg_wf_Reset) (simp_all add: message_new_def)
  then show "recv_rel first_session (Pending [])"
    by (simp add: recv_rel.simps header_ok_def first_session_sel)
qed (simp_all add: session_Active_def first_session_sel send_wf_def first_env_def mqueue_new_def pool_wf_def
      free_room_def send_room_def out_ok_def pending_def wire_def silent_def first_sys_def)

section \<open>Sending\<close>

text \<open>
  C7. A message whose frame fits into the room of the current send buffer is put on the wire
  correctly: \<^verbatim>\<open>Send\<close> appends exactly its length field and its bytes to what was already queued, and
  changes nothing else of the session but the queue.
\<close>

theorem Send_fits:
  assumes "session_Active s" and "send_wf s e" and "p \<noteq> []" and "4 + length p \<le> free_room (send_room s)"
  shows "\<exists>s' e'. session_Send s e (map Some p) (word_of_nat (length p)) = Some (s', e')
    \<and> sends s e s' e' (map Some (frame p)) (free_room (send_room s) - 4 - length p)"
  by (rule Send_appends_frame [OF assms])

theorem Send_fits_witness:
  "\<exists>s' e'. session_Send first_session first_env (map Some [7, 8, 9]) 3 = Some (s', e')
    \<and> sends first_session first_env s' e' (map Some [3, 0, 0, 0, 7, 8, 9]) 4089"
proof -
  have "4 + length [7, 8, 9 :: byte] \<le> free_room (send_room first_session)"
    by (simp add: first_session_ok)
  moreover have "frame [7, 8, 9] = [3, 0, 0, 0, 7, 8, 9]"
    by (simp add: frame_def word_bytes_def nat_bytes_numeral)
  ultimately show ?thesis
    using Send_fits [OF first_session_ok(1,2), of "[7, 8, 9]"] by (simp add: first_session_ok(3))
qed

text \<open>
  C34. When the payload runs past the end of the buffer it starts in, the next buffer is filled from the
  beginning of the payload again instead of from where the first one stopped: the wire carries the
  right length field, then the first \<open>k\<close> bytes, then the first \<open>length p - k\<close> bytes once more.
\<close>

theorem Send_straddles:
  assumes "session_Active s" and "send_wf s e" and "free_room (send_room s) = 4 + k" and "0 < k"
    and "k < length p" and "length p \<le> k + 4096"
  shows "\<exists>s' e'. session_Send s e (map Some p) (word_of_nat (length p)) = Some (s', e')
    \<and> sends s e s' e' (map Some (word_bytes (word_of_nat (length p) :: u32) @ take k p @ take (length p - k) p))
        (4096 - (length p - k))"
proof -
  have n: "unat (word_of_nat (length p) :: u32) = length p"
    using assms(3,6) free_room_le [OF assms(2)] by (simp add: unat_of_nat)
  show ?thesis
    using session_Send_sends [OF assms(1,2), of "word_of_nat (length p)" "map Some p"] n
      sent_straddles [OF assms(3-6)] by simp
qed

theorem Send_straddles_witness:
  "\<exists>s' e'. session_Send first_session first_env (map Some (replicate 4092 1 @ [2])) 4093 = Some (s', e')
    \<and> sends first_session first_env s' e' (map Some (word_bytes (4093 :: u32) @ replicate 4092 1 @ [1])) 4095"
proof -
  have "free_room (send_room first_session) = 4 + 4092" by (simp add: first_session_ok)
  from Send_straddles [OF first_session_ok(1,2) this, of "replicate 4092 1 @ [2]"] show ?thesis
    by simp
qed

text \<open>
  C16. A running session that is writable sends everything it has queued as soon as the kernel takes
  what it is offered: \<^verbatim>\<open>_post_send\<close> returns, the queue is empty and exactly the pending bytes have been
  handed to \<^verbatim>\<open>send\<close>.
\<close>

theorem post_send_drains:
  assumes "out_ok s e" and "pending s = map Some bs" and "filled s" and "s_status s = SS_RUNNING" and "s_wr_ready s" and "\<not> s_send_over s"
    and "s_msg_send s \<noteq> None \<or> s_que_send s \<noteq> []"
    and "length (s_que_send s) + 1 \<le> length rs" and "list_all takes_all rs"
  shows "\<exists>s' e' y'. post_send rs s e y = Some (s', e', y') \<and> pending s' = []
    \<and> taken (sy_log y') = taken (sy_log y) @ bs"
proof -
  have "length (s_que_send s) + (if s_msg_send s = None then 0 else 1) \<le> length rs" using assms(8) by simp
  from post_send_loop_drains [OF assms(1,2) assms(3) [unfolded filled_def] this assms(9), of y]
  obtain l q c where "post_send_loop rs s e y = Some (s\<lparr>s_que_send := [], s_msg_send := None, s_send_len := l\<rparr>,
      e\<lparr>ne_mq2 := q\<rparr>, y\<lparr>sy_log := sy_log y @ c\<rparr>)" "taken c = bs" by blast
  then show ?thesis using assms(4-7) by (auto simp: post_send_def pending_def wire_def)
qed

text \<open>The new session after one message of two bytes, as the next witnesses use it.\<close>

lemma frame_78: "frame [7, 8] = [2, 0, 0, 0, 7, 8]"
  by (simp add: frame_def word_bytes_def nat_bytes_numeral)

lemma first_Send:
  obtains q p where "session_Send first_session first_env (map Some [7, 8]) 2
      = Some (first_session\<lparr>s_que_send := q\<rparr>, first_env\<lparr>ne_mq2 := p\<rparr>)"
    and "out_ok (first_session\<lparr>s_que_send := q\<rparr>) (first_env\<lparr>ne_mq2 := p\<rparr>)" and "q \<noteq> []" and "length q \<le> 6"
    and "filled (first_session\<lparr>s_que_send := q\<rparr>)"
    and "pending (first_session\<lparr>s_que_send := q\<rparr>) = map Some [2, 0, 0, 0, 7, 8]"
proof -
  have "4 + length [7, 8 :: byte] \<le> free_room (send_room first_session)" by (simp add: first_session_ok)
  from Send_appends_frame [OF first_session_ok(1,2) _ this] obtain s e where
    1: "session_Send first_session first_env (map Some [7, 8]) 2 = Some (s, e)"
    "sends first_session first_env s e (map Some [2, 0, 0, 0, 7, 8]) 4090"
    by (auto simp: first_session_ok(3) frame_78)
  obtain q where q: "s = first_session\<lparr>s_que_send := q\<rparr>" using 1(2) by (auto simp: sends_def)
  obtain p where p: "e = first_env\<lparr>ne_mq2 := p\<rparr>" using 1(2) by (auto simp: sends_def)
  have pend: "pending s = map Some [2, 0, 0, 0, 7, 8]"
    using sends_pending [OF first_session_ok(4) 1(2)] by (simp add: first_session_ok)
  then have "q \<noteq> []" by (auto simp: q pending_def wire_def first_session_sel)
  then show thesis
    using that [of q p] 1 q p pend sends_pending [OF first_session_ok(4) 1(2)]
    by (simp add: sends_def filled_def first_session_sel)
qed

theorem post_send_drains_witness:
  "\<exists>s e s' e' y'. session_Send first_session first_env (map Some [7, 8]) 2 = Some (s, e)
    \<and> post_send (replicate 7 (SendOk 4096)) s e first_sys = Some (s', e', y')
    \<and> pending s' = [] \<and> taken (sy_log y') = [2, 0, 0, 0, 7, 8]"
proof -
  obtain q p where S: "session_Send first_session first_env (map Some [7, 8]) 2
      = Some (first_session\<lparr>s_que_send := q\<rparr>, first_env\<lparr>ne_mq2 := p\<rparr>)"
    "out_ok (first_session\<lparr>s_que_send := q\<rparr>) (first_env\<lparr>ne_mq2 := p\<rparr>)" "q \<noteq> []" "length q \<le> 6"
    "filled (first_session\<lparr>s_que_send := q\<rparr>)"
    "pending (first_session\<lparr>s_que_send := q\<rparr>) = map Some [2, 0, 0, 0, 7, 8]" by (rule first_Send)
  have "list_all takes_all (replicate 7 (SendOk 4096))" by (simp add: takes_all_def list_all_iff)
  from post_send_drains [OF S(2,6,5) _ _ _ _ _ this, of first_sys] S(1,3,4) show ?thesis
    by (auto simp: first_session_sel first_sys_def)
qed

section \<open>Receiving\<close>

text \<open>
  C3. \<^verbatim>\<open>_post_recv\<close> implements the decoder: with \<open>d\<close> the frame collected so far, a call on a readable
  running session returns, hands exactly the messages the decoder completes on the received bytes to
  the logic thread, in order and marked with this session, and leaves the session in the decoder's
  next state, whatever the sizes of the pieces in which the bytes arrive.
\<close>

theorem post_recv_decodes:
  assumes "recv_rel s d" and "pool_wf (ne_mq e)" and "\<exists>r\<in>set rs. recv_ends r"
    and "s_status s = SS_RUNNING" and "s_rd_ready s" and "\<not> s_recv_over s"
  shows "\<exists>s' e'. post_recv rs s e = Some (s', e') \<and> recv_rel s' (fst (feeds d (recv_stream rs)))
    \<and> delivers (s_id s) e e' (snd (feeds d (recv_stream rs)))"
  using post_recv_loop_sim [OF assms(1-3)] assms(4-6) by (auto simp: post_recv_def)

theorem post_recv_decodes_witness:
  "\<exists>s' e'. post_recv [RecvErr EINTR, RecvBytes [2, 0, 0, 0, 7, 8, 3, 0]] first_session first_env = Some (s', e')
    \<and> recv_rel s' (Pending [3, 0]) \<and> delivers 1 first_env e' [[7, 8]]"
proof -
  let ?rs = "[RecvErr EINTR, RecvBytes [2, 0, 0, 0, 7, 8, 3, 0]]"
  have ends: "\<exists>r\<in>set ?rs. recv_ends r" by simp
  have "feeds (Pending []) (recv_stream ?rs) = (Pending [3, 0], [[7, 8]])"
    by (simp add: Let_def frame_len_def len_ok_def)
  with post_recv_decodes [OF first_session_ok(7,6) ends] show ?thesis
    by (simp add: first_session_sel)
qed

text \<open>
  C17. A frame that announces a length outside 2 to 16384 bytes delivers nothing, neither then nor
  later: the session asks for its own disconnection and ignores whatever arrives afterwards.
\<close>

theorem bad_length_rejected:
  assumes "recv_rel s (Pending [])" and "pool_wf (ne_mq e)" and "unat sz = 4 + length bs"
    and "length hb = 4" and "\<not> (2 \<le> bytes_nat hb \<and> bytes_nat hb \<le> 0x4000)"
    and "length cs < 2 ^ 32"
  shows "\<exists>s' e'. session_on_recv s e (map Some (hb @ bs)) sz = Some (s', e') \<and> s_disconnect s'
    \<and> msg_waiting (ne_mq e') = msg_waiting (ne_mq e)
    \<and> (\<exists>s2 e2. session_on_recv s' e' (map Some cs) (word_of_nat (length cs)) = Some (s2, e2)
         \<and> msg_waiting (ne_mq e2) = msg_waiting (ne_mq e) \<and> recv_rel s2 Rejected)"
proof -
  have "feeds (Pending []) hb = (Rejected, [])"
    using feeds_header_full [of "[]" hb] assms(4,5) by (simp add: len_ok_def frame_len_def)
  then have "feeds (Pending []) (hb @ bs) = (Rejected, [])" by (simp add: feeds_append)
  moreover have "unat sz = length (hb @ bs)" using assms(3,4) by simp
  ultimately obtain s' e' where "session_on_recv s e (map Some (hb @ bs)) sz = Some (s', e')"
    "recv_rel s' Rejected" "delivers (s_id s) e e' []"
    using on_recv_sim [OF assms(1,2), of sz "hb @ bs"] by auto
  moreover from this have "pool_wf (ne_mq e')" by (simp add: delivers_def)
  moreover have "unat (word_of_nat (length cs) :: u32) = length cs" using assms(6) by (simp add: unat_of_nat)
  ultimately show ?thesis
    using on_recv_sim [of s' Rejected e' "word_of_nat (length cs)" cs]
    by (auto simp: delivers_def recv_rel.simps)
qed

theorem bad_length_rejected_witness:
  "\<exists>s' e'. session_on_recv first_session first_env (map Some ([1, 0, 0, 0] @ [9])) 5 = Some (s', e')
    \<and> s_disconnect s' \<and> msg_waiting (ne_mq e') = []"
proof -
  have "\<not> (2 \<le> bytes_nat [1, 0, 0, 0] \<and> bytes_nat [1, 0, 0, 0] \<le> 0x4000)" by simp
  from bad_length_rejected [OF first_session_ok(7,6) _ _ this, of 5 "[9]" "[]"] show ?thesis
    by (auto simp: first_env_def mqueue_new_def)
qed

section \<open>From one session to another\<close>

text \<open>Several calls of \<^verbatim>\<open>_post_recv\<close>, each with the answers of the kernel.\<close>

fun hear :: "recv_reply list list \<Rightarrow> session \<Rightarrow> net_env \<Rightarrow> (session \<times> net_env) option" where
  "hear [] s e = Some (s, e)"
| "hear (rs # rss) s e = do { (s1, e1) \<leftarrow> post_recv_loop rs s e; hear rss s1 e1 }"

lemma hear_sim:
  assumes "recv_rel s d" and "pool_wf (ne_mq e)" and "\<forall>rs\<in>set rss. \<exists>r\<in>set rs. recv_ends r"
  shows "\<exists>s' e'. hear rss s e = Some (s', e') \<and> s_id s' = s_id s
    \<and> recv_rel s' (fst (feeds d (concat (map recv_stream rss))))
    \<and> delivers (s_id s) e e' (snd (feeds d (concat (map recv_stream rss))))"
  using assms
proof (induction rss arbitrary: s d e)
  case Nil
  then show ?case by (simp add: delivers_def)
next
  case (Cons rs rss)
  have "\<exists>r\<in>set rs. recv_ends r" using Cons.prems(3) by simp
  then obtain s1 e1 where 1: "post_recv_loop rs s e = Some (s1, e1)" "s_id s1 = s_id s"
    "recv_rel s1 (fst (feeds d (recv_stream rs)))" "delivers (s_id s) e e1 (snd (feeds d (recv_stream rs)))"
    using post_recv_loop_sim [OF Cons.prems(1,2)] by blast
  have "pool_wf (ne_mq e1)" "\<forall>rs\<in>set rss. \<exists>r\<in>set rs. recv_ends r"
    using 1(4) Cons.prems(3) by (simp_all add: delivers_def)
  then obtain s2 e2 where "hear rss s1 e1 = Some (s2, e2)" "s_id s2 = s_id s1"
    "recv_rel s2 (fst (feeds (fst (feeds d (recv_stream rs))) (concat (map recv_stream rss))))"
    "delivers (s_id s1) e1 e2 (snd (feeds (fst (feeds d (recv_stream rs))) (concat (map recv_stream rss))))"
    using Cons.IH [OF 1(3)] by blast
  then show ?case
    using 1(1,2) delivers_trans [OF 1(4)] by (simp add: feeds_append_sel)
qed

text \<open>What the decoder finds in a part of the stream of some messages is a prefix of them.\<close>

lemma heard_prefix:
  assumes "heard @ rest = concat (map frame ps)" and "\<forall>p\<in>set ps. 2 \<le> length p \<and> length p \<le> 0x4000"
  shows "prefix (snd (feeds (Pending []) heard)) ps" and "rest = [] \<Longrightarrow> snd (feeds (Pending []) heard) = ps"
proof -
  have "list_all (len_ok \<circ> length) ps" using assms(2) by (simp add: list_all_iff len_ok_def)
  then have all: "feeds (Pending []) (heard @ rest) = (Pending [], ps)" using assms(1) feeds_frames by simp
  then show "prefix (snd (feeds (Pending []) heard)) ps" by (metis feeds_append_sel(2) prefixI snd_conv)
  show "snd (feeds (Pending []) heard) = ps" if "rest = []" using all that by simp
qed

text \<open>
  C1. End to end: let a session accept the messages \<open>ps\<close>, each of which fits with its length field of four bytes into the free room of the
  current send buffer of 4096 bytes (one that crosses buffers is corrupted), in any history of sends, updates, poller events and disconnects; let another session read any
  initial part of the bytes that the kernel took, cut into pieces of any sizes.  Then the messages
  the other side hands to its logic thread are the first ones of \<open>ps\<close>, unchanged and in order; and
  all of \<open>ps\<close> once nothing is pending and everything has been read.
\<close>

theorem wire_end_to_end:
  assumes "talk a ps (s, e, y)" and "silent a" and "\<forall>p\<in>set ps. 2 \<le> length p \<and> length p \<le> 0x4000"
    and "recv_rel r (Pending [])" and "pool_wf (ne_mq f)" and "\<forall>rs\<in>set rss. \<exists>x\<in>set rs. recv_ends x"
    and "concat (map recv_stream rss) @ unread = taken (sy_log y)"
  shows "\<exists>r' f' qs. hear rss r f = Some (r', f') \<and> delivers (s_id r) f f' qs \<and> prefix qs ps
    \<and> (unread = [] \<longrightarrow> pending s = [] \<longrightarrow> qs = ps)"
proof -
  obtain bs where bs: "pending s = map Some bs" "taken (sy_log y) @ bs = concat (map frame ps)"
    using talk_stream [OF assms(1,2) refl] by blast
  let ?heard = "concat (map recv_stream rss)"
  have all: "?heard @ unread @ bs = concat (map frame ps)" using bs(2) assms(7) by (metis append.assoc)
  obtain r' f' where "hear rss r f = Some (r', f')"
    "delivers (s_id r) f f' (snd (feeds (Pending []) ?heard))"
    using hear_sim [OF assms(4-6)] by blast
  then show ?thesis using heard_prefix [OF all assms(3)] bs(1) by auto
qed

text \<open>A whole call of \<^verbatim>\<open>Update\<close> that sends everything, when nothing is there to be read.\<close>

lemma Update_drains:
  assumes "out_ok s e" and "pending s = map Some bs" and "filled s" and "s_status s = SS_RUNNING" and "s_wr_ready s"
    and "\<not> s_send_over s" and "s_que_send s \<noteq> []" and "s_events s = 0" and "s_key s \<noteq> None"
    and "length (s_que_send s) + 1 \<le> length rs" and "list_all takes_all rs"
  shows "\<exists>s' e' y'. session_Update \<lparr>io_lock = True, io_so_error = err, io_recvs = [RecvErr EAGAIN], io_sends = rs\<rparr> s e y
      = Some (s', e', y') \<and> pending s' = [] \<and> taken (sy_log y') = taken (sy_log y) @ bs"
proof -
  define r where "r = (if s_recv_over s \<or> \<not> s_rd_ready s then s else s\<lparr>s_rd_ready := False\<rparr>)"
  have r: "post_recv [RecvErr EAGAIN] s e = Some (r, e)" using assms(4) by (simp add: r_def post_recv_def)
  have sel: "s_status r = SS_RUNNING" "s_wr_ready r" "\<not> s_send_over r" "s_que_send r = s_que_send s"
    "s_msg_send r = s_msg_send s" "s_key r = s_key s" using assms(4-6) by (simp_all add: r_def)
  have 1: "out_ok r e" "pending r = map Some bs"
    using out_cong [of r s e e] assms(1,2) by (simp_all add: r_def)
  have "\<forall>m\<in>set (s_que_send r). m_curr_len m \<noteq> 0" using assms(3) sel by (simp add: filled_def)
  moreover have "length (s_que_send r) + (if s_msg_send r = None then 0 else 1) \<le> length rs" using assms(10) sel by simp
  ultimately obtain l p c where L: "post_send_loop rs r e y = Some (r\<lparr>s_que_send := [], s_msg_send := None, s_send_len := l\<rparr>,
      e\<lparr>ne_mq2 := p\<rparr>, y\<lparr>sy_log := sy_log y @ c\<rparr>)" "taken c = bs"
    using post_send_loop_drains [OF 1 _ _ assms(11), of y] by blast
  let ?s = "r\<lparr>s_que_send := [], s_msg_send := None, s_send_len := l\<rparr>" and ?e = "e\<lparr>ne_mq2 := p\<rparr>"
  let ?y = "y\<lparr>sy_log := sy_log y @ c\<rparr>"
  have 3: "post_send rs r e y = Some (?s, ?e, ?y)" using assms(7) sel L(1) by (simp add: post_send_def)
  obtain s5 e5 y5 where 5: "update_status ?s ?e ?y = (s5, e5, y5)" by (rule prod_cases3)
  have "s_key s5 = s_key s" using 5 sel
    by (auto simp: update_status_def session_set_socket_status_def session_Disconnect_def read_clock_def Let_def
        split: if_splits)
  then obtain s6 y6 where 6: "update_register s5 y5 = Some (s6, y6)"
    using assms(9) by (fastforce simp: update_register_def Let_def split: prod.splits)
  have "pending s6 = []" "taken (sy_log y6) = taken (sy_log y) @ bs"
    using update_status_out [OF 5] update_register_out [OF 6] L(2)
    by (auto simp: same_out_def pending_def wire_def)
  then show ?thesis using r 3 5 6 assms(8) by (simp add: session_Update_def update_events_def)
qed

lemma first_Update:
  assumes "out_ok (first_session\<lparr>s_que_send := q\<rparr>) (first_env\<lparr>ne_mq2 := p\<rparr>)" and "q \<noteq> []" and "length q \<le> 6"
    and "filled (first_session\<lparr>s_que_send := q\<rparr>)"
    and "pending (first_session\<lparr>s_que_send := q\<rparr>) = map Some bs"
  shows "\<exists>s e y. session_Update \<lparr>io_lock = True, io_so_error = 0, io_recvs = [RecvErr EAGAIN],
      io_sends = replicate 7 (SendOk 4096)\<rparr> (first_session\<lparr>s_que_send := q\<rparr>) (first_env\<lparr>ne_mq2 := p\<rparr>) first_sys
      = Some (s, e, y) \<and> pending s = [] \<and> taken (sy_log y) = bs"
proof -
  have "list_all takes_all (replicate 7 (SendOk 4096))" by (simp add: takes_all_def list_all_iff)
  from Update_drains [OF assms(1,5,4) _ _ _ _ _ _ _ this, of 0 first_sys] show ?thesis
    using assms(2,3) by (simp add: first_session_sel first_sys_def)
qed

text \<open>A first session that sends one message.\<close>

lemma first_talk:
  "\<exists>s e y. talk (first_session, first_env, first_sys) [[7, 8]] (s, e, y) \<and> pending s = [] \<and> taken (sy_log y) = [2, 0, 0, 0, 7, 8]"
proof -
  let ?a = "(first_session, first_env, first_sys)"
  obtain q p where S: "session_Send first_session first_env (map Some [7, 8]) 2
      = Some (first_session\<lparr>s_que_send := q\<rparr>, first_env\<lparr>ne_mq2 := p\<rparr>)"
    "out_ok (first_session\<lparr>s_que_send := q\<rparr>) (first_env\<lparr>ne_mq2 := p\<rparr>)" "q \<noteq> []" "length q \<le> 6"
    "filled (first_session\<lparr>s_que_send := q\<rparr>)"
    "pending (first_session\<lparr>s_que_send := q\<rparr>) = map Some [2, 0, 0, 0, 7, 8]" by (rule first_Send)
  have "talk ?a ([] @ [[7, 8]]) (first_session\<lparr>s_que_send := q\<rparr>, first_env\<lparr>ne_mq2 := p\<rparr>, first_sys)"
    by (rule talk.send [OF talk.start]) (use S(1) in \<open>simp_all add: first_session_ok\<close>)
  moreover obtain s e y where U: "session_Update \<lparr>io_lock = True, io_so_error = 0, io_recvs = [RecvErr EAGAIN],
      io_sends = replicate 7 (SendOk 4096)\<rparr> (first_session\<lparr>s_que_send := q\<rparr>) (first_env\<lparr>ne_mq2 := p\<rparr>) first_sys
      = Some (s, e, y)" "pending s = []" "taken (sy_log y) = [2, 0, 0, 0, 7, 8]"
    using first_Update [OF S(2-6)] by blast
  ultimately show ?thesis by (auto intro: talk.update)
qed

theorem wire_end_to_end_witness:
  "\<exists>s e y r' f'. talk (first_session, first_env, first_sys) [[7, 8]] (s, e, y)
    \<and> hear [[RecvBytes [2, 0, 0]], [RecvErr EINTR, RecvBytes [0, 7, 8]]] first_session first_env = Some (r', f')
    \<and> delivers 1 first_env f' [[7, 8]]"
proof -
  obtain s e y where t: "talk (first_session, first_env, first_sys) [[7, 8]] (s, e, y)" "pending s = []"
    "taken (sy_log y) = [2, 0, 0, 0, 7, 8]" using first_talk by blast
  let ?rss = "[[RecvBytes [2, 0, 0]], [RecvErr EINTR, RecvBytes [0, 7, 8]]]"
  have ends: "\<forall>rs\<in>set ?rss. \<exists>x\<in>set rs. recv_ends x" by simp
  have read: "concat (map recv_stream ?rss) @ [] = taken (sy_log y)" by (simp add: t(3))
  from wire_end_to_end [OF t(1) first_session_ok(8) _ first_session_ok(7,6) ends read] show ?thesis
    using t(1,2) by (auto simp: first_session_sel)
qed

end
