(* ===== verification/SessionStatus.thy ===== *)
theory SessionStatus
  imports SessionWire
begin

text \<open>
  The status machine of a session on Linux: which statuses a call of \<^verbatim>\<open>Update\<close> leads to, how a session
  is closed, and when it is disconnected for inactivity.
\<close>

section \<open>The parts of Update\<close>

text \<open>An event mask that asks for the session to be closed.\<close>

definition closing :: "u32 \<Rightarrow> bool" where
  "closing ev \<longleftrightarrow> has_flag ev EPOLLERR \<or> has_flag ev EPOLLHUP \<or> has_flag ev EPOLLRDHUP"

lemma closing_0 [simp]: "\<not> closing 0"
  by (simp add: closing_def has_flag_def)

lemma update_events_sel:
  "s_status (fst (update_events s err)) = s_status s" "s_socket (fst (update_events s err)) = s_socket s"
  "s_events (fst (update_events s err)) = 0" "s_msg_send (fst (update_events s err)) = s_msg_send s"
  "s_que_send (fst (update_events s err)) = s_que_send s" "s_disconnect (fst (update_events s err)) = s_disconnect s"
  "s_send_over (fst (update_events s err)) = s_send_over s" "s_recv_over (fst (update_events s err)) = s_recv_over s"
  "s_in_epoll (fst (update_events s err)) = s_in_epoll s" "s_key (fst (update_events s err)) = s_key s"
  "s_last_active_t (fst (update_events s err)) = s_last_active_t s"
  "snd (update_events s err) \<longleftrightarrow> closing (s_events s)"
  by (auto simp: update_events_def closing_def has_flag_def Let_def)

lemma update_events_rd:
  "s_rd_ready s \<Longrightarrow> s_rd_ready (fst (update_events s err))"
  by (simp add: update_events_def Let_def)

text \<open>What the socket loops can make of the status: it stays, or becomes \<^verbatim>\<open>SS_ERROR\<close> while running.\<close>

definition stays_or_fails :: "sock_status \<Rightarrow> sock_status \<Rightarrow> bool" where
  "stays_or_fails a b \<longleftrightarrow> b = a \<or> a = SS_RUNNING \<and> b = SS_ERROR"

lemma post_recv_loop_status:
  assumes "post_recv_loop rs s e = Some (s', e')" and "s_status s = SS_RUNNING"
  shows "s_status s' \<in> {SS_RUNNING, SS_ERROR} \<and> s_events s' = s_events s \<and> s_socket s' = s_socket s"
  by (rule post_recv_loop_invariant [OF assms(1), where P = "\<lambda>r f. s_status r \<in> {SS_RUNNING, SS_ERROR}
      \<and> s_events r = s_events s \<and> s_socket r = s_socket s"])
    (use assms(2) in \<open>auto simp: keeps_def keeps_out_def session_set_socket_status_def session_on_recv_error_def
      session_Disconnect_def\<close>)

lemma post_recv_status:
  "post_recv rs s e = Some (s', e') \<Longrightarrow>
   stays_or_fails (s_status s) (s_status s') \<and> s_events s' = s_events s \<and> s_socket s' = s_socket s"
  using post_recv_loop_status [of rs s e s' e'] by (auto simp: post_recv_def stays_or_fails_def split: if_splits)

lemma post_send_loop_status:
  assumes "post_send_loop rs s e y = Some (s', e', y')" and "s_status s = SS_RUNNING"
  shows "s_status s' \<in> {SS_RUNNING, SS_ERROR} \<and> s_events s' = s_events s \<and> s_socket s' = s_socket s"
  by (rule post_send_loop_invariant [OF assms(1), where P = "\<lambda>r. s_status r \<in> {SS_RUNNING, SS_ERROR}
      \<and> s_events r = s_events s \<and> s_socket r = s_socket s"])
    (use assms(2) in \<open>auto simp: post_send_pick_def session_set_socket_status_def session_on_send_error_def
      split: option.splits list.splits if_splits\<close>)

text \<open>The sending loop does not touch the queue of received messages, and only calls \<^verbatim>\<open>send\<close>.\<close>

lemma post_send_loop_effects:
  "post_send_loop rs s e y = Some (s', e', y') \<Longrightarrow>
   ne_mq e' = ne_mq e \<and> (\<exists>c. sy_log y' = sy_log y @ c \<and> (\<forall>x\<in>set c. \<exists>k d. x = SysSend k d))"
proof (induction rs arbitrary: s e y)
  case Nil
  then show ?case
    by (subst (asm) post_send_loop.simps) (auto simp: Option.bind_eq_Some_conv split: sum.splits)
next
  case (Cons r rs)
  show ?case
  proof (cases r)
    case (SendOk k)
    with Cons.prems show ?thesis
      by (subst (asm) post_send_loop.simps)
        (auto simp: Option.bind_eq_Some_conv Let_def sys_do_def dest!: Cons.IH split: sum.splits if_splits)
  next
    case (SendErr err)
    with Cons.prems show ?thesis
      by (subst (asm) post_send_loop.simps)
        (auto simp: Option.bind_eq_Some_conv dest!: Cons.IH split: sum.splits if_splits)
  qed
qed

lemma post_send_status:
  "post_send rs s e y = Some (s', e', y') \<Longrightarrow>
   stays_or_fails (s_status s) (s_status s') \<and> s_events s' = s_events s \<and> s_socket s' = s_socket s"
  using post_send_loop_status [of rs s e y s' e' y']
  by (auto simp: post_send_def stays_or_fails_def split: if_splits)

text \<open>The status after the switch at the end of \<^verbatim>\<open>Update\<close>.\<close>

fun settled :: "bool \<Rightarrow> sock_status \<Rightarrow> sock_status" where
  "settled over SS_RUNNING = (if over then SS_PRECLOSED else SS_RUNNING)"
| "settled over SS_ERROR = SS_PRECLOSED"
| "settled over SS_PRECLOSED = SS_CLOSED"
| "settled over st = st"

lemma update_status_settled:
  "update_status s e y = (s', e', y') \<Longrightarrow>
   s_status s' = settled (s_send_over s \<and> s_recv_over s) (s_status s) \<and> s_events s' = s_events s"
  by (auto simp: update_status_def session_set_socket_status_def session_Disconnect_def read_clock_def
      g_net_close_socket_def Let_def split: sock_status.splits if_splits prod.splits)

lemma update_register_status:
  "update_register s y = Some (s', y') \<Longrightarrow> s_status s' = s_status s \<and> s_events s' = s_events s"
  by (auto simp: update_register_def RegisterHandler_def epoll_ctl_def Let_def Option.bind_eq_Some_conv
      split: if_splits prod.splits)

text \<open>One call of \<^verbatim>\<open>Update\<close> taken apart.\<close>

lemma Update_parts:
  assumes "session_Update io s e y = Some (s', e', y')" and "io_lock io"
  obtains s1 s2 e2 s3 e3 y3 s5 e5 y5 where "s1 = fst (update_events s (io_so_error io))"
    and "post_recv (io_recvs io) s1 e = Some (s2, e2)" and "post_send (io_sends io) s2 e2 y = Some (s3, e3, y3)"
    and "update_status (if closing (s_events s) then session_set_socket_status s3 SS_ERROR else s3) e3 y3
      = (s5, e5, y5)"
    and "update_register s5 y5 = Some (s', y')" and "e' = e5"
proof -
  obtain s1 c where 1: "update_events s (io_so_error io) = (s1, c)" by (rule prod.exhaust)
  then have c: "c = closing (s_events s)" using update_events_sel(12) [of s "io_so_error io"] by simp
  obtain s2 e2 where 2: "post_recv (io_recvs io) s1 e = Some (s2, e2)"
    using assms 1 by (auto simp: session_Update_def Option.bind_eq_Some_conv)
  obtain s3 e3 y3 where 3: "post_send (io_sends io) s2 e2 y = Some (s3, e3, y3)"
    using assms 1 2 by (auto simp: session_Update_def Option.bind_eq_Some_conv)
  obtain s5 e5 y5 where 5: "update_status (if c then session_set_socket_status s3 SS_ERROR else s3) e3 y3 = (s5, e5, y5)"
    by (rule prod_cases3)
  have "update_register s5 y5 = Some (s', y') \<and> e' = e5"
    using assms 1 2 3 5 by (auto simp: session_Update_def Let_def Option.bind_eq_Some_conv)
  then show thesis using that [of s1 s2 e2 s3 e3 y3 s5 e5 y5] 1 2 3 5 c by simp
qed

section \<open>Transitions\<close>

text \<open>The transitions that the logic thread can see between two calls of \<^verbatim>\<open>Update\<close>.\<close>

inductive status_step :: "sock_status \<Rightarrow> sock_status \<Rightarrow> bool" where
  "status_step a a"
| "status_step SS_RUNNING SS_PRECLOSED"
| "status_step SS_ERROR SS_PRECLOSED"
| "status_step SS_PRECLOSED SS_CLOSED"

inductive_simps status_step_simps: "status_step a b"

text \<open>
  C21. \<^verbatim>\<open>Update\<close> moves an attached session only forwards: from running to about-to-close (never directly
  to closed, and the error status never survives the call), and from there to closed.  A fault
  reported for a session that is already about to close only delays it.
\<close>

theorem Update_forward:
  assumes "session_Update io s e y = Some (s', e', y')" and "s_status s \<in> {SS_RUNNING, SS_ERROR, SS_PRECLOSED}"
  shows "status_step (s_status s) (s_status s') \<and> (io_lock io \<longrightarrow> s_status s' \<noteq> SS_ERROR)"
proof (cases "io_lock io")
  case False
  then show ?thesis using assms(1) by (simp add: session_Update_def status_step.intros)
next
  case True
  note up = Update_parts [OF assms(1) True]
  obtain s1 s2 e2 s3 e3 y3 s5 e5 y5 where P: "s1 = fst (update_events s (io_so_error io))"
    "post_recv (io_recvs io) s1 e = Some (s2, e2)" "post_send (io_sends io) s2 e2 y = Some (s3, e3, y3)"
    "update_status (if closing (s_events s) then session_set_socket_status s3 SS_ERROR else s3) e3 y3 = (s5, e5, y5)"
    "update_register s5 y5 = Some (s', y')" by (rule up)
  have "stays_or_fails (s_status s) (s_status s3)"
    using post_recv_status [OF P(2)] post_send_status [OF P(3)]
    by (auto simp: P(1) update_events_sel stays_or_fails_def)
  then show ?thesis
    using assms(2) update_status_settled [OF P(4)] update_register_status [OF P(5)]
    by (auto simp: session_set_socket_status_def stays_or_fails_def status_step_simps split: if_splits)
qed

text \<open>The answers of a quiet call: nothing to read, and a kernel that takes everything.\<close>

definition quiet_io :: update_io where
  "quiet_io = \<lparr>io_lock = True, io_so_error = 0, io_recvs = [RecvErr EAGAIN], io_sends = []\<rparr>"

lemma first_quiet_Update:
  "\<exists>s e y. session_Update quiet_io first_session first_env first_sys = Some (s, e, y) \<and> s_status s = SS_RUNNING"
proof -
  have "ne_clock first_env n = word_of_nat n" "ne_reads first_env = 0" "sy_log first_sys = []"
    "sy_ctl first_sys n = 0" for n by (simp_all add: first_env_def first_sys_def)
  then show ?thesis
    by (simp add: session_Update_def quiet_io_def update_events_def post_recv_def first_session_sel post_send_def
        update_status_def update_register_def RegisterHandler_def epoll_ctl_def read_clock_def
        sys_do_def sys_consts Let_def)
qed

theorem Update_forward_witness:
  "\<exists>s e y. session_Update quiet_io first_session first_env first_sys = Some (s, e, y)
    \<and> status_step SS_RUNNING (s_status s)"
  using first_quiet_Update Update_forward [of quiet_io first_session first_env first_sys]
  by (force simp: first_session_sel)

section \<open>Closing\<close>

text \<open>Outside the running status the socket loops do nothing but the shutdown of a drained session.\<close>

definition shutdown_due :: "session \<Rightarrow> bool" where
  "shutdown_due s \<longleftrightarrow> s_msg_send s = None \<and> s_que_send s = [] \<and> s_disconnect s \<and> \<not> s_send_over s"

lemma post_send_idle:
  assumes "s_status s \<noteq> SS_RUNNING"
  shows "post_send rs s e y =
    (if shutdown_due s then Some (s\<lparr>s_send_over := True\<rparr>, e, sys_do (SysShutdown (s_socket s)) y) else Some (s, e, y))"
  using assms by (simp add: post_send_def shutdown_due_def)

text \<open>
  The call of \<^verbatim>\<open>Update\<close> that closes a session always returns, leaves it disposable without a
  socket, and closes its descriptor once.  The handler it unregisters is not the session's: the
  descriptor was overwritten by \<open>-1\<close> one line before.
\<close>

theorem Update_closes:
  assumes "io_lock io" and "s_status s = SS_PRECLOSED" and "\<not> closing (s_events s)" and "s_socket s \<noteq> - 1"
  shows "\<exists>s' y'. session_Update io s e y = Some (s', e, y') \<and> session_Disposable s' \<and> s_socket s' = - 1
    \<and> sy_log y' = sy_log y @ (if shutdown_due s then [SysShutdown (s_socket s)] else [])
        @ [SysClose (s_socket s), SysEpollCtl CtlDel (- 1) 0 None]"
proof -
  obtain s1 where 1: "update_events s (io_so_error io) = (s1, False)"
    using update_events_sel(12) [of s "io_so_error io"] assms(3) by (cases "update_events s (io_so_error io)") auto
  have sel: "s_status s1 = SS_PRECLOSED" "s_socket s1 = s_socket s" "shutdown_due s1 = shutdown_due s"
    using update_events_sel [of s "io_so_error io"] 1 assms(2) by (simp_all add: shutdown_due_def)
  have ns: "s_status s1 \<noteq> SS_RUNNING" using sel(1) by simp
  show ?thesis
    using assms(1,4) 1 sel post_send_idle [OF ns]
    by (auto simp: session_Update_def post_recv_def update_status_def g_net_close_socket_def
        UnregisterHandler_def epoll_ctl_def session_set_socket_status_def update_register_def
        session_Disposable_def Let_def)
qed

theorem Update_closes_witness:
  "\<exists>s' y'. session_Update quiet_io (first_session\<lparr>s_status := SS_PRECLOSED\<rparr>) first_env first_sys
      = Some (s', first_env, y') \<and> session_Disposable s'
    \<and> sy_log y' = [SysClose 7, SysEpollCtl CtlDel (- 1) 0 None]"
  using Update_closes [of quiet_io "first_session\<lparr>s_status := SS_PRECLOSED\<rparr>" first_env first_sys]
  by (auto simp: quiet_io_def first_session_sel shutdown_due_def first_sys_def)

text \<open>
  C20. A session for which the poller reported an error, a hang-up or the end of the peer is closed
  by the second call of \<^verbatim>\<open>Update\<close>: if the first one gets the lock and returns, the next one that gets
  it leaves the session disposable (the poller having reported nothing else in between).
\<close>

theorem fault_closes_in_two:
  assumes "session_Update io1 s e y = Some (s1, e1, y1)" and "io_lock io1" and "io_lock io2"
    and "closing (s_events s)"
  shows "s_status s1 = SS_PRECLOSED
    \<and> (\<exists>s2 e2 y2. session_Update io2 s1 e1 y1 = Some (s2, e2, y2) \<and> session_Disposable s2 \<and> s_socket s2 = - 1)"
proof -
  note up = Update_parts [OF assms(1,2)]
  obtain r1 r2 e2 r3 e3 y3 r5 e5 y5 where P: "r1 = fst (update_events s (io_so_error io1))"
    "post_recv (io_recvs io1) r1 e = Some (r2, e2)" "post_send (io_sends io1) r2 e2 y = Some (r3, e3, y3)"
    "update_status (if closing (s_events s) then session_set_socket_status r3 SS_ERROR else r3) e3 y3 = (r5, e5, y5)"
    "update_register r5 y5 = Some (s1, y1)" by (rule up)
  have st: "s_status s1 = SS_PRECLOSED"
    using assms(4) update_status_settled [OF P(4)] update_register_status [OF P(5)]
    by (simp add: session_set_socket_status_def)
  have ev: "s_events s1 = 0"
    using post_recv_status [OF P(2)] post_send_status [OF P(3)] update_status_settled [OF P(4)]
      update_register_status [OF P(5)]
    by (simp add: P(1) update_events_sel session_set_socket_status_def split: if_splits)
  have u: "update_events s1 (io_so_error io2) = (s1, False)" using ev by (simp add: update_events_def)
  have ns: "s_status s1 \<noteq> SS_RUNNING" using st by simp
  have "\<exists>s2 e2 y2. session_Update io2 s1 e1 y1 = Some (s2, e2, y2) \<and> session_Disposable s2 \<and> s_socket s2 = - 1"
    using assms(3) u st post_send_idle [OF ns]
    by (auto simp: session_Update_def post_recv_def update_status_def g_net_close_socket_def
        session_set_socket_status_def update_register_def session_Disposable_def Let_def)
  with st show ?thesis by simp
qed

lemma first_hangup_Update:
  "\<exists>s e y. session_Update quiet_io (session_callback first_session EPOLLHUP) first_env first_sys = Some (s, e, y)"
proof -
  have "ne_clock first_env n = word_of_nat n" "ne_reads first_env = 0" "sy_log first_sys = []"
    "sy_ctl first_sys n = 0" for n by (simp_all add: first_env_def first_sys_def)
  then show ?thesis
    by (simp add: session_Update_def session_callback_def quiet_io_def update_events_def post_recv_def
        first_session_sel post_send_def has_flag_def session_set_socket_status_def
        update_status_def update_register_def sys_consts Let_def)
qed

theorem fault_closes_in_two_witness:
  "\<exists>s e y s2 e2 y2. session_Update quiet_io (session_callback first_session EPOLLHUP) first_env first_sys = Some (s, e, y)
    \<and> session_Update quiet_io s e y = Some (s2, e2, y2) \<and> session_Disposable s2"
proof -
  obtain s e y where u: "session_Update quiet_io (session_callback first_session EPOLLHUP) first_env first_sys
      = Some (s, e, y)" using first_hangup_Update by blast
  have "io_lock quiet_io" "closing (s_events (session_callback first_session EPOLLHUP))"
    by (simp_all add: quiet_io_def closing_def session_callback_def has_flag_def sys_consts)
  with fault_closes_in_two [OF u, of quiet_io] u show ?thesis by blast
qed

text \<open>
  The peer's orderly close of a drained running session is answered in the same call: the end of
  the stream asks for the disconnection, the socket is shut down, and the session is about to close.
\<close>

theorem peer_close:
  assumes "io_lock io" and "s_status s = SS_RUNNING" and "s_events s = 0" and "s_rd_ready s"
    and "\<not> s_recv_over s" and "\<not> s_send_over s" and "s_msg_send s = None" and "s_que_send s = []"
    and "io_recvs io = RecvBytes [] # rs"
  shows "\<exists>s' e' y'. session_Update io s e y = Some (s', e', y') \<and> s_status s' = SS_PRECLOSED
    \<and> sy_log y' = sy_log y @ [SysShutdown (s_socket s)]"
proof -
  let ?r = "session_Disconnect (s\<lparr>s_recv_over := True\<rparr>)"
  have 1: "update_events s (io_so_error io) = (s, False)" using assms(3) by (simp add: update_events_def)
  have 2: "post_recv (io_recvs io) s e = Some (?r, e)" using assms(2,4,5,9) by (simp add: post_recv_def)
  have r: "s_msg_send ?r = None" "s_que_send ?r = []" "\<not> s_send_over ?r" "s_socket ?r = s_socket s"
    "s_status ?r = SS_RUNNING" "s_recv_over ?r"
    using assms(2,6,7,8) by (simp_all add: session_Disconnect_def)
  have 3: "post_send (io_sends io) ?r e y = Some (?r\<lparr>s_send_over := True\<rparr>, e, sys_do (SysShutdown (s_socket s)) y)"
    using r by (simp add: post_send_def)
  obtain s5 e5 y5 where 5: "update_status (?r\<lparr>s_send_over := True\<rparr>) e (sys_do (SysShutdown (s_socket s)) y) = (s5, e5, y5)"
    by (rule prod_cases3)
  have 6: "s_status s5 = SS_PRECLOSED" "y5 = sys_do (SysShutdown (s_socket s)) y"
    using update_status_settled [OF 5] 5 r
    by (auto simp: update_status_def session_set_socket_status_def read_clock_def Let_def split: if_splits)
  then have "update_register s5 y5 = Some (s5, y5)" by (simp add: update_register_def)
  then show ?thesis using assms(1) 1 2 3 5 6 by (simp add: session_Update_def)
qed

theorem peer_close_witness:
  "\<exists>s' e' y'. session_Update (quiet_io\<lparr>io_recvs := [RecvBytes []]\<rparr>) first_session first_env first_sys
      = Some (s', e', y') \<and> s_status s' = SS_PRECLOSED \<and> sy_log y' = [SysShutdown 7]"
  using peer_close [of "quiet_io\<lparr>io_recvs := [RecvBytes []]\<rparr>" first_session "[]" first_env first_sys]
  by (simp add: quiet_io_def first_session_sel first_sys_def)

section \<open>Inactivity\<close>

text \<open>
  A running session is disconnected by the activity check exactly when the clock, read as an
  unsigned 64 bit number of seconds, is more than 60 ahead of the last message; a clock that reads
  earlier than that (set back meanwhile) counts as far ahead and disconnects as well.
\<close>

theorem inactivity:
  assumes "s_status s = SS_RUNNING" and "update_status s e y = (s', e', y')"
    and "now = ne_clock e (ne_reads e)"
  shows "(s_disconnect s' \<longleftrightarrow> s_disconnect s \<or> 60 < (int (unat now) - int (unat (s_last_active_t s))) mod 2 ^ 64)
    \<and> (unat now < unat (s_last_active_t s) \<and> unat (s_last_active_t s) < 2 ^ 63 \<longrightarrow> s_disconnect s')"
proof -
  let ?d = "now - s_last_active_t s"
  have d: "int (unat ?d) = (int (unat now) - int (unat (s_last_active_t s))) mod 2 ^ 64"
    by (simp add: uint_word_ariths(2))
  have "s_disconnect s' \<longleftrightarrow> s_disconnect s \<or> 60 < ?d"
    using assms
    by (auto simp: update_status_def session_set_socket_status_def session_Disconnect_def read_clock_def
        Let_def split: if_splits)
  moreover have "60 < ?d \<longleftrightarrow> 60 < int (unat ?d)"
    by (simp add: word_less_def)
  moreover have "60 < (int (unat now) - int (unat (s_last_active_t s))) mod 2 ^ 64"
    if "unat now < unat (s_last_active_t s)" "unat (s_last_active_t s) < 2 ^ 63"
  proof -
    let ?a = "int (unat now) - int (unat (s_last_active_t s))"
    have b: "unat (s_last_active_t s) < 9223372036854775808" using that(2) by simp
    have p: "(2 :: int) ^ 64 = 18446744073709551616" by simp
    have "?a mod 2 ^ 64 = (?a + 2 ^ 64) mod 2 ^ 64" by simp
    also have "\<dots> = ?a + 2 ^ 64" by (rule mod_pos_pos_trivial; unfold p; use that(1) b in linarith)
    finally show ?thesis unfolding p using that(1) b by linarith
  qed
  ultimately show ?thesis using d by simp
qed

theorem inactivity_witness:
  "\<exists>s' e' y'. update_status (first_session\<lparr>s_last_active_t := 100\<rparr>) first_env first_sys = (s', e', y')
    \<and> s_disconnect s'"
proof -
  obtain s' e' y' where u: "update_status (first_session\<lparr>s_last_active_t := 100\<rparr>) first_env first_sys = (s', e', y')"
    by (rule prod_cases3)
  have "s_status (first_session\<lparr>s_last_active_t := 100\<rparr>) = SS_RUNNING" by (simp add: first_session_sel)
  from inactivity [OF this u refl] show ?thesis using u by (simp add: first_env_def)
qed

section \<open>Destruction\<close>

text \<open>
  Destroying a session gives the message being sent back to the pool and closes its socket, but
  none of the buffers still queued for sending goes back: the pool grows by at most one.
\<close>

theorem destroy_leaks_queue:
  "case session_destroy s e y of (s', e', y') \<Rightarrow>
     msg_recycle (ne_mq2 e') = msg_recycle (ne_mq2 e) @ (case s_msg_send s of None \<Rightarrow> [] | Some m \<Rightarrow> [m])
     \<and> s_que_send s' = s_que_send s \<and> s_socket s' = - 1"
  by (auto simp: session_destroy_def FreeMessage_def g_net_close_socket_def Let_def split: option.splits if_splits)

end
