(* ===== verification/Listener.thy ===== *)
theory Listener
  imports Sockets
begin

text \<open>
  The accepting socket on Linux: \<^verbatim>\<open>libcore/include/listener.h\<close> and the Linux half of
  \<^verbatim>\<open>libcore/src/listener.cpp\<close>.  The members carry no lock: the poller thread runs the callback, the
  logic thread the rest, and every function is one step of the model.  The virtual hook
  \<^verbatim>\<open>on_accept\<close> is left to the owner: the functions return the accepted descriptors in the order in
  which the hook is called.
\<close>

datatype listener_status = LS_UNINIT | LS_RUNNING | LS_ERROR | LS_CLOSING | LS_PRECLOSED | LS_CLOSED

record listener =
  l_id :: nat
  l_socket :: int
  l_key :: "completion_key option"
  l_error :: u32
  l_status :: listener_status
  l_accept_pending :: bool

definition listener_new :: "nat \<Rightarrow> listener" where
  "listener_new i = \<lparr>l_id = i, l_socket = - 1, l_key = None, l_error = 0, l_status = LS_UNINIT,
     l_accept_pending = False\<rparr>"

definition listener_Active :: "listener \<Rightarrow> bool" where
  "listener_Active l \<longleftrightarrow> l_status l = LS_RUNNING"

definition listener_Disposable :: "listener \<Rightarrow> bool" where
  "listener_Disposable l \<longleftrightarrow> l_status l = LS_CLOSED"

definition listener_on_accept_error :: "listener \<Rightarrow> u32 \<Rightarrow> listener" where
  "listener_on_accept_error l err = l\<lparr>l_error := err, l_status := LS_ERROR\<rparr>"

section \<open>Accepting\<close>

datatype accept_reply = AcceptOk int | AcceptErr u32

text \<open>
  The loop: the result is the return value, the listener, the log and the accepted descriptors.
  \<open>None\<close>: the answers ended before the loop was left, or a running listener has no key.
\<close>

fun post_accept :: "accept_reply list \<Rightarrow> listener \<Rightarrow> sys \<Rightarrow> (bool \<times> listener \<times> sys \<times> int list) option" where
  "post_accept rs l y =
     (if l_status l \<noteq> LS_RUNNING then Some (True, l, y, [])
      else (case rs of
              [] \<Rightarrow> None
            | AcceptErr err # rs' \<Rightarrow>
                if err = EINTR \<or> err = ECONNABORTED then post_accept rs' l y
                else if err = EAGAIN
                then do {
                  k \<leftarrow> l_key l;
                  let (ok, k1, y1) = RegisterHandler (l_socket l) k (or EPOLLIN EPOLLONESHOT) y;
                  Some (True, l\<lparr>l_accept_pending := True, l_key := Some k1\<rparr>, y1, [])
                }
                else Some (False, listener_on_accept_error l err, y, [])
            | AcceptOk sock # rs' \<Rightarrow>
                map_option (\<lambda>(r, l', y', socks). (r, l', y', sock # socks)) (post_accept rs' l y)))"

declare post_accept.simps [simp del]

definition listener_callback :: "u32 \<Rightarrow> u32 \<Rightarrow> accept_reply list \<Rightarrow> listener \<Rightarrow> sys \<Rightarrow>
    (listener \<times> sys \<times> int list) option" where
  "listener_callback events so_error rs l y =
     (let l1 = l\<lparr>l_accept_pending := False\<rparr>
      in if has_flag events EPOLLERR then Some (listener_on_accept_error l1 so_error, y, [])
         else if has_flag events EPOLLIN
         then map_option (\<lambda>(r, l', y', socks). (l', y', socks)) (post_accept rs l1 y)
         else Some (l1, y, []))"

section \<open>Opening and closing\<close>

text \<open>What the calls of \<^verbatim>\<open>Init\<close> return: the new descriptor, the results, and the errno read afterwards.\<close>

record listen_io =
  li_socket :: int
  li_pton :: int
  li_bind :: int
  li_listen :: int
  li_errno :: u32
  li_accepts :: "accept_reply list"

definition listener_Init :: "listen_io \<Rightarrow> u16 \<Rightarrow> listener \<Rightarrow> sys \<Rightarrow> (bool \<times> listener \<times> sys \<times> int list) option" where
  "listener_Init io port l y =
     (let l1 = l\<lparr>l_status := LS_CLOSED, l_socket := li_socket io\<rparr>;
          fail = (\<lambda>y. let (sock, y1) = g_net_close_socket (l_socket l1) y
                      in Some (False, l1\<lparr>l_error := li_errno io, l_socket := sock\<rparr>, y1, []))
      in if li_socket io = - 1 then Some (False, l1, y, [])
         else if li_pton io \<noteq> 1 then fail y
         else let y1 = sys_do (SysBind (l_socket l1) port) y
              in if li_bind io = - 1 then fail y1
                 else let y2 = sys_do (SysListen (l_socket l1) 128) y1
                      in if li_listen io = - 1 then fail y2
                         else post_accept (li_accepts io)
                                (l1\<lparr>l_key := Some \<lparr>ck_obj = l_id l1, ck_func = ListenerCb, ck_status = IO_STATUS_COMPLETED\<rparr>,
                                    l_status := LS_RUNNING\<rparr>) y2)"

definition listener_Close :: "listener \<Rightarrow> sys \<Rightarrow> listener \<times> sys" where
  "listener_Close l y =
     (if l_status l = LS_RUNNING
      then let (sock, y1) = g_net_close_socket (l_socket l) y
           in (l\<lparr>l_socket := sock, l_status := LS_CLOSING\<rparr>, y1)
      else (l, y))"

definition listener_Update :: "listener \<Rightarrow> sys \<Rightarrow> listener \<times> sys" where
  "listener_Update l y =
     (case l_status l of
        LS_ERROR \<Rightarrow> (l\<lparr>l_status := LS_PRECLOSED\<rparr>, y)
      | LS_CLOSING \<Rightarrow> (l\<lparr>l_status := LS_PRECLOSED\<rparr>, y)
      | LS_PRECLOSED \<Rightarrow>
          let y1 = UnregisterHandler (l_socket l) y;
              (sock, y2) = g_net_close_socket (l_socket l) y1
          in (l\<lparr>l_socket := sock, l_status := LS_CLOSED\<rparr>, y2)
      | _ \<Rightarrow> (l, y))"

declare listener_new_def [code_defs] listener_Active_def [code_defs] listener_Disposable_def [code_defs]
  listener_on_accept_error_def [code_defs] listener_callback_def [code_defs] listener_Init_def [code_defs]
  listener_Close_def [code_defs] listener_Update_def [code_defs]

section \<open>Properties\<close>

text \<open>The descriptors that \<^verbatim>\<open>accept4\<close> returned before the loop was left.\<close>

fun accepted :: "accept_reply list \<Rightarrow> int list" where
  "accepted (AcceptOk sock # rs) = sock # accepted rs"
| "accepted (AcceptErr err # rs) = (if err = EINTR \<or> err = ECONNABORTED then accepted rs else [])"
| "accepted [] = []"

fun first_stop :: "accept_reply list \<Rightarrow> u32 option" where
  "first_stop (AcceptOk sock # rs) = first_stop rs"
| "first_stop (AcceptErr err # rs) = (if err = EINTR \<or> err = ECONNABORTED then first_stop rs else Some err)"
| "first_stop [] = None"

lemma post_accept_spec:
  assumes "l_status l = LS_RUNNING" and "l_key l = Some k" and "first_stop rs = Some err"
  shows "\<exists>y'. post_accept rs l y =
    (if err = EAGAIN
     then Some (True, l\<lparr>l_accept_pending := True, l_key := Some (k\<lparr>ck_status := IO_STATUS_PENDING\<rparr>)\<rparr>, y', accepted rs)
     else Some (False, listener_on_accept_error l err, y', accepted rs))"
  using assms(3)
proof (induction rs)
  case Nil
  then show ?case by simp
next
  case (Cons r rs)
  show ?case
  proof (cases r)
    case (AcceptOk sock)
    then show ?thesis using Cons assms(1) by (cases "err = EAGAIN") (auto simp: post_accept.simps [of "_ # _"])
  next
    case (AcceptErr e)
    show ?thesis
    proof (cases "e = EINTR \<or> e = ECONNABORTED")
      case True
      then have "post_accept (r # rs) l y = post_accept rs l y"
        using AcceptErr assms(1) by (simp add: post_accept.simps [of "_ # _"])
      then show ?thesis using True AcceptErr Cons by auto
    next
      case False
      then have "err = e" using AcceptErr Cons.prems by simp
      then show ?thesis
        using False AcceptErr assms RegisterHandler_key [of "l_socket l" k "or EPOLLIN EPOLLONESHOT" y]
        by (cases "RegisterHandler (l_socket l) k (or EPOLLIN EPOLLONESHOT) y")
          (auto simp: post_accept.simps [of "_ # _"])
    qed
  qed
qed

lemma callback_accepts:
  assumes "l_status l = LS_RUNNING" and "l_key l = Some k" and "first_stop rs = Some err"
    and "\<not> has_flag events EPOLLERR" and "has_flag events EPOLLIN"
  shows "\<exists>l' y'. listener_callback events so_error rs l y = Some (l', y', accepted rs)
    \<and> l_status l' = (if err = EAGAIN then LS_RUNNING else LS_ERROR) \<and> l_accept_pending l' = (err = EAGAIN)"
proof -
  have "l_status (l\<lparr>l_accept_pending := False\<rparr>) = LS_RUNNING" "l_key (l\<lparr>l_accept_pending := False\<rparr>) = Some k"
    using assms by simp_all
  from post_accept_spec [OF this assms(3), of y] show ?thesis
    using assms(1,4,5) by (auto simp: listener_callback_def listener_on_accept_error_def split: if_splits)
qed

text \<open>
  An incoming connection event takes every connection that is waiting: the hook is called with
  each accepted descriptor, in order, interrupted and aborted calls are repeated, and the listener
  either waits for the next event or, on any other error, goes into the error status.
\<close>

theorem listener_accepts_all:
  assumes "l_status l = LS_RUNNING" and "l_key l = Some k" and "first_stop rs = Some err"
    and "\<not> has_flag events EPOLLERR" and "has_flag events EPOLLIN"
  shows "\<exists>l' y'. listener_callback events so_error rs l y = Some (l', y', accepted rs)
    \<and> l_status l' = (if err = EAGAIN then LS_RUNNING else LS_ERROR) \<and> l_accept_pending l' = (err = EAGAIN)"
  by (rule callback_accepts [OF assms])

theorem listener_accepts_all_witness:
  "\<exists>l' y'. listener_callback EPOLLIN 0 [AcceptOk 5, AcceptErr EINTR, AcceptOk 6, AcceptErr EAGAIN]
      ((listener_new 1)\<lparr>l_status := LS_RUNNING, l_key := Some \<lparr>ck_obj = 1, ck_func = ListenerCb, ck_status = IO_STATUS_PENDING\<rparr>\<rparr>)
      \<lparr>sy_log = [], sy_ctl = (\<lambda>n. 0), sy_ctls = 0\<rparr> = Some (l', y', [5, 6])
    \<and> l_status l' = LS_RUNNING"
proof -
  let ?l = "(listener_new 1)\<lparr>l_status := LS_RUNNING, l_key := Some \<lparr>ck_obj = 1, ck_func = ListenerCb, ck_status = IO_STATUS_PENDING\<rparr>\<rparr>"
  have "l_status ?l = LS_RUNNING" "l_key ?l = Some \<lparr>ck_obj = 1, ck_func = ListenerCb, ck_status = IO_STATUS_PENDING\<rparr>"
    "first_stop [AcceptOk 5, AcceptErr EINTR, AcceptOk 6, AcceptErr EAGAIN] = Some EAGAIN"
    "\<not> has_flag EPOLLIN EPOLLERR" "has_flag EPOLLIN EPOLLIN"
    by (simp_all add: sys_consts has_flag_def)
  from listener_accepts_all [OF this, of 0 "\<lparr>sy_log = [], sy_ctl = (\<lambda>n. 0), sy_ctls = 0\<rparr>"]
  show ?thesis by (auto simp: sys_consts)
qed

text \<open>
  After \<^verbatim>\<open>Close\<close> two calls of \<^verbatim>\<open>Update\<close> make any initialised listener disposable, whatever its
  status was, and its socket is gone.
\<close>

theorem listener_close_disposes:
  assumes "l_status l \<noteq> LS_UNINIT" and "l_status l = LS_CLOSED \<longrightarrow> l_socket l = - 1"
  shows "case listener_Close l y of (l1, y1) \<Rightarrow> case listener_Update l1 y1 of (l2, y2) \<Rightarrow>
    case listener_Update l2 y2 of (l3, y3) \<Rightarrow> listener_Disposable l3 \<and> l_socket l3 = - 1"
  using assms
  by (cases "l_status l")
    (simp_all add: listener_Close_def listener_Update_def listener_Disposable_def g_net_close_socket_def Let_def)

theorem listener_close_disposes_witness:
  "case listener_Close ((listener_new 1)\<lparr>l_status := LS_RUNNING, l_socket := 5\<rparr>) \<lparr>sy_log = [], sy_ctl = (\<lambda>n. 0), sy_ctls = 0\<rparr> of
     (l1, y1) \<Rightarrow> case listener_Update l1 y1 of (l2, y2) \<Rightarrow> case listener_Update l2 y2 of (l3, y3) \<Rightarrow>
     listener_Disposable l3 \<and> l_socket l3 = - 1"
  by (rule listener_close_disposes) simp_all

end
