(* ===== verification/Connector.thy ===== *)
theory Connector
  imports Sockets
begin

text \<open>
  The connecting socket on Linux: \<^verbatim>\<open>libcore/include/connector.h\<close> and the Linux half of
  \<^verbatim>\<open>libcore/src/connector.cpp\<close>.  The virtual hook \<^verbatim>\<open>on_connect\<close> is a parameter: it may change the
  world around the connector and even delete the connector, in which case it returns no object
  and whatever the caller still does with it is undefined.
\<close>

datatype connector_status = CS_UNINIT | CS_CONNECTING | CS_ERROR | CS_CLOSED

text \<open>\<open>c_events\<close> has no initialiser in the source: until the callback has run its value is indeterminate.\<close>

record connector =
  c_id :: nat
  c_socket :: int
  c_status :: connector_status
  c_key :: "completion_key option"
  c_error :: u32
  c_events :: "u32 option"

type_synonym 'w connect_hook = "connector \<Rightarrow> sys \<Rightarrow> 'w \<Rightarrow> connector option \<times> sys \<times> 'w"

definition connector_new :: "nat \<Rightarrow> connector" where
  "connector_new i = \<lparr>c_id = i, c_socket = - 1, c_status = CS_UNINIT, c_key = None, c_error = 0, c_events = None\<rparr>"

definition connector_Disposable :: "connector \<Rightarrow> bool" where
  "connector_Disposable c \<longleftrightarrow> c_status c = CS_CLOSED \<or> c_status c = CS_UNINIT"

definition connector_DetachSocket :: "connector \<Rightarrow> connector" where
  "connector_DetachSocket c = c\<lparr>c_socket := - 1, c_key := None\<rparr>"

definition connector_destroy :: "connector \<Rightarrow> sys \<Rightarrow> connector \<times> sys" where
  "connector_destroy c y =
     (let (sock, y1) = g_net_close_socket (c_socket c) y in (c\<lparr>c_key := None, c_socket := sock\<rparr>, y1))"

definition connector_callback :: "connector \<Rightarrow> u32 \<Rightarrow> connector" where
  "connector_callback c events = c\<lparr>c_events := Some events\<rparr>"

definition connector_on_connect_error :: "connector \<Rightarrow> u32 \<Rightarrow> connector" where
  "connector_on_connect_error c err = c\<lparr>c_error := err, c_status := CS_ERROR\<rparr>"

text \<open>The hook of the base class only writes to the log file.\<close>

definition base_on_connect :: "'w connect_hook" where
  "base_on_connect c y w = (Some c, y, w)"

datatype connect_reply = ConnOk | ConnErr u32

fun post_connect :: "'w connect_hook \<Rightarrow> connect_reply list \<Rightarrow> connector \<Rightarrow> sys \<Rightarrow> 'w \<Rightarrow>
    (bool \<times> connector \<times> sys \<times> 'w) option" where
  "post_connect hook rs c y w =
     (if c_status c \<noteq> CS_CONNECTING then Some (True, c, y, w)
      else (case rs of
              [] \<Rightarrow> None
            | ConnErr err # rs' \<Rightarrow>
                if err = EINPROGRESS \<or> err = EAGAIN
                then do {
                  k \<leftarrow> c_key c;
                  let (ok, k1, y1) = RegisterHandler (c_socket c) k (or EPOLLOUT EPOLLONESHOT) y;
                  Some (True, c\<lparr>c_key := Some k1\<rparr>, y1, w)
                }
                else if err = EINTR then post_connect hook rs' c y w
                else Some (False, connector_on_connect_error c err, y, w)
            | ConnOk # rs' \<Rightarrow> do {
                let (c', y', w') = hook c y w;
                c1 \<leftarrow> c';
                Some (True, c1\<lparr>c_status := CS_CLOSED\<rparr>, y', w')
              }))"

declare post_connect.simps [simp del]

record connect_io =
  ci_socket :: int
  ci_bind :: int
  ci_pton :: int
  ci_errno :: u32
  ci_replies :: "connect_reply list"

definition connector_Connect :: "'w connect_hook \<Rightarrow> connect_io \<Rightarrow> connector \<Rightarrow> sys \<Rightarrow> 'w \<Rightarrow>
    (bool \<times> connector \<times> sys \<times> 'w) option" where
  "connector_Connect hook io c y w =
     (let c1 = c\<lparr>c_status := CS_CLOSED, c_socket := ci_socket io\<rparr>;
          fail = (\<lambda>y. let (sock, y1) = g_net_close_socket (c_socket c1) y
                      in Some (False, c1\<lparr>c_error := ci_errno io, c_socket := sock\<rparr>, y1, w))
      in if ci_socket io = - 1 then Some (False, c1, y, w)
         else let y1 = sys_do (SysBind (c_socket c1) 0) y
              in if ci_bind io = - 1 then fail y1
                 else if ci_pton io \<noteq> 1 then fail y1
                 else post_connect hook (ci_replies io)
                        (c1\<lparr>c_key := Some \<lparr>ck_obj = c_id c1, ck_func = ConnectorCb, ck_status = IO_STATUS_COMPLETED\<rparr>,
                            c_status := CS_CONNECTING\<rparr>) y1 w)"

definition connector_Abort :: "connector \<Rightarrow> sys \<Rightarrow> connector \<times> sys" where
  "connector_Abort c y =
     (if c_status c = CS_CONNECTING
      then let (sock, y1) = g_net_close_socket (c_socket c) y in (c\<lparr>c_socket := sock\<rparr>, y1)
      else (c, y))"

record conn_update_io =
  cu_lock :: bool
  cu_so_error :: u32
  cu_replies :: "connect_reply list"

text \<open>Reading the events before the callback wrote them is undefined: \<open>None\<close>.\<close>

definition connector_events :: "'w connect_hook \<Rightarrow> conn_update_io \<Rightarrow> connector \<Rightarrow> sys \<Rightarrow> 'w \<Rightarrow>
    (connector \<times> sys \<times> 'w) option" where
  "connector_events hook io c y w = do {
     ev \<leftarrow> c_events c;
     if ev \<noteq> 0 then do {
       (c1, y1, w1) \<leftarrow>
         (if has_flag ev EPOLLOUT
          then if cu_so_error io = 0
               then map_option (\<lambda>(r, c1, y1, w1). (c1, y1, w1)) (post_connect hook (cu_replies io) c y w)
               else Some (c\<lparr>c_error := cu_so_error io, c_status := CS_ERROR\<rparr>, y, w)
          else Some (c, y, w));
       Some (c1\<lparr>c_events := Some 0\<rparr>, y1, w1)
     }
     else Some (c, y, w)
   }"

definition connector_Update :: "'w connect_hook \<Rightarrow> conn_update_io \<Rightarrow> connector \<Rightarrow> sys \<Rightarrow> 'w \<Rightarrow>
    (connector \<times> sys \<times> 'w) option" where
  "connector_Update hook io c y w =
     (if \<not> cu_lock io then Some (c, y, w)
      else do {
        (c1, y1, w1) \<leftarrow> connector_events hook io c y w;
        Some (if c_status c1 = CS_ERROR then c1\<lparr>c_status := CS_CLOSED\<rparr> else c1, y1, w1)
      })"

declare connector_new_def [code_defs] connector_Disposable_def [code_defs] connector_DetachSocket_def [code_defs]
  connector_destroy_def [code_defs] connector_callback_def [code_defs] connector_on_connect_error_def [code_defs]
  base_on_connect_def [code_defs] connector_Connect_def [code_defs] connector_Abort_def [code_defs]
  connector_events_def [code_defs] connector_Update_def [code_defs]

section \<open>Properties\<close>

text \<open>
  A failed connection attempt reported by the poller ends in the same call: the error code is
  kept and the connector becomes disposable.
\<close>

theorem connect_failure:
  assumes "cu_lock io" and "c_events c = Some ev" and "has_flag ev EPOLLOUT" and "cu_so_error io \<noteq> 0"
  shows "\<exists>c'. connector_Update hook io c y w = Some (c', y, w) \<and> connector_Disposable c'
    \<and> c_error c' = cu_so_error io \<and> c_socket c' = c_socket c"
proof -
  have "ev \<noteq> 0" using assms(3) by (auto simp: has_flag_def)
  then show ?thesis
    using assms by (simp add: connector_Update_def connector_events_def connector_Disposable_def)
qed

theorem connect_failure_witness:
  "\<exists>c'. connector_Update base_on_connect \<lparr>cu_lock = True, cu_so_error = 111, cu_replies = []\<rparr>
      ((connector_new 1)\<lparr>c_status := CS_CONNECTING, c_socket := 5, c_events := Some EPOLLOUT\<rparr>)
      \<lparr>sy_log = [], sy_ctl = (\<lambda>n. 0), sy_ctls = 0\<rparr> () = Some (c', \<lparr>sy_log = [], sy_ctl = (\<lambda>n. 0), sy_ctls = 0\<rparr>, ())
    \<and> connector_Disposable c' \<and> c_error c' = 111"
proof -
  have "has_flag EPOLLOUT EPOLLOUT" by (simp add: has_flag_def sys_consts)
  then show ?thesis
    using connect_failure [of "\<lparr>cu_lock = True, cu_so_error = 111, cu_replies = []\<rparr>"
        "(connector_new 1)\<lparr>c_status := CS_CONNECTING, c_socket := 5, c_events := Some EPOLLOUT\<rparr>" EPOLLOUT
        base_on_connect "\<lparr>sy_log = [], sy_ctl = (\<lambda>n. 0), sy_ctls = 0\<rparr>" "()"]
    by auto
qed

text \<open>
  \<^verbatim>\<open>Update\<close> reads \<^verbatim>\<open>_events\<close> before anything wrote it: after a connection attempt that is in
  progress, every call of \<^verbatim>\<open>Update\<close> before the poller's callback has no defined result.
\<close>

theorem connector_uninitialised_events:
  assumes "ci_socket io \<noteq> - 1" and "ci_bind io \<noteq> - 1" and "ci_pton io = 1"
    and "ci_replies io = ConnErr EINPROGRESS # rs" and "cu_lock uio"
  shows "\<exists>c y'. connector_Connect hook io (connector_new i) y w = Some (True, c, y', w)
    \<and> c_status c = CS_CONNECTING \<and> connector_Update hook uio c y' w = None"
proof -
  have undef: "connector_Update hook uio c y' w = None" if "c_events c = None" for c y'
    using assms(5) that by (simp add: connector_Update_def connector_events_def)
  show ?thesis
    using assms(1-4)
    by (auto simp: connector_Connect_def connector_new_def post_connect.simps Let_def
        intro!: undef split: prod.split)
qed

theorem connector_uninitialised_events_witness:
  "\<exists>c y'. connector_Connect base_on_connect \<lparr>ci_socket = 5, ci_bind = 0, ci_pton = 1, ci_errno = 0,
        ci_replies = [ConnErr EINPROGRESS]\<rparr> (connector_new 1) \<lparr>sy_log = [], sy_ctl = (\<lambda>n. 0), sy_ctls = 0\<rparr> ()
      = Some (True, c, y', ())
    \<and> connector_Update base_on_connect \<lparr>cu_lock = True, cu_so_error = 0, cu_replies = []\<rparr> c y' () = None"
  using connector_uninitialised_events [of "\<lparr>ci_socket = 5, ci_bind = 0, ci_pton = 1, ci_errno = 0,
      ci_replies = [ConnErr EINPROGRESS]\<rparr>" "[]" "\<lparr>cu_lock = True, cu_so_error = 0, cu_replies = []\<rparr>"
      base_on_connect 1 "\<lparr>sy_log = [], sy_ctl = (\<lambda>n. 0), sy_ctls = 0\<rparr>" "()"]
  by (simp add: sys_consts) blast

end
