(* ===== verification/NetMgr.thy ===== *)
theory NetMgr
  imports SessionWire Listener Connector "HOL-Library.Sublist"
begin

text \<open>
  The owner of all network objects of the game server: \<^verbatim>\<open>gameserver/netmgr.h\<close>, \<^verbatim>\<open>netmgr.cpp\<close> and the
  subclasses in \<^verbatim>\<open>ClientListener.cpp\<close>, \<^verbatim>\<open>ClientConnector.cpp\<close> and \<^verbatim>\<open>ClientSocket.cpp\<close>, which connect
  the hooks of listener and connector to it.

  Objects are held where the only pointer to them is.  The pointer \<^verbatim>\<open>m_connector\<close> can outlive its
  object; using it then is undefined, as is everything the deleted object's own functions still do.
\<close>

section \<open>State\<close>

datatype connector_ptr = NoConnector | Connecting connector | DeletedConnector

record netmgr =
  nm_listener :: "listener option"
  nm_connector :: connector_ptr
  nm_clients :: "session list"
  nm_servers :: "session list"

text \<open>
  The world around: the queues and the clock of the sessions, the next address for a new object,
  and the sessions that no pointer leads to any more.
\<close>

record world =
  w_mgr :: netmgr
  w_env :: net_env
  w_next :: nat
  w_lost :: "session list"

definition netmgr_new :: netmgr where
  "netmgr_new = \<lparr>nm_listener = None, nm_connector = NoConnector, nm_clients = [], nm_servers = []\<rparr>"

section \<open>The hooks\<close>

text \<open>A new session for an accepted socket joins the clients.\<close>

definition OnAccepted :: "int \<Rightarrow> world \<Rightarrow> sys \<Rightarrow> world \<times> sys" where
  "OnAccepted sock w y =
     (let (s, e) = session_new (w_next w) (w_env w);
          (s1, y1) = session_Attach s sock None y
      in (w\<lparr>w_env := e, w_next := Suc (w_next w),
            w_mgr := (w_mgr w)\<lparr>nm_clients := nm_clients (w_mgr w) @ [s1]\<rparr>\<rparr>, y1))"

fun accept_all :: "int list \<Rightarrow> world \<Rightarrow> sys \<Rightarrow> world \<times> sys" where
  "accept_all [] w y = (w, y)"
| "accept_all (sock # socks) w y = (let (w1, y1) = OnAccepted sock w y in accept_all socks w1 y1)"

text \<open>
  A connected socket moves, with its completion key, into a new server session whose pointer is a
  local variable; then the connector is deleted and \<^verbatim>\<open>m_connector\<close> keeps pointing at it.
\<close>

definition OnConnected :: "world connect_hook" where
  "OnConnected c y w =
     (let (s, e) = session_new (w_next w) (w_env w);
          (s1, y1) = session_Attach s (c_socket c) (c_key c) y;
          c1 = connector_DetachSocket c;
          (c2, y2) = connector_destroy c1 y1
      in (None, y2, w\<lparr>w_env := e, w_next := Suc (w_next w), w_lost := w_lost w @ [s1],
                      w_mgr := (w_mgr w)\<lparr>nm_connector := DeletedConnector\<rparr>\<rparr>))"

section \<open>Operations\<close>

definition NetMgr_Begin :: "listen_io \<Rightarrow> u16 \<Rightarrow> world \<Rightarrow> sys \<Rightarrow> (world \<times> sys) option" where
  "NetMgr_Begin io port w y = do {
     (ok, l, y1, socks) \<leftarrow> listener_Init io port (listener_new (w_next w)) y;
     let w1 = w\<lparr>w_next := Suc (w_next w), w_mgr := (w_mgr w)\<lparr>nm_listener := Some l\<rparr>\<rparr>;
     Some (accept_all socks w1 y1)
   }"

text \<open>The poller's event for the listener.\<close>

definition NetMgr_listener_event :: "u32 \<Rightarrow> u32 \<Rightarrow> accept_reply list \<Rightarrow> world \<Rightarrow> sys \<Rightarrow> (world \<times> sys) option" where
  "NetMgr_listener_event events so_error rs w y = do {
     l \<leftarrow> nm_listener (w_mgr w);
     (l1, y1, socks) \<leftarrow> listener_callback events so_error rs l y;
     Some (accept_all socks (w\<lparr>w_mgr := (w_mgr w)\<lparr>nm_listener := Some l1\<rparr>\<rparr>) y1)
   }"

definition NetMgr_ConnTest :: "connect_io \<Rightarrow> world \<Rightarrow> sys \<Rightarrow> (world \<times> sys) option" where
  "NetMgr_ConnTest io w y = do {
     let c = connector_new (w_next w);
     (ok, c1, y1, w1) \<leftarrow> connector_Connect OnConnected io c y
        (w\<lparr>w_next := Suc (w_next w), w_mgr := (w_mgr w)\<lparr>nm_connector := Connecting c\<rparr>\<rparr>);
     Some (w1\<lparr>w_mgr := (w_mgr w1)\<lparr>nm_connector := Connecting c1\<rparr>\<rparr>, y1)
   }"

definition NetMgr_OnQuit :: "world \<Rightarrow> sys \<Rightarrow> (world \<times> sys) option" where
  "NetMgr_OnQuit w y =
     (let (w1, y1) = (case nm_listener (w_mgr w) of
                        None \<Rightarrow> (w, y)
                      | Some l \<Rightarrow> let (l1, y1) = listener_Close l y
                                  in (w\<lparr>w_mgr := (w_mgr w)\<lparr>nm_listener := Some l1\<rparr>\<rparr>, y1))
      in (case nm_connector (w_mgr w1) of
            NoConnector \<Rightarrow> Some (w1, y1)
          | DeletedConnector \<Rightarrow> None
          | Connecting c \<Rightarrow> let (c1, y2) = connector_Abort c y1
                            in Some (w1\<lparr>w_mgr := (w_mgr w1)\<lparr>nm_connector := Connecting c1\<rparr>\<rparr>, y2)))"

text \<open>The loop over a session list: update, and delete what has become disposable.\<close>

fun update_sessions :: "update_io list \<Rightarrow> session list \<Rightarrow> net_env \<Rightarrow> sys \<Rightarrow> (session list \<times> net_env \<times> sys) option" where
  "update_sessions ios [] e y = Some ([], e, y)"
| "update_sessions (io # ios) (s # ss) e y = do {
     (s1, e1, y1) \<leftarrow> session_Update io s e y;
     (if session_Disposable s1
      then let (s2, e2, y2) = session_destroy s1 e1 y1 in update_sessions ios ss e2 y2
      else do { (ss', e', y') \<leftarrow> update_sessions ios ss e1 y1; Some (s1 # ss', e', y') })
   }"
| "update_sessions [] (s # ss) e y = None"

record mgr_io =
  mi_connector :: conn_update_io
  mi_clients :: "update_io list"
  mi_servers :: "update_io list"

definition update_listener :: "world \<Rightarrow> sys \<Rightarrow> world \<times> sys" where
  "update_listener w y =
     (case nm_listener (w_mgr w) of
        None \<Rightarrow> (w, y)
      | Some l \<Rightarrow> let (l1, y1) = listener_Update l y in (w\<lparr>w_mgr := (w_mgr w)\<lparr>nm_listener := Some l1\<rparr>\<rparr>, y1))"

definition update_connector :: "conn_update_io \<Rightarrow> world \<Rightarrow> sys \<Rightarrow> (world \<times> sys) option" where
  "update_connector io w y =
     (case nm_connector (w_mgr w) of
        NoConnector \<Rightarrow> Some (w, y)
      | DeletedConnector \<Rightarrow> None
      | Connecting c \<Rightarrow> do {
          (c1, y1, w1) \<leftarrow> connector_Update OnConnected io c y w;
          Some (w1\<lparr>w_mgr := (w_mgr w1)\<lparr>nm_connector := Connecting c1\<rparr>\<rparr>, y1)
        })"

definition NetMgr_Update :: "mgr_io \<Rightarrow> world \<Rightarrow> sys \<Rightarrow> (world \<times> sys) option" where
  "NetMgr_Update io w y = do {
     let (w1, y1) = update_listener w y;
     (w2, y2) \<leftarrow> update_connector (mi_connector io) w1 y1;
     (cs, e3, y3) \<leftarrow> update_sessions (mi_clients io) (nm_clients (w_mgr w2)) (w_env w2) y2;
     (ss, e4, y4) \<leftarrow> update_sessions (mi_servers io) (nm_servers (w_mgr w2)) e3 y3;
     Some (w2\<lparr>w_env := e4, w_mgr := (w_mgr w2)\<lparr>nm_clients := cs, nm_servers := ss\<rparr>\<rparr>, y4)
   }"

section \<open>Shutting down\<close>

text \<open>
  \<^verbatim>\<open>End\<close> waits in loops.  The n-th round gets the n-th answer of the system; a loop that never ends
  is \<open>None\<close>.
\<close>

partial_function (option) listener_wait :: "listener \<Rightarrow> sys \<Rightarrow> (listener \<times> sys) option" where
  "listener_wait l y =
     (if listener_Disposable l then Some (l, y)
      else let (l1, y1) = listener_Update l y in listener_wait l1 y1)"

partial_function (option) connector_wait :: "(nat \<Rightarrow> conn_update_io) \<Rightarrow> nat \<Rightarrow> connector \<Rightarrow> sys \<Rightarrow> world \<Rightarrow>
    (connector \<times> sys \<times> world) option" where
  "connector_wait ios n c y w =
     (if connector_Disposable c then Some (c, y, w)
      else do {
        (c1, y1, w1) \<leftarrow> connector_Update OnConnected (ios n) c y w;
        connector_wait ios (Suc n) c1 y1 w1
      })"

partial_function (option) session_wait :: "(nat \<Rightarrow> update_io) \<Rightarrow> nat \<Rightarrow> session \<Rightarrow> net_env \<Rightarrow> sys \<Rightarrow>
    (session \<times> net_env \<times> sys) option" where
  "session_wait ios n s e y =
     (if session_Disposable s then Some (s, e, y)
      else do {
        (s1, e1, y1) \<leftarrow> session_Update (ios n) s e y;
        session_wait ios (Suc n) s1 e1 y1
      })"

definition disconnect_active :: "session \<Rightarrow> session" where
  "disconnect_active s = (if session_Active s then session_Disconnect s else s)"

fun wait_sessions :: "(nat \<Rightarrow> nat \<Rightarrow> update_io) \<Rightarrow> session list \<Rightarrow> net_env \<Rightarrow> sys \<Rightarrow> (net_env \<times> sys) option" where
  "wait_sessions ios [] e y = Some (e, y)"
| "wait_sessions ios (s # ss) e y = do {
     (s1, e1, y1) \<leftarrow> session_wait (ios 0) 0 s e y;
     let (s2, e2, y2) = session_destroy s1 e1 y1;
     wait_sessions (\<lambda>i. ios (Suc i)) ss e2 y2
   }"

definition end_listener :: "world \<Rightarrow> sys \<Rightarrow> (world \<times> sys) option" where
  "end_listener w y =
     (case nm_listener (w_mgr w) of
        None \<Rightarrow> Some (w, y)
      | Some l \<Rightarrow> do {
          let (l1, y1) = listener_Close l y;
          (l2, y2) \<leftarrow> listener_wait l1 y1;
          Some (w\<lparr>w_mgr := (w_mgr w)\<lparr>nm_listener := None\<rparr>\<rparr>, y2)
        })"

definition end_connector :: "(nat \<Rightarrow> conn_update_io) \<Rightarrow> world \<Rightarrow> sys \<Rightarrow> (world \<times> sys) option" where
  "end_connector ios w y =
     (case nm_connector (w_mgr w) of
        NoConnector \<Rightarrow> Some (w, y)
      | DeletedConnector \<Rightarrow> None
      | Connecting c \<Rightarrow> do {
          let (c1, y1) = connector_Abort c y;
          (c2, y2, w2) \<leftarrow> connector_wait ios 0 c1 y1 w;
          let (c3, y3) = connector_destroy c2 y2;
          Some (w2\<lparr>w_mgr := (w_mgr w2)\<lparr>nm_connector := NoConnector\<rparr>\<rparr>, y3)
        })"

definition NetMgr_End :: "(nat \<Rightarrow> conn_update_io) \<Rightarrow> (nat \<Rightarrow> nat \<Rightarrow> update_io) \<Rightarrow> (nat \<Rightarrow> nat \<Rightarrow> update_io) \<Rightarrow>
    world \<Rightarrow> sys \<Rightarrow> (world \<times> sys) option" where
  "NetMgr_End cios clients servers w y = do {
     (w1, y1) \<leftarrow> end_listener w y;
     (w2, y2) \<leftarrow> end_connector cios w1 y1;
     let cs = map disconnect_active (nm_clients (w_mgr w2));
     let ss = map disconnect_active (nm_servers (w_mgr w2));
     (e3, y3) \<leftarrow> wait_sessions clients cs (w_env w2) y2;
     (e4, y4) \<leftarrow> wait_sessions servers ss e3 y3;
     Some (w2\<lparr>w_env := e4, w_mgr := (w_mgr w2)\<lparr>nm_clients := [], nm_servers := []\<rparr>\<rparr>, y4)
   }"

declare netmgr_new_def [code_defs] OnAccepted_def [code_defs] OnConnected_def [code_defs]
  NetMgr_Begin_def [code_defs] NetMgr_listener_event_def [code_defs] NetMgr_ConnTest_def [code_defs]
  NetMgr_OnQuit_def [code_defs] update_listener_def [code_defs] update_connector_def [code_defs]
  NetMgr_Update_def [code_defs] disconnect_active_def [code_defs] end_listener_def [code_defs]
  end_connector_def [code_defs] NetMgr_End_def [code_defs]

text \<open>The world the witnesses start from.\<close>

definition first_world :: world where
  "first_world = \<lparr>w_mgr = netmgr_new, w_env = first_env, w_next = 1, w_lost = []\<rparr>"

definition open_listener :: listener where
  "open_listener = (listener_new 1)\<lparr>l_status := LS_RUNNING, l_socket := 3,
     l_key := Some \<lparr>ck_obj = 1, ck_func = ListenerCb, ck_status = IO_STATUS_PENDING\<rparr>\<rparr>"

definition ready_connector :: connector where
  "ready_connector = (connector_new 1)\<lparr>c_status := CS_CONNECTING, c_socket := 4, c_events := Some EPOLLOUT\<rparr>"

section \<open>Accepting\<close>

lemma accept_all_clients:
  "case accept_all socks w y of (w', y') \<Rightarrow>
     (\<exists>ss. nm_clients (w_mgr w') = nm_clients (w_mgr w) @ ss \<and> map s_socket ss = socks \<and> list_all session_Active ss)
     \<and> nm_servers (w_mgr w') = nm_servers (w_mgr w) \<and> nm_listener (w_mgr w') = nm_listener (w_mgr w)"
proof (induction socks arbitrary: w y)
  case Nil
  then show ?case by simp
next
  case (Cons sock socks)
  obtain w1 y1 where 1: "OnAccepted sock w y = (w1, y1)" by (rule prod.exhaust)
  then obtain s where s: "nm_clients (w_mgr w1) = nm_clients (w_mgr w) @ [s]" "s_socket s = sock" "session_Active s"
    "nm_servers (w_mgr w1) = nm_servers (w_mgr w)" "nm_listener (w_mgr w1) = nm_listener (w_mgr w)"
    by (auto simp: OnAccepted_def session_new_def session_Attach_def session_set_socket_status_def
        session_Active_def read_clock_def Let_def)
  show ?case using Cons.IH [where w = w1 and y = y1] 1 s by (auto split: prod.splits)
qed

text \<open>
  An incoming connection event turns every connection that \<^verbatim>\<open>accept4\<close> delivers into a running client
  session of its own, in the order of acceptance, after the clients that were there before.
\<close>

theorem accepted_clients:
  assumes "nm_listener (w_mgr w) = Some l" and "l_status l = LS_RUNNING" and "l_key l = Some k"
    and "first_stop rs = Some err" and "\<not> has_flag events EPOLLERR" and "has_flag events EPOLLIN"
  shows "\<exists>w' y' ss. NetMgr_listener_event events so_error rs w y = Some (w', y')
    \<and> nm_clients (w_mgr w') = nm_clients (w_mgr w) @ ss \<and> map s_socket ss = accepted rs \<and> list_all session_Active ss"
proof -
  obtain l1 y1 where 1: "listener_callback events so_error rs l y = Some (l1, y1, accepted rs)"
    using callback_accepts [OF assms(2-6)] by blast
  let ?w = "w\<lparr>w_mgr := (w_mgr w)\<lparr>nm_listener := Some l1\<rparr>\<rparr>"
  obtain w' y' where 2: "accept_all (accepted rs) ?w y1 = (w', y')" by (rule prod.exhaust)
  show ?thesis
    using accept_all_clients [where socks = "accepted rs" and w = ?w and y = y1] 1 2 assms(1)
    by (auto simp: NetMgr_listener_event_def)
qed

theorem accepted_clients_witness:
  "\<exists>w' y' ss. NetMgr_listener_event EPOLLIN 0 [AcceptOk 5, AcceptOk 6, AcceptErr EAGAIN]
      (first_world\<lparr>w_mgr := netmgr_new\<lparr>nm_listener := Some open_listener\<rparr>\<rparr>) first_sys = Some (w', y')
    \<and> nm_clients (w_mgr w') = ss \<and> map s_socket ss = [5, 6] \<and> list_all session_Active ss"
proof -
  have "has_flag EPOLLIN EPOLLIN" "\<not> has_flag EPOLLIN EPOLLERR" by (simp_all add: has_flag_def sys_consts)
  then show ?thesis
    using accepted_clients [of "first_world\<lparr>w_mgr := netmgr_new\<lparr>nm_listener := Some open_listener\<rparr>\<rparr>" open_listener
        "\<lparr>ck_obj = 1, ck_func = ListenerCb, ck_status = IO_STATUS_PENDING\<rparr>"
        "[AcceptOk 5, AcceptOk 6, AcceptErr EAGAIN]" EAGAIN EPOLLIN 0 first_sys]
    by (simp add: open_listener_def netmgr_new_def sys_consts)
qed

section \<open>Connecting\<close>

text \<open>An attempt with a defined result has not called the hook.\<close>

lemma connect_keeps_world:
  "post_connect OnConnected rs c y w = Some (r, c', y', w') \<Longrightarrow> w' = w"
proof (induction rs)
  case Nil
  then show ?case by (auto simp: post_connect.simps split: if_splits)
next
  case (Cons x rs)
  show ?case
  proof (cases x)
    case ConnOk
    then show ?thesis using Cons.prems
      by (auto simp: post_connect.simps [of _ "_ # _"] OnConnected_def split: if_splits prod.splits)
  next
    case (ConnErr err)
    then show ?thesis using Cons
      by (auto simp: post_connect.simps [of _ "_ # _"] RegisterHandler_def epoll_ctl_def Let_def
          Option.bind_eq_Some_conv split: if_splits)
  qed
qed

text \<open>
  The successful end of a connection attempt has no defined result.  The hook moves the socket
  into a server session that no list holds, deletes the connector while its \<^verbatim>\<open>Update\<close> is still running,
  and that goes on to write to the deleted object.
\<close>

theorem connect_success_undefined:
  assumes "nm_connector (w_mgr w) = Connecting c" and "c_status c = CS_CONNECTING"
    and "c_events c = Some ev" and "has_flag ev EPOLLOUT"
    and "cu_lock (mi_connector io)" and "cu_so_error (mi_connector io) = 0"
    and "cu_replies (mi_connector io) = ConnOk # rs"
  shows "NetMgr_Update io w y = None
    \<and> (case OnConnected c y w of (c', y', w') \<Rightarrow> c' = None \<and> nm_connector (w_mgr w') = DeletedConnector
        \<and> nm_servers (w_mgr w') = nm_servers (w_mgr w)
        \<and> (\<exists>s. w_lost w' = w_lost w @ [s] \<and> s_socket s = c_socket c \<and> session_Active s))"
proof -
  have hook: "fst (OnConnected c y w) = None" for y w by (simp add: OnConnected_def split: prod.split)
  have "ev \<noteq> 0" using assms(4) by (auto simp: has_flag_def)
  then have "connector_Update OnConnected (mi_connector io) c y w = None" for y w
    using assms(2-7) hook [of y w]
    by (auto simp: connector_Update_def connector_events_def post_connect.simps Let_def split: prod.split)
  moreover obtain w1 y1 where 1: "update_listener w y = (w1, y1)" by (rule prod.exhaust)
  moreover have "nm_connector (w_mgr w1) = Connecting c"
    using 1 assms(1) by (auto simp: update_listener_def split: option.splits prod.splits)
  ultimately have "NetMgr_Update io w y = None"
    by (simp add: NetMgr_Update_def update_connector_def)
  then show ?thesis
    by (auto simp: OnConnected_def session_new_def session_Attach_def session_set_socket_status_def
        session_Active_def read_clock_def Let_def split: prod.split)
qed

theorem connect_success_undefined_witness:
  "NetMgr_Update \<lparr>mi_connector = \<lparr>cu_lock = True, cu_so_error = 0, cu_replies = [ConnOk]\<rparr>, mi_clients = [], mi_servers = []\<rparr>
     (first_world\<lparr>w_mgr := netmgr_new\<lparr>nm_connector := Connecting ready_connector\<rparr>\<rparr>) first_sys = None"
proof -
  have "has_flag EPOLLOUT EPOLLOUT" by (simp add: has_flag_def sys_consts)
  then show ?thesis
    using connect_success_undefined [of "first_world\<lparr>w_mgr := netmgr_new\<lparr>nm_connector := Connecting ready_connector\<rparr>\<rparr>"
        ready_connector EPOLLOUT
        "\<lparr>mi_connector = \<lparr>cu_lock = True, cu_so_error = 0, cu_replies = [ConnOk]\<rparr>, mi_clients = [], mi_servers = []\<rparr>"
        "[]" first_sys]
    by (simp add: ready_connector_def)
qed

lemma update_connector_sessions:
  assumes "update_connector io w y = Some (w', y')"
  shows "nm_clients (w_mgr w') = nm_clients (w_mgr w) \<and> nm_servers (w_mgr w') = nm_servers (w_mgr w)"
proof (cases "nm_connector (w_mgr w)")
  case (Connecting c)
  obtain c1 y1 w1 where u: "connector_Update OnConnected io c y w = Some (c1, y1, w1)"
    using assms Connecting by (auto simp: update_connector_def Option.bind_eq_Some_conv)
  then have "w1 = w"
    using connect_keeps_world by (auto simp: connector_Update_def connector_events_def Option.bind_eq_Some_conv
        split: if_splits dest: connect_keeps_world)
  then show ?thesis using assms Connecting u by (auto simp: update_connector_def)
qed (use assms in \<open>auto simp: update_connector_def\<close>)

section \<open>Updating the sessions\<close>

lemma post_send_loop_id:
  assumes "post_send_loop rs s e y = Some (s', e', y')"
  shows "s_id s' = s_id s"
  by (rule post_send_loop_invariant [OF assms, where P = "\<lambda>r. s_id r = s_id s"])
    (auto simp: post_send_pick_def session_set_socket_status_def session_on_send_error_def
      split: option.splits list.splits if_splits)

lemma post_recv_loop_id:
  assumes "post_recv_loop rs s e = Some (s', e')"
  shows "s_id s' = s_id s"
  by (rule post_recv_loop_invariant [OF assms, where P = "\<lambda>r f. s_id r = s_id s"])
    (auto simp: keeps_def keeps_out_def session_set_socket_status_def session_on_recv_error_def session_Disconnect_def)

lemma Update_id:
  assumes "session_Update io s e y = Some (s', e', y')"
  shows "s_id s' = s_id s"
proof (cases "io_lock io")
  case False
  then show ?thesis using assms by (simp add: session_Update_def)
next
  case True
  obtain s1 c where 1: "update_events s (io_so_error io) = (s1, c)" by (rule prod.exhaust)
  obtain s2 e2 where 2: "post_recv (io_recvs io) s1 e = Some (s2, e2)"
    using assms True 1 by (auto simp: session_Update_def Option.bind_eq_Some_conv)
  obtain s3 e3 y3 where 3: "post_send (io_sends io) s2 e2 y = Some (s3, e3, y3)"
    using assms True 1 2 by (auto simp: session_Update_def Option.bind_eq_Some_conv)
  let ?s4 = "if c then session_set_socket_status s3 SS_ERROR else s3"
  obtain s5 e5 y5 where 5: "update_status ?s4 e3 y3 = (s5, e5, y5)" by (rule prod_cases3)
  have 6: "update_register s5 y5 = Some (s', y')"
    using assms True 1 2 3 5 by (auto simp: session_Update_def Let_def Option.bind_eq_Some_conv)
  have "s_id s1 = s_id s" using 1 by (auto simp: update_events_def Let_def split: if_splits)
  moreover have "s_id s2 = s_id s1" using 2 post_recv_loop_id by (auto simp: post_recv_def split: if_splits)
  moreover have "s_id s3 = s_id s2" using 3 post_send_loop_id by (auto simp: post_send_def split: if_splits)
  moreover have "s_id s5 = s_id s3"
    using 5 by (auto simp: update_status_def session_set_socket_status_def session_Disconnect_def read_clock_def
        g_net_close_socket_def Let_def split: sock_status.splits if_splits prod.splits)
  moreover have "s_id s' = s_id s5"
    using 6 by (auto simp: update_register_def RegisterHandler_def epoll_ctl_def Let_def
        Option.bind_eq_Some_conv split: if_splits prod.splits)
  ultimately show ?thesis by simp
qed

text \<open>
  The turns of the sessions in one round: \<open>ss1 ! k\<close> is the k-th session after its own \<^verbatim>\<open>Update\<close>, made in
  the environment \<open>es ! k\<close>, and the next turn starts in the environment that this one left, or that the destructor left
  when the session has become closed.
\<close>

definition session_turns :: "update_io list \<Rightarrow> session list \<Rightarrow> session list \<Rightarrow> (net_env \<times> sys) list \<Rightarrow> bool" where
  "session_turns ios ss ss1 es \<longleftrightarrow> length ss1 = length ss \<and> length es = Suc (length ss) \<and>
     (\<forall>k<length ss. \<exists>e1 y1. session_Update (ios ! k) (ss ! k) (fst (es ! k)) (snd (es ! k)) = Some (ss1 ! k, e1, y1) \<and>
        es ! Suc k = (if s_status (ss1 ! k) = SS_CLOSED then snd (session_destroy (ss1 ! k) e1 y1) else (e1, y1)))"

lemma session_turns_Cons:
  assumes "session_Update io s e y = Some (s1, e1, y1)" and "session_turns ios ss ss1 es"
    and "hd es = (if s_status s1 = SS_CLOSED then snd (session_destroy s1 e1 y1) else (e1, y1))"
  shows "session_turns (io # ios) (s # ss) (s1 # ss1) ((e, y) # es)"
proof -
  have "es \<noteq> []" using assms(2) by (auto simp: session_turns_def)
  then have h: "es ! 0 = hd es" by (simp add: hd_conv_nth)
  let ?turn = "\<lambda>ios ss ss1 es k. \<exists>e1 y1. session_Update (ios ! k) (ss ! k) (fst (es ! k)) (snd (es ! k)) = Some (ss1 ! k, e1, y1) \<and>
      es ! Suc k = (if s_status (ss1 ! k) = SS_CLOSED then snd (session_destroy (ss1 ! k) e1 y1) else (e1, y1))"
  have "?turn (io # ios) (s # ss) (s1 # ss1) ((e, y) # es) k" if "k < Suc (length ss)" for k
  proof (cases k)
    case 0
    then show ?thesis using assms(1,3) h by simp
  next
    case (Suc j)
    then have "?turn ios ss ss1 es j" using assms(2) that by (simp only: session_turns_def Suc_less_eq)
    then show ?thesis by (simp only: Suc nth_Cons_Suc)
  qed
  then show ?thesis using assms(2) by (simp only: session_turns_def length_Cons) blast
qed

lemma session_turns_ids:
  assumes "session_turns ios ss ss1 es"
  shows "map s_id ss1 = map s_id ss"
proof (rule nth_equalityI)
  show "length (map s_id ss1) = length (map s_id ss)" using assms by (simp add: session_turns_def)
  show "map s_id ss1 ! k = map s_id ss ! k" if "k < length (map s_id ss1)" for k
    using assms that Update_id by (fastforce simp: session_turns_def)
qed

lemma update_sessions_spec:
  "update_sessions ios ss e y = Some (ss', e', y') \<Longrightarrow>
   \<exists>ss1 es. session_turns ios ss ss1 es \<and> hd es = (e, y) \<and> last es = (e', y')
     \<and> ss' = filter (\<lambda>s. s_status s \<noteq> SS_CLOSED) ss1"
proof (induction ss arbitrary: ios e y ss' e' y')
  case Nil
  then show ?case by (intro exI [of _ "[]"] exI [of _ "[(e, y)]"]) (simp add: session_turns_def)
next
  case (Cons s ss)
  obtain io ios' where ios: "ios = io # ios'" using Cons.prems by (cases ios) auto
  obtain s1 e1 y1 where 1: "session_Update io s e y = Some (s1, e1, y1)"
    using Cons.prems ios by (auto simp: Option.bind_eq_Some_conv)
  obtain s2 e2 y2 where d: "session_destroy s1 e1 y1 = (s2, e2, y2)" by (rule prod_cases3)
  let ?closed = "s_status s1 = SS_CLOSED"
  obtain ts where t: "update_sessions ios' ss (if ?closed then e2 else e1) (if ?closed then y2 else y1) = Some (ts, e', y')"
    "ss' = (if ?closed then ts else s1 # ts)"
    using Cons.prems ios 1 d by (cases ?closed) (auto simp: session_Disposable_def Option.bind_eq_Some_conv)
  obtain ss1 es where r: "session_turns ios' ss ss1 es"
    "hd es = (if ?closed then e2 else e1, if ?closed then y2 else y1)" "last es = (e', y')"
    "ts = filter (\<lambda>s. s_status s \<noteq> SS_CLOSED) ss1"
    using Cons.IH [OF t(1)] by blast
  have "session_turns ios (s # ss) (s1 # ss1) ((e, y) # es)"
    using session_turns_Cons [OF 1 r(1)] r(2) d ios by simp
  moreover have "es \<noteq> []" using r(1) by (auto simp: session_turns_def)
  ultimately show ?case using r(3,4) t(2) by (intro exI [of _ "s1 # ss1"] exI [of _ "(e, y) # es"]) simp
qed

text \<open>
  C22. When \<^verbatim>\<open>CNetMgr::Update\<close> returns, every client and then every server has had its own \<^verbatim>\<open>Update\<close>, once and in order,
  after listener and connector.  The sessions that this leaves closed are destroyed at their turn and are the only ones missing
  from the lists afterwards; all others are there, as their \<^verbatim>\<open>Update\<close> left them, with their identities, in the same order.
\<close>

theorem NetMgr_Update_sessions:
  assumes "NetMgr_Update io w y = Some (w', y')"
  shows "\<exists>cs es ss fs w2 y2.
    update_connector (mi_connector io) (fst (update_listener w y)) (snd (update_listener w y)) = Some (w2, y2)
    \<and> session_turns (mi_clients io) (nm_clients (w_mgr w)) cs es \<and> hd es = (w_env w2, y2)
    \<and> session_turns (mi_servers io) (nm_servers (w_mgr w)) ss fs \<and> hd fs = last es \<and> last fs = (w_env w', y')
    \<and> map s_id cs = map s_id (nm_clients (w_mgr w)) \<and> map s_id ss = map s_id (nm_servers (w_mgr w))
    \<and> nm_clients (w_mgr w') = filter (\<lambda>s. s_status s \<noteq> SS_CLOSED) cs
    \<and> nm_servers (w_mgr w') = filter (\<lambda>s. s_status s \<noteq> SS_CLOSED) ss"
proof -
  obtain w1 y1 where 1: "update_listener w y = (w1, y1)" by (rule prod.exhaust)
  obtain w2 y2 where 2: "update_connector (mi_connector io) w1 y1 = Some (w2, y2)"
    using assms 1 by (auto simp: NetMgr_Update_def Option.bind_eq_Some_conv)
  obtain cs e3 y3 where 3: "update_sessions (mi_clients io) (nm_clients (w_mgr w2)) (w_env w2) y2 = Some (cs, e3, y3)"
    using assms 1 2 by (auto simp: NetMgr_Update_def Option.bind_eq_Some_conv)
  obtain ss e4 y4 where 4: "update_sessions (mi_servers io) (nm_servers (w_mgr w2)) e3 y3 = Some (ss, e4, y4)"
    and r: "nm_clients (w_mgr w') = cs" "nm_servers (w_mgr w') = ss" "w_env w' = e4" "y' = y4"
    using assms 1 2 3 by (auto simp: NetMgr_Update_def Option.bind_eq_Some_conv)
  have "nm_clients (w_mgr w1) = nm_clients (w_mgr w)" "nm_servers (w_mgr w1) = nm_servers (w_mgr w)"
    using 1 by (auto simp: update_listener_def split: option.splits prod.splits)
  then have l: "nm_clients (w_mgr w2) = nm_clients (w_mgr w)" "nm_servers (w_mgr w2) = nm_servers (w_mgr w)"
    using update_connector_sessions [OF 2] by simp_all
  obtain cs1 es where c: "session_turns (mi_clients io) (nm_clients (w_mgr w)) cs1 es" "hd es = (w_env w2, y2)"
    "last es = (e3, y3)" "cs = filter (\<lambda>s. s_status s \<noteq> SS_CLOSED) cs1"
    using update_sessions_spec [OF 3] l by auto
  obtain ss1 fs where s: "session_turns (mi_servers io) (nm_servers (w_mgr w)) ss1 fs" "hd fs = (e3, y3)"
    "last fs = (e4, y4)" "ss = filter (\<lambda>s. s_status s \<noteq> SS_CLOSED) ss1"
    using update_sessions_spec [OF 4] l by auto
  show ?thesis
    using 1 2 c s r session_turns_ids [OF c(1)] session_turns_ids [OF s(1)]
    by (intro exI [of _ cs1] exI [of _ es] exI [of _ ss1] exI [of _ fs] exI [of _ w2] exI [of _ y2]) simp
qed

text \<open>The first of two clients is about to be closed and goes; the other one stays as it is.\<close>

theorem NetMgr_Update_sessions_witness:
  "\<exists>w' y'. NetMgr_Update \<lparr>mi_connector = \<lparr>cu_lock = True, cu_so_error = 0, cu_replies = []\<rparr>,
        mi_clients = [\<lparr>io_lock = True, io_so_error = 0, io_recvs = [], io_sends = []\<rparr>, \<lparr>io_lock = False, io_so_error = 0, io_recvs = [], io_sends = []\<rparr>],
        mi_servers = []\<rparr>
      (first_world\<lparr>w_mgr := netmgr_new\<lparr>nm_clients := [first_session\<lparr>s_status := SS_PRECLOSED\<rparr>, first_session\<lparr>s_id := 2\<rparr>]\<rparr>\<rparr>) first_sys
      = Some (w', y') \<and> nm_clients (w_mgr w') = [first_session\<lparr>s_id := 2\<rparr>]"
proof -
  let ?go = "\<lparr>io_lock = True, io_so_error = 0, io_recvs = [], io_sends = []\<rparr>" and ?stay = "\<lparr>io_lock = False, io_so_error = 0, io_recvs = [], io_sends = []\<rparr>"
  let ?s = "first_session\<lparr>s_status := SS_PRECLOSED\<rparr>" and ?t = "first_session\<lparr>s_id := 2\<rparr>"
  let ?io = "\<lparr>mi_connector = \<lparr>cu_lock = True, cu_so_error = 0, cu_replies = []\<rparr>, mi_clients = [?go, ?stay], mi_servers = []\<rparr>"
  let ?w = "first_world\<lparr>w_mgr := netmgr_new\<lparr>nm_clients := [?s, ?t]\<rparr>\<rparr>"
  have closes: "\<exists>s1 y1. session_Update ?go ?s e y = Some (s1, e, y1) \<and> s_status s1 = SS_CLOSED" for e y
    by (auto simp: session_Update_def update_events_def first_session_sel post_recv_def post_send_def update_status_def
        g_net_close_socket_def session_set_socket_status_def update_register_def Let_def)
  have stays: "session_Update ?stay s e y = Some (s, e, y)" for s e y by (simp add: session_Update_def)
  have live: "s_status ?t \<noteq> SS_CLOSED" by (simp add: first_session_sel)
  obtain s1 y1 where u1: "session_Update ?go ?s (w_env first_world) first_sys = Some (s1, w_env first_world, y1)" "s_status s1 = SS_CLOSED"
    using closes by blast
  obtain s2 e2 y2 where d: "session_destroy s1 (w_env first_world) y1 = (s2, e2, y2)" by (rule prod_cases3)
  have "\<exists>w' y'. NetMgr_Update ?io ?w first_sys = Some (w', y')"
    using u1 d live by (simp add: NetMgr_Update_def update_listener_def update_connector_def netmgr_new_def stays session_Disposable_def)
  then obtain w' y' where u: "NetMgr_Update ?io ?w first_sys = Some (w', y')" by blast
  from NetMgr_Update_sessions [OF u] obtain cs es where t: "session_turns [?go, ?stay] [?s, ?t] cs es"
    and c: "nm_clients (w_mgr w') = filter (\<lambda>s. s_status s \<noteq> SS_CLOSED) cs"
    by (auto simp: netmgr_new_def)
  have "length cs = 2" "s_status (cs ! 0) = SS_CLOSED" "cs ! 1 = ?t"
  proof -
    show "length cs = 2" using t by (simp add: session_turns_def)
    obtain e1 y1 where "session_Update ?go ?s (fst (es ! 0)) (snd (es ! 0)) = Some (cs ! 0, e1, y1)"
      using t by (auto simp: session_turns_def)
    then show "s_status (cs ! 0) = SS_CLOSED" using closes [of "fst (es ! 0)" "snd (es ! 0)"] by auto
    have "\<exists>e1 y1. session_Update ([?go, ?stay] ! 1) ([?s, ?t] ! 1) (fst (es ! 1)) (snd (es ! 1)) = Some (cs ! 1, e1, y1)"
      using t unfolding session_turns_def by auto
    then show "cs ! 1 = ?t" by (simp add: stays)
  qed
  then have "filter (\<lambda>s. s_status s \<noteq> SS_CLOSED) cs = [?t]"
    using live by (cases cs; cases "tl cs") auto
  then show ?thesis using u c by auto
qed

section \<open>Shutting down\<close>

lemma listener_wait_ends:
  assumes "l_status l \<noteq> LS_RUNNING" and "l_status l \<noteq> LS_UNINIT"
  shows "\<exists>l' y'. listener_wait l y = Some (l', y') \<and> listener_Disposable l'"
proof -
  have closed: "listener_wait l y = Some (l, y)" if "l_status l = LS_CLOSED" for l y
    using that by (subst listener_wait.simps) (simp add: listener_Disposable_def)
  have pre: "\<exists>l' y'. listener_wait l y = Some (l', y') \<and> listener_Disposable l'" if "l_status l = LS_PRECLOSED" for l y
    using that closed
    by (subst listener_wait.simps) (simp add: listener_Disposable_def listener_Update_def Let_def split: prod.split)
  show ?thesis
  proof (cases "l_status l = LS_CLOSED \<or> l_status l = LS_PRECLOSED")
    case True
    then show ?thesis using closed pre by (auto simp: listener_Disposable_def)
  next
    case False
    then have "l_status l = LS_ERROR \<or> l_status l = LS_CLOSING" using assms by (cases "l_status l") auto
    then show ?thesis
      using pre [of "l\<lparr>l_status := LS_PRECLOSED\<rparr>" y]
      by (subst listener_wait.simps) (auto simp: listener_Disposable_def listener_Update_def)
  qed
qed

text \<open>
  The first part of \<^verbatim>\<open>CNetMgr::End\<close> always ends: whatever the status of an initialised listener,
  closing it and waiting for it returns, and the listener is deleted.
\<close>

theorem end_listener_terminates:
  assumes "\<And>l. nm_listener (w_mgr w) = Some l \<Longrightarrow> l_status l \<noteq> LS_UNINIT"
  shows "\<exists>w' y'. end_listener w y = Some (w', y') \<and> nm_listener (w_mgr w') = None"
proof (cases "nm_listener (w_mgr w)")
  case None
  then show ?thesis by (simp add: end_listener_def)
next
  case (Some l)
  obtain l1 y1 where 1: "listener_Close l y = (l1, y1)" by (rule prod.exhaust)
  then have "l_status l1 \<noteq> LS_RUNNING" "l_status l1 \<noteq> LS_UNINIT"
    using assms [OF Some] by (auto simp: listener_Close_def Let_def split: if_splits prod.splits)
  from listener_wait_ends [OF this, of y1] show ?thesis using Some 1 by (auto simp: end_listener_def)
qed

theorem end_listener_terminates_witness:
  "\<exists>w' y'. end_listener (\<lparr>w_mgr = netmgr_new\<lparr>nm_listener := Some ((listener_new 1)\<lparr>l_status := LS_RUNNING\<rparr>)\<rparr>,
       w_env = first_env, w_next = 2, w_lost = []\<rparr>) first_sys = Some (w', y') \<and> nm_listener (w_mgr w') = None"
  by (rule end_listener_terminates) auto

text \<open>
  The second part does not: when a connection attempt is under way, \<^verbatim>\<open>Abort\<close> closes the socket and
  leaves the status as it is, no event can arrive any more, and the wait for the connector never ends.
\<close>

theorem end_connector_diverges:
  assumes "nm_connector (w_mgr w) = Connecting c" and "c_status c = CS_CONNECTING" and "c_events c = Some 0"
  shows "end_connector ios w y = None"
proof -
  have wait: "connector_wait ios n c y w = None" if "c_status c = CS_CONNECTING" "c_events c = Some 0" for n c y w
  proof (rule ccontr)
    assume "connector_wait ios n c y w \<noteq> None"
    then obtain r where r: "connector_wait ios n c y w = Some r" by blast
    have "\<not> (c_status c = CS_CONNECTING \<and> c_events c = Some 0)"
    proof (rule connector_wait.raw_induct
        [where P = "\<lambda>ios n c y w r. \<not> (c_status c = CS_CONNECTING \<and> c_events c = Some 0)", OF _ r])
      fix rec :: "(nat \<Rightarrow> conn_update_io) \<Rightarrow> nat \<Rightarrow> connector \<Rightarrow> sys \<Rightarrow> world \<Rightarrow> (connector \<times> sys \<times> world) option"
        and ios n c y w r
      assume IH: "\<And>ios n c y w r. rec ios n c y w = Some r \<Longrightarrow> \<not> (c_status c = CS_CONNECTING \<and> c_events c = Some 0)"
        and run: "(if connector_Disposable c then Some (c, y, w)
          else do { (c1, y1, w1) \<leftarrow> connector_Update OnConnected (ios n) c y w; rec ios (Suc n) c1 y1 w1 }) = Some r"
      show "\<not> (c_status c = CS_CONNECTING \<and> c_events c = Some 0)"
      proof
        assume a: "c_status c = CS_CONNECTING \<and> c_events c = Some 0"
        then have "connector_Update OnConnected (ios n) c y w = Some (c, y, w)"
          by (simp add: connector_Update_def connector_events_def)
        then have "rec ios (Suc n) c y w = Some r" using run a by (simp add: connector_Disposable_def)
        from IH [OF this] a show False by simp
      qed
    qed
    with that show False by simp
  qed
  obtain c1 y1 where 1: "connector_Abort c y = (c1, y1)" by (rule prod.exhaust)
  then have "c_status c1 = CS_CONNECTING" "c_events c1 = Some 0"
    using assms(2,3) by (auto simp: connector_Abort_def split: prod.splits)
  then show ?thesis using assms(1) 1 wait by (simp add: end_connector_def)
qed

theorem end_connector_diverges_witness:
  "end_connector (\<lambda>n. \<lparr>cu_lock = True, cu_so_error = 0, cu_replies = []\<rparr>)
     (first_world\<lparr>w_mgr := netmgr_new\<lparr>nm_connector := Connecting (ready_connector\<lparr>c_events := Some 0\<rparr>)\<rparr>\<rparr>) first_sys = None"
  by (rule end_connector_diverges [where c = "ready_connector\<lparr>c_events := Some 0\<rparr>"])
    (simp_all add: ready_connector_def)

end
