(* ===== verification/FrameEvents.thy ===== *)
theory FrameEvents
  imports Prelude "HOL-Library.Multiset"
begin

text \<open>
  The callbacks of a frame (\<^verbatim>\<open>libcore/src/FrameEvent.cpp\<close>) and the system events of the game server
  (\<^verbatim>\<open>gameserver/SystemEvent.cpp\<close>).

  A callback is a value of the type parameter \<open>'c\<close>.  The parameter \<open>run\<close> gives what it does: the
  callbacks it emits itself, in order, and the new world.
\<close>

section \<open>State\<close>

record 'c frame_event =
  fe_begin :: "'c list"
  fe_end :: "'c list"
  fe_msg_end :: "'c list"

definition frame_event_new :: "'c frame_event" where
  "frame_event_new = \<lparr>fe_begin = [], fe_end = [], fe_msg_end = []\<rparr>"

definition EmitBegin :: "'c \<Rightarrow> 'c frame_event \<Rightarrow> 'c frame_event" where
  "EmitBegin c f = f\<lparr>fe_begin := fe_begin f @ [c]\<rparr>"

definition EmitEnd :: "'c \<Rightarrow> 'c frame_event \<Rightarrow> 'c frame_event" where
  "EmitEnd c f = f\<lparr>fe_end := fe_end f @ [c]\<rparr>"

definition EmitMsgEnd :: "'c \<Rightarrow> 'c frame_event \<Rightarrow> 'c frame_event" where
  "EmitMsgEnd c f = f\<lparr>fe_msg_end := fe_msg_end f @ [c]\<rparr>"

text \<open>The three lists, named by the moment they run.\<close>

datatype moment = Begin | End | MsgEnd

fun emit :: "moment \<Rightarrow> 'c \<Rightarrow> 'c frame_event \<Rightarrow> 'c frame_event" where
  "emit Begin c f = EmitBegin c f"
| "emit End c f = EmitEnd c f"
| "emit MsgEnd c f = EmitMsgEnd c f"

fun fe_list :: "moment \<Rightarrow> 'c frame_event \<Rightarrow> 'c list" where
  "fe_list Begin f = fe_begin f"
| "fe_list End f = fe_end f"
| "fe_list MsgEnd f = fe_msg_end f"

fun fe_set :: "moment \<Rightarrow> 'c list \<Rightarrow> 'c frame_event \<Rightarrow> 'c frame_event" where
  "fe_set Begin cs f = f\<lparr>fe_begin := cs\<rparr>"
| "fe_set End cs f = f\<lparr>fe_end := cs\<rparr>"
| "fe_set MsgEnd cs f = f\<lparr>fe_msg_end := cs\<rparr>"

type_synonym ('c, 'w) callback_run = "'c \<Rightarrow> 'w \<Rightarrow> (moment \<times> 'c) list \<times> 'w"

section \<open>Running a list\<close>

text \<open>
  The loops run over a linked list whose end is not fixed: a callback that emits into the list that
  is being run makes the loop longer.  A callback is dropped from the list of the model when it is
  run, as the loop never comes back to it; the list is empty at the end, as after \<^verbatim>\<open>clear\<close>.  The last
  result lists the callbacks in the order in which they ran.  \<open>None\<close>: the loop does not end.
\<close>

partial_function (option) run_list :: "moment \<Rightarrow> ('c, 'w) callback_run \<Rightarrow> 'c frame_event \<Rightarrow> 'w \<Rightarrow>
    ('c frame_event \<times> 'w \<times> 'c list) option" where
  "run_list p run f w =
     (case fe_list p f of
        [] \<Rightarrow> Some (f, w, [])
      | c # cs \<Rightarrow> do {
          let (es, w1) = run c w;
          (f', w', tr) \<leftarrow> run_list p run (fold (\<lambda>(q, d). emit q d) es (fe_set p cs f)) w1;
          Some (f', w', c # tr)
        })"

definition UpdateBegin :: "('c, 'w) callback_run \<Rightarrow> 'c frame_event \<Rightarrow> 'w \<Rightarrow> ('c frame_event \<times> 'w \<times> 'c list) option" where
  "UpdateBegin run f w = (if fe_begin f \<noteq> [] then run_list Begin run f w else Some (f, w, []))"

definition UpdateEnd :: "('c, 'w) callback_run \<Rightarrow> 'c frame_event \<Rightarrow> 'w \<Rightarrow> ('c frame_event \<times> 'w \<times> 'c list) option" where
  "UpdateEnd run f w = (if fe_end f \<noteq> [] then run_list End run f w else Some (f, w, []))"

definition UpdateMsgEnd :: "('c, 'w) callback_run \<Rightarrow> 'c frame_event \<Rightarrow> 'w \<Rightarrow> ('c frame_event \<times> 'w \<times> 'c list) option" where
  "UpdateMsgEnd run f w = (if fe_msg_end f \<noteq> [] then run_list MsgEnd run f w else Some (f, w, []))"

declare frame_event_new_def [code_defs] EmitBegin_def [code_defs] EmitEnd_def [code_defs] EmitMsgEnd_def [code_defs]
  UpdateBegin_def [code_defs] UpdateEnd_def [code_defs] UpdateMsgEnd_def [code_defs]

section \<open>Properties\<close>

lemma fe_list_set [simp]: "fe_list p (fe_set p cs f) = cs"
  by (cases p) auto

lemma fe_list_emit: "fe_list p (emit q c f) = fe_list p f @ (if q = p then [c] else [])"
  by (cases p; cases q) (auto simp: EmitBegin_def EmitEnd_def EmitMsgEnd_def)

text \<open>What a list of emissions adds to the list of one moment.\<close>

definition joins :: "moment \<Rightarrow> (moment \<times> 'c) list \<Rightarrow> 'c list" where
  "joins p es = map snd (filter (\<lambda>e. fst e = p) es)"

lemma fe_list_emits: "fe_list p (fold (\<lambda>(q, d). emit q d) es f) = fe_list p f @ joins p es"
  by (induction es arbitrary: f) (auto simp: fe_list_emit joins_def split: prod.split)

text \<open>The callbacks that join the list while \<open>cs\<close> are run one after the other.\<close>

fun joined :: "moment \<Rightarrow> ('c, 'w) callback_run \<Rightarrow> 'c list \<Rightarrow> 'w \<Rightarrow> 'c list" where
  "joined p run [] w = []"
| "joined p run (c # cs) w = (let (es, w1) = run c w in joins p es @ joined p run cs w1)"

lemma run_list_order:
  assumes "run_list p run f w = Some r"
  shows "fe_list p (fst r) = [] \<and> snd (snd r) = fe_list p f @ joined p run (snd (snd r)) w"
proof (rule run_list.raw_induct [where P = "\<lambda>p run f w r. fe_list p (fst r) = []
    \<and> snd (snd r) = fe_list p f @ joined p run (snd (snd r)) w", OF _ assms])
  fix rec :: "moment \<Rightarrow> ('c, 'w) callback_run \<Rightarrow> 'c frame_event \<Rightarrow> 'w \<Rightarrow> ('c frame_event \<times> 'w \<times> 'c list) option"
    and p run f w r
  assume IH: "\<And>p run f w r. rec p run f w = Some r \<Longrightarrow> fe_list p (fst r) = []
      \<and> snd (snd r) = fe_list p f @ joined p run (snd (snd r)) w"
    and step: "(case fe_list p f of
        [] \<Rightarrow> Some (f, w, [])
      | c # cs \<Rightarrow> do {
          let (es, w1) = run c w;
          (f', w', tr) \<leftarrow> rec p run (fold (\<lambda>(q, d). emit q d) es (fe_set p cs f)) w1;
          Some (f', w', c # tr)
        }) = Some r"
  show "fe_list p (fst r) = [] \<and> snd (snd r) = fe_list p f @ joined p run (snd (snd r)) w"
  proof (cases "fe_list p f")
    case Nil
    then show ?thesis using step by auto
  next
    case (Cons c cs)
    obtain es w1 where 1: "run c w = (es, w1)" by (rule prod.exhaust)
    obtain f' w' tr where 2: "rec p run (fold (\<lambda>(q, d). emit q d) es (fe_set p cs f)) w1 = Some (f', w', tr)"
      "r = (f', w', c # tr)"
      using step Cons 1 by (auto simp: Option.bind_eq_Some_conv)
    from IH [OF 2(1)] have "fe_list p f' = []" "tr = (cs @ joins p es) @ joined p run tr w1"
      by (simp_all add: fe_list_emits)
    then show ?thesis using Cons 1 2(2) by simp
  qed
qed

text \<open>
  When \<^verbatim>\<open>UpdateBegin\<close> returns, every callback has run exactly once, in the order of emission: first
  those that were waiting, then those that joined the list while it was being run, in the order in
  which the running callbacks emitted them; nothing is left.
\<close>

theorem frame_callbacks_in_order:
  assumes "UpdateBegin run f w = Some (f', w', tr)"
  shows "fe_begin f' = [] \<and> tr = fe_begin f @ joined Begin run tr w"
  using assms run_list_order [of Begin run f w "(f', w', tr)"] by (auto simp: UpdateBegin_def split: if_splits)

text \<open>A callback \<open>Suc n\<close> that emits \<open>n\<close> for the same moment; and the list of the callbacks 2 and 0.\<close>

definition countdown :: "(nat, nat) callback_run" where
  "countdown c w = (case c of 0 \<Rightarrow> ([], Suc w) | Suc n \<Rightarrow> ([(Begin, n)], Suc w))"

definition two_callbacks :: "nat frame_event" where
  "two_callbacks = EmitBegin 0 (EmitBegin 2 frame_event_new)"

lemma countdown_run: "UpdateBegin countdown two_callbacks 0 = Some (frame_event_new, 4, [2, 0, 1, 0])"
  by (simp add: UpdateBegin_def two_callbacks_def frame_event_new_def EmitBegin_def run_list.simps countdown_def
      numeral_2_eq_2)

theorem frame_callbacks_in_order_witness:
  "UpdateBegin countdown two_callbacks 0 = Some (frame_event_new, 4, [2, 0, 1, 0])
   \<and> [2, 0, 1, 0] = fe_begin two_callbacks @ joined Begin countdown [2, 0, 1, 0] 0"
  using countdown_run frame_callbacks_in_order [OF countdown_run] by blast

lemma run_list_terminates:
  assumes rank: "\<And>c w d. d \<in> set (joins p (fst (run c w))) \<Longrightarrow> (rank d :: nat) < rank c"
  shows "\<exists>r. run_list p run f w = Some r"
proof (induction "mset (map rank (fe_list p f))" arbitrary: f w rule: wf_induct_rule [OF wf_mult [OF wf_less]])
  case (1 f w)
  show ?case
  proof (cases "fe_list p f")
    case Nil
    then show ?thesis by (subst run_list.simps) simp
  next
    case (Cons c cs)
    obtain es w1 where r: "run c w = (es, w1)" by (rule prod.exhaust)
    let ?f = "fold (\<lambda>(q, d). emit q d) es (fe_set p cs f)"
    have l: "fe_list p ?f = cs @ joins p es" by (simp add: fe_list_emits)
    have "\<forall>k\<in>#mset (map rank (joins p es)). \<exists>j\<in>#{#rank c#}. (k, j) \<in> {(x, y). x < y}"
      using rank [of _ c w] r by auto
    then have "(mset (map rank cs) + mset (map rank (joins p es)), mset (map rank cs) + {#rank c#}) \<in> mult {(x, y). x < y}"
      by (intro one_step_implies_mult) auto
    then have "(mset (map rank (fe_list p ?f)), mset (map rank (fe_list p f))) \<in> mult {(x, y). x < y}"
      by (simp add: l Cons)
    then obtain r' where "run_list p run ?f w1 = Some r'" using 1 by blast
    then show ?thesis using Cons r by (subst run_list.simps) (auto split: prod.split)
  qed
qed

text \<open>
  If the callbacks can be ranked so that each only emits callbacks of lower rank into the list that
  is being run, then \<^verbatim>\<open>UpdateBegin\<close> returns.
\<close>

theorem frame_callbacks_terminate:
  assumes "\<And>c w d. d \<in> set (joins Begin (fst (run c w))) \<Longrightarrow> (rank d :: nat) < rank c"
  shows "\<exists>f' w' tr. UpdateBegin run f w = Some (f', w', tr)"
  using run_list_terminates [where p = Begin and run = run and rank = rank and f = f and w = w, OF assms]
  by (auto simp: UpdateBegin_def)

theorem frame_callbacks_terminate_witness:
  "\<exists>f' w' tr. UpdateBegin countdown two_callbacks 5 = Some (f', w', tr)"
  by (rule frame_callbacks_terminate [where rank = "\<lambda>n. n"]) (auto simp: countdown_def joins_def split: nat.splits)

text \<open>
  A callback that emits itself again for the beginning of a frame does not wait for the next frame:
  the loop runs it over and over and \<^verbatim>\<open>UpdateBegin\<close> never returns.
\<close>

theorem reemitting_callback_diverges:
  assumes "\<And>c w. joins Begin (fst (run c w)) \<noteq> []" and "fe_begin f \<noteq> []"
  shows "UpdateBegin run f w = None"
proof (rule ccontr)
  assume "UpdateBegin run f w \<noteq> None"
  then obtain r where r: "run_list Begin run f w = Some r" using assms(2) by (auto simp: UpdateBegin_def)
  have len: "length cs \<le> length (joined Begin run cs w)" for cs w
  proof (induction cs arbitrary: w)
    case (Cons c cs)
    have "1 \<le> length (joins Begin (fst (run c w)))" using assms(1) [of c w] by (cases "joins Begin (fst (run c w))") auto
    then show ?case using Cons [of "snd (run c w)"] by (auto split: prod.split)
  qed simp
  have "snd (snd r) = fe_begin f @ joined Begin run (snd (snd r)) w" using run_list_order [OF r] by simp
  then have "length (snd (snd r)) = length (fe_begin f) + length (joined Begin run (snd (snd r)) w)"
    by (metis length_append)
  then show False using len [of "snd (snd r)" w] assms(2) by simp
qed

theorem reemitting_callback_diverges_witness:
  "UpdateBegin (\<lambda>c w. ([(Begin, c)], Suc w)) two_callbacks 0 = None"
  by (rule reemitting_callback_diverges)
    (simp_all add: joins_def two_callbacks_def EmitBegin_def frame_event_new_def)

section \<open>System events\<close>

text \<open>
  \<^verbatim>\<open>CSystemEvent\<close>: a table of functions indexed by the event type, filled by \<^verbatim>\<open>Static_Init\<close>.  A null
  entry or an index outside the table is undefined (\<open>None\<close>).  The table's functions are empty; a call
  is recorded with its argument.
\<close>

datatype static_func = StaticConfigReady | StaticNetworkReady | StaticSystemReady

definition SET_End :: nat where "SET_End = 3"

record system_event =
  se_funcs :: "static_func option list"
  se_delayed :: "(nat \<times> nat) list"

definition system_event_new :: system_event where
  "system_event_new = \<lparr>se_funcs = replicate SET_End None, se_delayed = []\<rparr>"

definition se_Static_Init :: "system_event \<Rightarrow> system_event" where
  "se_Static_Init s = s\<lparr>se_funcs := ((se_funcs s)[0 := Some StaticConfigReady, 1 := Some StaticNetworkReady,
     2 := Some StaticSystemReady])\<rparr>"

definition se_Emit :: "nat \<Rightarrow> nat \<Rightarrow> system_event \<Rightarrow> (static_func \<times> nat) option" where
  "se_Emit type param s =
     (if type < length (se_funcs s) then do { f \<leftarrow> se_funcs s ! type; Some (f, param) } else None)"

definition se_EmitLater :: "nat \<Rightarrow> nat \<Rightarrow> system_event \<Rightarrow> system_event" where
  "se_EmitLater type param s = s\<lparr>se_delayed := se_delayed s @ [(type, param)]\<rparr>"

definition se_Update :: "system_event \<Rightarrow> ((static_func \<times> nat) list \<times> system_event) option" where
  "se_Update s = do {
     calls \<leftarrow> those (map (\<lambda>(type, param). se_Emit type param s) (se_delayed s));
     Some (calls, s\<lparr>se_delayed := []\<rparr>)
   }"

declare system_event_new_def [code_defs] se_Static_Init_def [code_defs] se_Emit_def [code_defs]
  se_EmitLater_def [code_defs] se_Update_def [code_defs]

lemma those_map_all: "(\<And>x. x \<in> set xs \<Longrightarrow> f x = Some (g x)) \<Longrightarrow> those (map f xs) = Some (map g xs)"
  by (induction xs) auto

text \<open>
  Before \<^verbatim>\<open>Static_Init\<close> no system event can be delivered; after it every delayed event of the three
  types is delivered by the next \<^verbatim>\<open>Update\<close>, in order and with its argument.
\<close>

theorem system_events_delivered:
  assumes "\<forall>(t, p)\<in>set evs. t < SET_End"
  shows "(evs \<noteq> [] \<longrightarrow> se_Update (fold (\<lambda>(t, p). se_EmitLater t p) evs system_event_new) = None)
    \<and> (\<exists>s'. se_Update (fold (\<lambda>(t, p). se_EmitLater t p) evs (se_Static_Init system_event_new))
        = Some (map (\<lambda>(t, p). ([StaticConfigReady, StaticNetworkReady, StaticSystemReady] ! t, p)) evs, s')
        \<and> se_delayed s' = [])"
proof -
  have later: "fold (\<lambda>(t, p). se_EmitLater t p) evs s = s\<lparr>se_delayed := se_delayed s @ evs\<rparr>" for s
    by (induction evs arbitrary: s) (auto simp: se_EmitLater_def)
  have init: "se_funcs (se_Static_Init system_event_new)
      = [Some StaticConfigReady, Some StaticNetworkReady, Some StaticSystemReady]"
    by (simp add: se_Static_Init_def system_event_new_def SET_End_def numeral_3_eq_3)
  have "those (map (\<lambda>(t, p). se_Emit t p s) evs) = None" if "evs \<noteq> []" "se_funcs s = replicate SET_End None" for s
    using that assms by (cases evs) (auto simp: se_Emit_def SET_End_def split: prod.splits)
  moreover have "those (map (\<lambda>(t, p). se_Emit t p s) evs)
      = Some (map (\<lambda>(t, p). ([StaticConfigReady, StaticNetworkReady, StaticSystemReady] ! t, p)) evs)"
    if "se_funcs s = [Some StaticConfigReady, Some StaticNetworkReady, Some StaticSystemReady]" for s
  proof (rule those_map_all)
    fix x assume "x \<in> set evs"
    then obtain t p where "x = (t, p)" "t < 3" using assms by (auto simp: SET_End_def)
    then show "(\<lambda>(t, p). se_Emit t p s) x
        = Some ((\<lambda>(t, p). ([StaticConfigReady, StaticNetworkReady, StaticSystemReady] ! t, p)) x)"
      using that by (auto simp: se_Emit_def less_Suc_eq numeral_3_eq_3 numeral_2_eq_2)
  qed
  ultimately show ?thesis
    using init by (simp add: later se_Update_def system_event_new_def se_Static_Init_def)
qed

theorem system_events_delivered_witness:
  "\<exists>s'. se_Update (se_EmitLater 1 9 (se_EmitLater 2 8 (se_Static_Init system_event_new)))
     = Some ([(StaticSystemReady, 8), (StaticNetworkReady, 9)], s')"
  using system_events_delivered [of "[(2, 8), (1, 9)]"] by (auto simp: SET_End_def numeral_2_eq_2)

end
