(* ===== verification/Frame.thy ===== *)
theory Frame
  imports NetMgr FrameEvents
begin

text \<open>
  The frame loop of the logic thread (\<^verbatim>\<open>libcore/include/serverframe.h\<close>, \<^verbatim>\<open>libcore/src/serverframe.cpp\<close>),
  the frame clock (\<^verbatim>\<open>servertime.cpp\<close>) and the message handler of the game server
  (\<^verbatim>\<open>gameserver/GameServerFrame.cpp\<close>).

  The clocks are sequences of readings.  The virtual hooks are a record of functions; the
  handler of messages is the only one called while messages are taken from the queue, and it has no
  access to the queue of received messages, which only the sessions fill.
\<close>

section \<open>State\<close>

text \<open>
  The object with what it shares: the statics of \<^verbatim>\<open>servertime.cpp\<close> (\<open>sf_curr_time\<close>, \<open>sf_curr_tick\<close>), the
  number of readings taken from the two clocks, the frame callbacks, the queue and the world.
\<close>

record ('c, 'w) server_frame =
  sf_running :: bool
  sf_interval :: u32
  sf_prev_tick :: u64
  sf_start_tick :: u64
  sf_start_time :: u64
  sf_curr_time :: u64
  sf_curr_tick :: u64
  sf_ticks :: nat
  sf_times :: nat
  sf_events :: "'c frame_event"
  sf_queue :: mqueue
  sf_world :: 'w

record ('c, 'w) frame_hooks =
  fh_start :: "mqueue \<Rightarrow> 'w \<Rightarrow> (mqueue \<times> 'w) option"
  fh_stop :: "mqueue \<Rightarrow> 'w \<Rightarrow> (mqueue \<times> 'w) option"
  fh_update :: "u64 \<Rightarrow> mqueue \<Rightarrow> 'w \<Rightarrow> (mqueue \<times> 'w) option"
  fh_msg :: "message \<Rightarrow> 'w \<Rightarrow> 'w option"
  fh_idle :: "'w \<Rightarrow> 'w"
  fh_busy :: "'w \<Rightarrow> 'w"
  fh_begin :: "'w \<Rightarrow> 'w"
  fh_end :: "'w \<Rightarrow> 'w"
  fh_run :: "('c, 'w) callback_run"

definition server_frame_new :: "mqueue \<Rightarrow> 'w \<Rightarrow> ('c, 'w) server_frame" where
  "server_frame_new q w = \<lparr>sf_running = False, sf_interval = 40, sf_prev_tick = 0, sf_start_tick = 0,
     sf_start_time = 0, sf_curr_time = 0, sf_curr_tick = 0, sf_ticks = 0, sf_times = 0,
     sf_events = frame_event_new, sf_queue = q, sf_world = w\<rparr>"

definition SetInterval :: "u32 \<Rightarrow> ('c, 'w) server_frame \<Rightarrow> ('c, 'w) server_frame" where
  "SetInterval v s = s\<lparr>sf_interval := v\<rparr>"

section \<open>The clocks\<close>

text \<open>\<open>tick_of sec usec\<close> is the tick that \<^verbatim>\<open>gettimeofday\<close> gives.\<close>

definition tick_of :: "u64 \<Rightarrow> u64 \<Rightarrow> u64" where
  "tick_of sec usec = sec * 1000 + usec div 1000"

definition get_current_tick :: "(nat \<Rightarrow> u64) \<Rightarrow> ('c, 'w) server_frame \<Rightarrow> u64 \<times> ('c, 'w) server_frame" where
  "get_current_tick tick s = (tick (sf_ticks s), s\<lparr>sf_ticks := Suc (sf_ticks s)\<rparr>)"

definition get_current_time :: "(nat \<Rightarrow> u64) \<Rightarrow> ('c, 'w) server_frame \<Rightarrow> u64 \<times> ('c, 'w) server_frame" where
  "get_current_time time s = (time (sf_times s), s\<lparr>sf_times := Suc (sf_times s)\<rparr>)"

definition update_frame_time :: "(nat \<Rightarrow> u64) \<Rightarrow> ('c, 'w) server_frame \<Rightarrow> ('c, 'w) server_frame" where
  "update_frame_time time s = (let (t, s1) = get_current_time time s in s1\<lparr>sf_curr_time := t\<rparr>)"

definition get_frame_time :: "('c, 'w) server_frame \<Rightarrow> u64" where
  "get_frame_time s = sf_curr_time s"

definition update_frame_tick :: "(nat \<Rightarrow> u64) \<Rightarrow> ('c, 'w) server_frame \<Rightarrow> ('c, 'w) server_frame" where
  "update_frame_tick tick s = (let (t, s1) = get_current_tick tick s in s1\<lparr>sf_curr_tick := t\<rparr>)"

definition get_frame_tick :: "('c, 'w) server_frame \<Rightarrow> u64" where
  "get_frame_tick s = sf_curr_tick s"

section \<open>The message loop of a frame\<close>

text \<open>
  Messages are taken until the queue is empty or the frame's time is used up; the first reading of the
  clock is \<open>tick n\<close>.  The last result lists the messages that were handled.
\<close>

function msg_loop :: "('c, 'w) frame_hooks \<Rightarrow> (nat \<Rightarrow> u64) \<Rightarrow> u64 \<Rightarrow> u32 \<Rightarrow> nat \<Rightarrow> mqueue \<Rightarrow> 'c frame_event \<Rightarrow> 'w \<Rightarrow>
    (mqueue \<times> 'c frame_event \<times> 'w \<times> nat \<times> message list) option" where
  "msg_loop h tick t1 interval n q f w =
     (case PopMessage q of
        (None, q1) \<Rightarrow> Some (q1, f, w, n, [])
      | (Some msg, q1) \<Rightarrow> do {
          w1 \<leftarrow> fh_msg h msg w;
          (f2, w2, tr) \<leftarrow> UpdateMsgEnd (fh_run h) f w1;
          let q2 = FreeMessage q1 msg;
          if tick n - t1 \<ge> ucast interval then Some (q2, f2, w2, Suc n, [msg])
          else do {
            (q3, f3, w3, n3, ms) \<leftarrow> msg_loop h tick t1 interval (Suc n) q2 f2 w2;
            Some (q3, f3, w3, n3, msg # ms)
          }
        })"
  by pat_completeness auto
termination
proof (relation "measure (\<lambda>(h, tick, t1, interval, n, q, f, w). length (msg_waiting q))", simp)
  fix h :: "('c, 'w) frame_hooks" and tick :: "nat \<Rightarrow> u64" and t1 :: u64 and interval :: u32 and n :: nat
    and q q1 q2 :: mqueue and f f2 :: "'c frame_event" and w w1 w2 :: 'w and x o1 :: "message option" and msg :: message
    and y :: "'c frame_event \<times> 'w \<times> 'c list" and z :: "'w \<times> 'c list" and tr :: "'c list"
  assume "(o1, q1) = PopMessage q" "o1 = Some msg" "q2 = FreeMessage q1 msg"
  then have "length (msg_waiting q2) < length (msg_waiting q)"
    by (auto simp: PopMessage_def FreeMessage_def split: list.splits)
  then show "((h, tick, t1, interval, Suc n, q2, f2, w2), h, tick, t1, interval, n, q, f, w)
      \<in> measure (\<lambda>(h, tick, t1, interval, n, q, f, w). length (msg_waiting q))"
    by simp
qed

declare msg_loop.simps [simp del]

section \<open>A frame\<close>

text \<open>What is left of the frame's time; \<open>None\<close>: nothing is left, the frame counts as busy.\<close>

definition frame_pause :: "u32 \<Rightarrow> u64 \<Rightarrow> u32 option" where
  "frame_pause interval td =
     (if (ucast td :: u32) < interval then Some (interval - ucast td) else None)"

text \<open>The two readings after the message loop, the second one only in a frame of less than five milliseconds.\<close>

definition frame_time :: "('c, 'w) frame_hooks \<Rightarrow> (nat \<Rightarrow> u64) \<Rightarrow> u64 \<Rightarrow> ('c, 'w) server_frame \<Rightarrow>
    u64 \<times> ('c, 'w) server_frame" where
  "frame_time h tick t1 s =
     (let (t2, s1) = get_current_tick tick s; td = t2 - t1
      in if td < 5
         then let (t3, s2) = get_current_tick tick (s1\<lparr>sf_world := fh_idle h (sf_world s1)\<rparr>) in (t3 - t1, s2)
         else (td, s1))"

text \<open>One round of the loop of \<^verbatim>\<open>_run\<close>; the last results are the pause and the messages that were handled.\<close>

definition frame_round :: "('c, 'w) frame_hooks \<Rightarrow> (nat \<Rightarrow> u64) \<Rightarrow> (nat \<Rightarrow> u64) \<Rightarrow> ('c, 'w) server_frame \<Rightarrow>
    (('c, 'w) server_frame \<times> u32 option \<times> message list) option" where
  "frame_round h tick time s0 = do {
     let s1 = update_frame_tick tick (update_frame_time time s0);
     (f2, w2, tr2) \<leftarrow> UpdateBegin (fh_run h) (sf_events s1) (fh_begin h (sf_world s1));
     let (t1, s2) = get_current_tick tick (s1\<lparr>sf_events := f2, sf_world := w2\<rparr>);
     (q3, w3) \<leftarrow> fh_update h (t1 - sf_prev_tick s2) (sf_queue s2) (sf_world s2);
     (q4, f4, w4, n4, ms) \<leftarrow> msg_loop h tick t1 (sf_interval s2) (sf_ticks s2) q3 (sf_events s2) w3;
     let (td, s5) = frame_time h tick t1
           (s2\<lparr>sf_prev_tick := t1, sf_queue := q4, sf_events := f4, sf_world := w4, sf_ticks := n4\<rparr>);
     let pause = frame_pause (sf_interval s5) td;
     let w5 = (if pause = None then fh_busy h (sf_world s5) else sf_world s5);
     (f6, w6, tr6) \<leftarrow> UpdateEnd (fh_run h) (sf_events s5) w5;
     Some (s5\<lparr>sf_events := f6, sf_world := fh_end h w6\<rparr>, pause, ms)
   }"

text \<open>
  The loop, given what \<^verbatim>\<open>m_bRunning\<close> reads in each round (another thread clears it); \<open>None\<close> when the
  readings run out.
\<close>

fun frame_rounds :: "('c, 'w) frame_hooks \<Rightarrow> (nat \<Rightarrow> u64) \<Rightarrow> (nat \<Rightarrow> u64) \<Rightarrow> bool list \<Rightarrow> ('c, 'w) server_frame \<Rightarrow>
    (('c, 'w) server_frame \<times> message list list) option" where
  "frame_rounds h tick time [] s = None"
| "frame_rounds h tick time (running # rs) s =
     (if running
      then do {
        (s1, pause, ms) \<leftarrow> frame_round h tick time s;
        (s2, mss) \<leftarrow> frame_rounds h tick time rs s1;
        Some (s2, ms # mss)
      }
      else Some (s, []))"

definition ServerFrame_run :: "('c, 'w) frame_hooks \<Rightarrow> (nat \<Rightarrow> u64) \<Rightarrow> (nat \<Rightarrow> u64) \<Rightarrow> bool list \<Rightarrow> ('c, 'w) server_frame \<Rightarrow>
    (('c, 'w) server_frame \<times> message list list) option" where
  "ServerFrame_run h tick time rs s = do {
     let (a, s1) = get_current_tick tick s;
     let (b, s2) = get_current_time time s1;
     let (c, s3) = get_current_tick tick s2;
     (q, w) \<leftarrow> fh_start h (sf_queue s3) (sf_world s3);
     (s4, mss) \<leftarrow> frame_rounds h tick time rs
        (s3\<lparr>sf_start_tick := a, sf_start_time := b, sf_prev_tick := c, sf_queue := q, sf_world := w\<rparr>);
     (q1, w1) \<leftarrow> fh_stop h (sf_queue s4) (sf_world s4);
     Some (s4\<lparr>sf_queue := q1, sf_world := w1\<rparr>, mss)
   }"

definition ServerFrame_Start :: "('c, 'w) server_frame \<Rightarrow> bool \<times> ('c, 'w) server_frame" where
  "ServerFrame_Start s = (True, s\<lparr>sf_running := True\<rparr>)"

definition ServerFrame_Stop :: "('c, 'w) server_frame \<Rightarrow> ('c, 'w) server_frame" where
  "ServerFrame_Stop s = s\<lparr>sf_running := False\<rparr>"

section \<open>The handler of the game server\<close>

text \<open>The session a message came from, by its address, among those that have not been deleted.\<close>

definition session_at :: "nat \<Rightarrow> world \<Rightarrow> session option" where
  "session_at p w = List.find (\<lambda>s. s_id s = p) (nm_clients (w_mgr w) @ nm_servers (w_mgr w) @ w_lost w)"

definition put_session :: "session \<Rightarrow> world \<Rightarrow> world" where
  "put_session s w =
     (let put = map (\<lambda>r. if s_id r = s_id s then s else r); m = w_mgr w
      in w\<lparr>w_mgr := m\<lparr>nm_clients := put (nm_clients m), nm_servers := put (nm_servers m)\<rparr>, w_lost := put (w_lost w)\<rparr>)"

text \<open>\<open>on_msg\<close> sends a message with an opcode back; a pointer to a deleted session is undefined behaviour.\<close>

definition server_on_msg :: "message \<Rightarrow> world \<Rightarrow> world option" where
  "server_on_msg msg w = do {
     opcode \<leftarrow> packet_Opcode msg;
     if opcode \<noteq> 0
     then do {
       p \<leftarrow> m_ptr msg;
       s \<leftarrow> session_at p w;
       (s1, e1) \<leftarrow> session_Send s (w_env w) (m_data msg) (message_DataLength msg);
       Some (put_session s1 (w\<lparr>w_env := e1\<rparr>))
     }
     else Some w
   }"

declare server_frame_new_def [code_defs] get_current_tick_def [code_defs] get_current_time_def [code_defs]
  update_frame_time_def [code_defs] update_frame_tick_def [code_defs] frame_pause_def [code_defs]
  frame_time_def [code_defs] frame_round_def [code_defs] session_at_def [code_defs] put_session_def [code_defs]
  server_on_msg_def [code_defs]

section \<open>The messages of a frame\<close>

lemma msg_loop_spec:
  assumes "msg_loop h tick t1 interval n q f w = Some (q', f', w', n', ms)"
  shows "ms @ msg_waiting q' = msg_waiting q \<and> msg_recycle q' = msg_recycle q @ ms \<and> n' = n + length ms
    \<and> (\<forall>i < length ms - 1. tick (n + i) - t1 < ucast interval)
    \<and> (msg_waiting q' = [] \<or> ms \<noteq> [] \<and> ucast interval \<le> tick (n' - 1) - t1)"
  using assms
proof (induction h tick t1 interval n q f w arbitrary: q' f' w' n' ms rule: msg_loop.induct)
  case (1 h tick t1 interval n q f w)
  obtain r q1 where p: "PopMessage q = (r, q1)" by (rule prod.exhaust)
  show ?case
  proof (cases r)
    case None
    then have "msg_waiting q = []" "q1 = q"
      using p by (auto simp: PopMessage_def split: list.splits)
    then show ?thesis using "1.prems" p None by (auto simp: msg_loop.simps)
  next
    case (Some msg)
    have q: "msg_waiting q = msg # msg_waiting q1" "msg_recycle q1 = msg_recycle q"
      using p Some by (auto simp: PopMessage_def split: list.splits)
    obtain w1 f2 w2 tr where w: "fh_msg h msg w = Some w1" "UpdateMsgEnd (fh_run h) f w1 = Some (f2, w2, tr)"
      using "1.prems" p Some by (subst (asm) msg_loop.simps) (auto simp: Option.bind_eq_Some_conv)
    let ?q2 = "FreeMessage q1 msg"
    have q2: "msg_waiting ?q2 = msg_waiting q1" "msg_recycle ?q2 = msg_recycle q @ [msg]"
      using q(2) by (simp_all add: FreeMessage_def)
    show ?thesis
    proof (cases "ucast interval \<le> tick n - t1")
      case True
      then have "q' = ?q2" "n' = Suc n" "ms = [msg]"
        using "1.prems" p Some w by (subst (asm) msg_loop.simps, simp)+
      then show ?thesis using True q q2 by simp
    next
      case False
      then obtain ms1 where r: "msg_loop h tick t1 interval (Suc n) ?q2 f2 w2 = Some (q', f', w', n', ms1)"
        and ms: "ms = msg # ms1"
        using "1.prems" p Some w
        by (subst (asm) msg_loop.simps) (auto simp: Option.bind_eq_Some_conv)
      have IH: "ms1 @ msg_waiting q' = msg_waiting ?q2 \<and> msg_recycle q' = msg_recycle ?q2 @ ms1 \<and> n' = Suc n + length ms1
          \<and> (\<forall>i < length ms1 - 1. tick (Suc n + i) - t1 < ucast interval)
          \<and> (msg_waiting q' = [] \<or> ms1 \<noteq> [] \<and> ucast interval \<le> tick (n' - 1) - t1)"
        by (rule "1.IH" [OF p [symmetric] Some w(1,2) refl refl refl False r]) 
      have "tick (n + i) - t1 < ucast interval" if "i < length ms1" for i
        using that IH False by (cases i) auto
      then show ?thesis using IH q q2 ms by auto
    qed
  qed
qed

lemma round_parts:
  assumes "frame_round h tick time s = Some (s', pause, ms)"
  obtains t1 w2 q3 w3 q4 f3 f4 w4 n3 n4 where "fh_update h (t1 - sf_prev_tick s) (sf_queue s) w2 = Some (q3, w3)"
    and "msg_loop h tick t1 (sf_interval s) n3 q3 f3 w3 = Some (q4, f4, w4, n4, ms)"
    and "sf_queue s' = q4" and "sf_prev_tick s' = t1" and "sf_interval s' = sf_interval s"
    and "pause = frame_pause (sf_interval s) (tick (sf_ticks s' - 1) - t1)"
    and "0 < sf_ticks s'"
proof -
  let ?s1 = "update_frame_tick tick (update_frame_time time s)"
  have s1: "sf_queue ?s1 = sf_queue s" "sf_prev_tick ?s1 = sf_prev_tick s" "sf_interval ?s1 = sf_interval s"
    by (simp_all add: update_frame_tick_def update_frame_time_def get_current_tick_def get_current_time_def)
  obtain f2 w2 tr2 where 2: "UpdateBegin (fh_run h) (sf_events ?s1) (fh_begin h (sf_world ?s1)) = Some (f2, w2, tr2)"
    using assms by (auto simp: frame_round_def Let_def Option.bind_eq_Some_conv)
  obtain t1 s2 where t: "get_current_tick tick (?s1\<lparr>sf_events := f2, sf_world := w2\<rparr>) = (t1, s2)"
    by (rule prod.exhaust)
  have s2: "sf_queue s2 = sf_queue s" "sf_prev_tick s2 = sf_prev_tick s" "sf_interval s2 = sf_interval s" "sf_world s2 = w2"
    using t s1 by (auto simp: get_current_tick_def)
  obtain q3 w3 where 3: "fh_update h (t1 - sf_prev_tick s2) (sf_queue s2) (sf_world s2) = Some (q3, w3)"
    using assms 2 t by (auto simp: frame_round_def Let_def Option.bind_eq_Some_conv)
  obtain q4 f4 w4 n4 ms4 where 4: "msg_loop h tick t1 (sf_interval s2) (sf_ticks s2) q3 (sf_events s2) w3 = Some (q4, f4, w4, n4, ms4)"
    using assms 2 3 t by (auto simp: frame_round_def Let_def Option.bind_eq_Some_conv)
  let ?s4 = "s2\<lparr>sf_prev_tick := t1, sf_queue := q4, sf_events := f4, sf_world := w4, sf_ticks := n4\<rparr>"
  obtain td s5 where 5: "frame_time h tick t1 ?s4 = (td, s5)" by (rule prod.exhaust)
  have s5: "td = tick (sf_ticks s5 - 1) - t1" "0 < sf_ticks s5" "sf_queue s5 = q4" "sf_prev_tick s5 = t1"
    "sf_interval s5 = sf_interval s"
    using 5 s2 by (auto simp: frame_time_def get_current_tick_def Let_def split: if_splits)
  have fin: "ms = ms4" "pause = frame_pause (sf_interval s5) td" "sf_queue s' = sf_queue s5"
    "sf_prev_tick s' = sf_prev_tick s5" "sf_interval s' = sf_interval s5" "sf_ticks s' = sf_ticks s5"
    using assms 2 3 4 5 t by (auto simp: frame_round_def Let_def Option.bind_eq_Some_conv)
  show thesis
    by (rule that [of t1 w2 q3 w3 "sf_ticks s2" "sf_events s2" q4 f4 w4 n4]) (use 3 4 s2 s5 fin in simp_all)
qed

text \<open>A frame with two messages and a clock that runs 30 milliseconds per reading; the handler keeps the messages.\<close>

definition first_hooks :: "(nat, message list) frame_hooks" where
  "first_hooks = \<lparr>fh_start = (\<lambda>q w. Some (q, w)), fh_stop = (\<lambda>q w. Some (q, w)), fh_update = (\<lambda>dt q w. Some (q, w)),
     fh_msg = (\<lambda>m w. Some (w @ [m])), fh_idle = id, fh_busy = id, fh_begin = id, fh_end = id, fh_run = (\<lambda>c w. ([], w))\<rparr>"

definition first_frame :: "(nat, message list) server_frame" where
  "first_frame = server_frame_new \<lparr>msg_waiting = [message_new 1, message_new 2, message_new 3], msg_recycle = []\<rparr> []"

lemma first_round:
  "\<exists>s' pause. frame_round first_hooks (\<lambda>n. 30 * word_of_nat n) (\<lambda>n. 0) first_frame = Some (s', pause, [message_new 1, message_new 2])
    \<and> sf_ticks s' = 5 \<and> sf_prev_tick s' = 30 \<and> pause = None"
  by (simp add: frame_round_def first_frame_def first_hooks_def server_frame_new_def update_frame_time_def update_frame_tick_def
      get_current_time_def get_current_tick_def UpdateBegin_def UpdateEnd_def UpdateMsgEnd_def frame_event_new_def
      msg_loop.simps PopMessage_def FreeMessage_def frame_time_def frame_pause_def)

text \<open>
  C27. A frame handles a prefix of the messages that are waiting after \<^verbatim>\<open>on_update\<close>, in order and each
  once; the objects go to the recycle queue in the same order and the other messages keep waiting.  It
  leaves messages waiting only when its time is used up, and even then it has handled at least one.
\<close>

theorem frame_round_messages:
  assumes "frame_round h tick time s = Some (s', pause, ms)"
  shows "\<exists>dt w2 q3 w3. fh_update h dt (sf_queue s) w2 = Some (q3, w3)
    \<and> ms @ msg_waiting (sf_queue s') = msg_waiting q3 \<and> msg_recycle (sf_queue s') = msg_recycle q3 @ ms
    \<and> (msg_waiting (sf_queue s') = [] \<or> ms \<noteq> [] \<and> (\<exists>n. ucast (sf_interval s) \<le> tick n - sf_prev_tick s'))"
proof -
  note rp = round_parts [OF assms]
  obtain t1 w2 q3 w3 q4 f3 f4 w4 n3 n4 where "fh_update h (t1 - sf_prev_tick s) (sf_queue s) w2 = Some (q3, w3)"
    and "msg_loop h tick t1 (sf_interval s) n3 q3 f3 w3 = Some (q4, f4, w4, n4, ms)"
    and "sf_queue s' = q4" "sf_prev_tick s' = t1" by (rule rp)
  then show ?thesis using msg_loop_spec by metis
qed

theorem frame_round_messages_witness:
  "\<exists>s' pause ms dt w2 q3 w3. frame_round first_hooks (\<lambda>n. 30 * word_of_nat n) (\<lambda>n. 0) first_frame = Some (s', pause, ms)
    \<and> fh_update first_hooks dt (sf_queue first_frame) w2 = Some (q3, w3) \<and> ms \<noteq> []
    \<and> ms @ msg_waiting (sf_queue s') = msg_waiting q3 \<and> msg_recycle (sf_queue s') = msg_recycle q3 @ ms"
proof -
  obtain s' pause where r: "frame_round first_hooks (\<lambda>n. 30 * word_of_nat n) (\<lambda>n. 0) first_frame
      = Some (s', pause, [message_new 1, message_new 2])" using first_round by blast
  show ?thesis using frame_round_messages [OF r] r by blast
qed

text \<open>
  The length of a frame: with \<open>t\<close> the last reading of the clock in the frame, a frame that has
  not used up its interval sleeps for exactly the rest of it; it is reported as busy otherwise.
\<close>

theorem frame_round_pause:
  assumes "frame_round h tick time s = Some (s', pause, ms)"
  shows "case pause of
      Some p \<Rightarrow> unat (ucast (tick (sf_ticks s' - 1) - sf_prev_tick s') :: u32) + unat p = unat (sf_interval s) \<and> p \<noteq> 0
    | None \<Rightarrow> sf_interval s \<le> ucast (tick (sf_ticks s' - 1) - sf_prev_tick s')"
proof -
  note rp = round_parts [OF assms]
  obtain t1 where p: "sf_prev_tick s' = t1" "pause = frame_pause (sf_interval s) (tick (sf_ticks s' - 1) - t1)"
    by (rule rp)
  let ?d = "ucast (tick (sf_ticks s' - 1) - t1) :: u32"
  show ?thesis
  proof (cases "?d < sf_interval s")
    case True
    then have "unat (sf_interval s - ?d) = unat (sf_interval s) - unat ?d"
      by (simp add: unat_sub_le)
    then show ?thesis using True p by (auto simp: frame_pause_def word_less_nat_alt)
  next
    case False
    then show ?thesis using p by (simp add: frame_pause_def)
  qed
qed

theorem frame_round_pause_witness:
  "\<exists>s' ms. frame_round first_hooks (\<lambda>n. 30 * word_of_nat n) (\<lambda>n. 0) first_frame = Some (s', None, ms)
    \<and> sf_interval first_frame \<le> ucast (30 * 4 - sf_prev_tick s')"
proof -
  obtain s' where r: "frame_round first_hooks (\<lambda>n. 30 * word_of_nat n) (\<lambda>n. 0) first_frame
      = Some (s', None, [message_new 1, message_new 2])" "sf_ticks s' = 5" using first_round by blast
  from frame_round_pause [OF r(1)] r show ?thesis by force
qed

section \<open>The echo\<close>

lemma resend_take: "i \<le> m \<Longrightarrow> resend r (take m d) i = resend r d i"
proof (induction r d i arbitrary: m rule: resend.induct)
  case (1 r d i)
  have "take (min (free_room r) i) (take m d) = take (min (free_room r) i) d"
    using 1(2) by (simp add: min_def)
  then show ?case
    using 1 by (subst resend.simps, subst (2) resend.simps) (simp add: Let_def)
qed

lemma sent_take: "sent r (take n d) n = sent r d n"
  by (simp add: sent_def resend_take split: prod.split)

lemma find_put:
  "List.find (\<lambda>r. s_id r = p) ss = Some s \<Longrightarrow> s_id s' = p \<Longrightarrow>
   List.find (\<lambda>r. s_id r = p) (map (\<lambda>r. if s_id r = p then s' else r) ss) = Some s'"
  by (induction ss) (auto split: if_splits)

lemma find_put_None:
  "List.find (\<lambda>r. s_id r = p) ss = None \<Longrightarrow>
   List.find (\<lambda>r. s_id r = p) (map (\<lambda>r. if s_id r = p then s' else r) ss) = None"
  by (induction ss) (auto split: if_splits)

lemma put_session_env [simp]: "w_env (put_session s w) = w_env w"
  by (simp add: put_session_def Let_def)

lemma session_at_put: "session_at p w = Some s \<Longrightarrow> s_id s' = p \<Longrightarrow> session_at p (put_session s' w) = Some s'"
  by (simp add: session_at_def put_session_def Let_def flip: map_append) (rule find_put)

lemma session_at_id: "session_at p w = Some s \<Longrightarrow> s_id s = p"
  by (auto simp: session_at_def find_Some_iff)

text \<open>What the handler of the server does with a message that has an opcode and fits.\<close>

lemma server_echoes:
  assumes "msg_wf msg" and "msg_bytes msg = map Some p" and "p \<noteq> []"
    and "packet_Opcode msg = Some opcode" and "opcode \<noteq> 0"
    and "m_ptr msg = Some a" and "session_at a w = Some s" and "session_Active s" and "send_wf s (w_env w)"
    and "4 + length p \<le> free_room (send_room s)"
  obtains s' e' where "server_on_msg msg w = Some (put_session s' (w\<lparr>w_env := e'\<rparr>))"
    and "session_at a (put_session s' (w\<lparr>w_env := e'\<rparr>)) = Some s'"
    and "sends s (w_env w) s' e' (map Some (frame p)) (free_room (send_room s) - 4 - length p)"
proof -
  let ?n = "unat (message_DataLength msg)"
  have le: "?n \<le> length (m_data msg)"
    using msg_wf_le [OF assms(1)] by (simp add: message_DataLength_def)
  have take: "take ?n (m_data msg) = map Some p"
    using assms(2) by (simp add: message_DataLength_def msg_bytes_def)
  have "?n = length p" using le arg_cong [OF take, of length] by simp
  note n = this take le
  have "sent (send_room s) (m_data msg) ?n = sent (send_room s) (map Some p) (length p)"
    using sent_take [of _ ?n] n by metis
  also have "\<dots> = (map Some (frame p), free_room (send_room s) - 4 - length p)"
    using sent_fits [OF assms(10) _ refl] assms(3) by simp
  finally have sent: "sent (send_room s) (m_data msg) ?n = (map Some (frame p), free_room (send_room s) - 4 - length p)" .
  obtain s' e' where s': "session_Send s (w_env w) (m_data msg) (message_DataLength msg) = Some (s', e')"
    "sends s (w_env w) s' e' (map Some (frame p)) (free_room (send_room s) - 4 - length p)"
    using session_Send_sends [OF assms(8,9) n(3)] sent by auto
  have "s_id s' = a" using s'(2) session_at_id [OF assms(7)] by (auto simp: sends_def)
  then have at: "session_at a (put_session s' (w\<lparr>w_env := e'\<rparr>)) = Some s'"
    using assms(7) by (intro session_at_put [where s = s]) (simp add: session_at_def)
  have "server_on_msg msg w = Some (put_session s' (w\<lparr>w_env := e'\<rparr>))"
    using assms(4-7) s'(1) by (simp add: server_on_msg_def)
  then show thesis using that at s'(2) by blast
qed

text \<open>
  The echo: a message with an opcode whose frame fits into the room of the send buffer of its session goes
  back on that session unchanged: behind what was queued there, its length field and its bytes.
\<close>

theorem echo:
  assumes "msg_wf msg" and "msg_bytes msg = map Some p" and "p \<noteq> []"
    and "packet_Opcode msg = Some opcode" and "opcode \<noteq> 0"
    and "m_ptr msg = Some a" and "session_at a w = Some s" and "session_Active s" and "send_wf s (w_env w)"
    and "4 + length p \<le> free_room (send_room s)"
  shows "\<exists>w' s'. server_on_msg msg w = Some w' \<and> session_at a w' = Some s'
    \<and> wire s' = wire s @ map Some (frame p) \<and> send_wf s' (w_env w') \<and> ne_mq (w_env w') = ne_mq (w_env w)"
proof -
  obtain s' e' where "server_on_msg msg w = Some (put_session s' (w\<lparr>w_env := e'\<rparr>))"
    "session_at a (put_session s' (w\<lparr>w_env := e'\<rparr>)) = Some s'"
    "sends s (w_env w) s' e' (map Some (frame p)) (free_room (send_room s) - 4 - length p)"
    by (rule server_echoes [OF assms])
  then show ?thesis by (auto simp: sends_def)
qed

text \<open>The message of two bytes, opcode 1, that the session 1 of the first world received.\<close>

definition first_msg :: message where
  "first_msg = \<lparr>m_size = 2, m_data = [Some 1, Some 0], m_curr_len = 2, m_data_len = 2, m_param = 0, m_ptr = Some 1\<rparr>"

definition served_world :: "session \<Rightarrow> world" where
  "served_world s = first_world\<lparr>w_mgr := netmgr_new\<lparr>nm_clients := [s]\<rparr>\<rparr>"

lemma first_msg_facts:
  "msg_wf first_msg" "msg_bytes first_msg = map Some [1, 0]" "packet_Opcode first_msg = Some 1" "m_ptr first_msg = Some 1"
  by (simp_all add: first_msg_def msg_wf_def msg_bytes_def packet_Opcode_def mem_read_def bytes_word_def)

lemma served_session: "s_id s = 1 \<Longrightarrow> session_at 1 (served_world s) = Some s"
  by (simp add: session_at_def served_world_def)

theorem echo_witness:
  "\<exists>w' s'. server_on_msg first_msg (served_world first_session) = Some w' \<and> session_at 1 w' = Some s'
    \<and> wire s' = map Some [2, 0, 0, 0, 1, 0]"
proof -
  have f: "frame [1, 0] = [2, 0, 0, 0, 1, 0]"
    by (simp add: frame_def word_bytes_def nat_bytes_numeral)
  have w: "w_env (served_world first_session) = first_env" by (simp add: served_world_def first_world_def)
  have "wire first_session = []" by (simp add: wire_def first_session_sel)
  then show ?thesis
    using echo [OF first_msg_facts(1,2) _ first_msg_facts(3) _ first_msg_facts(4)
        served_session [OF first_session_sel(4)], unfolded w] f
    by (auto simp: first_session_sel session_Active_def send_wf_def free_room_def send_room_def first_env_def
        mqueue_new_def pool_wf_def)
qed

section \<open>Messages of deleted sessions\<close>

text \<open>The call of \<^verbatim>\<open>Update\<close> on a session that is about to close, when no event is pending.\<close>

lemma Update_preclosed:
  assumes "io_lock io" and "s_status s = SS_PRECLOSED" and "s_events s = 0" and "session_Update io s e y = Some (s', e', y')"
  shows "session_Disposable s' \<and> ne_mq e' = ne_mq e"
  using assms
  by (auto simp: session_Update_def update_events_def post_recv_def post_send_def update_status_def Let_def
      session_set_socket_status_def update_register_def session_Disposable_def g_net_close_socket_def
      split: if_splits prod.splits)

lemma update_sessions_deletes:
  assumes "update_sessions ios ss e y = Some (ss', e', y')" and "\<And>io. io \<in> set ios \<Longrightarrow> io_lock io"
    and "\<And>s. s \<in> set ss \<Longrightarrow> s_id s = p \<Longrightarrow> s_status s = SS_PRECLOSED \<and> s_events s = 0"
  shows "p \<notin> s_id ` set ss'"
  using assms
proof (induction ss arbitrary: ios e y ss')
  case (Cons s ss)
  obtain io ios' where ios: "ios = io # ios'" using Cons.prems(1) by (cases ios) auto
  obtain s1 e1 y1 where 1: "session_Update io s e y = Some (s1, e1, y1)"
    using Cons.prems(1) ios by (auto simp: Option.bind_eq_Some_conv)
  have rest: "p \<notin> s_id ` set ts" if "update_sessions ios' ss e2 y2 = Some (ts, e', y')" for ts e2 y2
    using Cons.IH [OF that] Cons.prems(2,3) ios by auto
  show ?case
  proof (cases "session_Disposable s1")
    case True
    then show ?thesis using Cons.prems(1) ios 1 rest by (auto split: prod.splits)
  next
    case False
    then have "s_id s \<noteq> p"
      using Update_preclosed [OF _ _ _ 1] Cons.prems(2,3) ios by auto
    moreover obtain ts where t: "update_sessions ios' ss e1 y1 = Some (ts, e', y')" "ss' = s1 # ts"
      using False Cons.prems(1) ios 1 by (auto simp: Option.bind_eq_Some_conv)
    ultimately show ?thesis using rest [OF t(1)] Update_id [OF 1] by simp
  qed
qed simp

text \<open>
  A message outlives its session.  The frame's time can end with messages waiting; when the session that
  one of them came from is about to close, the next \<^verbatim>\<open>on_update\<close> deletes it, and the handler then follows the
  pointer to the deleted object.
\<close>

theorem stale_message:
  assumes "NetMgr_Update io w y = Some (w', y')" and "list_all io_lock (mi_clients io @ mi_servers io)"
    and "w_lost w = []" and "nm_connector (w_mgr w) = NoConnector"
    and "\<forall>s\<in>set (nm_clients (w_mgr w) @ nm_servers (w_mgr w)). s_id s = p \<longrightarrow> s_status s = SS_PRECLOSED \<and> s_events s = 0"
    and "m_ptr msg = Some p" and "packet_Opcode msg = Some opcode" and "opcode \<noteq> 0"
  shows "server_on_msg msg w' = None"
proof -
  obtain w1 y1 where 1: "update_listener w y = (w1, y1)" by (rule prod.exhaust)
  have w1: "nm_connector (w_mgr w1) = NoConnector" "w_lost w1 = w_lost w"
    "nm_clients (w_mgr w1) = nm_clients (w_mgr w)" "nm_servers (w_mgr w1) = nm_servers (w_mgr w)"
    using 1 assms(4) by (auto simp: update_listener_def split: option.splits prod.splits)
  then have 2: "update_connector (mi_connector io) w1 y1 = Some (w1, y1)" by (simp add: update_connector_def)
  obtain cs e3 y3 where 3: "update_sessions (mi_clients io) (nm_clients (w_mgr w1)) (w_env w1) y1 = Some (cs, e3, y3)"
    using assms(1) 1 2 by (auto simp: NetMgr_Update_def Option.bind_eq_Some_conv)
  obtain ss e4 where 4: "update_sessions (mi_servers io) (nm_servers (w_mgr w1)) e3 y3 = Some (ss, e4, y')"
    and w': "w' = w1\<lparr>w_env := e4, w_mgr := (w_mgr w1)\<lparr>nm_clients := cs, nm_servers := ss\<rparr>\<rparr>"
    using assms(1) 1 2 3 by (auto simp: NetMgr_Update_def Option.bind_eq_Some_conv)
  have "p \<notin> s_id ` set cs"
    by (rule update_sessions_deletes [OF 3]) (use assms(2,5) w1 in \<open>auto simp: list_all_iff\<close>)
  moreover have "p \<notin> s_id ` set ss"
    by (rule update_sessions_deletes [OF 4]) (use assms(2,5) w1 in \<open>auto simp: list_all_iff\<close>)
  ultimately have "session_at p w' = None"
    using w' w1 assms(3) by (auto simp: session_at_def find_None_iff)
  then show ?thesis using assms(6,7) by (simp add: server_on_msg_def assms(8))
qed

theorem stale_message_witness:
  "\<exists>w' y'. NetMgr_Update \<lparr>mi_connector = \<lparr>cu_lock = True, cu_so_error = 0, cu_replies = []\<rparr>,
        mi_clients = [\<lparr>io_lock = True, io_so_error = 0, io_recvs = [], io_sends = []\<rparr>], mi_servers = []\<rparr>
      (served_world (first_session\<lparr>s_status := SS_PRECLOSED\<rparr>)) first_sys = Some (w', y')
    \<and> server_on_msg first_msg (served_world (first_session\<lparr>s_status := SS_PRECLOSED\<rparr>)) \<noteq> None
    \<and> server_on_msg first_msg w' = None"
proof -
  let ?io = "\<lparr>mi_connector = \<lparr>cu_lock = True, cu_so_error = 0, cu_replies = []\<rparr>,
      mi_clients = [\<lparr>io_lock = True, io_so_error = 0, io_recvs = [], io_sends = []\<rparr>], mi_servers = []\<rparr>"
  let ?s = "first_session\<lparr>s_status := SS_PRECLOSED\<rparr>"
  obtain w' y' where u: "NetMgr_Update ?io (served_world ?s) first_sys = Some (w', y')"
    by (simp add: NetMgr_Update_def update_listener_def update_connector_def netmgr_new_def first_world_def served_world_def
        session_Update_def update_events_def first_session_sel post_recv_def post_send_def update_status_def
        g_net_close_socket_def session_set_socket_status_def update_register_def session_Disposable_def
        session_destroy_def Let_def)
  have "server_on_msg first_msg (served_world ?s) \<noteq> None"
    using first_msg_facts(3,4) served_session [of ?s]
    by (simp add: server_on_msg_def first_session_sel session_Send_def session_Active_def)
  moreover have "server_on_msg first_msg w' = None"
    by (rule stale_message [OF u, where p = 1 and opcode = 1])
      (use first_msg_facts(3,4) in \<open>auto simp: served_world_def first_world_def netmgr_new_def first_session_sel\<close>)
  ultimately show ?thesis using u by blast
qed

end
