(* ===== verification/Timer.thy ===== *)
theory Timer
  imports Prelude "HOL-Library.Sublist"
begin

text \<open>
  The timers: \<^verbatim>\<open>libcore/include/timer.h\<close>, \<^verbatim>\<open>libcore/src/timer.cpp\<close>, \<^verbatim>\<open>libcore/src/idmaker.cpp\<close> and the
  bookkeeping of \<^verbatim>\<open>libcore/src/ScriptTimer.cpp\<close>.

  A callback is a value of the type parameter \<open>'c\<close>; what it does is the parameter \<open>run\<close>: it may
  change the world \<open>'w\<close> and calls the timer functions, which it returns as commands in the order of
  the calls.  Ticks are readings of the millisecond clock.
\<close>

section \<open>Identifiers\<close>

record id_maker =
  im_id :: u32

definition id_maker_new :: "u32 \<Rightarrow> id_maker" where
  "id_maker_new val = \<lparr>im_id = val\<rparr>"

definition new_id :: "id_maker \<Rightarrow> u32 \<times> id_maker" where
  "new_id m = (let i = im_id m + 1 in (i, m\<lparr>im_id := i\<rparr>))"

fun new_ids :: "nat \<Rightarrow> id_maker \<Rightarrow> u32 list \<times> id_maker" where
  "new_ids 0 m = ([], m)"
| "new_ids (Suc n) m = (let (i, m1) = new_id m; (is, m2) = new_ids n m1 in (i # is, m2))"

section \<open>State\<close>

record 'c timer =
  t_count_time :: u64
  t_interval :: u32
  t_tid :: u32
  t_once :: u16
  t_canceled :: u16
  t_func :: "'c option"
  t_cb :: "'c option"

record 'c timer_mgr =
  tm_maker :: id_maker
  tm_timers :: "'c timer list"
  tm_new :: "'c timer list"
  tm_in_process :: u8

definition timer_mgr_new :: "'c timer_mgr" where
  "timer_mgr_new = \<lparr>tm_maker = id_maker_new 0, tm_timers = [], tm_new = [], tm_in_process = 0\<rparr>"

definition timer_SetOnce :: "u16 \<Rightarrow> 'c timer \<Rightarrow> 'c timer" where
  "timer_SetOnce r t = t\<lparr>t_once := r\<rparr>"

definition timer_SetCancel :: "'c timer \<Rightarrow> 'c timer" where
  "timer_SetCancel t = t\<lparr>t_canceled := 1\<rparr>"

definition timer_SetInteval :: "u32 \<Rightarrow> 'c timer \<Rightarrow> 'c timer" where
  "timer_SetInteval itv t = t\<lparr>t_interval := itv\<rparr>"

section \<open>Operations\<close>

definition add_timer :: "'c timer \<Rightarrow> 'c timer_mgr \<Rightarrow> 'c timer_mgr" where
  "add_timer t m =
     (if tm_in_process m \<noteq> 0 then m\<lparr>tm_new := tm_new m @ [t]\<rparr> else m\<lparr>tm_timers := tm_timers m @ [t]\<rparr>)"

text \<open>The two overloads of \<^verbatim>\<open>CreateTimer\<close>; \<open>once\<close> is 32 bits wide and stored in 16.\<close>

definition CreateTimer_cb :: "u64 \<Rightarrow> u32 \<Rightarrow> 'c option \<Rightarrow> u32 \<Rightarrow> 'c timer_mgr \<Rightarrow> u32 \<times> 'c timer_mgr" where
  "CreateTimer_cb tick itv cb once m =
     (let (tid, k) = new_id (tm_maker m);
          t = timer_SetOnce (ucast once) (timer_SetInteval itv
                \<lparr>t_count_time = tick, t_interval = 0, t_tid = 0, t_once = 1, t_canceled = 0, t_func = None, t_cb = None\<rparr>)
      in (tid, add_timer (t\<lparr>t_tid := tid, t_cb := cb\<rparr>) (m\<lparr>tm_maker := k\<rparr>)))"

definition CreateTimer_func :: "u64 \<Rightarrow> u32 \<Rightarrow> 'c option \<Rightarrow> u32 \<Rightarrow> 'c timer_mgr \<Rightarrow> u32 \<times> 'c timer_mgr" where
  "CreateTimer_func tick itv func once m =
     (let (tid, k) = new_id (tm_maker m);
          t = timer_SetOnce (ucast once) (timer_SetInteval itv
                \<lparr>t_count_time = tick, t_interval = 0, t_tid = 0, t_once = 1, t_canceled = 0, t_func = None, t_cb = None\<rparr>)
      in (tid, add_timer (t\<lparr>t_tid := tid, t_func := func\<rparr>) (m\<lparr>tm_maker := k\<rparr>)))"

text \<open>The first timer with the identifier, and the change of it in place.\<close>

definition GetTimer :: "u32 \<Rightarrow> 'c timer_mgr \<Rightarrow> 'c timer option" where
  "GetTimer tid m = find (\<lambda>t. t_tid t = tid) (tm_timers m @ tm_new m)"

fun change_first :: "('a \<Rightarrow> bool) \<Rightarrow> ('a \<Rightarrow> 'a) \<Rightarrow> 'a list \<Rightarrow> 'a list option" where
  "change_first P f [] = None"
| "change_first P f (x # xs) = (if P x then Some (f x # xs) else map_option ((#) x) (change_first P f xs))"

definition CancelTimer :: "u32 \<Rightarrow> 'c timer_mgr \<Rightarrow> 'c timer_mgr" where
  "CancelTimer tid m =
     (case change_first (\<lambda>t. t_tid t = tid) timer_SetCancel (tm_timers m) of
        Some ts \<Rightarrow> m\<lparr>tm_timers := ts\<rparr>
      | None \<Rightarrow> (case change_first (\<lambda>t. t_tid t = tid) timer_SetCancel (tm_new m) of
                   Some ts \<Rightarrow> m\<lparr>tm_new := ts\<rparr>
                 | None \<Rightarrow> m))"

text \<open>What a running callback may call; the last three act on the timer it was handed.\<close>

datatype 'c timer_cmd = CmdCreate u64 u32 "'c option" u32 | CmdCancel u32
  | CmdSetOnce u16 | CmdSetInteval u32 | CmdSetCancel

fun exec_cmd :: "nat \<Rightarrow> 'c timer_cmd \<Rightarrow> 'c timer_mgr \<Rightarrow> 'c timer_mgr" where
  "exec_cmd i (CmdCreate tick itv cb once) m = snd (CreateTimer_cb tick itv cb once m)"
| "exec_cmd i (CmdCancel tid) m = CancelTimer tid m"
| "exec_cmd i (CmdSetOnce r) m = m\<lparr>tm_timers := (tm_timers m)[i := timer_SetOnce r (tm_timers m ! i)]\<rparr>"
| "exec_cmd i (CmdSetInteval itv) m = m\<lparr>tm_timers := (tm_timers m)[i := timer_SetInteval itv (tm_timers m ! i)]\<rparr>"
| "exec_cmd i CmdSetCancel m = m\<lparr>tm_timers := (tm_timers m)[i := timer_SetCancel (tm_timers m ! i)]\<rparr>"

definition exec_cmds :: "nat \<Rightarrow> 'c timer_cmd list \<Rightarrow> 'c timer_mgr \<Rightarrow> 'c timer_mgr" where
  "exec_cmds i cs m = fold (exec_cmd i) cs m"

type_synonym ('c, 'w) runner = "'c \<Rightarrow> 'c timer_mgr \<Rightarrow> 'w \<Rightarrow> 'c timer_cmd list \<times> 'w"

text \<open>The condition under which \<^verbatim>\<open>Update\<close> runs a timer.\<close>

definition timer_due :: "u64 \<Rightarrow> 'c timer \<Rightarrow> bool" where
  "timer_due now t \<longleftrightarrow> t_count_time t + ucast (t_interval t) \<ge> now"

definition erase_at :: "nat \<Rightarrow> 'a list \<Rightarrow> 'a list" where
  "erase_at i xs = take i xs @ drop (Suc i) xs"

text \<open>
  Running the timer at position \<open>i\<close>: its callback, the new count time, and whether it goes away.
  The last result lists the identifiers of the timers that were run.
\<close>

definition fire :: "('c, 'w) runner \<Rightarrow> u64 \<Rightarrow> nat \<Rightarrow> 'c timer_mgr \<Rightarrow> 'w \<Rightarrow> 'c timer_mgr \<times> 'w" where
  "fire run now i m w =
     (let t = tm_timers m ! i;
          (cmds, w1) = (case t_func t of
                          Some f \<Rightarrow> run f m w
                        | None \<Rightarrow> (case t_cb t of Some f \<Rightarrow> run f m w | None \<Rightarrow> ([], w)));
          m1 = exec_cmds i cmds m
      in (m1\<lparr>tm_timers := (tm_timers m1)[i := (tm_timers m1 ! i)\<lparr>t_count_time := now\<rparr>]\<rparr>, w1))"

text \<open>
  The loop over \<^verbatim>\<open>lstTimers\<close>.  The list cannot grow while it runs, so it makes as many rounds as there
  were timers at its start; \<open>i\<close> is the position of the iterator.
\<close>

fun update_timers :: "('c, 'w) runner \<Rightarrow> u64 \<Rightarrow> nat \<Rightarrow> nat \<Rightarrow> 'c timer_mgr \<Rightarrow> 'w \<Rightarrow> 'c timer_mgr \<times> 'w \<times> u32 list" where
  "update_timers run now 0 i m w = (m, w, [])"
| "update_timers run now (Suc n) i m w =
     (let t = tm_timers m ! i
      in if t_canceled t \<noteq> 0
         then update_timers run now n i (m\<lparr>tm_timers := erase_at i (tm_timers m)\<rparr>) w
         else if timer_due now t
         then let (m1, w1) = fire run now i m w
              in if t_once (tm_timers m1 ! i) \<noteq> 0
                 then let (m2, w2, ids) = update_timers run now n i (m1\<lparr>tm_timers := erase_at i (tm_timers m1)\<rparr>) w1
                      in (m2, w2, t_tid t # ids)
                 else let (m2, w2, ids) = update_timers run now n (Suc i) m1 w1
                      in (m2, w2, t_tid t # ids)
         else update_timers run now n (Suc i) m w)"

definition timer_Update :: "('c, 'w) runner \<Rightarrow> u64 \<Rightarrow> 'c timer_mgr \<Rightarrow> 'w \<Rightarrow> 'c timer_mgr \<times> 'w \<times> u32 list" where
  "timer_Update run now m w =
     (let (m1, w1, ids) = update_timers run now (length (tm_timers m)) 0 (m\<lparr>tm_in_process := 1\<rparr>) w;
          m2 = m1\<lparr>tm_in_process := 0\<rparr>
      in (if tm_new m2 \<noteq> [] then m2\<lparr>tm_timers := tm_timers m2 @ tm_new m2, tm_new := []\<rparr> else m2, w1, ids))"

definition timer_release :: "'c timer_mgr \<Rightarrow> 'c timer_mgr" where
  "timer_release m = m\<lparr>tm_timers := [], tm_new := []\<rparr>"

section \<open>Script timers\<close>

text \<open>The set of the timers a script has created; its iteration order is not specified.\<close>

definition script_timer_Create :: "u64 \<Rightarrow> u32 \<Rightarrow> 'c \<Rightarrow> u32 \<Rightarrow> u32 list \<Rightarrow> 'c timer_mgr \<Rightarrow> u64 \<times> u32 list \<times> 'c timer_mgr" where
  "script_timer_Create tick itv cb loop tids m =
     (let (tid, m1) = CreateTimer_cb tick itv (Some cb) loop m in (ucast tid, List.insert tid tids, m1))"

definition script_timer_Cancel :: "u32 \<Rightarrow> u32 list \<Rightarrow> 'c timer_mgr \<Rightarrow> u32 list \<times> 'c timer_mgr" where
  "script_timer_Cancel tid tids m = (removeAll tid tids, CancelTimer tid m)"

definition script_timer_CancelAll :: "u32 list \<Rightarrow> 'c timer_mgr \<Rightarrow> u32 list \<times> 'c timer_mgr" where
  "script_timer_CancelAll tids m = ([], fold CancelTimer tids m)"

declare id_maker_new_def [code_defs] new_id_def [code_defs] timer_mgr_new_def [code_defs] timer_SetOnce_def [code_defs]
  timer_SetCancel_def [code_defs] timer_SetInteval_def [code_defs] add_timer_def [code_defs]
  CreateTimer_cb_def [code_defs] CreateTimer_func_def [code_defs] GetTimer_def [code_defs] CancelTimer_def [code_defs]
  exec_cmds_def [code_defs] timer_due_def [code_defs] erase_at_def [code_defs] fire_def [code_defs]
  timer_Update_def [code_defs]

section \<open>What the callbacks can change\<close>

text \<open>A timer that was left alone or cancelled.\<close>

definition weaker :: "'c timer \<Rightarrow> 'c timer \<Rightarrow> bool" where
  "weaker t t' \<longleftrightarrow> t_tid t' = t_tid t \<and> t_count_time t' = t_count_time t \<and> t_interval t' = t_interval t
     \<and> t_func t' = t_func t \<and> t_cb t' = t_cb t \<and> (t_canceled t \<noteq> 0 \<longrightarrow> t_canceled t' \<noteq> 0)"

lemma weaker_refl [simp]: "weaker t t"
  by (simp add: weaker_def)

lemma weaker_trans: "weaker a b \<Longrightarrow> weaker b c \<Longrightarrow> weaker a c"
  by (simp add: weaker_def)

lemma weaker_Cancel: "weaker t (timer_SetCancel t)"
  by (simp add: weaker_def timer_SetCancel_def)

lemma change_first_weaker:
  "change_first P timer_SetCancel ts = Some ts' \<Longrightarrow> list_all2 weaker ts ts'"
  by (induction ts arbitrary: ts') (auto simp: weaker_Cancel list_all2_refl split: if_splits)

text \<open>During an update: the timers behind position \<open>i\<close> are at most cancelled, no identifier changes.\<close>

definition evolves :: "nat \<Rightarrow> 'c timer_mgr \<Rightarrow> 'c timer_mgr \<Rightarrow> bool" where
  "evolves i m m' \<longleftrightarrow> tm_in_process m' = tm_in_process m
     \<and> map t_tid (tm_timers m') = map t_tid (tm_timers m)
     \<and> list_all2 weaker (drop (Suc i) (tm_timers m)) (drop (Suc i) (tm_timers m'))
     \<and> (\<exists>news. map t_tid (tm_new m') = map t_tid (tm_new m) @ news)"

lemma evolves_refl [simp]: "evolves i m m"
  by (simp add: evolves_def list_all2_refl)

lemma evolves_trans:
  assumes "evolves i m m1" and "evolves i m1 m2"
  shows "evolves i m m2"
proof -
  have "list_all2 weaker (drop (Suc i) (tm_timers m)) (drop (Suc i) (tm_timers m2))"
    using assms by (auto simp: evolves_def intro: list_all2_trans [OF weaker_trans])
  then show ?thesis using assms by (auto simp: evolves_def)
qed

lemma list_all2_weaker_tids: "list_all2 weaker ts ts' \<Longrightarrow> map t_tid ts' = map t_tid ts"
  by (induction rule: list_all2_induct) (auto simp: weaker_def)

lemma evolves_update:
  assumes "\<And>t. t_tid (f t) = t_tid t"
  shows "evolves i m (m\<lparr>tm_timers := (tm_timers m)[i := f (tm_timers m ! i)]\<rparr>)"
proof -
  have "map t_tid ((tm_timers m)[i := f (tm_timers m ! i)]) = map t_tid (tm_timers m)"
    by (simp add: map_update assms list_update_same_conv [THEN iffD2] flip: nth_map)
      (metis assms list_update_beyond list_update_id map_update not_le nth_map)
  then show ?thesis by (simp add: evolves_def list_all2_refl)
qed

lemma evolves_exec_cmd:
  assumes "tm_in_process m \<noteq> 0"
  shows "evolves i m (exec_cmd i c m)"
proof (cases c)
  case (CmdCreate tick itv cb once)
  then show ?thesis using assms
    by (simp add: CreateTimer_cb_def add_timer_def evolves_def list_all2_refl Let_def split: prod.split)
next
  case (CmdCancel tid)
  then show ?thesis
    by (auto simp: CancelTimer_def evolves_def list_all2_refl list_all2_weaker_tids
        dest!: change_first_weaker intro: list_all2_dropI split: option.split)
next
  case (CmdSetOnce r)
  then show ?thesis using evolves_update [of "timer_SetOnce r"] by (simp add: timer_SetOnce_def)
next
  case (CmdSetInteval itv)
  then show ?thesis using evolves_update [of "timer_SetInteval itv"] by (simp add: timer_SetInteval_def)
next
  case CmdSetCancel
  then show ?thesis using evolves_update [of timer_SetCancel] by (simp add: timer_SetCancel_def)
qed

lemma evolves_exec_cmds: "tm_in_process m \<noteq> 0 \<Longrightarrow> evolves i m (exec_cmds i cs m)"
proof (induction cs arbitrary: m)
  case (Cons c cs)
  have e: "evolves i m (exec_cmd i c m)" by (rule evolves_exec_cmd [OF Cons.prems])
  then have "tm_in_process (exec_cmd i c m) \<noteq> 0" using Cons.prems by (simp add: evolves_def)
  from evolves_trans [OF e Cons.IH [OF this]] show ?case by (simp add: exec_cmds_def)
qed (simp add: exec_cmds_def)

lemma evolves_fire:
  assumes "tm_in_process m \<noteq> 0" and "fire run now i m w = (m1, w1)"
  shows "evolves i m m1"
proof -
  obtain cmds where "m1 = (exec_cmds i cmds m)\<lparr>tm_timers := (tm_timers (exec_cmds i cmds m))
      [i := (tm_timers (exec_cmds i cmds m) ! i)\<lparr>t_count_time := now\<rparr>]\<rparr>"
    using assms(2) by (auto simp: fire_def Let_def split: prod.splits)
  then show ?thesis
    using evolves_trans [OF evolves_exec_cmds [OF assms(1)] evolves_update [of "\<lambda>t. t\<lparr>t_count_time := now\<rparr>"]]
    by simp
qed

section \<open>The update loop\<close>

definition live :: "u64 \<Rightarrow> 'c timer \<Rightarrow> bool" where
  "live now t \<longleftrightarrow> t_canceled t = 0 \<and> timer_due now t"

lemma live_weaker: "weaker t t' \<Longrightarrow> live now t' \<Longrightarrow> live now t"
  by (auto simp: weaker_def live_def timer_due_def)

lemma subseq_live:
  "list_all2 weaker ts ts' \<Longrightarrow> subseq (map t_tid (filter (live now) ts')) (map t_tid (filter (live now) ts))"
proof (induction rule: list_all2_induct)
  case (Cons x xs y ys)
  then show ?case using live_weaker [OF Cons.hyps(1), of now]
    by (auto simp: weaker_def intro: list_emb_Cons)
qed simp

lemma take_erase: "i \<le> length xs \<Longrightarrow> take i (erase_at i xs) = take i xs" "i < length xs \<Longrightarrow> drop i (erase_at i xs) = drop (Suc i) xs"
  by (simp_all add: erase_at_def)

text \<open>
  What one run of the loop does to the rest of the list: \<open>kept\<close> are the timers that stay, \<open>ids\<close>
  the ones that were run, and the new timers only join the list of new timers.
\<close>

definition loop_does :: "u64 \<Rightarrow> nat \<Rightarrow> 'c timer_mgr \<Rightarrow> 'c timer_mgr \<Rightarrow> u32 list \<Rightarrow> bool" where
  "loop_does now i m m' ids \<longleftrightarrow> tm_in_process m' = tm_in_process m
    \<and> (\<exists>kept. map t_tid (tm_timers m') = map t_tid (take i (tm_timers m)) @ kept
         \<and> subseq kept (map t_tid (drop i (tm_timers m))))
    \<and> (\<exists>news. map t_tid (tm_new m') = map t_tid (tm_new m) @ news)
    \<and> subseq ids (map t_tid (filter (live now) (drop i (tm_timers m))))"

lemma drop_at: "i < length xs \<Longrightarrow> drop i xs = xs ! i # drop (Suc i) xs"
  by (simp add: Cons_nth_drop_Suc)

lemma loop_erases:
  assumes "loop_does now i (m\<lparr>tm_timers := erase_at i (tm_timers m)\<rparr>) m' ids" and "i < length (tm_timers m)"
  shows "loop_does now i m m' ids"
  using assms by (auto simp: loop_does_def take_erase drop_at)

lemma loop_skips:
  assumes "loop_does now (Suc i) m m' ids" and "i < length (tm_timers m)" and "\<not> live now (tm_timers m ! i)"
  shows "loop_does now i m m' ids"
  using assms by (auto simp: loop_does_def drop_at take_Suc_conv_app_nth)

lemma evolves_parts:
  assumes "evolves i m m1" and "i < length (tm_timers m)"
  shows "length (tm_timers m1) = length (tm_timers m)" and "t_tid (tm_timers m1 ! i) = t_tid (tm_timers m ! i)"
    and "map t_tid (take k (tm_timers m1)) = map t_tid (take k (tm_timers m))"
    and "map t_tid (drop k (tm_timers m1)) = map t_tid (drop k (tm_timers m))"
    and "subseq (map t_tid (filter (live now) (drop (Suc i) (tm_timers m1)))) (map t_tid (filter (live now) (drop (Suc i) (tm_timers m))))"
proof -
  have tids: "map t_tid (tm_timers m1) = map t_tid (tm_timers m)" using assms(1) by (simp add: evolves_def)
  then show len: "length (tm_timers m1) = length (tm_timers m)" by (metis length_map)
  then show "t_tid (tm_timers m1 ! i) = t_tid (tm_timers m ! i)" using tids assms(2) by (metis nth_map)
  show "map t_tid (take k (tm_timers m1)) = map t_tid (take k (tm_timers m))" using tids by (metis take_map)
  show "map t_tid (drop k (tm_timers m1)) = map t_tid (drop k (tm_timers m))" using tids by (metis drop_map)
  show "subseq (map t_tid (filter (live now) (drop (Suc i) (tm_timers m1)))) (map t_tid (filter (live now) (drop (Suc i) (tm_timers m))))"
    using assms(1) by (intro subseq_live) (simp add: evolves_def)
qed

lemma loop_runs:
  assumes "evolves i m m1" and "i < length (tm_timers m)" and "live now (tm_timers m ! i)"
    and "loop_does now (Suc i) m1 m' ids \<or> loop_does now i (m1\<lparr>tm_timers := erase_at i (tm_timers m1)\<rparr>) m' ids"
  shows "loop_does now i m m' (t_tid (tm_timers m ! i) # ids)"
proof -
  note e = evolves_parts [OF assms(1,2)]
  obtain news1 where n1: "map t_tid (tm_new m1) = map t_tid (tm_new m) @ news1" using assms(1) by (auto simp: evolves_def)
  have i1: "i < length (tm_timers m1)" using e(1) assms(2) by simp
  have p1: "tm_in_process m1 = tm_in_process m" using assms(1) by (simp add: evolves_def)
  have "subseq ids (map t_tid (filter (live now) (drop (Suc i) (tm_timers m1))))"
    using assms(4) i1 by (auto simp: loop_does_def take_erase)
  then have ids: "subseq ids (map t_tid (filter (live now) (drop (Suc i) (tm_timers m))))"
    using e(5) subseq_order.order_trans by blast
  have "\<exists>kept. map t_tid (tm_timers m') = map t_tid (take i (tm_timers m)) @ kept \<and> subseq kept (map t_tid (drop i (tm_timers m)))"
    using assms(4)
  proof
    assume "loop_does now (Suc i) m1 m' ids"
    then obtain kept where k: "map t_tid (tm_timers m') = map t_tid (take (Suc i) (tm_timers m)) @ kept"
      "subseq kept (map t_tid (drop (Suc i) (tm_timers m)))" by (auto simp: loop_does_def e(3,4))
    then show ?thesis using assms(2)
      by (intro exI [of _ "t_tid (tm_timers m ! i) # kept"]) (simp add: take_Suc_conv_app_nth drop_at)
  next
    assume "loop_does now i (m1\<lparr>tm_timers := erase_at i (tm_timers m1)\<rparr>) m' ids"
    then obtain kept where k: "map t_tid (tm_timers m') = map t_tid (take i (tm_timers m)) @ kept"
      "subseq kept (map t_tid (drop (Suc i) (tm_timers m)))" using i1 by (auto simp: loop_does_def take_erase e(3,4))
    then show ?thesis using assms(2) by (intro exI [of _ kept]) (simp add: drop_at list_emb_Cons)
  qed
  moreover have "tm_in_process m' = tm_in_process m" "\<exists>news. map t_tid (tm_new m') = map t_tid (tm_new m) @ news"
    using assms(4) n1 p1 by (auto simp: loop_does_def)
  ultimately show ?thesis using ids assms(2,3) by (simp add: loop_does_def drop_at)
qed

lemma update_timers_does:
  assumes "tm_in_process m \<noteq> 0" and "i + n = length (tm_timers m)" and "update_timers run now n i m w = (m', w', ids)"
  shows "loop_does now i m m' ids"
  using assms
proof (induction n arbitrary: i m w m' w' ids)
  case 0
  then show ?case by (simp add: loop_does_def)
next
  case (Suc n)
  let ?t = "tm_timers m ! i"
  have len: "i < length (tm_timers m)" using Suc.prems(2) by simp
  consider (gone) "t_canceled ?t \<noteq> 0" | (idle) "t_canceled ?t = 0" "\<not> timer_due now ?t" | (due) "t_canceled ?t = 0" "timer_due now ?t"
    by blast
  then show ?case
  proof cases
    case gone
    let ?m = "m\<lparr>tm_timers := erase_at i (tm_timers m)\<rparr>"
    have "update_timers run now n i ?m w = (m', w', ids)" "i + n = length (tm_timers ?m)"
      using Suc.prems(2,3) gone by (simp_all add: Let_def erase_at_def)
    then have "loop_does now i ?m m' ids" using Suc.IH [of ?m i] Suc.prems(1) by simp
    then show ?thesis by (rule loop_erases [OF _ len])
  next
    case idle
    then have "update_timers run now n (Suc i) m w = (m', w', ids)" using Suc.prems(3) by (simp add: Let_def)
    then have "loop_does now (Suc i) m m' ids" using Suc.IH [of m "Suc i"] Suc.prems(1,2) by simp
    then show ?thesis by (rule loop_skips [OF _ len]) (simp add: live_def idle(2))
  next
    case due
    obtain m1 w1 where f: "fire run now i m w = (m1, w1)" by (rule prod.exhaust)
    have ev: "evolves i m m1" by (rule evolves_fire [OF Suc.prems(1) f])
    let ?m = "m1\<lparr>tm_timers := erase_at i (tm_timers m1)\<rparr>"
    have ip: "tm_in_process m1 \<noteq> 0" using ev Suc.prems(1) by (simp add: evolves_def)
    have len1: "Suc i + n = length (tm_timers m1)" "i + n = length (tm_timers ?m)"
      using evolves_parts(1) [OF ev len] Suc.prems(2) by (simp_all add: erase_at_def)
    have "\<exists>ids1. ids = t_tid ?t # ids1 \<and> (loop_does now (Suc i) m1 m' ids1 \<or> loop_does now i ?m m' ids1)"
      using Suc.prems(3) due f Suc.IH [OF ip len1(1)] Suc.IH [of ?m i] ip len1(2)
      by (auto simp: Let_def split: prod.splits if_splits)
    then show ?thesis using loop_runs [OF ev len] due by (auto simp: live_def)
  qed
qed

section \<open>The calls of an update\<close>

text \<open>The callbacks with a record of their calls in the world.\<close>

definition logged :: "('c, 'w) runner \<Rightarrow> ('c, 'w \<times> 'c list) runner" where
  "logged run c m w = (case run c m (fst w) of (cmds, w1) \<Rightarrow> (cmds, w1, snd w @ [c]))"

definition callback_of :: "'c timer \<Rightarrow> 'c list" where
  "callback_of t = (case t_func t of Some f \<Rightarrow> [f] | None \<Rightarrow> (case t_cb t of Some f \<Rightarrow> [f] | None \<Rightarrow> []))"

definition calls_of :: "u64 \<Rightarrow> 'c timer list \<Rightarrow> 'c list" where
  "calls_of now ts = concat (map callback_of (filter (live now) ts))"

lemma calls_of_simps [simp]:
  "calls_of now [] = []" "calls_of now (t # ts) = (if live now t then callback_of t else []) @ calls_of now ts"
  by (simp_all add: calls_of_def)

lemma calls_of_weaker: "list_all2 weaker ts ts' \<Longrightarrow> subseq (calls_of now ts') (calls_of now ts)"
proof (induction rule: list_all2_induct)
  case (Cons t ts t' ts')
  have "callback_of t' = callback_of t" using Cons.hyps(1) by (simp add: weaker_def callback_of_def cong: option.case_cong)
  then show ?case using Cons.IH live_weaker [OF Cons.hyps(1), of now]
    by (auto intro: subseq_drop_many list_emb_append_mono)
qed simp

text \<open>A callback that cancels nothing: the timers behind the one that runs stay as they are.\<close>

definition cancels :: "'c timer_cmd \<Rightarrow> bool" where
  "cancels c \<longleftrightarrow> (case c of CmdCancel tid \<Rightarrow> True | CmdSetCancel \<Rightarrow> True | _ \<Rightarrow> False)"

definition never_cancels :: "('c, 'w) runner \<Rightarrow> bool" where
  "never_cancels run \<longleftrightarrow> (\<forall>c m w. list_all (\<lambda>cmd. \<not> cancels cmd) (fst (run c m w)))"

lemma exec_cmd_behind:
  "tm_in_process m \<noteq> 0 \<Longrightarrow> \<not> cancels c \<Longrightarrow> drop (Suc i) (tm_timers (exec_cmd i c m)) = drop (Suc i) (tm_timers m)"
  by (cases c) (simp_all add: cancels_def CreateTimer_cb_def add_timer_def Let_def split: prod.split)

lemma exec_cmds_behind:
  "tm_in_process m \<noteq> 0 \<Longrightarrow> list_all (\<lambda>c. \<not> cancels c) cs \<Longrightarrow> drop (Suc i) (tm_timers (exec_cmds i cs m)) = drop (Suc i) (tm_timers m)"
proof (induction cs arbitrary: m)
  case (Cons c cs)
  have "tm_in_process (exec_cmd i c m) \<noteq> 0" using evolves_exec_cmd [OF Cons.prems(1), of i c] Cons.prems(1) by (simp add: evolves_def)
  then show ?case using Cons exec_cmd_behind [of m c i] by (simp add: exec_cmds_def)
qed (simp add: exec_cmds_def)

lemma fire_logged:
  assumes "fire (logged run) now i m (w, log) = (m1, w1)"
  shows "snd w1 = log @ callback_of (tm_timers m ! i)"
    and "never_cancels run \<Longrightarrow> tm_in_process m \<noteq> 0 \<Longrightarrow> drop (Suc i) (tm_timers m1) = drop (Suc i) (tm_timers m)"
proof -
  let ?t = "tm_timers m ! i"
  obtain cmds w2 where r: "(case t_func ?t of Some f \<Rightarrow> logged run f m (w, log)
      | None \<Rightarrow> (case t_cb ?t of Some f \<Rightarrow> logged run f m (w, log) | None \<Rightarrow> ([], w, log))) = (cmds, w2)" by (rule prod.exhaust)
  have f: "w1 = w2" "m1 = (exec_cmds i cmds m)\<lparr>tm_timers := (tm_timers (exec_cmds i cmds m))
      [i := (tm_timers (exec_cmds i cmds m) ! i)\<lparr>t_count_time := now\<rparr>]\<rparr>"
    using assms r by (simp_all add: fire_def Let_def)
  show "snd w1 = log @ callback_of ?t"
    using r f(1) by (auto simp: callback_of_def logged_def split: option.splits prod.splits)
  assume n: "never_cancels run" "tm_in_process m \<noteq> 0"
  have "list_all (\<lambda>cmd. \<not> cancels cmd) cmds"
    using r n(1) by (auto simp: logged_def never_cancels_def split: option.splits prod.splits) (metis fst_conv)+
  then show "drop (Suc i) (tm_timers m1) = drop (Suc i) (tm_timers m)"
    using exec_cmds_behind [OF n(2), of cmds i] f(2) by simp
qed

lemma update_timers_calls:
  assumes "tm_in_process m \<noteq> 0" and "i + n = length (tm_timers m)"
    and "update_timers (logged run) now n i m (w, log) = (m', w', ids)"
  shows "\<exists>calls. snd w' = log @ calls \<and> subseq calls (calls_of now (drop i (tm_timers m)))
    \<and> (never_cancels run \<longrightarrow> calls = calls_of now (drop i (tm_timers m)))"
  using assms
proof (induction n arbitrary: i m w log m' w' ids)
  case 0
  then show ?case by auto
next
  case (Suc n)
  let ?t = "tm_timers m ! i"
  have len: "i < length (tm_timers m)" using Suc.prems(2) by simp
  note d = drop_at [OF len]
  consider (gone) "t_canceled ?t \<noteq> 0" | (idle) "t_canceled ?t = 0" "\<not> timer_due now ?t" | (due) "t_canceled ?t = 0" "timer_due now ?t"
    by blast
  then show ?case
  proof cases
    case gone
    let ?m = "m\<lparr>tm_timers := erase_at i (tm_timers m)\<rparr>"
    have "update_timers (logged run) now n i ?m (w, log) = (m', w', ids)" "i + n = length (tm_timers ?m)"
      using Suc.prems(2,3) gone by (simp_all add: Let_def erase_at_def)
    from Suc.IH [OF _ this(2,1)] Suc.prems(1) show ?thesis
      using gone by (simp add: d take_erase(2) [OF len] live_def)
  next
    case idle
    then have "update_timers (logged run) now n (Suc i) m (w, log) = (m', w', ids)" using Suc.prems(3) by (simp add: Let_def)
    from Suc.IH [OF Suc.prems(1) _ this] Suc.prems(2) show ?thesis using idle by (simp add: d live_def)
  next
    case due
    obtain m1 w1 where f: "fire (logged run) now i m (w, log) = (m1, w1)" by (rule prod.exhaust)
    obtain w2 log2 where w1: "w1 = (w2, log2)" by (rule prod.exhaust)
    have ev: "evolves i m m1" by (rule evolves_fire [OF Suc.prems(1) f])
    have l2: "log2 = log @ callback_of ?t" using fire_logged(1) [OF f] w1 by simp
    have ip: "tm_in_process m1 \<noteq> 0" using ev Suc.prems(1) by (simp add: evolves_def)
    have len1: "length (tm_timers m1) = length (tm_timers m)" by (rule evolves_parts(1) [OF ev len])
    let ?m = "m1\<lparr>tm_timers := erase_at i (tm_timers m1)\<rparr>"
    have dm: "drop i (tm_timers ?m) = drop (Suc i) (tm_timers m1)" using take_erase(2) [of i "tm_timers m1"] len len1 by simp
    have lens: "i + n = length (tm_timers ?m)" "Suc i + n = length (tm_timers m1)" using Suc.prems(2) len1 by (simp_all add: erase_at_def)
    have "(\<exists>ids1. update_timers (logged run) now n (Suc i) m1 (w2, log2) = (m', w', ids1))
        \<or> (\<exists>ids1. update_timers (logged run) now n i ?m (w2, log2) = (m', w', ids1))"
      using Suc.prems(3) due f w1 by (auto simp: Let_def split: prod.splits if_splits)
    then have "\<exists>calls. snd w' = log2 @ calls \<and> subseq calls (calls_of now (drop (Suc i) (tm_timers m1)))
        \<and> (never_cancels run \<longrightarrow> calls = calls_of now (drop (Suc i) (tm_timers m1)))"
    proof (elim disjE exE)
      fix ids1 assume "update_timers (logged run) now n (Suc i) m1 (w2, log2) = (m', w', ids1)"
      from Suc.IH [OF ip lens(2) this] show ?thesis .
    next
      fix ids1 assume u: "update_timers (logged run) now n i ?m (w2, log2) = (m', w', ids1)"
      have "tm_in_process ?m \<noteq> 0" using ip by simp
      from Suc.IH [OF this lens(1) u] show ?thesis unfolding dm .
    qed
    then obtain calls where c: "snd w' = log2 @ calls" "subseq calls (calls_of now (drop (Suc i) (tm_timers m1)))"
      "never_cancels run \<longrightarrow> calls = calls_of now (drop (Suc i) (tm_timers m1))" by blast
    have "list_all2 weaker (drop (Suc i) (tm_timers m)) (drop (Suc i) (tm_timers m1))" using ev by (simp add: evolves_def)
    then have "subseq calls (calls_of now (drop (Suc i) (tm_timers m)))"
      using c(2) calls_of_weaker subseq_order.order_trans by blast
    moreover have "never_cancels run \<longrightarrow> calls = calls_of now (drop (Suc i) (tm_timers m))"
      using c(3) fire_logged(2) [OF f _ Suc.prems(1)] by auto
    ultimately show ?thesis using c(1) l2 due
      by (intro exI [of _ "callback_of ?t @ calls"]) (simp add: d live_def list_emb_append_mono)
  qed
qed

text \<open>When the callbacks leave the timers alone, the new list is known.\<close>

lemma update_timers_silent:
  assumes "\<forall>c m w. fst (run c m w) = []" and "i + n = length (tm_timers m)" and "update_timers run now n i m w = (m', w', ids)"
  shows "m' = m\<lparr>tm_timers := take i (tm_timers m) @ map (\<lambda>t. if timer_due now t then t\<lparr>t_count_time := now\<rparr> else t)
      (filter (\<lambda>t. t_canceled t = 0 \<and> \<not> (timer_due now t \<and> t_once t \<noteq> 0)) (drop i (tm_timers m)))\<rparr>"
  using assms(2,3)
proof (induction n arbitrary: i m w m' w' ids)
  case 0
  then show ?case by simp
next
  case (Suc n)
  let ?t = "tm_timers m ! i"
  have len: "i < length (tm_timers m)" using Suc.prems(1) by simp
  note d = drop_at [OF len] and tk = take_Suc_conv_app_nth [OF len]
  consider (gone) "t_canceled ?t \<noteq> 0" | (idle) "t_canceled ?t = 0" "\<not> timer_due now ?t" | (due) "t_canceled ?t = 0" "timer_due now ?t"
    by blast
  then show ?case
  proof cases
    case gone
    let ?m = "m\<lparr>tm_timers := erase_at i (tm_timers m)\<rparr>"
    have "update_timers run now n i ?m w = (m', w', ids)" "i + n = length (tm_timers ?m)"
      using Suc.prems gone by (simp_all add: Let_def erase_at_def)
    from Suc.IH [OF this(2,1)] show ?thesis using gone len by (simp add: d take_erase)
  next
    case idle
    then have "update_timers run now n (Suc i) m w = (m', w', ids)" using Suc.prems(2) by (simp add: Let_def)
    from Suc.IH [OF _ this] Suc.prems(1) show ?thesis using idle by (simp add: d tk)
  next
    case due
    let ?m1 = "m\<lparr>tm_timers := (tm_timers m)[i := ?t\<lparr>t_count_time := now\<rparr>]\<rparr>"
    obtain cmds w1 where r: "(case t_func ?t of Some f \<Rightarrow> run f m w
        | None \<Rightarrow> (case t_cb ?t of Some f \<Rightarrow> run f m w | None \<Rightarrow> ([], w))) = (cmds, w1)" by (rule prod.exhaust)
    have "cmds = []" using r assms(1) by (auto split: option.splits) (metis fst_conv)+
    then have f: "fire run now i m w = (?m1, w1)" using r by (simp add: fire_def exec_cmds_def)
    show ?thesis
    proof (cases "t_once ?t = 0")
      case True
      obtain ids1 where "update_timers run now n (Suc i) ?m1 w1 = (m', w', ids1)"
        using Suc.prems(2) due f True len by (auto simp: Let_def split: prod.splits if_splits)
      from Suc.IH [OF _ this] Suc.prems(1) show ?thesis
        using due True len by (simp add: d take_Suc_conv_app_nth)
    next
      case False
      let ?m2 = "?m1\<lparr>tm_timers := erase_at i (tm_timers ?m1)\<rparr>"
      obtain ids1 where "update_timers run now n i ?m2 w1 = (m', w', ids1)"
        using Suc.prems(2) due f False len by (auto simp: Let_def split: prod.splits if_splits)
      from Suc.IH [OF _ this] Suc.prems(1) show ?thesis
        using due False len by (simp add: d erase_at_def)
    qed
  qed
qed

section \<open>Properties\<close>

text \<open>The interval of the timer has not yet passed: what the code takes for due.\<close>

lemma timer_due_early:
  assumes "unat (t_count_time t) + unat (t_interval t) < 2 ^ 64"
  shows "timer_due now t \<longleftrightarrow> unat now \<le> unat (t_count_time t) + unat (t_interval t)"
proof -
  have i: "unat (ucast (t_interval t) :: u64) = unat (t_interval t)"
    using unat_bound [of "t_interval t"] by (simp add: unsigned_ucast_eq take_bit_nat_eq_self)
  then have "unat (t_count_time t + ucast (t_interval t)) = unat (t_count_time t) + unat (t_interval t)"
    using assms by (subst unat_add_bounded) simp_all
  then show ?thesis by (simp add: timer_due_def word_le_nat_alt)
qed

lemma update_spec:
  assumes u: "timer_Update (logged run) now m (w, []) = (m', (w', log), ids)" and "tm_new m = []" and "tm_in_process m = 0"
    and wrap: "\<forall>t\<in>set (tm_timers m). unat (t_count_time t) + unat (t_interval t) < 2 ^ 64"
  shows "subseq log (concat (map callback_of (filter
      (\<lambda>t. t_canceled t = 0 \<and> unat now \<le> unat (t_count_time t) + unat (t_interval t)) (tm_timers m))))"
    and "never_cancels run \<Longrightarrow> log = concat (map callback_of (filter
      (\<lambda>t. t_canceled t = 0 \<and> unat now \<le> unat (t_count_time t) + unat (t_interval t)) (tm_timers m)))"
    and "\<exists>kept news. map t_tid (tm_timers m') = kept @ news \<and> subseq kept (map t_tid (tm_timers m))"
    and "tm_new m' = [] \<and> tm_in_process m' = 0"
    and "\<forall>c m w. fst (run c m w) = [] \<Longrightarrow> tm_timers m' =
      map (\<lambda>t. if unat now \<le> unat (t_count_time t) + unat (t_interval t) then t\<lparr>t_count_time := now\<rparr> else t)
      (filter (\<lambda>t. t_canceled t = 0 \<and> \<not> (unat now \<le> unat (t_count_time t) + unat (t_interval t) \<and> t_once t \<noteq> 0)) (tm_timers m))"
proof -
  let ?m = "m\<lparr>tm_in_process := 1\<rparr>"
  obtain m1 w1 ids1 where 1: "update_timers (logged run) now (length (tm_timers m)) 0 ?m (w, []) = (m1, w1, ids1)"
    by (rule prod_cases3)
  have i: "tm_in_process ?m \<noteq> 0" "0 + length (tm_timers m) = length (tm_timers ?m)" by simp_all
  have m': "w1 = (w', log)" "tm_timers m' = tm_timers m1 @ tm_new m1" "tm_new m' = []" "tm_in_process m' = 0"
    using u 1 by (auto simp: timer_Update_def Let_def split: if_splits)
  have early: "timer_due now t \<longleftrightarrow> unat now \<le> unat (t_count_time t) + unat (t_interval t)" if "t \<in> set (tm_timers m)" for t
    using timer_due_early wrap that by blast
  have c: "calls_of now (tm_timers m) = concat (map callback_of (filter
      (\<lambda>t. t_canceled t = 0 \<and> unat now \<le> unat (t_count_time t) + unat (t_interval t)) (tm_timers m)))"
    unfolding calls_of_def live_def using early by (auto intro!: arg_cong [where f = "\<lambda>ts. concat (map callback_of ts)"] filter_cong)
  note calls = update_timers_calls [OF i 1]
  show "subseq log (concat (map callback_of (filter
      (\<lambda>t. t_canceled t = 0 \<and> unat now \<le> unat (t_count_time t) + unat (t_interval t)) (tm_timers m))))"
    using calls m'(1) unfolding c [symmetric] by auto
  show "log = concat (map callback_of (filter
      (\<lambda>t. t_canceled t = 0 \<and> unat now \<le> unat (t_count_time t) + unat (t_interval t)) (tm_timers m)))" if "never_cancels run"
    using calls m'(1) that unfolding c [symmetric] by auto
  note sp = update_timers_does [OF i 1, unfolded loop_does_def]
  show "\<exists>kept news. map t_tid (tm_timers m') = kept @ news \<and> subseq kept (map t_tid (tm_timers m))"
    using sp m'(2) by auto
  show "tm_new m' = [] \<and> tm_in_process m' = 0" using m' by simp
  assume quiet: "\<forall>c m w. fst (run c m w) = []"
  have "\<forall>c m w. fst (logged run c m w) = []" using quiet by (auto simp: logged_def split: prod.split) (metis fst_conv)
  from update_timers_silent [OF this i(2) 1]
  have "m1 = ?m\<lparr>tm_timers := map (\<lambda>t. if timer_due now t then t\<lparr>t_count_time := now\<rparr> else t)
      (filter (\<lambda>t. t_canceled t = 0 \<and> \<not> (timer_due now t \<and> t_once t \<noteq> 0)) (tm_timers m))\<rparr>" by simp
  then have "tm_timers m' = map (\<lambda>t. if timer_due now t then t\<lparr>t_count_time := now\<rparr> else t)
      (filter (\<lambda>t. t_canceled t = 0 \<and> \<not> (timer_due now t \<and> t_once t \<noteq> 0)) (tm_timers m))"
    using m'(2) assms(2) by simp
  also have "filter (\<lambda>t. t_canceled t = 0 \<and> \<not> (timer_due now t \<and> t_once t \<noteq> 0)) (tm_timers m) =
      filter (\<lambda>t. t_canceled t = 0 \<and> \<not> (unat now \<le> unat (t_count_time t) + unat (t_interval t) \<and> t_once t \<noteq> 0)) (tm_timers m)"
    using early by (intro filter_cong) auto
  also have "map (\<lambda>t. if timer_due now t then t\<lparr>t_count_time := now\<rparr> else t) \<dots> =
      map (\<lambda>t. if unat now \<le> unat (t_count_time t) + unat (t_interval t) then t\<lparr>t_count_time := now\<rparr> else t) \<dots>"
    using early by (intro map_cong) auto
  finally show "tm_timers m' = map (\<lambda>t. if unat now \<le> unat (t_count_time t) + unat (t_interval t) then t\<lparr>t_count_time := now\<rparr> else t)
      (filter (\<lambda>t. t_canceled t = 0 \<and> \<not> (unat now \<le> unat (t_count_time t) + unat (t_interval t) \<and> t_once t \<noteq> 0)) (tm_timers m))" .
qed

text \<open>
  C32. The calls that one \<^verbatim>\<open>Update\<close> makes, recorded as they are made (\<open>logged\<close>), for clock readings that do not overflow.
  Only callbacks of timers are called that were in the list and not cancelled and whose interval has not yet passed since
  they were created or last run (sic: a timer runs while it is too early and not when its time has come), each at most once and in
  order; when no callback cancels timers, exactly those are called.  Timers created meanwhile come after all others.  When callbacks
  leave the timers alone, exactly the cancelled timers and the ones that ran and were to run once are gone,
  and the others that ran start counting from now.
\<close>

theorem timer_Update_calls:
  assumes "timer_Update (logged run) now m (w, []) = (m', (w', log), ids)" and "tm_new m = []" and "tm_in_process m = 0"
    and "\<forall>t\<in>set (tm_timers m). unat (t_count_time t) + unat (t_interval t) < 2 ^ 64"
  shows "subseq log (concat (map callback_of (filter
      (\<lambda>t. t_canceled t = 0 \<and> unat now \<le> unat (t_count_time t) + unat (t_interval t)) (tm_timers m))))
    \<and> (never_cancels run \<longrightarrow> log = concat (map callback_of (filter
      (\<lambda>t. t_canceled t = 0 \<and> unat now \<le> unat (t_count_time t) + unat (t_interval t)) (tm_timers m))))
    \<and> (\<exists>kept news. map t_tid (tm_timers m') = kept @ news \<and> subseq kept (map t_tid (tm_timers m)))
    \<and> tm_new m' = [] \<and> tm_in_process m' = 0
    \<and> ((\<forall>c m w. fst (run c m w) = []) \<longrightarrow> tm_timers m' =
      map (\<lambda>t. if unat now \<le> unat (t_count_time t) + unat (t_interval t) then t\<lparr>t_count_time := now\<rparr> else t)
      (filter (\<lambda>t. t_canceled t = 0 \<and> \<not> (unat now \<le> unat (t_count_time t) + unat (t_interval t) \<and> t_once t \<noteq> 0)) (tm_timers m)))"
  using update_spec [OF assms] by blast

definition lone_timer :: "u64 \<Rightarrow> u32 \<Rightarrow> nat timer_mgr" where
  "lone_timer tick itv = snd (CreateTimer_cb tick itv (Some 0) 1 timer_mgr_new)"

definition idle_run :: "(nat, nat) runner" where
  "idle_run c m w = ([], Suc w)"

lemma lone_timer_sel:
  "tm_new (lone_timer tick itv) = []" "tm_in_process (lone_timer tick itv) = 0"
  "tm_timers (lone_timer tick itv) = [\<lparr>t_count_time = tick, t_interval = itv, t_tid = 1, t_once = 1,
     t_canceled = 0, t_func = None, t_cb = Some 0\<rparr>]"
  by (simp_all add: lone_timer_def CreateTimer_cb_def timer_mgr_new_def add_timer_def timer_SetOnce_def
      timer_SetInteval_def new_id_def id_maker_new_def Let_def)

text \<open>
  At 1005, of a timer of 50 ms made at 1000, one of 50 ms made at 900 and a repeating one of 100 ms made at 1000, the first and the
  last run and the second, whose time has come, does not.
\<close>

definition three_timers :: "nat timer_mgr" where
  "three_timers = timer_mgr_new\<lparr>tm_timers :=
     [\<lparr>t_count_time = 1000, t_interval = 50, t_tid = 1, t_once = 1, t_canceled = 0, t_func = None, t_cb = Some 10\<rparr>,
      \<lparr>t_count_time = 900, t_interval = 50, t_tid = 2, t_once = 1, t_canceled = 0, t_func = None, t_cb = Some 20\<rparr>,
      \<lparr>t_count_time = 1000, t_interval = 100, t_tid = 3, t_once = 0, t_canceled = 0, t_func = Some 30, t_cb = None\<rparr>]\<rparr>"

theorem timer_Update_calls_witness:
  "\<exists>m' w' ids. timer_Update (logged idle_run) 1005 three_timers (7, []) = (m', (w', [10, 30]), ids)
     \<and> map t_tid (tm_timers m') = [2, 3] \<and> map t_count_time (tm_timers m') = [900, 1005]"
proof -
  obtain m' w' log ids where u: "timer_Update (logged idle_run) 1005 three_timers (7, []) = (m', (w', log), ids)"
    by (metis prod.exhaust)
  have p: "tm_new three_timers = []" "tm_in_process three_timers = 0"
    "\<forall>t\<in>set (tm_timers three_timers). unat (t_count_time t) + unat (t_interval t) < 2 ^ 64"
    by (simp_all add: three_timers_def timer_mgr_new_def)
  have "never_cancels idle_run" "\<forall>c m w. fst (idle_run c m w) = []" by (simp_all add: never_cancels_def idle_run_def)
  then have "log = [10, 30]" "map t_tid (tm_timers m') = [2, 3]" "map t_count_time (tm_timers m') = [900, 1005]"
    using timer_Update_calls [OF u p] by (simp_all add: three_timers_def callback_of_def)
  then show ?thesis using u by (intro exI [of _ m'] exI [of _ w'] exI [of _ ids]) simp
qed

definition overdue :: "u64 \<Rightarrow> 'c timer \<Rightarrow> bool" where
  "overdue now t \<longleftrightarrow> unat (t_count_time t) + unat (t_interval t) < unat now"

lemma overdue_not_due: "overdue now t \<Longrightarrow> \<not> timer_due now t"
proof -
  assume o: "overdue now t"
  have i: "unat (ucast (t_interval t) :: u64) = unat (t_interval t)"
    using unat_bound [of "t_interval t"] by (simp add: unsigned_ucast_eq take_bit_nat_eq_self)
  have "unat (t_count_time t + ucast (t_interval t)) = unat (t_count_time t) + unat (t_interval t)"
    using o i unat_bound [of now] by (subst unat_add_bounded) (simp_all add: overdue_def)
  then show ?thesis using o by (simp add: timer_due_def overdue_def word_le_nat_alt)
qed

lemma update_timers_overdue:
  "list_all (\<lambda>t. t_canceled t = 0 \<and> overdue now t) (tm_timers m) \<Longrightarrow> i + n = length (tm_timers m) \<Longrightarrow>
   update_timers run now n i m w = (m, w, [])"
  by (induction n arbitrary: i) (auto simp: list_all_length overdue_not_due Let_def)

fun timer_Updates :: "('c, 'w) runner \<Rightarrow> u64 list \<Rightarrow> 'c timer_mgr \<Rightarrow> 'w \<Rightarrow> 'c timer_mgr \<times> 'w \<times> u32 list" where
  "timer_Updates run [] m w = (m, w, [])"
| "timer_Updates run (now # nows) m w =
     (let (m1, w1, ids1) = timer_Update run now m w; (m2, w2, ids2) = timer_Updates run nows m1 w1
      in (m2, w2, ids1 @ ids2))"

text \<open>
  The comparison in \<^verbatim>\<open>Update\<close> is the wrong way round: a timer whose interval has passed is never run
  again.  Once every timer is overdue, no later call of \<^verbatim>\<open>Update\<close> runs any of them or changes anything.
\<close>

theorem overdue_timers_never_run:
  assumes "list_all (\<lambda>t. t_canceled t = 0 \<and> overdue now t) (tm_timers m)" and "tm_new m = []" and "tm_in_process m = 0"
    and "\<forall>later\<in>set nows. now \<le> later"
  shows "timer_Updates run nows m w = (m, w, [])"
  using assms(4)
proof (induction nows)
  case (Cons later nows)
  have "list_all (\<lambda>t. t_canceled t = 0 \<and> overdue later t) (tm_timers m)"
    using assms(1) Cons.prems by (auto simp: list_all_iff overdue_def word_le_nat_alt)
  then have "update_timers run later (length (tm_timers m)) 0 (m\<lparr>tm_in_process := 1\<rparr>) w = (m\<lparr>tm_in_process := 1\<rparr>, w, [])"
    by (intro update_timers_overdue) simp_all
  then have "timer_Update run later m w = (m, w, [])"
    using assms(2,3) by (simp add: timer_Update_def)
  then show ?case using Cons by simp
qed simp

theorem overdue_timers_never_run_witness:
  "timer_Updates idle_run [1051, 2000, 9000] (lone_timer 1000 50) 7 = (lone_timer 1000 50, 7, [])"
  by (rule overdue_timers_never_run [where now = 1051]) (simp_all add: lone_timer_sel overdue_def)

text \<open>
  A timer that has just been created is run by the very next \<^verbatim>\<open>Update\<close>, before its interval has
  passed (unless that call comes too late and the timer is never run at all).
\<close>

theorem timer_runs_early:
  assumes "CreateTimer_cb tick itv (Some f) once timer_mgr_new = (tid, m)"
    and "tick \<le> now" and "unat now \<le> unat tick + unat itv" and "unat tick + unat itv < 2 ^ 64"
  shows "snd (snd (timer_Update run now m w)) = [tid]"
proof -
  let ?t = "tm_timers m ! 0"
  have t: "tm_timers m = [?t]" "t_canceled ?t = 0" "t_count_time ?t = tick" "t_interval ?t = itv" "t_tid ?t = tid"
    "t_func ?t = None" "t_cb ?t = Some f"
    using assms(1) by (auto simp: CreateTimer_cb_def timer_mgr_new_def add_timer_def timer_SetOnce_def
        timer_SetInteval_def new_id_def Let_def)
  have i: "unat (ucast itv :: u64) = unat itv"
    using unat_bound [of itv] by (simp add: unsigned_ucast_eq take_bit_nat_eq_self)
  have "unat (tick + ucast itv) = unat tick + unat itv"
    using assms(4) i by (subst unat_add_bounded) simp_all
  then have "timer_due now ?t" using t(3,4) assms(3) by (simp add: timer_due_def word_le_nat_alt)
  moreover have "length (tm_timers m) = Suc 0" by (subst t(1)) simp
  ultimately show ?thesis
    using t(2,5) by (auto simp: timer_Update_def Let_def split: prod.split)
qed

theorem timer_runs_early_witness:
  "snd (snd (timer_Update idle_run 1001 (lone_timer 1000 50) 7)) = [1]"
proof -
  have "CreateTimer_cb 1000 50 (Some 0) 1 timer_mgr_new = (1, lone_timer 1000 50)"
    by (simp add: lone_timer_def CreateTimer_cb_def timer_mgr_new_def new_id_def id_maker_new_def Let_def)
  from timer_runs_early [OF this, of 1001 idle_run 7] show ?thesis by simp
qed

lemma new_ids_eq:
  "new_ids n m = (map (\<lambda>k. im_id m + word_of_nat (Suc k)) [0..<n], m\<lparr>im_id := im_id m + word_of_nat n\<rparr>)"
proof (induction n arbitrary: m)
  case (Suc n)
  show ?case
    by (simp add: new_id_def Suc.IH Let_def upt_rec [of 0 "Suc n"] map_Suc_upt [symmetric] o_def ac_simps del: upt_Suc)
qed simp

text \<open>
  The identifiers handed out are distinct as long as fewer than \<open>2 ^ 32\<close> timers were created; only
  then the counter wraps around.
\<close>

theorem new_ids_distinct:
  assumes "n \<le> 2 ^ 32"
  shows "distinct (fst (new_ids n m))"
proof -
  have "inj_on (\<lambda>k. im_id m + word_of_nat (Suc k)) {0..<n}"
  proof (rule inj_onI)
    fix a b assume ab: "a \<in> {0..<n}" "b \<in> {0..<n}" "im_id m + word_of_nat (Suc a) = im_id m + word_of_nat (Suc b)"
    then have "(word_of_nat a :: u32) = word_of_nat b" by simp
    then have "unat (word_of_nat a :: u32) = unat (word_of_nat b :: u32)" by simp
    then have "a mod 2 ^ 32 = b mod 2 ^ 32" by (simp add: unat_of_nat)
    then show "a = b" using ab assms by simp
  qed
  then show ?thesis by (simp add: new_ids_eq distinct_map)
qed

theorem new_ids_distinct_witness: "distinct (fst (new_ids 3 (id_maker_new 0xFFFFFFFF)))"
  by (rule new_ids_distinct) simp

lemma ucast_16_of_multiple: "(ucast (65536 * k :: u32) :: u16) = 0"
proof -
  have "65536 * k = push_bit 16 k" by (simp add: push_bit_eq_mult)
  then show ?thesis by (auto intro!: bit_word_eqI simp: bit_ucast_iff bit_push_bit_iff)
qed

text \<open>
  A timer created with a repetition flag that is a multiple of \<open>65536\<close> loses it: the flag is stored in
  16 bits, and the timer counts as a repeating one although it was asked to run once.
\<close>

theorem once_truncated:
  "t_once (last (tm_timers (snd (CreateTimer_cb tick itv cb (65536 * k) (timer_mgr_new :: 'c timer_mgr))))) = 0"
  by (simp add: CreateTimer_cb_def timer_mgr_new_def add_timer_def timer_SetOnce_def timer_SetInteval_def new_id_def
      ucast_16_of_multiple Let_def)

end
