(* ===== verification/Schedule.thy ===== *)
theory Schedule
  imports Prelude
begin

text \<open>
  The hourly schedule: \<^verbatim>\<open>libcore/include/ScheduleBase.h\<close>, \<^verbatim>\<open>libcore/src/ScheduleBase.cpp\<close>.  The calendar
  (\<^verbatim>\<open>localtime\<close>) is a parameter; the virtual hooks are returned in the order of their calls (those of
  \<^verbatim>\<open>gameserver/ScheduleMgr.cpp\<close> are empty).
\<close>

record calendar =
  tm_hour :: int
  tm_mday :: int
  tm_mon :: int
  tm_year :: int
  tm_wday :: int
  tm_yday :: int

record schedule =
  sb_last_update_t :: int
  sb_curr_hour :: int
  sb_hour :: int
  sb_mday :: int
  sb_mon :: int
  sb_year :: int
  sb_wday :: int
  sb_yday :: int

datatype schedule_hook = NewHour | NewDay | NewWeek | NewMonth | NewYear

definition schedule_new :: "(int \<Rightarrow> calendar) \<Rightarrow> int \<Rightarrow> schedule" where
  "schedule_new localtime now =
     \<lparr>sb_last_update_t = 0, sb_curr_hour = tm_hour (localtime now), sb_hour = 0, sb_mday = 0, sb_mon = 0,
      sb_year = 0, sb_wday = 0, sb_yday = 0\<rparr>"

definition schedule_hooks :: "calendar \<Rightarrow> schedule_hook list" where
  "schedule_hooks lt =
     NewHour # (if tm_hour lt = 0
                then NewDay # (if tm_wday lt = 0
                               then NewWeek # (if tm_mday lt = 1
                                               then NewMonth # (if tm_yday lt = 0 then [NewYear] else [])
                                               else [])
                               else [])
                else [])"

definition schedule_Update :: "(int \<Rightarrow> calendar) \<Rightarrow> int \<Rightarrow> schedule \<Rightarrow> schedule \<times> schedule_hook list" where
  "schedule_Update localtime now s =
     (if now - sb_last_update_t s < 30 then (s, [])
      else let lt = localtime now;
               s1 = s\<lparr>sb_last_update_t := now, sb_hour := tm_hour lt, sb_mday := tm_mday lt, sb_mon := tm_mon lt,
                      sb_year := tm_year lt, sb_wday := tm_wday lt, sb_yday := tm_yday lt\<rparr>
           in if sb_curr_hour s1 \<noteq> tm_hour lt
              then (s1\<lparr>sb_curr_hour := tm_hour lt\<rparr>, schedule_hooks lt)
              else (s1, []))"

declare schedule_new_def [code_defs] schedule_hooks_def [code_defs] schedule_Update_def [code_defs]

section \<open>Properties\<close>

fun schedule_run :: "(int \<Rightarrow> calendar) \<Rightarrow> int list \<Rightarrow> schedule \<Rightarrow> schedule \<times> schedule_hook list list" where
  "schedule_run localtime [] s = (s, [])"
| "schedule_run localtime (now # nows) s =
     (let (s1, h) = schedule_Update localtime now s; (s2, hs) = schedule_run localtime nows s1 in (s2, h # hs))"

text \<open>
  A month that does not begin on a Sunday is never announced: the code looks at the day of the month
  only after it has returned for every weekday but Sunday.
\<close>

theorem month_only_on_sunday:
  assumes "\<forall>t\<in>set nows. tm_mday (localtime t) = 1 \<longrightarrow> tm_wday (localtime t) \<noteq> 0"
  shows "\<forall>h\<in>set (snd (schedule_run localtime nows s)). NewMonth \<notin> set h \<and> NewYear \<notin> set h"
  using assms
proof (induction nows arbitrary: s)
  case (Cons now nows)
  obtain s1 h where u: "schedule_Update localtime now s = (s1, h)" by (rule prod.exhaust)
  have "NewMonth \<notin> set h \<and> NewYear \<notin> set h"
    using u Cons.prems by (auto simp: schedule_Update_def schedule_hooks_def Let_def split: if_splits)
  then show ?case using Cons.IH [of s1] Cons.prems u by (auto split: prod.split)
qed simp

theorem month_only_on_sunday_witness:
  "snd (schedule_run (\<lambda>t. \<lparr>tm_hour = t div 3600 mod 24, tm_mday = 1, tm_mon = 3, tm_year = 126, tm_wday = 3, tm_yday = 90\<rparr>)
      [86400, 90000] (schedule_new (\<lambda>t. \<lparr>tm_hour = 23, tm_mday = 31, tm_mon = 2, tm_year = 126, tm_wday = 2, tm_yday = 89\<rparr>) 0))
    = [[NewHour, NewDay], [NewHour]] \<and> NewMonth \<notin> set [NewHour, NewDay]"
proof -
  let ?lt = "\<lambda>t. \<lparr>tm_hour = t div 3600 mod 24, tm_mday = 1, tm_mon = 3, tm_year = 126, tm_wday = 3, tm_yday = 90\<rparr>"
  let ?s = "schedule_new (\<lambda>t. \<lparr>tm_hour = 23, tm_mday = 31, tm_mon = 2, tm_year = 126, tm_wday = 2, tm_yday = 89\<rparr>) 0"
  have r: "snd (schedule_run ?lt [86400, 90000] ?s) = [[NewHour, NewDay], [NewHour]]"
    by (simp add: schedule_Update_def schedule_hooks_def schedule_new_def)
  have "\<forall>h\<in>set (snd (schedule_run ?lt [86400, 90000] ?s)). NewMonth \<notin> set h \<and> NewYear \<notin> set h"
    by (rule month_only_on_sunday) simp
  then show ?thesis unfolding r by simp
qed

text \<open>
  The announcements: one call announces a new hour exactly when at least 30 seconds have passed
  since the last one that looked and the hour has changed, a new day exactly with the hour 0, and
  the larger units only together with the smaller ones.
\<close>

theorem schedule_announcements:
  "case schedule_Update localtime now s of (s', h) \<Rightarrow>
     (NewHour \<in> set h \<longleftrightarrow> 30 \<le> now - sb_last_update_t s \<and> tm_hour (localtime now) \<noteq> sb_curr_hour s)
     \<and> (NewDay \<in> set h \<longleftrightarrow> NewHour \<in> set h \<and> tm_hour (localtime now) = 0)
     \<and> (NewWeek \<in> set h \<longleftrightarrow> NewDay \<in> set h \<and> tm_wday (localtime now) = 0)
     \<and> (NewMonth \<in> set h \<longleftrightarrow> NewWeek \<in> set h \<and> tm_mday (localtime now) = 1)
     \<and> (NewYear \<in> set h \<longleftrightarrow> NewMonth \<in> set h \<and> tm_yday (localtime now) = 0)
     \<and> (h \<noteq> [] \<longleftrightarrow> sb_curr_hour s' \<noteq> sb_curr_hour s)"
  by (auto simp: schedule_Update_def schedule_hooks_def Let_def)

end
