(* ===== verification/AsyncTasks.thy ===== *)
theory AsyncTasks
  imports Prelude "HOL-Library.Multiset"
begin

text \<open>
  The thread pool: \<^verbatim>\<open>libcore/include/AsyncTask.h\<close> and \<^verbatim>\<open>libcore/src/AsyncTask.cpp\<close>.  The workers and the
  main thread interleave; a step is what a thread does between two releases of a mutex.  A task is
  its number; \<open>over\<close> tells whether it has a completion callback.  What the callbacks do is not
  modelled, only when they run.
\<close>

section \<open>State\<close>

record task =
  tk_id :: nat
  tk_over :: bool

text \<open>
  A worker looks at \<^verbatim>\<open>_running\<close> (\<open>Looking\<close>), has found it set and goes for the queue (\<open>Entered\<close>), holds a task it has taken (\<open>Taken\<close>), has run it
  (\<open>HasRun\<close>), or has left its loop (\<open>Left\<close>).
\<close>

datatype worker = Looking | Entered | Taken task | HasRun task | Left

record pool =
  at_running :: bool
  at_threads :: "worker list"
  at_task :: "task list"
  at_over :: "task list"
  at_task_cnt :: u32
  at_ran :: "nat list"
  at_overs :: "nat list"

definition pool_new :: pool where
  "pool_new = \<lparr>at_running = False, at_threads = [], at_task = [], at_over = [], at_task_cnt = 0,
     at_ran = [], at_overs = []\<rparr>"

section \<open>Operations of the main thread\<close>

definition at_PushTask :: "nat \<Rightarrow> bool \<Rightarrow> pool \<Rightarrow> pool" where
  "at_PushTask i over p = p\<lparr>at_task := at_task p @ [\<lparr>tk_id = i, tk_over = over\<rparr>]\<rparr>"

text \<open>Every completed task's second callback runs, in the order of completion; the tasks are deleted.\<close>

definition at_Update :: "pool \<Rightarrow> pool" where
  "at_Update p = p\<lparr>at_overs := at_overs p @ map tk_id (at_over p), at_over := []\<rparr>"

text \<open>\<^verbatim>\<open>Init\<close>: the loop counter is 8 bits wide, the number of threads 16.\<close>

partial_function (option) at_Init_loop :: "u8 \<Rightarrow> u16 \<Rightarrow> pool \<Rightarrow> pool option" where
  "at_Init_loop i thread_cnt p =
     (if (ucast i :: u16) < thread_cnt
      then at_Init_loop (i + 1) thread_cnt (p\<lparr>at_threads := at_threads p @ [Looking]\<rparr>)
      else Some p)"

definition at_Init :: "u16 \<Rightarrow> pool \<Rightarrow> pool option" where
  "at_Init thread_cnt p = at_Init_loop 0 thread_cnt (p\<lparr>at_running := True\<rparr>)"

text \<open>The first half of \<^verbatim>\<open>Release\<close>; the second half waits until all workers have left.\<close>

definition at_stop :: "pool \<Rightarrow> pool" where
  "at_stop p = p\<lparr>at_running := False\<rparr>"

definition at_destroy :: "pool \<Rightarrow> pool" where
  "at_destroy p = p\<lparr>at_task := [], at_over := []\<rparr>"

section \<open>A worker's step\<close>

definition at_worker :: "nat \<Rightarrow> pool \<Rightarrow> pool" where
  "at_worker w p =
     (case at_threads p ! w of
        Looking \<Rightarrow>
          if \<not> at_running p then p\<lparr>at_threads := (at_threads p)[w := Left]\<rparr>
          else p\<lparr>at_threads := (at_threads p)[w := Entered]\<rparr>
      | Entered \<Rightarrow>
          (case at_task p of
                  [] \<Rightarrow> p\<lparr>at_threads := (at_threads p)[w := Looking]\<rparr>
                | t # ts \<Rightarrow> p\<lparr>at_task := ts, at_threads := (at_threads p)[w := Taken t]\<rparr>)
      | Taken t \<Rightarrow>
          p\<lparr>at_task_cnt := at_task_cnt p + 1, at_ran := at_ran p @ [tk_id t],
            at_threads := (at_threads p)[w := HasRun t]\<rparr>
      | HasRun t \<Rightarrow>
          (if tk_over t then p\<lparr>at_over := at_over p @ [t]\<rparr> else p)
            \<lparr>at_threads := (at_threads p)[w := Looking], at_task_cnt := at_task_cnt p - 1\<rparr>
      | Left \<Rightarrow> p)"

declare at_PushTask_def [code_defs] at_Update_def [code_defs] at_Init_def [code_defs] at_stop_def [code_defs]
  at_destroy_def [code_defs] at_worker_def [code_defs] pool_new_def [code_defs]

section \<open>Histories\<close>

text \<open>\<open>at_history p ts\<close>: from an empty pool a history leads to \<open>p\<close> in which \<open>ts\<close> were pushed.\<close>

inductive at_history :: "pool \<Rightarrow> task list \<Rightarrow> bool" where
  init: "at_history (pool_new\<lparr>at_running := True, at_threads := replicate n Looking\<rparr>) []"
| push: "at_history p ts \<Longrightarrow> at_history (at_PushTask i over p) (ts @ [\<lparr>tk_id = i, tk_over = over\<rparr>])"
| work: "at_history p ts \<Longrightarrow> w < length (at_threads p) \<Longrightarrow> at_history (at_worker w p) ts"
| update: "at_history p ts \<Longrightarrow> at_history (at_Update p) ts"
| stop: "at_history p ts \<Longrightarrow> at_history (at_stop p) ts"

text \<open>What the workers hold.\<close>

fun held :: "worker \<Rightarrow> nat multiset" where
  "held (Taken t) = {#tk_id t#}"
| "held _ = {#}"

fun finishing :: "worker \<Rightarrow> nat multiset" where
  "finishing (HasRun t) = (if tk_over t then {#tk_id t#} else {#})"
| "finishing _ = {#}"

definition over_ids :: "task list \<Rightarrow> nat multiset" where
  "over_ids ts = mset (map tk_id (filter tk_over ts))"

lemma sum_list_update:
  fixes f :: "'a \<Rightarrow> nat multiset"
  assumes "w < length xs"
  shows "sum_list (map f (xs[w := x])) + f (xs ! w) = sum_list (map f xs) + f x"
  using assms
proof (induction xs arbitrary: w)
  case (Cons a xs)
  then show ?case by (cases w) (simp_all add: ac_simps)
qed simp

lemma sum_replicate_empty [simp]: "sum_list (replicate n ({#} :: nat multiset)) = {#}"
  by (induction n) auto

text \<open>Every task is in exactly one place: waiting, held by a worker, or run.\<close>

lemma at_run_once:
  "at_history p ts \<Longrightarrow>
   mset (map tk_id ts) = mset (map tk_id (at_task p)) + sum_list (map held (at_threads p)) + mset (at_ran p)"
proof (induction rule: at_history.induct)
  case (init n)
  then show ?case by (simp add: pool_new_def map_replicate_const)
next
  case (work p ts w)
  note sl = sum_list_update [OF work.hyps(2), of held]
  show ?case
  proof (cases "at_threads p ! w")
    case Looking
    then show ?thesis using work.IH sl [of Left] sl [of Entered] by (auto simp: at_worker_def ac_simps)
  next
    case Entered
    then show ?thesis using work.IH sl [of Looking] sl [of "Taken (hd (at_task p))"]
      by (cases "at_task p") (auto simp: at_worker_def ac_simps)
  next
    case (Taken t)
    then show ?thesis using work.IH sl [of "HasRun t"] by (auto simp: at_worker_def ac_simps)
  next
    case (HasRun t)
    then show ?thesis using work.IH sl [of Looking] by (auto simp: at_worker_def ac_simps)
  next
    case Left
    then show ?thesis using work.IH by (simp add: at_worker_def)
  qed
qed (auto simp: at_PushTask_def at_Update_def at_stop_def ac_simps)

lemma at_over_once:
  "at_history p ts \<Longrightarrow>
   over_ids ts = over_ids (at_task p)
     + sum_list (map (\<lambda>w. case w of Taken t \<Rightarrow> over_ids [t] | _ \<Rightarrow> {#}) (at_threads p))
     + sum_list (map finishing (at_threads p)) + mset (map tk_id (at_over p)) + mset (at_overs p)
   \<and> list_all tk_over (at_over p)"
proof (induction rule: at_history.induct)
  case (init n)
  then show ?case by (simp add: pool_new_def map_replicate_const over_ids_def)
next
  case (work p ts w)
  let ?h = "\<lambda>w. case w of Taken t \<Rightarrow> over_ids [t] | _ \<Rightarrow> {#}"
  note sl = sum_list_update [OF work.hyps(2), of finishing] and sh = sum_list_update [OF work.hyps(2), of ?h]
  show ?case
  proof (cases "at_threads p ! w")
    case Looking
    then show ?thesis using work.IH sl [of Left] sl [of Entered] sh [of Left] sh [of Entered]
      by (auto simp: at_worker_def over_ids_def ac_simps)
  next
    case Entered
    then show ?thesis using work.IH sl [of Looking] sl [of "Taken (hd (at_task p))"] sh [of Looking] sh [of "Taken (hd (at_task p))"]
      by (cases "at_task p") (auto simp: at_worker_def over_ids_def ac_simps)
  next
    case (Taken t)
    then show ?thesis using work.IH sl [of "HasRun t"] sh [of "HasRun t"]
      by (auto simp: at_worker_def over_ids_def ac_simps)
  next
    case (HasRun t)
    then show ?thesis using work.IH sl [of Looking] sh [of Looking]
      by (auto simp: at_worker_def over_ids_def ac_simps)
  next
    case Left
    then show ?thesis using work.IH by (simp add: at_worker_def)
  qed
qed (auto simp: at_PushTask_def at_Update_def at_stop_def over_ids_def ac_simps)

lemma at_over_ran:
  "at_history p ts \<Longrightarrow> set (at_overs p) \<union> tk_id ` set (at_over p) \<subseteq> set (at_ran p)
   \<and> (\<forall>w\<in>set (at_threads p). \<forall>t. w = HasRun t \<longrightarrow> tk_id t \<in> set (at_ran p))"
proof (induction rule: at_history.induct)
  case (work p ts w)
  then show ?case
    by (cases "at_threads p ! w"; cases "at_task p")
      (auto simp: at_worker_def dest!: set_update_subset_insert [THEN subsetD] nth_mem)
qed (auto simp: at_PushTask_def at_Update_def at_stop_def pool_new_def)

text \<open>
  C26. Under every interleaving of the workers with the main thread, each pushed task runs at most once,
  its completion callback at most once and only after the task has run; and once the queue is empty
  and no worker holds a task, every pushed task has run.
\<close>

theorem tasks_run_once:
  assumes "at_history p ts"
  shows "mset (at_ran p) \<subseteq># mset (map tk_id ts) \<and> mset (at_overs p) \<subseteq># over_ids ts
    \<and> set (at_overs p) \<subseteq> set (at_ran p)
    \<and> (at_task p = [] \<longrightarrow> list_all (\<lambda>w. held w = {#}) (at_threads p) \<longrightarrow> mset (at_ran p) = mset (map tk_id ts))"
proof -
  have none: "sum_list (map held ws) = {#}" if "list_all (\<lambda>w. held w = {#}) ws" for ws
    using that by (induction ws) auto
  show ?thesis
    using at_run_once [OF assms] at_over_once [OF assms] at_over_ran [OF assms] none [of "at_threads p"]
    by (auto simp: mset_subset_eq_add_right intro: mset_subset_eq_add_right)
qed

theorem tasks_run_once_witness:
  "\<exists>p. at_history p [\<lparr>tk_id = 7, tk_over = True\<rparr>] \<and> at_ran p = [7] \<and> at_overs p = [7]
    \<and> mset (at_overs p) \<subseteq># over_ids [\<lparr>tk_id = 7, tk_over = True\<rparr>]"
proof -
  let ?start = "pool_new\<lparr>at_running := True, at_threads := replicate 1 Looking\<rparr>"
  let ?p = "at_Update (at_worker 0 (at_worker 0 (at_worker 0 (at_worker 0 (at_PushTask 7 True ?start)))))"
  have "at_history (at_PushTask 7 True ?start) ([] @ [\<lparr>tk_id = 7, tk_over = True\<rparr>])"
    by (rule at_history.push [OF at_history.init])
  then have h: "at_history ?p [\<lparr>tk_id = 7, tk_over = True\<rparr>]"
    by (intro at_history.update at_history.work) (simp_all add: at_worker_def at_PushTask_def pool_new_def)
  moreover have "at_ran ?p = [7]" "at_overs ?p = [7]"
    by (simp_all add: at_worker_def at_PushTask_def at_Update_def pool_new_def)
  ultimately show ?thesis using tasks_run_once [OF h] by blast
qed

section \<open>Starting the workers\<close>

lemma Init_loop_ends:
  "unat thread_cnt = unat i + n \<Longrightarrow> unat thread_cnt < 256 \<Longrightarrow>
   at_Init_loop i thread_cnt p = Some (p\<lparr>at_threads := at_threads p @ replicate n Looking\<rparr>)"
proof (induction n arbitrary: i p)
  case 0
  then have "\<not> (ucast i :: u16) < thread_cnt" by (simp add: word_less_nat_alt unsigned_ucast_eq take_bit_nat_eq_self)
  then show ?case by (subst at_Init_loop.simps) simp
next
  case (Suc n)
  have "(ucast i :: u16) < thread_cnt"
    using Suc.prems by (simp add: word_less_nat_alt unsigned_ucast_eq take_bit_nat_eq_self)
  moreover have "unat (i + 1) = unat i + 1" using Suc.prems by (subst unat_add_bounded) simp_all
  ultimately show ?case
    using Suc by (subst at_Init_loop.simps) simp
qed

lemma Init_loop_diverges:
  assumes "256 \<le> unat thread_cnt"
  shows "at_Init_loop i thread_cnt p = None"
proof (rule ccontr)
  assume "at_Init_loop i thread_cnt p \<noteq> None"
  then obtain r where r: "at_Init_loop i thread_cnt p = Some r" by blast
  have "\<not> 256 \<le> unat thread_cnt"
  proof (rule at_Init_loop.raw_induct [where P = "\<lambda>i thread_cnt p r. \<not> 256 \<le> unat thread_cnt", OF _ r])
    fix rec :: "u8 \<Rightarrow> u16 \<Rightarrow> pool \<Rightarrow> pool option" and i thread_cnt p r
    assume IH: "\<And>i thread_cnt p r. rec i thread_cnt p = Some r \<Longrightarrow> \<not> 256 \<le> unat thread_cnt"
      and step: "(if (ucast i :: u16) < thread_cnt
        then rec (i + 1) thread_cnt (p\<lparr>at_threads := at_threads p @ [Looking]\<rparr>) else Some p) = Some r"
    show "\<not> 256 \<le> unat thread_cnt"
    proof
      assume l: "256 \<le> unat thread_cnt"
      have "unat (ucast i :: u16) < 256"
        using unat_bound [of i] by (simp add: unsigned_ucast_eq take_bit_nat_eq_self)
      then have "(ucast i :: u16) < thread_cnt" using l by (simp add: word_less_nat_alt)
      then show False using IH step l by (auto split: if_splits)
    qed
  qed
  with assms show False by simp
qed

text \<open>
  \<^verbatim>\<open>Init\<close> starts exactly the requested number of workers if that is below 256.  From 256 on the
  eight bit loop counter never reaches the limit: the call starts threads for ever.
\<close>

theorem Init_thread_count:
  "at_Init thread_cnt p =
     (if unat thread_cnt < 256
      then Some (p\<lparr>at_running := True, at_threads := at_threads p @ replicate (unat thread_cnt) Looking\<rparr>)
      else None)"
  using Init_loop_ends [of thread_cnt 0 "unat thread_cnt" "p\<lparr>at_running := True\<rparr>"]
    Init_loop_diverges [of thread_cnt 0 "p\<lparr>at_running := True\<rparr>"]
  by (simp add: at_Init_def)

end
