(* ===== verification/ByteBuffer.thy ===== *)
theory ByteBuffer
  imports Messages
begin

text \<open>
  \<^verbatim>\<open>libcore/include/byteBuffer.h\<close> and \<^verbatim>\<open>libcore/src/byteBuffer.cpp\<close>: the byte buffer with a
  read and a write offset that the packet and the script code serialise through.  \<open>None\<close> as the
  result of an operation is an access outside the allocated block; a \<open>None\<close> cell in a result is
  a byte or a variable that was never assigned.

  The null pointer is the empty block.  A buffer attached to a packet has the packet's block from
  its third byte on as its block.
\<close>

record byte_buffer =
  rd_ptr :: u32
  wr_ptr :: u32
  buffer :: mem
  bb_size :: u32
  growth :: u32
  attach :: bool

section \<open>Construction, attaching and moving\<close>

definition bb_new :: "u32 \<Rightarrow> byte_buffer" where
  "bb_new sz =
     \<lparr>rd_ptr = 0, wr_ptr = 0, buffer = (if sz \<noteq> 0 then mem_alloc (unat sz) else []),
      bb_size = sz, growth = 0, attach = False\<rparr>"

definition bb_default :: byte_buffer where
  "bb_default = bb_new 0"

definition bb_Attach :: "byte_buffer \<Rightarrow> message \<Rightarrow> bool \<times> byte_buffer" where
  "bb_Attach b packet =
     (if bb_size b \<noteq> 0 \<or> attach b then (False, b)
      else (True, b\<lparr>attach := True, buffer := packet_PacketData packet, bb_size := m_size packet,
                     rd_ptr := 0, wr_ptr := packet_PacketLength packet\<rparr>))"

definition bb_Detach :: "byte_buffer \<Rightarrow> byte_buffer" where
  "bb_Detach b = b\<lparr>attach := False, buffer := [], rd_ptr := 0, wr_ptr := 0, bb_size := 0, growth := 0\<rparr>"

text \<open>Move assignment: the result is the target and the moved-from buffer.\<close>

definition bb_move_assign :: "byte_buffer \<Rightarrow> byte_buffer \<Rightarrow> byte_buffer \<times> byte_buffer" where
  "bb_move_assign this r =
     (this\<lparr>rd_ptr := rd_ptr r, wr_ptr := wr_ptr r, bb_size := bb_size r, growth := growth r,
           buffer := buffer r\<rparr>,
      r\<lparr>buffer := []\<rparr>)"

text \<open>
  The move constructor initialises no member before it assigns; \<open>junk\<close> is the indeterminate
  object it starts from.
\<close>

definition bb_move_new :: "byte_buffer \<Rightarrow> byte_buffer \<Rightarrow> byte_buffer \<times> byte_buffer" where
  "bb_move_new junk r = bb_move_assign junk r"

text \<open>What the destructor passes to \<^verbatim>\<open>free\<close>.\<close>

definition bb_destroy :: "byte_buffer \<Rightarrow> mem option" where
  "bb_destroy b = (if \<not> attach b \<and> buffer b \<noteq> [] then Some (buffer b) else None)"

section \<open>Reading and writing\<close>

definition bb_Avail :: "byte_buffer \<Rightarrow> u32" where "bb_Avail b = wr_ptr b - rd_ptr b"
definition bb_Free :: "byte_buffer \<Rightarrow> u32" where "bb_Free b = bb_size b - wr_ptr b"

definition bb_Reset :: "byte_buffer \<Rightarrow> byte_buffer" where
  "bb_Reset b = b\<lparr>rd_ptr := 0, wr_ptr := 0\<rparr>"

definition bb_Resize :: "byte_buffer \<Rightarrow> u32 \<Rightarrow> byte_buffer" where
  "bb_Resize b sz =
     (if attach b \<or> sz \<le> bb_size b then b
      else b\<lparr>buffer := take (unat sz) (buffer b) @ mem_alloc (unat sz - length (buffer b)),
             bb_size := sz\<rparr>)"

text \<open>The inner option is what was read: \<open>None\<close> when \<^verbatim>\<open>Out\<close> returns false.\<close>

definition bb_Out :: "byte_buffer \<Rightarrow> u32 \<Rightarrow> (mem option \<times> byte_buffer) option" where
  "bb_Out b sz =
     (if bb_Avail b \<ge> sz
      then do {
        d \<leftarrow> mem_read (unat (rd_ptr b)) (unat sz) (buffer b);
        Some (Some d, b\<lparr>rd_ptr := rd_ptr b + sz\<rparr>)
      }
      else Some (None, b))"

definition bb_In :: "byte_buffer \<Rightarrow> mem \<Rightarrow> u32 \<Rightarrow> (bool \<times> byte_buffer) option" where
  "bb_In b data sz =
     (if bb_Free b \<ge> sz
      then do {
        d \<leftarrow> mem_read 0 (unat sz) data;
        buf \<leftarrow> mem_write (unat (wr_ptr b)) d (buffer b);
        Some (True, b\<lparr>buffer := buf, wr_ptr := wr_ptr b + sz\<rparr>)
      }
      else Some (False, b))"

text \<open>
  The stream operators of the scalar types: one definition for every width, since each is a
  \<^verbatim>\<open>memcpy\<close> of \<^verbatim>\<open>sizeof(type)\<close> bytes.  Floating point values go by their bit patterns.  The
  read operator ignores the result of \<^verbatim>\<open>Out\<close>, so the variable keeps its old value when there are
  not enough bytes; an unassigned variable is \<open>None\<close>.
\<close>

definition scalar_size :: "'a::len itself \<Rightarrow> u32" where
  "scalar_size t = word_of_nat (LENGTH('a) div 8)"

definition bb_put :: "byte_buffer \<Rightarrow> 'a::len word \<Rightarrow> byte_buffer option" where
  "bb_put b v = map_option snd (bb_In b (map Some (word_bytes v)) (scalar_size TYPE('a)))"

definition bb_get :: "byte_buffer \<Rightarrow> 'a::len word option \<Rightarrow> ('a word option \<times> byte_buffer) option" where
  "bb_get b old = do {
     (r, b') \<leftarrow> bb_Out b (scalar_size TYPE('a));
     Some (case r of None \<Rightarrow> old | Some d \<Rightarrow> map_option bytes_word (those d), b')
   }"

text \<open>
  Strings.  A \<^verbatim>\<open>const char*\<close> is the list of its characters before the terminating zero; passing a
  \<^verbatim>\<open>std::string\<close> by \<^verbatim>\<open>c_str()\<close> stops at its first zero character.
\<close>

definition bb_put_cstr :: "byte_buffer \<Rightarrow> byte list \<Rightarrow> byte_buffer option" where
  "bb_put_cstr b str =
     map_option snd (bb_In b (map Some (str @ [0])) (word_of_nat (length str + 1)))"

definition bb_put_string :: "byte_buffer \<Rightarrow> byte list \<Rightarrow> byte_buffer option" where
  "bb_put_string b str = bb_put_cstr b (takeWhile (\<lambda>c. c \<noteq> 0) str)"

text \<open>
  Constructing a string from a character pointer reads up to the first zero.  When there is none
  before the end of the block, or an unassigned byte comes first, the result is undefined.
\<close>

fun c_string :: "mem \<Rightarrow> byte list option" where
  "c_string [] = None"
| "c_string (None # m) = None"
| "c_string (Some c # m) = (if c = 0 then Some [] else map_option ((#) c) (c_string m))"

definition bb_get_string :: "byte_buffer \<Rightarrow> byte list \<Rightarrow> (byte list \<times> byte_buffer) option" where
  "bb_get_string b old = do {
     src \<leftarrow> c_string (drop (unat (rd_ptr b)) (buffer b));
     let len = word_of_nat (length src) + 1;
     Some (if rd_ptr b + len > wr_ptr b then (old, b)
           else (src, b\<lparr>rd_ptr := rd_ptr b + len\<rparr>))
   }"

definition bb_ReadOffset :: "byte_buffer \<Rightarrow> u32 \<Rightarrow> byte_buffer option" where
  "bb_ReadOffset b offset =
     (let b1 = (if sint offset > 0 \<and> rd_ptr b + offset \<le> wr_ptr b
                then b\<lparr>rd_ptr := rd_ptr b + offset\<rparr> else b)
      in if sint offset < 0
         then do {
           s \<leftarrow> c_add_i32 (rd_ptr b1) offset;
           Some (if s \<ge> 0 then b1\<lparr>rd_ptr := rd_ptr b1 + offset\<rparr> else b1)
         }
         else Some b1)"

definition bb_WriteOffset :: "byte_buffer \<Rightarrow> u32 \<Rightarrow> byte_buffer option" where
  "bb_WriteOffset b offset =
     (let b1 = (if sint offset > 0 \<and> wr_ptr b + offset \<le> bb_size b
                then b\<lparr>wr_ptr := wr_ptr b + offset\<rparr> else b)
      in if sint offset < 0
         then do {
           s \<leftarrow> c_add_i32 (wr_ptr b1) offset;
           Some (if s \<ge> sint (rd_ptr b1) then b1\<lparr>wr_ptr := wr_ptr b1 + offset\<rparr> else b1)
         }
         else Some b1)"

declare bb_new_def [code_defs] bb_default_def [code_defs] bb_Attach_def [code_defs]
  bb_Detach_def [code_defs] bb_Avail_def [code_defs] bb_Free_def [code_defs] bb_Reset_def [code_defs]
  bb_Resize_def [code_defs] bb_Out_def [code_defs] bb_In_def [code_defs] scalar_size_def [code_defs]
  bb_put_def [code_defs] bb_get_def [code_defs] bb_put_cstr_def [code_defs]
  bb_put_string_def [code_defs] bb_get_string_def [code_defs] bb_ReadOffset_def [code_defs]
  bb_WriteOffset_def [code_defs]

section \<open>The invariant and the contents\<close>

definition bb_wf :: "byte_buffer \<Rightarrow> bool" where
  "bb_wf b \<longleftrightarrow> rd_ptr b \<le> wr_ptr b \<and> wr_ptr b \<le> bb_size b \<and> unat (bb_size b) \<le> length (buffer b)"

text \<open>The bytes that were written and not yet read, and the room that is left.\<close>

definition bb_content :: "byte_buffer \<Rightarrow> mem" where
  "bb_content b = take (unat (wr_ptr b) - unat (rd_ptr b)) (drop (unat (rd_ptr b)) (buffer b))"

definition bb_room :: "byte_buffer \<Rightarrow> nat" where
  "bb_room b = unat (bb_size b) - unat (wr_ptr b)"

lemma bb_wfD:
  assumes "bb_wf b"
  shows "unat (rd_ptr b) \<le> unat (wr_ptr b)" "unat (wr_ptr b) \<le> unat (bb_size b)"
    "unat (bb_size b) \<le> length (buffer b)"
  using assms by (auto simp: bb_wf_def word_le_nat_alt)

lemma length_bb_content: "bb_wf b \<Longrightarrow> length (bb_content b) = unat (wr_ptr b) - unat (rd_ptr b)"
  using bb_wfD [of b] by (simp add: bb_content_def)

lemma unat_bb_Avail: "bb_wf b \<Longrightarrow> unat (bb_Avail b) = length (bb_content b)"
  by (simp add: bb_Avail_def unat_sub_le bb_wf_def length_bb_content)

lemma unat_bb_Free: "bb_wf b \<Longrightarrow> unat (bb_Free b) = bb_room b"
  by (simp add: bb_Free_def unat_sub_le bb_wf_def bb_room_def)

lemma bb_wf_new: "bb_wf (bb_new sz)" "bb_content (bb_new sz) = []" "bb_room (bb_new sz) = unat sz"
  by (auto simp: bb_wf_def bb_new_def bb_content_def bb_room_def)

lemma bb_wf_Reset: "bb_wf b \<Longrightarrow> bb_wf (bb_Reset b)" "bb_content (bb_Reset b) = []"
  by (auto simp: bb_wf_def bb_Reset_def bb_content_def)

lemma bb_wf_Detach: "bb_wf (bb_Detach b)" "bb_content (bb_Detach b) = []"
  by (auto simp: bb_wf_def bb_Detach_def bb_content_def)

lemma bb_Resize_wf:
  assumes "bb_wf b"
  shows "bb_wf (bb_Resize b sz)" "bb_content (bb_Resize b sz) = bb_content b"
    "bb_room (bb_Resize b sz) \<ge> bb_room b"
proof -
  note le = bb_wfD [OF assms]
  show "bb_wf (bb_Resize b sz)"
    using assms by (auto simp: bb_Resize_def bb_wf_def word_le_nat_alt)
  show "bb_room (bb_Resize b sz) \<ge> bb_room b"
    by (auto simp: bb_Resize_def bb_room_def word_le_nat_alt)
  have "unat sz > unat (bb_size b) \<Longrightarrow>
      take (unat (wr_ptr b)) (take (unat sz) (buffer b) @ mem_alloc (unat sz - length (buffer b)))
      = take (unat (wr_ptr b)) (buffer b)"
    using le by (simp add: min_def)
  then show "bb_content (bb_Resize b sz) = bb_content b"
    by (auto simp: bb_Resize_def bb_content_def word_le_nat_alt simp flip: drop_take)
qed

section \<open>Functional behaviour of the two primitive operations\<close>

lemma bb_In_ok:
  assumes wf: "bb_wf b" and len: "unat sz \<le> length data" and fits: "unat sz \<le> bb_room b"
  obtains b' where "bb_In b data sz = Some (True, b')" and "bb_wf b'"
    and "bb_content b' = bb_content b @ take (unat sz) data"
    and "bb_room b' = bb_room b - unat sz" and "bb_size b' = bb_size b"
    and "rd_ptr b' = rd_ptr b" and "attach b' = attach b"
    and "length (buffer b') = length (buffer b)"
proof -
  let ?w = "unat (wr_ptr b)" and ?d = "take (unat sz) data"
  let ?buf = "take ?w (buffer b) @ ?d @ drop (?w + unat sz) (buffer b)"
  let ?b = "b\<lparr>buffer := ?buf, wr_ptr := wr_ptr b + sz\<rparr>"
  note le = bb_wfD [OF wf]
  have w: "unat (wr_ptr b + sz) = ?w + unat sz"
    using fits le unat_bound [of "bb_size b"]
    by (subst unat_add_bounded) (auto simp: bb_room_def)
  have wr: "mem_write ?w ?d (buffer b) = Some ?buf"
    using le fits len by (simp add: mem_simps bb_room_def)
  have "sz \<le> bb_Free b" using fits wf by (simp add: word_le_nat_alt unat_bb_Free)
  then have inn: "bb_In b data sz = Some (True, ?b)"
    using len wr by (simp add: bb_In_def mem_read_def)
  have wf': "bb_wf ?b"
    using le fits len w by (auto simp: bb_wf_def word_le_nat_alt bb_room_def)
  have len_d: "length ?d = unat sz" using len by simp
  have "bb_content ?b = take (unat (wr_ptr b + sz) - unat (rd_ptr b)) (drop (unat (rd_ptr b)) ?buf)"
    by (simp add: bb_content_def)
  also have "\<dots> = bb_content b @ ?d"
    using mem_write_window [OF wr le(1)] unfolding w len_d bb_content_def .
  finally have "bb_content ?b = bb_content b @ ?d" .
  then show thesis
    using that [OF inn wf'] w fits le len by (simp add: bb_room_def)
qed

lemma bb_In_full: "bb_wf b \<Longrightarrow> unat sz > bb_room b \<Longrightarrow> bb_In b data sz = Some (False, b)"
  by (auto simp: bb_In_def word_le_nat_alt unat_bb_Free)

lemma bb_Out_ok:
  assumes wf: "bb_wf b" and n: "unat sz \<le> length (bb_content b)"
  shows "bb_Out b sz = Some (Some (take (unat sz) (bb_content b)), b\<lparr>rd_ptr := rd_ptr b + sz\<rparr>)"
    and "bb_wf (b\<lparr>rd_ptr := rd_ptr b + sz\<rparr>)"
    and "bb_content (b\<lparr>rd_ptr := rd_ptr b + sz\<rparr>) = drop (unat sz) (bb_content b)"
proof -
  note le = bb_wfD [OF wf]
  have av: "sz \<le> bb_Avail b" using n wf by (simp add: word_le_nat_alt unat_bb_Avail)
  have n': "unat (rd_ptr b) + unat sz \<le> unat (wr_ptr b)" using n le wf by (simp add: length_bb_content)
  have r: "unat (rd_ptr b + sz) = unat (rd_ptr b) + unat sz"
    using n' unat_bound [of "wr_ptr b"] by (subst unat_add_bounded) auto
  show "bb_Out b sz = Some (Some (take (unat sz) (bb_content b)), b\<lparr>rd_ptr := rd_ptr b + sz\<rparr>)"
    using av le n' by (auto simp: bb_Out_def mem_read_def bb_content_def min_def)
  show "bb_wf (b\<lparr>rd_ptr := rd_ptr b + sz\<rparr>)"
    using wf n' r by (auto simp: bb_wf_def word_le_nat_alt)
  show "bb_content (b\<lparr>rd_ptr := rd_ptr b + sz\<rparr>) = drop (unat sz) (bb_content b)"
    using r by (simp add: bb_content_def drop_take add.commute diff_diff_left)
qed

lemma bb_Out_short: "bb_wf b \<Longrightarrow> unat sz > length (bb_content b) \<Longrightarrow> bb_Out b sz = Some (None, b)"
  by (auto simp: bb_Out_def word_le_nat_alt unat_bb_Avail)

section \<open>The contract of a typed byte stream\<close>

text \<open>
  The serialisers rely on three facts about a stream: a value is appended as its encoding, the
  value read back at the same type is the one at the front, and reading removes exactly it.
\<close>

fun put_all :: "('b \<Rightarrow> 'v \<Rightarrow> 'b option) \<Rightarrow> 'b \<Rightarrow> 'v list \<Rightarrow> 'b option" where
  "put_all put b [] = Some b"
| "put_all put b (v # vs) = do { b' \<leftarrow> put b v; put_all put b' vs }"

fun get_all :: "('b \<Rightarrow> 't \<Rightarrow> ('v option \<times> 'b) option) \<Rightarrow> 'b \<Rightarrow> 't list \<Rightarrow> ('v option list \<times> 'b) option" where
  "get_all get b [] = Some ([], b)"
| "get_all get b (t # ts) = do {
     (v, b') \<leftarrow> get b t;
     (vs, b'') \<leftarrow> get_all get b' ts;
     Some (v # vs, b'')
   }"

locale typed_stream =
  fixes put :: "'b \<Rightarrow> 'v \<Rightarrow> 'b option"
    and get :: "'b \<Rightarrow> 't \<Rightarrow> ('v option \<times> 'b) option"
    and ty :: "'v \<Rightarrow> 't"
    and enc :: "'v \<Rightarrow> byte list"
    and ok :: "'v \<Rightarrow> bool"
    and wf :: "'b \<Rightarrow> bool"
    and content :: "'b \<Rightarrow> mem"
    and room :: "'b \<Rightarrow> nat"
  assumes put_ok: "wf b \<Longrightarrow> ok v \<Longrightarrow> length (enc v) \<le> room b \<Longrightarrow>
      \<exists>b'. put b v = Some b' \<and> wf b' \<and> content b' = content b @ map Some (enc v)
         \<and> room b' = room b - length (enc v)"
    and get_ok: "wf b \<Longrightarrow> ok v \<Longrightarrow> content b = map Some (enc v) @ rest \<Longrightarrow>
      \<exists>b'. get b (ty v) = Some (Some v, b') \<and> wf b' \<and> content b' = rest"
begin

abbreviation encs :: "'v list \<Rightarrow> byte list" where
  "encs vs \<equiv> concat (map enc vs)"

lemma put_all_ok:
  assumes "wf b" and "list_all ok vs" and "length (encs vs) \<le> room b"
  shows "\<exists>b'. put_all put b vs = Some b' \<and> wf b' \<and> content b' = content b @ map Some (encs vs)
    \<and> room b' = room b - length (encs vs)"
  using assms
proof (induction vs arbitrary: b)
  case Nil
  then show ?case by simp
next
  case (Cons v vs)
  then have "wf b" "ok v" "length (enc v) \<le> room b" by auto
  from put_ok [OF this] obtain b1 where b1: "put b v = Some b1" "wf b1"
    "content b1 = content b @ map Some (enc v)" "room b1 = room b - length (enc v)" by blast
  have "\<exists>b'. put_all put b1 vs = Some b' \<and> wf b' \<and> content b' = content b1 @ map Some (encs vs)
      \<and> room b' = room b1 - length (encs vs)"
    using Cons.IH [of b1] Cons.prems b1 by auto
  with b1 show ?case by auto
qed

lemma get_all_ok:
  assumes "wf b" and "list_all ok vs" and "content b = map Some (encs vs) @ rest"
  shows "\<exists>b'. get_all get b (map ty vs) = Some (map Some vs, b') \<and> wf b' \<and> content b' = rest"
  using assms
proof (induction vs arbitrary: b)
  case Nil
  then show ?case by simp
next
  case (Cons v vs)
  then have "wf b" "ok v" "content b = map Some (enc v) @ (map Some (encs vs) @ rest)" by auto
  from get_ok [OF this] obtain b1 where b1: "get b (ty v) = Some (Some v, b1)" "wf b1"
    "content b1 = map Some (encs vs) @ rest" by blast
  then show ?case using Cons.IH [of b1] Cons.prems by auto
qed

lemma stream_roundtrip:
  assumes "wf b" and "content b = []" and "list_all ok vs" and "length (encs vs) \<le> room b"
  shows "\<exists>b1 b2. put_all put b vs = Some b1 \<and> get_all get b1 (map ty vs) = Some (map Some vs, b2)
    \<and> wf b2 \<and> content b2 = []"
proof -
  obtain b1 where "put_all put b vs = Some b1" "wf b1" "content b1 = map Some (encs vs) @ []"
    using put_all_ok [of b vs] assms by auto
  then show ?thesis using get_all_ok [of b1 vs "[]"] assms(3) by auto
qed

end

section \<open>The byte buffer is a typed stream\<close>

text \<open>The values the stream operators take, one constructor per width and one for strings.\<close>

datatype bb_val = V8 u8 | V16 u16 | V32 u32 | V64 u64 | VStr "byte list"
datatype bb_ty = T8 | T16 | T32 | T64 | TStr

fun val_ty :: "bb_val \<Rightarrow> bb_ty" where
  "val_ty (V8 w) = T8" | "val_ty (V16 w) = T16" | "val_ty (V32 w) = T32" | "val_ty (V64 w) = T64"
| "val_ty (VStr str) = TStr"

fun val_bytes :: "bb_val \<Rightarrow> byte list" where
  "val_bytes (V8 w) = word_bytes w" | "val_bytes (V16 w) = word_bytes w"
| "val_bytes (V32 w) = word_bytes w" | "val_bytes (V64 w) = word_bytes w"
| "val_bytes (VStr str) = str @ [0]"

fun val_ok :: "bb_val \<Rightarrow> bool" where
  "val_ok (VStr str) \<longleftrightarrow> 0 \<notin> set str"
| "val_ok v \<longleftrightarrow> True"

fun bb_put_val :: "byte_buffer \<Rightarrow> bb_val \<Rightarrow> byte_buffer option" where
  "bb_put_val b (V8 w) = bb_put b w" | "bb_put_val b (V16 w) = bb_put b w"
| "bb_put_val b (V32 w) = bb_put b w" | "bb_put_val b (V64 w) = bb_put b w"
| "bb_put_val b (VStr str) = bb_put_string b str"

fun bb_get_val :: "byte_buffer \<Rightarrow> bb_ty \<Rightarrow> (bb_val option \<times> byte_buffer) option" where
  "bb_get_val b T8 = map_option (apfst (map_option V8)) (bb_get b None)"
| "bb_get_val b T16 = map_option (apfst (map_option V16)) (bb_get b None)"
| "bb_get_val b T32 = map_option (apfst (map_option V32)) (bb_get b None)"
| "bb_get_val b T64 = map_option (apfst (map_option V64)) (bb_get b None)"
| "bb_get_val b TStr = map_option (apfst (Some \<circ> VStr)) (bb_get_string b [])"

lemma unat_scalar_size:
  "LENGTH('a::len) < 2 ^ 32 \<Longrightarrow> unat (scalar_size TYPE('a)) = LENGTH('a) div 8"
  by (simp add: scalar_size_def unat_of_nat)

lemma bb_put_ok:
  fixes v :: "'a::len word"
  assumes "bb_wf b" and "LENGTH('a) div 8 \<le> bb_room b" and "LENGTH('a) < 2 ^ 32"
  shows "\<exists>b'. bb_put b v = Some b' \<and> bb_wf b' \<and> bb_content b' = bb_content b @ map Some (word_bytes v)
    \<and> bb_room b' = bb_room b - LENGTH('a) div 8"
proof -
  have n: "unat (scalar_size TYPE('a)) = length (map Some (word_bytes v) :: mem)"
    using assms(3) by (simp add: unat_scalar_size)
  have le: "unat (scalar_size TYPE('a)) \<le> length (map Some (word_bytes v) :: mem)"
    and room: "unat (scalar_size TYPE('a)) \<le> bb_room b"
    using n assms(2) by simp_all
  obtain b' where "bb_In b (map Some (word_bytes v)) (scalar_size TYPE('a)) = Some (True, b')"
    "bb_wf b'" "bb_content b' = bb_content b @ map Some (word_bytes v)"
    "bb_room b' = bb_room b - LENGTH('a) div 8"
    by (rule bb_In_ok [OF assms(1) le room]) (simp add: n)
  then show ?thesis by (simp add: bb_put_def)
qed

lemma bb_get_ok:
  fixes v :: "'a::len word"
  assumes wf: "bb_wf b" and c: "bb_content b = map Some (word_bytes v) @ rest"
    and l: "LENGTH('a) < 2 ^ 32" "LENGTH('a) = 8 * (LENGTH('a) div 8)"
  shows "\<exists>b'. bb_get b old = Some (Some v, b') \<and> bb_wf b' \<and> bb_content b' = rest"
proof -
  let ?n = "scalar_size TYPE('a)"
  have n: "unat ?n = length (map Some (word_bytes v) :: mem)" using l by (simp add: unat_scalar_size)
  then have le: "unat ?n \<le> length (bb_content b)" using c by simp
  have t: "take (unat ?n) (bb_content b) = map Some (word_bytes v)"
    and d: "drop (unat ?n) (bb_content b) = rest" by (simp_all add: c n)
  show ?thesis
    using bb_Out_ok [OF wf le] l unfolding t d
    by (simp add: bb_get_def bytes_word_word_bytes)
qed

lemma c_string_map_Some: "0 \<notin> set str \<Longrightarrow> c_string (map Some str @ Some 0 # m) = Some str"
  by (induction str) auto

lemma takeWhile_nonzero: "0 \<notin> set str \<Longrightarrow> takeWhile (\<lambda>c. c \<noteq> 0) str = (str :: byte list)"
  by (induction str) auto

lemma bb_put_string_ok:
  assumes wf: "bb_wf b" and z: "0 \<notin> set str" and fits: "length str + 1 \<le> bb_room b"
  shows "\<exists>b'. bb_put_string b str = Some b' \<and> bb_wf b'
    \<and> bb_content b' = bb_content b @ map Some (str @ [0]) \<and> bb_room b' = bb_room b - (length str + 1)"
proof -
  have "length str + 1 < 2 ^ 32"
    using fits unat_bound [of "bb_size b"] by (simp add: bb_room_def)
  then have n: "unat (word_of_nat (length str + 1) :: u32) = length str + 1"
    by (simp add: unat_of_nat del: of_nat_Suc of_nat_add)
  obtain b' where "bb_In b (map Some (str @ [0])) (word_of_nat (length str + 1)) = Some (True, b')"
    "bb_wf b'" "bb_content b' = bb_content b @ map Some (str @ [0])"
    "bb_room b' = bb_room b - (length str + 1)"
    by (rule bb_In_ok [OF wf, of "word_of_nat (length str + 1)" "map Some (str @ [0])"])
      (use n fits in \<open>auto simp del: of_nat_Suc of_nat_add\<close>)
  then show ?thesis using z by (simp add: bb_put_string_def bb_put_cstr_def takeWhile_nonzero)
qed

lemma bb_buffer_from_rd:
  assumes "bb_wf b"
  shows "drop (unat (rd_ptr b)) (buffer b) = bb_content b @ drop (unat (wr_ptr b)) (buffer b)"
proof -
  note le = bb_wfD [OF assms]
  have "drop (unat (wr_ptr b)) (buffer b)
      = drop (unat (wr_ptr b) - unat (rd_ptr b)) (drop (unat (rd_ptr b)) (buffer b))"
    using le by simp
  then show ?thesis by (simp only: bb_content_def append_take_drop_id)
qed

lemma bb_get_string_ok:
  assumes wf: "bb_wf b" and z: "0 \<notin> set str" and c: "bb_content b = map Some (str @ [0]) @ rest"
  shows "\<exists>b'. bb_get_string b old = Some (str, b') \<and> bb_wf b' \<and> bb_content b' = rest"
proof -
  let ?len = "word_of_nat (length str) + 1 :: u32"
  have cl: "length str + 1 \<le> length (bb_content b)" using c by simp
  have n: "unat ?len = length str + 1"
    using cl length_bb_content [OF wf] unat_bound [of "wr_ptr b"]
    by (subst unat_add_bounded) (auto simp: unat_of_nat)
  have cs: "c_string (drop (unat (rd_ptr b)) (buffer b)) = Some str"
    using z by (simp add: bb_buffer_from_rd [OF wf] c c_string_map_Some)
  have le: "unat ?len \<le> length (bb_content b)" using n cl by simp
  note out = bb_Out_ok [OF wf le]
  have "rd_ptr b + ?len \<le> wr_ptr b"
    using out(2) by (simp add: bb_wf_def)
  moreover have "drop (unat ?len) (bb_content b) = rest" by (simp only: n c) simp
  ultimately show ?thesis
    using cs out(2,3) by (simp add: bb_get_string_def Let_def linorder_not_less [symmetric])
qed

lemma bb_put_val_ok:
  assumes "bb_wf b" and "val_ok v" and "length (val_bytes v) \<le> bb_room b"
  shows "\<exists>b'. bb_put_val b v = Some b' \<and> bb_wf b' \<and> bb_content b' = bb_content b @ map Some (val_bytes v)
    \<and> bb_room b' = bb_room b - length (val_bytes v)"
proof (cases v)
  case (V8 w) then show ?thesis using assms bb_put_ok [of b w] by simp
next
  case (V16 w) then show ?thesis using assms bb_put_ok [of b w] by simp
next
  case (V32 w) then show ?thesis using assms bb_put_ok [of b w] by simp
next
  case (V64 w) then show ?thesis using assms bb_put_ok [of b w] by simp
next
  case (VStr str) then show ?thesis using assms bb_put_string_ok [of b str] by simp
qed

lemma bb_get_val_ok:
  assumes "bb_wf b" and "val_ok v" and "bb_content b = map Some (val_bytes v) @ rest"
  shows "\<exists>b'. bb_get_val b (val_ty v) = Some (Some v, b') \<and> bb_wf b' \<and> bb_content b' = rest"
proof (cases v)
  case (V8 w) then show ?thesis using assms bb_get_ok [of b w rest None] by auto
next
  case (V16 w) then show ?thesis using assms bb_get_ok [of b w rest None] by auto
next
  case (V32 w) then show ?thesis using assms bb_get_ok [of b w rest None] by auto
next
  case (V64 w) then show ?thesis using assms bb_get_ok [of b w rest None] by auto
next
  case (VStr str) then show ?thesis using assms bb_get_string_ok [of b str rest "[]"] by auto
qed

interpretation bbs: typed_stream bb_put_val bb_get_val val_ty val_bytes val_ok bb_wf bb_content bb_room
  by unfold_locales (simp_all add: bb_put_val_ok bb_get_val_ok)

section \<open>The offset operations\<close>

text \<open>
  For buffers below 2 GiB both offset operations are a checked move: the offset is added when the
  new position stays between the bounds of that pointer, and otherwise nothing happens.
\<close>

lemma bb_ReadOffset_spec:
  assumes wf: "bb_wf b" and small: "unat (bb_size b) < 2 ^ 31"
  shows "bb_ReadOffset b off = Some (let p = int (unat (rd_ptr b)) + sint off
    in if 0 \<le> p \<and> p \<le> int (unat (wr_ptr b)) then b\<lparr>rd_ptr := word_of_int p\<rparr> else b)"
proof -
  note le = bb_wfD [OF wf]
  have r: "unat (rd_ptr b) < 2 ^ 31" using le small by simp
  note add = add_offset [OF r, of off]
  consider "sint off = 0" | "sint off > 0" | "sint off < 0" by linarith
  then show ?thesis
  proof cases
    case 1
    then show ?thesis using wf by (simp add: bb_ReadOffset_def Let_def bb_wf_def word_le_def)
  next
    case 2
    then have nn: "0 \<le> int (unat (rd_ptr b)) + sint off" by linarith
    have "rd_ptr b + off \<le> wr_ptr b \<longleftrightarrow> int (unat (rd_ptr b)) + sint off \<le> int (unat (wr_ptr b))"
      using nn add(2) [OF nn] by (simp add: word_le_nat_alt nat_le_iff del: of_nat_unat)
    then show ?thesis using 2 nn add(1) [OF nn] by (simp add: bb_ReadOffset_def Let_def del: of_nat_unat)
  next
    case 3
    have range: "c_add_i32 (rd_ptr b) off = Some (int (unat (rd_ptr b)) + sint off)"
      using 3 sint_range(1) [of off] sint_small [OF r] r by (simp add: c_add_i32_def Let_def del: of_nat_unat)
    show ?thesis
    proof (cases "0 \<le> int (unat (rd_ptr b)) + sint off")
      case True
      moreover have "int (unat (rd_ptr b)) + sint off \<le> int (unat (wr_ptr b))" using 3 le by linarith
      ultimately show ?thesis
        using 3 range add(1) [OF True] by (simp add: bb_ReadOffset_def Let_def del: of_nat_unat)
    next
      case False
      then show ?thesis using 3 range by (simp add: bb_ReadOffset_def Let_def del: of_nat_unat)
    qed
  qed
qed

lemma bb_WriteOffset_spec:
  assumes wf: "bb_wf b" and small: "unat (bb_size b) < 2 ^ 31"
  shows "bb_WriteOffset b off = Some (let p = int (unat (wr_ptr b)) + sint off
    in if int (unat (rd_ptr b)) \<le> p \<and> p \<le> int (unat (bb_size b)) then b\<lparr>wr_ptr := word_of_int p\<rparr> else b)"
proof -
  note le = bb_wfD [OF wf]
  have w: "unat (wr_ptr b) < 2 ^ 31" and r: "unat (rd_ptr b) < 2 ^ 31" using le small by simp_all
  note add = add_offset [OF w, of off]
  consider "sint off = 0" | "sint off > 0" | "sint off < 0" by linarith
  then show ?thesis
  proof cases
    case 1
    then show ?thesis using wf by (simp add: bb_WriteOffset_def Let_def bb_wf_def word_le_def)
  next
    case 2
    then have nn: "0 \<le> int (unat (wr_ptr b)) + sint off" by linarith
    have "wr_ptr b + off \<le> bb_size b \<longleftrightarrow> int (unat (wr_ptr b)) + sint off \<le> int (unat (bb_size b))"
      using nn add(2) [OF nn] by (simp add: word_le_nat_alt nat_le_iff del: of_nat_unat)
    moreover have "int (unat (rd_ptr b)) \<le> int (unat (wr_ptr b)) + sint off" using 2 le(1) by linarith
    ultimately show ?thesis using 2 add(1) [OF nn] by (simp add: bb_WriteOffset_def Let_def del: of_nat_unat)
  next
    case 3
    have range: "c_add_i32 (wr_ptr b) off = Some (int (unat (wr_ptr b)) + sint off)"
      using 3 sint_range(1) [of off] sint_small [OF w] w by (simp add: c_add_i32_def Let_def del: of_nat_unat)
    show ?thesis
    proof (cases "int (unat (rd_ptr b)) \<le> int (unat (wr_ptr b)) + sint off")
      case True
      then have nn: "0 \<le> int (unat (wr_ptr b)) + sint off" by linarith
      have "int (unat (wr_ptr b)) + sint off \<le> int (unat (bb_size b))" using 3 le by linarith
      then show ?thesis
        using 3 True range add(1) [OF nn] sint_small [OF r]
        by (simp add: bb_WriteOffset_def Let_def del: of_nat_unat)
    next
      case False
      then show ?thesis using 3 range sint_small [OF r]
        by (simp add: bb_WriteOffset_def Let_def del: of_nat_unat)
    qed
  qed
qed

section \<open>Properties\<close>

text \<open>Runs of the buffer's operations: scalars and strings, raw bytes, the offsets, resets and resizes.\<close>

datatype bb_op = OpPut bb_val | OpIn mem | OpOut u32 | OpReadOffset u32 | OpWriteOffset u32
  | OpReset | OpResize u32 | OpGetString

fun bb_step :: "byte_buffer \<Rightarrow> bb_op \<Rightarrow> byte_buffer option" where
  "bb_step b (OpPut v) = bb_put_val b v"
| "bb_step b (OpIn data) = map_option snd (bb_In b data (word_of_nat (length data)))"
| "bb_step b (OpOut sz) = map_option snd (bb_Out b sz)"
| "bb_step b (OpReadOffset off) = bb_ReadOffset b off"
| "bb_step b (OpWriteOffset off) = bb_WriteOffset b off"
| "bb_step b OpReset = Some (bb_Reset b)"
| "bb_step b (OpResize sz) = Some (bb_Resize b sz)"
| "bb_step b OpGetString = map_option snd (bb_get_string b [])"

fun bb_run :: "byte_buffer \<Rightarrow> bb_op list \<Rightarrow> byte_buffer option" where
  "bb_run b [] = Some b"
| "bb_run b (p # ps) = do { b' \<leftarrow> bb_step b p; bb_run b' ps }"

definition op_small :: "bb_op \<Rightarrow> bool" where
  "op_small p \<longleftrightarrow> (\<forall>sz. p = OpResize sz \<longrightarrow> unat sz < 2 ^ 31)"

definition bb_inv :: "byte_buffer \<Rightarrow> bool" where
  "bb_inv b \<longleftrightarrow> bb_wf b \<and> unat (bb_size b) < 2 ^ 31"

lemma bb_In_safe:
  assumes "bb_inv b" and len: "unat sz \<le> length data"
  shows "\<exists>b'. map_option snd (bb_In b data sz) = Some b' \<and> bb_inv b'"
proof (cases "unat sz \<le> bb_room b")
  case True
  have wf: "bb_wf b" using assms by (simp add: bb_inv_def)
  show ?thesis
    by (rule bb_In_ok [OF wf len True]) (use assms in \<open>auto simp: bb_inv_def\<close>)
next
  case False
  then show ?thesis using assms bb_In_full [of b sz data] by (simp add: bb_inv_def)
qed

lemma unat_of_nat_le: "unat (word_of_nat n :: 'a::len word) \<le> n"
  by (simp add: unat_of_nat)

lemma bb_put_val_safe:
  assumes "bb_inv b"
  shows "\<exists>b'. bb_put_val b v = Some b' \<and> bb_inv b'"
proof (cases v)
  case (V8 w)
  then show ?thesis using bb_In_safe [OF assms, of "scalar_size TYPE(8)" "map Some (word_bytes w)"]
    by (simp add: bb_put_def unat_scalar_size)
next
  case (V16 w)
  then show ?thesis using bb_In_safe [OF assms, of "scalar_size TYPE(16)" "map Some (word_bytes w)"]
    by (simp add: bb_put_def unat_scalar_size)
next
  case (V32 w)
  then show ?thesis using bb_In_safe [OF assms, of "scalar_size TYPE(32)" "map Some (word_bytes w)"]
    by (simp add: bb_put_def unat_scalar_size)
next
  case (V64 w)
  then show ?thesis using bb_In_safe [OF assms, of "scalar_size TYPE(64)" "map Some (word_bytes w)"]
    by (simp add: bb_put_def unat_scalar_size)
next
  case (VStr str)
  let ?s = "takeWhile (\<lambda>c. c \<noteq> 0) str"
  have "unat (word_of_nat (length ?s + 1) :: u32) \<le> length (map Some (?s @ [0]) :: mem)"
    using unat_of_nat_le [of "length ?s + 1"] by simp
  from bb_In_safe [OF assms this] VStr show ?thesis
    by (simp only: bb_put_val.simps bb_put_string_def bb_put_cstr_def)
qed

lemma bb_wf_move_rd:
  assumes "bb_wf b" and "0 \<le> p" and "p \<le> int (unat (wr_ptr b))"
  shows "bb_wf (b\<lparr>rd_ptr := word_of_int p\<rparr>)"
proof -
  have "p < 2 ^ 32" using assms(3) uint_bound [of "wr_ptr b"] by simp
  then have "uint (word_of_int p :: u32) = p" using assms(2) by (simp add: uint_word_of_int_eq take_bit_int_eq_self)
  then show ?thesis using assms by (simp add: bb_wf_def word_le_def)
qed

lemma bb_wf_move_wr:
  assumes "bb_wf b" and "int (unat (rd_ptr b)) \<le> p" and "p \<le> int (unat (bb_size b))"
  shows "bb_wf (b\<lparr>wr_ptr := word_of_int p\<rparr>)"
proof -
  have "0 \<le> p" by (rule order_trans [OF _ assms(2)]) simp
  moreover have "p < 2 ^ 32" using assms(3) uint_bound [of "bb_size b"] by simp
  ultimately have "uint (word_of_int p :: u32) = p" by (simp add: uint_word_of_int_eq take_bit_int_eq_self)
  then show ?thesis using assms by (simp add: bb_wf_def word_le_def)
qed

text \<open>From the read offset on, no zero is reached in the block through bytes that were written.\<close>

definition unterminated :: "byte_buffer \<Rightarrow> bool" where
  "unterminated b \<longleftrightarrow> (\<forall>k. unat (rd_ptr b) \<le> k \<longrightarrow> k < length (buffer b) \<longrightarrow> buffer b ! k = Some 0 \<longrightarrow>
     (\<exists>j. unat (rd_ptr b) \<le> j \<and> j < k \<and> buffer b ! j = None))"

lemma c_string_None: "c_string m = None \<longleftrightarrow> (\<forall>k<length m. m ! k = Some 0 \<longrightarrow> (\<exists>j<k. m ! j = None))"
proof (induction m rule: c_string.induct)
  case (2 m)
  show ?case by (auto simp: nth_Cons split: nat.splits)
next
  case (3 c m)
  show ?case
  proof (cases "c = 0")
    case False
    have "(\<forall>k<length (Some c # m). (Some c # m) ! k = Some 0 \<longrightarrow> (\<exists>j<k. (Some c # m) ! j = None))
        \<longleftrightarrow> (\<forall>k<length m. m ! k = Some 0 \<longrightarrow> (\<exists>j<k. m ! j = None))"
      using False by (simp add: All_less_Suc2 Ex_less_Suc2)
    then show ?thesis using 3 False by simp
  qed (use exI [of "\<lambda>k. k < Suc (length m) \<and> (Some c # m) ! k = Some 0 \<and> (\<forall>j<k. \<exists>y. (Some c # m) ! j = Some y)" 0] in auto)
qed simp

lemma bb_get_string_None: "bb_get_string b old = None \<Longrightarrow> unterminated b"
proof -
  assume "bb_get_string b old = None"
  then have n: "c_string (drop (unat (rd_ptr b)) (buffer b)) = None"
    by (cases "c_string (drop (unat (rd_ptr b)) (buffer b))") (simp_all add: bb_get_string_def Let_def)
  show ?thesis unfolding unterminated_def
  proof (intro allI impI)
    fix k assume k: "unat (rd_ptr b) \<le> k" "k < length (buffer b)" "buffer b ! k = Some 0"
    then have "k - unat (rd_ptr b) < length (drop (unat (rd_ptr b)) (buffer b))" "drop (unat (rd_ptr b)) (buffer b) ! (k - unat (rd_ptr b)) = Some 0"
      by simp_all
    then obtain j where "j < k - unat (rd_ptr b)" "drop (unat (rd_ptr b)) (buffer b) ! j = None"
      using n [unfolded c_string_None] by blast
    then show "\<exists>j. unat (rd_ptr b) \<le> j \<and> j < k \<and> buffer b ! j = None"
      using k by (intro exI [of _ "unat (rd_ptr b) + j"]) simp
  qed
qed

lemma bb_get_string_inv: "bb_get_string b old = Some (s, b1) \<Longrightarrow> bb_inv b \<Longrightarrow> bb_inv b1"
  by (auto simp: bb_get_string_def bb_inv_def bb_wf_def Let_def Option.bind_eq_Some_conv not_less split: if_splits)

lemma bb_step_safe:
  assumes inv: "bb_inv b" and "op_small p"
  shows "case bb_step b p of Some b1 \<Rightarrow> bb_inv b1 | None \<Rightarrow> p = OpGetString \<and> unterminated b"
proof (cases p)
  case OpGetString
  then show ?thesis using bb_get_string_None [of b "[]"] bb_get_string_inv [of b "[]"] inv
    by (cases "bb_get_string b []") auto
next
  case (OpPut v)
  then show ?thesis using bb_put_val_safe [OF inv, of v] by auto
next
  case (OpIn data)
  then show ?thesis using bb_In_safe [OF inv unat_of_nat_le, of data] by auto
next
  case (OpOut sz)
  have wf: "bb_wf b" and small: "unat (bb_size b) < 2 ^ 31" using inv by (auto simp: bb_inv_def)
  show ?thesis
    using OpOut bb_Out_ok(1,2) [OF wf, of sz] bb_Out_short [OF wf, of sz] small inv
    by (cases "unat sz \<le> length (bb_content b)") (auto simp: bb_inv_def)
next
  case (OpReadOffset off)
  define p where "p = int (unat (rd_ptr b)) + sint off"
  have "bb_ReadOffset b off
      = Some (if 0 \<le> p \<and> p \<le> int (unat (wr_ptr b)) then b\<lparr>rd_ptr := word_of_int p\<rparr> else b)"
    using bb_ReadOffset_spec [of b off] inv by (simp only: p_def Let_def bb_inv_def)
  then show ?thesis using OpReadOffset inv by (simp add: bb_inv_def bb_wf_move_rd del: of_nat_unat)
next
  case (OpWriteOffset off)
  define p where "p = int (unat (wr_ptr b)) + sint off"
  have "bb_WriteOffset b off = Some (if int (unat (rd_ptr b)) \<le> p \<and> p \<le> int (unat (bb_size b))
      then b\<lparr>wr_ptr := word_of_int p\<rparr> else b)"
    using bb_WriteOffset_spec [of b off] inv by (simp only: p_def Let_def bb_inv_def)
  then show ?thesis using OpWriteOffset inv by (simp add: bb_inv_def bb_wf_move_wr del: of_nat_unat)
next
  case OpReset
  then show ?thesis using inv bb_wf_Reset(1) [of b] by (simp add: bb_inv_def bb_Reset_def)
next
  case (OpResize sz)
  then show ?thesis
    using assms bb_Resize_wf(1) [of b sz]
    by (auto simp: bb_inv_def op_small_def bb_Resize_def)
qed

lemma bb_run_safe:
  "bb_inv b \<Longrightarrow> list_all op_small ps \<Longrightarrow>
   (case bb_run b ps of
      Some b1 \<Rightarrow> bb_inv b1
    | None \<Rightarrow> \<exists>before after b1. ps = before @ OpGetString # after \<and> bb_run b before = Some b1 \<and> bb_inv b1 \<and> unterminated b1)"
proof (induction ps arbitrary: b)
  case Nil
  then show ?case by simp
next
  case (Cons p ps)
  then have p: "case bb_step b p of Some b1 \<Rightarrow> bb_inv b1 | None \<Rightarrow> p = OpGetString \<and> unterminated b" by (intro bb_step_safe) simp_all
  show ?case
  proof (cases "bb_step b p")
    case None
    then have e: "p # ps = [] @ OpGetString # ps" "bb_run b [] = Some b" "unterminated b" using p by simp_all
    have "bb_run b (p # ps) = None" using None by simp
    then show ?thesis unfolding \<open>bb_run b (p # ps) = None\<close> option.case using e Cons.prems(1) by blast
  next
    case (Some b1)
    then have "bb_inv b1" using p by simp
    note ih = Cons.IH [OF this]
    show ?thesis
    proof (cases "bb_run b1 ps")
      case None
      then obtain before after b2 where "ps = before @ OpGetString # after" "bb_run b1 before = Some b2" "bb_inv b2" "unterminated b2"
        using ih Cons.prems(2) by auto
      then have e: "p # ps = (p # before) @ OpGetString # after" "bb_run b (p # before) = Some b2" using Some by simp_all
      have "bb_run b (p # ps) = None" using Some None by simp
      then show ?thesis unfolding \<open>bb_run b (p # ps) = None\<close> option.case using e \<open>bb_inv b2\<close> \<open>unterminated b2\<close> by blast
    next
      case (Some b2)
      then show ?thesis using ih Cons.prems(2) \<open>bb_step b p = Some b1\<close> by simp
    qed
  qed
qed

text \<open>
  C10. Whatever sequence of 8, 16, 32 and 64 bit scalars and strings is written to an empty
  buffer that has room for their encodings, reading back at the same types gives the same values
  in the same order, and leaves the buffer empty.
\<close>

theorem bb_roundtrip:
  assumes "bb_wf b" and "bb_content b = []" and "list_all val_ok vs"
    and "length (concat (map val_bytes vs)) \<le> bb_room b"
  shows "\<exists>b1 b2. put_all bb_put_val b vs = Some b1
    \<and> get_all bb_get_val b1 (map val_ty vs) = Some (map Some vs, b2)
    \<and> bb_wf b2 \<and> bb_content b2 = []"
  using assms by (rule bbs.stream_roundtrip)

theorem bb_roundtrip_witness:
  "\<exists>b1 b2. put_all bb_put_val (bb_new 22) [V8 34, VStr [102, 117], V64 10000333] = Some b1
    \<and> get_all bb_get_val b1 [T8, TStr, T64] = Some ([Some (V8 34), Some (VStr [102, 117]), Some (V64 10000333)], b2)
    \<and> bb_wf b2 \<and> bb_content b2 = []"
  using bb_roundtrip [of "bb_new 22" "[V8 34, VStr [102, 117], V64 10000333]"] by (simp add: bb_wf_new)

text \<open>
  C11. No sequence of reads and writes of scalars, strings and raw bytes, offset moves, resets and resizes on a buffer that owns its block
  and stays below 2 GiB leaves the block, with one exception: a string is read from the read offset to the next zero, wherever the written bytes end, so
  that the sequence stops at such a read when the rest of the block has no zero that is reached through bytes that were written.  Up to there
  and at the end the read offset is at most the write offset, which is at most the recorded size, which is at most the size of the block.
\<close>

theorem bb_memory_safe:
  assumes "unat sz < 2 ^ 31" and "list_all op_small ps"
  shows "case bb_run (bb_new sz) ps of
      Some b \<Rightarrow> rd_ptr b \<le> wr_ptr b \<and> wr_ptr b \<le> bb_size b \<and> unat (bb_size b) \<le> length (buffer b)
    | None \<Rightarrow> \<exists>before after b. ps = before @ OpGetString # after \<and> bb_run (bb_new sz) before = Some b
        \<and> rd_ptr b \<le> wr_ptr b \<and> wr_ptr b \<le> bb_size b \<and> unat (bb_size b) \<le> length (buffer b) \<and> unterminated b"
proof -
  have "bb_inv (bb_new sz)" using assms(1) by (simp add: bb_inv_def bb_wf_new) (simp add: bb_new_def)
  from bb_run_safe [OF this assms(2)] show ?thesis
    by (cases "bb_run (bb_new sz) ps") (simp only: option.case bb_inv_def bb_wf_def; blast)+
qed

theorem bb_memory_safe_witness:
  "case bb_run (bb_new 8) [OpPut (V32 7), OpReadOffset (-1), OpWriteOffset 3, OpResize 100, OpOut 200, OpPut (VStr [102]), OpGetString] of
      Some b \<Rightarrow> rd_ptr b \<le> wr_ptr b \<and> wr_ptr b \<le> bb_size b \<and> unat (bb_size b) \<le> length (buffer b)
    | None \<Rightarrow> \<exists>before after b. [OpPut (V32 7), OpReadOffset (-1), OpWriteOffset 3, OpResize 100, OpOut 200, OpPut (VStr [102]), OpGetString]
          = before @ OpGetString # after \<and> bb_run (bb_new 8) before = Some b
        \<and> rd_ptr b \<le> wr_ptr b \<and> wr_ptr b \<le> bb_size b \<and> unat (bb_size b) \<le> length (buffer b) \<and> unterminated b"
  by (rule bb_memory_safe) (simp_all add: op_small_def)

text \<open>
  Attaching a buffer to a packet overstates the capacity by the two opcode bytes: the
  write that exactly fills what \<^verbatim>\<open>Free()\<close> reports passes the check of \<^verbatim>\<open>In\<close> and runs past the end
  of the packet's block.
\<close>

theorem bb_attach_overrun:
  assumes "msg_wf p" and "2 \<le> m_curr_len p" and "bb_Attach bb_default p = (True, b)"
    and "length data = unat (bb_Free b)"
  shows "unat (bb_Free b) = length (buffer b) - unat (wr_ptr b) + 2 \<and> bb_In b data (bb_Free b) = None"
proof -
  have b: "wr_ptr b = m_curr_len p - 2" "bb_size b = m_size p" "buffer b = drop 2 (m_data p)"
    using assms(3) by (auto simp: bb_Attach_def bb_default_def bb_new_def packet_PacketLength_def
        packet_PacketData_def)
  note le = msg_wf_le [OF assms(1)]
  have sz: "unat (m_size p) = length (m_data p)" using assms(1) by (simp add: msg_wf_def)
  have c2: "2 \<le> unat (m_curr_len p)" using assms(2) by (simp add: word_le_nat_alt)
  have w: "unat (wr_ptr b) = unat (m_curr_len p) - 2" using assms(2) by (simp add: b unat_sub_le)
  then have "wr_ptr b \<le> bb_size b" using le sz by (simp add: b word_le_nat_alt)
  then have f: "unat (bb_Free b) = length (m_data p) - (unat (m_curr_len p) - 2)"
    using w sz b by (simp add: bb_Free_def unat_sub_le)
  then have free: "unat (bb_Free b) = length (buffer b) - unat (wr_ptr b) + 2"
    using w b le c2 by simp
  have "mem_write (unat (wr_ptr b)) data (buffer b) = None"
    using f w b le c2 assms(4) by (simp add: mem_write_def)
  then have "bb_In b data (bb_Free b) = None"
    using assms(4) by (simp add: bb_In_def mem_read_def)
  with free show ?thesis ..
qed

theorem bb_attach_overrun_witness:
  "\<exists>p b. msg_wf p \<and> 2 \<le> m_curr_len p \<and> bb_Attach bb_default p = (True, b)
    \<and> bb_In b (replicate 6 (Some 1)) (bb_Free b) = None"
proof -
  let ?p = "\<lparr>m_size = 8, m_data = replicate 8 (Some 0), m_curr_len = 4, m_data_len = 8, m_param = 0,
    m_ptr = None\<rparr>"
  let ?b = "snd (bb_Attach bb_default ?p)"
  have a: "bb_Attach bb_default ?p = (True, ?b)"
    by (simp add: bb_Attach_def bb_default_def bb_new_def)
  have wf: "msg_wf ?p" by (simp add: msg_wf_def)
  have l: "length (replicate 6 (Some 1) :: mem) = unat (bb_Free ?b)"
    by (simp add: bb_Attach_def bb_default_def bb_new_def bb_Free_def packet_PacketLength_def)
  have "bb_In ?b (replicate 6 (Some 1)) (bb_Free ?b) = None"
    using bb_attach_overrun [OF wf _ a l] by simp
  with wf a show ?thesis by (intro exI [of _ ?p] exI [of _ ?b]) simp
qed

text \<open>
  Move assignment does not carry over the attached flag: moving an attached buffer into a
  detached one leaves a buffer whose destructor frees memory that belongs to the packet, which
  the attached buffer itself never frees.
\<close>

theorem bb_move_frees_packet:
  assumes "attach r" and "\<not> attach b" and "buffer r \<noteq> []"
  shows "bb_destroy r = None \<and> bb_destroy (fst (bb_move_assign b r)) = Some (buffer r)"
  using assms by (simp_all add: bb_destroy_def bb_move_assign_def)

theorem bb_move_frees_packet_witness:
  "bb_destroy (fst (bb_move_assign bb_default (bb_default\<lparr>attach := True, buffer := [None]\<rparr>))) = Some [None]"
  using bb_move_frees_packet [of "bb_default\<lparr>attach := True, buffer := [None]\<rparr>" bb_default]
  by (simp add: bb_default_def bb_new_def)

end
