(* ===== verification/LuaTable.thy ===== *)
theory LuaTable
  imports ByteBuffer
begin

text \<open>
  Saving and loading Lua tables (\<^verbatim>\<open>libcore/include/LuaTable.h\<close>, \<^verbatim>\<open>libcore/src/LuaTable.cpp\<close>).

  The code works on the Lua stack, leaves it balanced and only looks at its top entries; the model
  passes the values at these places.  A table is what the C interface of Lua shows of it: whether its
  metatable has \<^verbatim>\<open>__len\<close> and \<^verbatim>\<open>__pairs\<close>, and its entries in the order of \<^verbatim>\<open>lua_next\<close>, which the Lua manual
  leaves open.  The value of \<^verbatim>\<open>lua_rawlen\<close>, any border of the table, is a parameter \<open>bd\<close>.  Tables that contain
  themselves are not values of the model.

  An integer is its 64 bits; a float is the 64 bits of its IEEE double.  \<open>None\<close> is undefined behaviour,
  a Lua error, or a loop that has not ended within its fuel.
\<close>

section \<open>Values\<close>

datatype lua_val = LNil | LBool bool | LInt u64 | LFlt u64 | LStr "byte list"
  | LTab bool bool "(lua_val \<times> lua_val) list" | LOther nat

type_synonym lua_entries = "(lua_val \<times> lua_val) list"

datatype lua_type = LVT_nil | LVT_i8 | LVT_i16 | LVT_i32 | LVT_i64 | LVT_u8 | LVT_u16 | LVT_u32 | LVT_u64
  | LVT_str | LVT_flt | LVT_bool | LVT_Arr | LVT_Hash | LVT_Unknown

fun lvt_code :: "lua_type \<Rightarrow> u8" where
  "lvt_code LVT_nil = 0" | "lvt_code LVT_i8 = 1" | "lvt_code LVT_i16 = 2" | "lvt_code LVT_i32 = 3"
| "lvt_code LVT_i64 = 4" | "lvt_code LVT_u8 = 5" | "lvt_code LVT_u16 = 6" | "lvt_code LVT_u32 = 7"
| "lvt_code LVT_u64 = 8" | "lvt_code LVT_str = 9" | "lvt_code LVT_flt = 10" | "lvt_code LVT_bool = 11"
| "lvt_code LVT_Arr = 12" | "lvt_code LVT_Hash = 13" | "lvt_code LVT_Unknown = 14"

text \<open>A byte that is no enumerator behaves in every switch like the last one.\<close>

definition lvt_of :: "u8 \<Rightarrow> lua_type" where
  "lvt_of c =
     (case find (\<lambda>t. lvt_code t = c) [LVT_nil, LVT_i8, LVT_i16, LVT_i32, LVT_i64, LVT_u8, LVT_u16, LVT_u32,
        LVT_u64, LVT_str, LVT_flt, LVT_bool, LVT_Arr, LVT_Hash] of
        Some t \<Rightarrow> t
      | None \<Rightarrow> LVT_Unknown)"

definition MAX_DEPTH :: u8 where "MAX_DEPTH = 16"

section \<open>Numbers\<close>

text \<open>
  The integer a double stands for; \<open>None\<close> when it is not integral.  \<open>dbl_finite\<close> excludes the infinities and
  what is not a number.
\<close>

definition dbl_exp :: "u64 \<Rightarrow> nat" where "dbl_exp v = unat v div 2 ^ 52 mod 2 ^ 11"
definition dbl_man :: "u64 \<Rightarrow> nat" where "dbl_man v = unat v mod 2 ^ 52"
definition dbl_neg :: "u64 \<Rightarrow> bool" where "dbl_neg v \<longleftrightarrow> unat v \<ge> 2 ^ 63"
definition dbl_finite :: "u64 \<Rightarrow> bool" where "dbl_finite v \<longleftrightarrow> dbl_exp v \<noteq> 2047"

definition dbl_integer :: "u64 \<Rightarrow> int option" where
  "dbl_integer v =
     (let e = dbl_exp v; m = int (dbl_man v) + 2 ^ 52; sgn = (if dbl_neg v then - 1 else 1)
      in if e = 0 then (if dbl_man v = 0 then Some 0 else None)
         else if e = 2047 then None
         else if 1075 \<le> e then Some (sgn * m * 2 ^ (e - 1075))
         else if 2 ^ (1075 - e) dvd m then Some (sgn * (m div 2 ^ (1075 - e)))
         else None)"

text \<open>\<^verbatim>\<open>lua_tointeger\<close>; a float with no integer representation gives 0.\<close>

definition lua_tointeger :: "lua_val \<Rightarrow> u64" where
  "lua_tointeger v =
     (case v of
        LInt w \<Rightarrow> w
      | LFlt d \<Rightarrow> (case dbl_integer d of
                    Some i \<Rightarrow> if - (2 ^ 63) \<le> i \<and> i < 2 ^ 63 then word_of_int i else 0
                  | None \<Rightarrow> 0)
      | _ \<Rightarrow> 0)"

text \<open>
  The width a number is saved with.  The code decides by the double of the number: rounding an integer to
  a double changes nothing below \<open>2 ^ 53\<close> and keeps what is above beyond all the bounds.
\<close>

definition number_type :: "int \<Rightarrow> lua_type" where
  "number_type i =
     (if i \<ge> 0
      then if i \<le> 0xFF then LVT_u8 else if i < 0xFFFF then LVT_u16 else if i < 0xFFFFFFFF then LVT_u32 else LVT_u64
      else if i \<ge> - 0x80 then LVT_i8 else if i \<ge> - 0x8000 then LVT_i16 else if i \<ge> - 0x80000000 then LVT_u32
      else LVT_i64)"

text \<open>Converting a double that is no 64 bit integer of its sign is undefined behaviour.\<close>

definition float_type :: "u64 \<Rightarrow> lua_type option" where
  "float_type d =
     (if \<not> dbl_finite d then None
      else case dbl_integer d of
             None \<Rightarrow> Some LVT_flt
           | Some i \<Rightarrow> if - (2 ^ 63) \<le> i \<and> i < 2 ^ 64 then Some (number_type i) else None)"

section \<open>Tables\<close>

text \<open>Lookup without metamethods, the traversal, and the classification.\<close>

definition lua_rawget :: "lua_entries \<Rightarrow> lua_val \<Rightarrow> lua_val" where
  "lua_rawget es k = (case map_of es k of Some v \<Rightarrow> v | None \<Rightarrow> LNil)"

text \<open>The entries after a key; \<open>None\<close> is the Lua error for a key that is not in the table.\<close>

definition lua_next :: "lua_entries \<Rightarrow> lua_val \<Rightarrow> lua_entries option" where
  "lua_next es k =
     (if k = LNil then Some es
      else case dropWhile (\<lambda>e. fst e \<noteq> k) es of [] \<Rightarrow> None | e # rest \<Rightarrow> Some rest)"

text \<open>
  Assignment: integral floats become integer keys, \<^verbatim>\<open>nil\<close> and what is not a number are errors.  A table that is
  used as a key here has just been made, so it is no key yet.
\<close>

definition lua_key :: "lua_val \<Rightarrow> lua_val option" where
  "lua_key k =
     (case k of
        LNil \<Rightarrow> None
      | LFlt d \<Rightarrow>
          if \<not> dbl_finite d \<and> dbl_man d \<noteq> 0 then None
          else (case dbl_integer d of
                  Some i \<Rightarrow> Some (if - (2 ^ 63) \<le> i \<and> i < 2 ^ 63 then LInt (word_of_int i) else k)
                | None \<Rightarrow> Some k)
      | _ \<Rightarrow> Some k)"

fun is_table :: "lua_val \<Rightarrow> bool" where
  "is_table (LTab l p es) \<longleftrightarrow> True"
| "is_table v \<longleftrightarrow> False"

definition lua_rawset :: "lua_entries \<Rightarrow> lua_val \<Rightarrow> lua_val \<Rightarrow> lua_entries option" where
  "lua_rawset es key v =
     map_option (\<lambda>k.
       if v = LNil then filter (\<lambda>e. fst e \<noteq> k) es
       else if k \<in> fst ` set es \<and> \<not> is_table k then map (\<lambda>e. if fst e = k then (k, v) else e) es
       else es @ [(k, v)]) (lua_key key)"

definition get_lua_type_table :: "(lua_entries \<Rightarrow> nat) \<Rightarrow> bool \<Rightarrow> bool \<Rightarrow> lua_entries \<Rightarrow> lua_type option" where
  "get_lua_type_table bd has_len has_pairs es =
     (if has_len then Some LVT_Arr
      else if has_pairs then Some LVT_Hash
      else map_option (\<lambda>rest. if rest = [] then LVT_Arr else LVT_Hash)
             (lua_next es (if bd es \<noteq> 0 then LInt (word_of_nat (bd es)) else LNil)))"

definition get_lua_type :: "(lua_entries \<Rightarrow> nat) \<Rightarrow> lua_val \<Rightarrow> lua_type option" where
  "get_lua_type bd v =
     (case v of
        LNil \<Rightarrow> Some LVT_nil
      | LInt w \<Rightarrow> Some (number_type (sint w))
      | LFlt d \<Rightarrow> float_type d
      | LStr str \<Rightarrow> Some LVT_str
      | LBool b \<Rightarrow> Some LVT_bool
      | LTab l p es \<Rightarrow> get_lua_type_table bd l p es
      | LOther n \<Rightarrow> Some LVT_Unknown)"

section \<open>Saving\<close>

text \<open>The loops over a table: a failing access ends them.\<close>

fun run_all :: "('a \<Rightarrow> 'b \<Rightarrow> 'b option) \<Rightarrow> 'a list \<Rightarrow> 'b \<Rightarrow> 'b option" where
  "run_all f [] b = Some b"
| "run_all f (x # xs) b = do { b' \<leftarrow> f x b; run_all f xs b' }"

lemma run_all_cong [fundef_cong]:
  "xs = ys \<Longrightarrow> b = c \<Longrightarrow> (\<And>x b. x \<in> set ys \<Longrightarrow> f x b = g x b) \<Longrightarrow> run_all f xs b = run_all g ys c"
proof (induction ys arbitrary: xs b c)
  case (Cons y ys)
  have "g y c = f y c" using Cons.prems(3) [of y c] by simp
  then show ?case using Cons.prems(1,2) Cons.IH [OF refl refl] Cons.prems(3) by (cases "g y c") auto
qed simp

lemma size_entry: "(k, v) \<in> set es \<Longrightarrow> size k + size v \<le> size_list (size_prod size size) es"
proof -
  assume e: "(k, v) \<in> set es"
  have "size_prod size size (k, v) \<le> size_list (size_prod size size) es"
    by (rule size_list_estimation' [OF e]) simp
  then show ?thesis by simp
qed

lemma size_rawget: "size (lua_rawget es k) \<le> size_list (size_prod size size) es"
  using size_entry [OF map_of_SomeD, of es k] by (fastforce simp: lua_rawget_def split: option.split)

lemma size_entry3: "(k, v) \<in> set es \<Longrightarrow> 3 * size k + 3 * size v \<le> 3 * size_list (size_prod size size) es"
  using size_entry [of k v es] by simp

lemma size_rawget3: "3 * size (lua_rawget es k) \<le> 3 * size_list (size_prod size size) es"
  using size_rawget [of es k] by simp

text \<open>
  \<^verbatim>\<open>serialize_entity\<close>, with \<^verbatim>\<open>serialize_table\<close> for a table: a value that does not fit into the buffer is
  left out, since the operators ignore the result of \<^verbatim>\<open>In\<close>.  A value of another type is an assertion.
\<close>

definition lua_scalar :: "lua_type \<Rightarrow> lua_val \<Rightarrow> byte_buffer \<Rightarrow> byte_buffer option" where
  "lua_scalar ty v b =
     (case ty of
        LVT_i8 \<Rightarrow> bb_put b (ucast (lua_tointeger v) :: u8)
      | LVT_i16 \<Rightarrow> bb_put b (ucast (lua_tointeger v) :: u16)
      | LVT_i32 \<Rightarrow> bb_put b (ucast (lua_tointeger v) :: u32)
      | LVT_i64 \<Rightarrow> bb_put b (lua_tointeger v)
      | LVT_u8 \<Rightarrow> bb_put b (ucast (lua_tointeger v) :: u8)
      | LVT_u16 \<Rightarrow> bb_put b (ucast (lua_tointeger v) :: u16)
      | LVT_u32 \<Rightarrow> bb_put b (ucast (lua_tointeger v) :: u32)
      | LVT_u64 \<Rightarrow> bb_put b (lua_tointeger v)
      | LVT_str \<Rightarrow> (case v of LStr str \<Rightarrow> bb_put_string b str | _ \<Rightarrow> None)
      | LVT_flt \<Rightarrow> (case v of LFlt d \<Rightarrow> bb_put b d | _ \<Rightarrow> None)
      | LVT_bool \<Rightarrow> (case v of LBool t \<Rightarrow> bb_put b (if t then 1 else 0 :: u8) | _ \<Rightarrow> None)
      | _ \<Rightarrow> None)"

text \<open>The types that \<^verbatim>\<open>serialize_val\<close> and \<^verbatim>\<open>serialize_key_val\<close> let pass.\<close>

definition val_type_ok :: "lua_type \<Rightarrow> bool" where
  "val_type_ok ty \<longleftrightarrow> 1 \<le> lvt_code ty \<and> lvt_code ty \<le> 13"

definition key_type_ok :: "lua_type \<Rightarrow> bool" where
  "key_type_ok ty \<longleftrightarrow> 1 \<le> lvt_code ty \<and> lvt_code ty \<le> 9"

function serialize_entity :: "(lua_entries \<Rightarrow> nat) \<Rightarrow> lua_type \<Rightarrow> lua_val \<Rightarrow> u8 \<Rightarrow> byte_buffer \<Rightarrow> byte_buffer option"
  and serialize_val :: "(lua_entries \<Rightarrow> nat) \<Rightarrow> lua_val \<Rightarrow> u8 \<Rightarrow> byte_buffer \<Rightarrow> byte_buffer option"
  and serialize_key_val :: "(lua_entries \<Rightarrow> nat) \<Rightarrow> lua_val \<Rightarrow> lua_val \<Rightarrow> u8 \<Rightarrow> byte_buffer \<Rightarrow> byte_buffer option"
  and serialize_table :: "(lua_entries \<Rightarrow> nat) \<Rightarrow> lua_type \<Rightarrow> lua_entries \<Rightarrow> u8 \<Rightarrow> byte_buffer \<Rightarrow> byte_buffer option" where
  "serialize_entity bd ty v depth b =
     (if ty = LVT_Arr \<or> ty = LVT_Hash
      then (case v of LTab l p es \<Rightarrow> serialize_table bd ty es (depth + 1) b | _ \<Rightarrow> None)
      else lua_scalar ty v b)"
| "serialize_val bd v depth b = do {
     ty \<leftarrow> get_lua_type bd v;
     if \<not> val_type_ok ty then Some b
     else do { b1 \<leftarrow> bb_put b (lvt_code ty); serialize_entity bd ty v depth b1 }
   }"
| "serialize_key_val bd k v depth b = do {
     ty_key \<leftarrow> get_lua_type bd k;
     ty_val \<leftarrow> get_lua_type bd v;
     if \<not> key_type_ok ty_key \<or> \<not> val_type_ok ty_val then Some b
     else do {
       b1 \<leftarrow> bb_put b (or (push_bit 4 (and (lvt_code ty_key) 0x0F)) (and (lvt_code ty_val) 0x0F));
       b2 \<leftarrow> serialize_entity bd ty_key k depth b1;
       serialize_entity bd ty_val v depth b2
     }
   }"
| "serialize_table bd ty es depth b =
     (if depth < MAX_DEPTH
      then if ty = LVT_Arr
           then do {
             b1 \<leftarrow> run_all (\<lambda>i. serialize_val bd (lua_rawget es (LInt (word_of_nat i))) depth) [1..<bd es + 1] b;
             bb_put b1 (lvt_code LVT_nil)
           }
           else if ty = LVT_Hash
           then do {
             b1 \<leftarrow> run_all (\<lambda>(k, v). serialize_key_val bd k v depth) es b;
             bb_put b1 (lvt_code LVT_nil)
           }
           else Some b
      else bb_put b (lvt_code LVT_nil))"
  by pat_completeness auto
termination
proof (relation "measure (\<lambda>x. case x of
    Inl (Inl (bd, ty, v, depth, b)) \<Rightarrow> 3 * size v
  | Inl (Inr (bd, v, depth, b)) \<Rightarrow> 3 * size v + 1
  | Inr (Inl (bd, k, v, depth, b)) \<Rightarrow> 3 * (size k + size v) + 1
  | Inr (Inr (bd, ty, es, depth, b)) \<Rightarrow> 3 * size_list (size_prod size size) es + 2)")
qed (auto simp: le_imp_less_Suc [OF size_rawget3] le_imp_less_Suc [OF size_entry3])

text \<open>The result is \<open>False\<close> when there is no table on the stack.\<close>

definition Serialize :: "(lua_entries \<Rightarrow> nat) \<Rightarrow> lua_val \<Rightarrow> byte_buffer \<Rightarrow> (bool \<times> byte_buffer) option" where
  "Serialize bd v b =
     (case v of
        LTab l p es \<Rightarrow> do {
          ty \<leftarrow> get_lua_type_table bd l p es;
          b1 \<leftarrow> bb_put b (lvt_code ty);
          b2 \<leftarrow> serialize_table bd ty es 1 b1;
          Some (True, b2)
        }
      | _ \<Rightarrow> Some (False, b))"

section \<open>Loading\<close>

text \<open>
  The local variables are not initialised: the ones that are read before they were assigned hold the low
  bits of \<open>junk\<close>.
\<close>

definition get_local :: "u64 \<Rightarrow> byte_buffer \<Rightarrow> ('a::len word \<times> byte_buffer) option" where
  "get_local junk b = do { (r, b1) \<leftarrow> bb_get b (Some (ucast junk)); v \<leftarrow> r; Some (v, b1) }"

definition load_scalar :: "u64 \<Rightarrow> lua_type \<Rightarrow> byte_buffer \<Rightarrow> (lua_val \<times> byte_buffer) option" where
  "load_scalar junk ty b =
     (case ty of
        LVT_i8 \<Rightarrow> map_option (apfst (\<lambda>w :: u8. LInt (scast w))) (get_local junk b)
      | LVT_i16 \<Rightarrow> map_option (apfst (\<lambda>w :: u16. LInt (scast w))) (get_local junk b)
      | LVT_i32 \<Rightarrow> map_option (apfst (\<lambda>w :: u32. LInt (scast w))) (get_local junk b)
      | LVT_i64 \<Rightarrow> map_option (apfst (\<lambda>w :: u64. LInt w)) (get_local junk b)
      | LVT_u8 \<Rightarrow> map_option (apfst (\<lambda>w :: u8. LInt (ucast w))) (get_local junk b)
      | LVT_u16 \<Rightarrow> map_option (apfst (\<lambda>w :: u16. LInt (ucast w))) (get_local junk b)
      | LVT_u32 \<Rightarrow> map_option (apfst (\<lambda>w :: u32. LInt (ucast w))) (get_local junk b)
      | LVT_u64 \<Rightarrow> map_option (apfst (\<lambda>w :: u64. LInt w)) (get_local junk b)
      | LVT_str \<Rightarrow> map_option (apfst LStr) (bb_get_string b [])
      | LVT_flt \<Rightarrow> map_option (apfst (\<lambda>w :: u64. LFlt w)) (get_local junk b)
      | LVT_bool \<Rightarrow> map_option (apfst (\<lambda>w :: u8. LBool (w \<noteq> 0))) (get_local junk b)
      | _ \<Rightarrow> None)"

text \<open>
  The mutually recursive functions and the two loops of \<^verbatim>\<open>deserialize_table\<close>, by fuel.  A read at the end of a
  round that finds no byte leaves the type as it was.
\<close>

function deserialize_entity :: "u64 \<Rightarrow> nat \<Rightarrow> lua_type \<Rightarrow> byte_buffer \<Rightarrow> (lua_val \<times> byte_buffer) option"
  and deserialize_table :: "u64 \<Rightarrow> nat \<Rightarrow> lua_type \<Rightarrow> byte_buffer \<Rightarrow> (lua_entries \<times> byte_buffer) option"
  and load_arr :: "u64 \<Rightarrow> nat \<Rightarrow> u8 \<Rightarrow> u32 \<Rightarrow> lua_entries \<Rightarrow> byte_buffer \<Rightarrow> (lua_entries \<times> byte_buffer) option"
  and load_hash :: "u64 \<Rightarrow> nat \<Rightarrow> u8 \<Rightarrow> lua_entries \<Rightarrow> byte_buffer \<Rightarrow> (lua_entries \<times> byte_buffer) option" where
  "deserialize_entity junk 0 ty b = None"
| "deserialize_entity junk (Suc n) ty b =
     (if ty = LVT_Arr \<or> ty = LVT_Hash
      then map_option (apfst (LTab False False)) (deserialize_table junk n ty b)
      else load_scalar junk ty b)"
| "deserialize_table junk 0 ty b = None"
| "deserialize_table junk (Suc n) ty b =
     (if ty = LVT_Arr then do { (t, b1) \<leftarrow> get_local junk b; load_arr junk n t 1 [] b1 }
      else if ty = LVT_Hash then do { (t, b1) \<leftarrow> get_local junk b; load_hash junk n t [] b1 }
      else Some ([], b))"
| "load_arr junk 0 t idx es b = None"
| "load_arr junk (Suc n) t idx es b =
     (if lvt_of t \<noteq> LVT_nil
      then do {
        (v, b1) \<leftarrow> deserialize_entity junk n (lvt_of t) b;
        es1 \<leftarrow> lua_rawset es (LInt (ucast idx)) v;
        (t1, b2) \<leftarrow> get_local (ucast t) b1;
        load_arr junk n t1 (idx + 1) es1 b2
      }
      else Some (es, b))"
| "load_hash junk 0 t es b = None"
| "load_hash junk (Suc n) t es b =
     (if lvt_of t \<noteq> LVT_nil
      then do {
        (k, b1) \<leftarrow> deserialize_entity junk n (lvt_of (drop_bit 4 (and t 0xF0))) b;
        (v, b2) \<leftarrow> deserialize_entity junk n (lvt_of (and t 0x0F)) b1;
        es1 \<leftarrow> lua_rawset es k v;
        (t1, b3) \<leftarrow> get_local (ucast t) b2;
        load_hash junk n t1 es1 b3
      }
      else Some (es, b))"
  by pat_completeness auto
termination
  by (relation "measure (\<lambda>x. case x of
      Inl (Inl (junk, n, ty, b)) \<Rightarrow> n | Inl (Inr (junk, n, ty, b)) \<Rightarrow> n
    | Inr (Inl (junk, n, t, idx, es, b)) \<Rightarrow> n | Inr (Inr (junk, n, t, es, b)) \<Rightarrow> n)") auto

text \<open>The inner \<open>None\<close> is the result \<open>False\<close>: nothing was put on the stack.\<close>

definition Deserialize :: "u64 \<Rightarrow> nat \<Rightarrow> byte_buffer \<Rightarrow> (lua_val option \<times> byte_buffer) option" where
  "Deserialize junk fuel b = do {
     (t, b1) \<leftarrow> get_local junk b;
     if lvt_of t = LVT_Arr \<or> lvt_of t = LVT_Hash
     then do {
       (es, b2) \<leftarrow> deserialize_table junk fuel (lvt_of t) b1;
       Some (Some (LTab False False es), b2)
     }
     else Some (None, b1)
   }"

end
