(* ===== verification/LuaRoundTrip.thy ===== *)
theory LuaRoundTrip
  imports LuaTable
begin

text \<open>
  What is saved can be loaded: the bytes that the functions of \<^verbatim>\<open>LuaTable.cpp\<close> write for a value are read
  back as that value, and the values for which this fails.
\<close>

section \<open>Fuel\<close>

text \<open>A result of loading does not depend on the fuel: more of it gives the same.\<close>

lemma deserialize_fuel_Suc:
  "deserialize_entity junk n ty b = Some r \<Longrightarrow> deserialize_entity junk (Suc n) ty b = Some r"
  "deserialize_table junk n ty b = Some q \<Longrightarrow> deserialize_table junk (Suc n) ty b = Some q"
  "load_arr junk n t idx es b = Some q \<Longrightarrow> load_arr junk (Suc n) t idx es b = Some q"
  "load_hash junk n t es b = Some q \<Longrightarrow> load_hash junk (Suc n) t es b = Some q"
proof (induction n arbitrary: ty b r q t idx es)
  case 0
  { case 1 then show ?case by simp next
    case 2 then show ?case by simp next
    case 3 then show ?case by simp next
    case 4 then show ?case by simp }
next
  case (Suc n)
  note IH = Suc.IH
  { case 1
    then show ?case
      by (auto simp: deserialize_entity.simps(2) simp del: deserialize_table.simps split: if_splits dest: IH(2))
  next
    case 2
    then show ?case
      by (auto simp: deserialize_table.simps(2) bind_eq_Some_conv
          simp del: load_arr.simps load_hash.simps split: if_splits dest: IH(3,4))
  next
    case 3
    show ?case
    proof (cases "lvt_of t = LVT_nil")
      case True
      with 3 show ?thesis by simp
    next
      case False
      with 3 obtain v b1 es1 t1 b2 where r: "deserialize_entity junk n (lvt_of t) b = Some (v, b1)"
        "lua_rawset es (LInt (ucast idx)) v = Some es1" "get_local (ucast t) b1 = Some (t1, b2)"
        "load_arr junk n t1 (idx + 1) es1 b2 = Some q"
        by (auto simp: load_arr.simps(2) [of junk n] bind_eq_Some_conv simp del: load_arr.simps deserialize_entity.simps)
      show ?thesis
        by (subst load_arr.simps(2)) (simp add: False IH(1) [OF r(1)] r(2,3) IH(3) [OF r(4)]
            del: load_arr.simps deserialize_entity.simps)
    qed
  next
    case 4
    show ?case
    proof (cases "lvt_of t = LVT_nil")
      case True
      with 4 show ?thesis by simp
    next
      case False
      with 4 obtain k b1 v b2 es1 t1 b3
        where r: "deserialize_entity junk n (lvt_of (drop_bit 4 (and t 0xF0))) b = Some (k, b1)"
        "deserialize_entity junk n (lvt_of (and t 0x0F)) b1 = Some (v, b2)"
        "lua_rawset es k v = Some es1" "get_local (ucast t) b2 = Some (t1, b3)"
        "load_hash junk n t1 es1 b3 = Some q"
        by (auto simp: load_hash.simps(2) [of junk n] bind_eq_Some_conv simp del: load_hash.simps deserialize_entity.simps)
      show ?thesis
        by (subst load_hash.simps(2)) (simp only: False IH(1) [OF r(1)] IH(1) [OF r(2)] r(3,4) IH(4) [OF r(5)]
            not_False_eq_True if_True prod.case Option.bind.simps)
    qed
  }
qed

lemma Deserialize_fuel:
  assumes "Deserialize junk fuel b = Some r" and "fuel \<le> n"
  shows "Deserialize junk n b = Some r"
proof -
  have t: "deserialize_table junk n ty c = Some q" if "deserialize_table junk fuel ty c = Some q" for ty c q
    using assms(2) that by (induction n rule: dec_induct) (simp_all only: deserialize_fuel_Suc(2))
  obtain l b1 where l: "get_local junk b = Some (l :: u8, b1)"
    using assms(1) by (auto simp: Deserialize_def bind_eq_Some_conv)
  show ?thesis
    using assms(1) by (auto simp: Deserialize_def l bind_eq_Some_conv simp del: deserialize_table.simps
        split: if_splits intro: t)
qed

section \<open>Writers and readers\<close>

text \<open>A writer appends its bytes when there is room for them; a reader takes its bytes and gives a value.\<close>

definition writes :: "(byte_buffer \<Rightarrow> byte_buffer option) \<Rightarrow> byte list \<Rightarrow> bool" where
  "writes f bs \<longleftrightarrow> (\<forall>b. bb_wf b \<and> length bs \<le> bb_room b \<longrightarrow>
     (\<exists>b'. f b = Some b' \<and> bb_wf b' \<and> bb_content b' = bb_content b @ map Some bs \<and> bb_room b' = bb_room b - length bs))"

definition reads :: "(byte_buffer \<Rightarrow> ('a \<times> byte_buffer) option) \<Rightarrow> byte list \<Rightarrow> 'a \<Rightarrow> bool" where
  "reads g bs x \<longleftrightarrow> (\<forall>b rest. bb_wf b \<and> bb_content b = map Some bs @ rest \<longrightarrow>
     (\<exists>b'. g b = Some (x, b') \<and> bb_wf b' \<and> bb_content b' = rest))"

text \<open>With enough fuel.\<close>

definition loads :: "(nat \<Rightarrow> byte_buffer \<Rightarrow> ('a \<times> byte_buffer) option) \<Rightarrow> byte list \<Rightarrow> 'a \<Rightarrow> bool" where
  "loads g bs x \<longleftrightarrow> (\<exists>n. \<forall>m\<ge>n. reads (g m) bs x)"

lemma writesD:
  assumes "writes f bs" and "bb_wf b" and "length bs \<le> bb_room b"
  obtains b' where "f b = Some b'" and "bb_wf b'" and "bb_content b' = bb_content b @ map Some bs"
    and "bb_room b' = bb_room b - length bs"
  using assms by (auto simp: writes_def)

lemma readsD:
  assumes "reads g bs x" and "bb_wf b" and "bb_content b = map Some bs @ rest"
  obtains b' where "g b = Some (x, b')" and "bb_wf b'" and "bb_content b' = rest"
  using assms by (auto simp: reads_def)

lemma writes_Some: "writes Some []"
  by (simp add: writes_def)

lemma writes_bind:
  assumes "writes f bs" and "writes g cs"
  shows "writes (\<lambda>b. do { b1 \<leftarrow> f b; g b1 }) (bs @ cs)"
  unfolding writes_def
proof (intro allI impI)
  fix b
  assume b: "bb_wf b \<and> length (bs @ cs) \<le> bb_room b"
  then have "bb_wf b" "length bs \<le> bb_room b" by simp_all
  then obtain b1 where 1: "f b = Some b1" "bb_wf b1" "bb_content b1 = bb_content b @ map Some bs"
    "bb_room b1 = bb_room b - length bs" using assms(1) by (blast elim: writesD)
  have "length cs \<le> bb_room b1" using b 1(4) by auto
  then obtain b2 where "g b1 = Some b2" "bb_wf b2" "bb_content b2 = bb_content b1 @ map Some cs"
    "bb_room b2 = bb_room b1 - length cs" using assms(2) 1(2) by (blast elim: writesD)
  with 1 show "\<exists>b'. (do { b1 \<leftarrow> f b; g b1 }) = Some b' \<and> bb_wf b'
      \<and> bb_content b' = bb_content b @ map Some (bs @ cs) \<and> bb_room b' = bb_room b - length (bs @ cs)"
    by simp
qed

lemma writes_run_all:
  "(\<And>x. x \<in> set xs \<Longrightarrow> writes (f x) (c x)) \<Longrightarrow> writes (run_all f xs) (concat (map c xs))"
proof (induction xs)
  case Nil
  have "run_all f [] = Some" by (rule ext) simp
  then show ?case using writes_Some by simp
next
  case (Cons x xs)
  have e: "run_all f (x # xs) = (\<lambda>b. do { b1 \<leftarrow> f x b; run_all f xs b1 })" by (rule ext) simp
  have "writes (f x) (c x)" "writes (run_all f xs) (concat (map c xs))" using Cons by auto
  then show ?case unfolding e using writes_bind by fastforce
qed

lemma writes_word:
  fixes v :: "'a::len word"
  assumes "LENGTH('a) < 2 ^ 32" and "8 dvd LENGTH('a)"
  shows "writes (\<lambda>b. bb_put b v) (word_bytes v)"
proof -
  have "length (word_bytes v) = LENGTH('a) div 8" by simp
  then show ?thesis using bb_put_ok [where v = v] assms by (auto simp: writes_def)
qed

lemma reads_word:
  fixes v :: "'a::len word"
  assumes "LENGTH('a) < 2 ^ 32" and "8 dvd LENGTH('a)"
  shows "reads (get_local junk) (word_bytes v) v"
  unfolding reads_def
proof (intro allI impI)
  fix b rest
  assume b: "bb_wf b \<and> bb_content b = map Some (word_bytes v) @ rest"
  have l: "LENGTH('a) = 8 * (LENGTH('a) div 8)" using assms(2) by simp
  from bb_get_ok [OF conjunct1 [OF b] conjunct2 [OF b] assms(1) l, of "Some (ucast junk)"]
  show "\<exists>b'. get_local junk b = Some (v, b') \<and> bb_wf b' \<and> bb_content b' = rest"
    by (fastforce simp: get_local_def)
qed

lemma reads_map: "reads g bs x \<Longrightarrow> reads (\<lambda>b. map_option (apfst h) (g b)) bs (h x)"
  by (fastforce simp: reads_def)

lemma writes_string: "0 \<notin> set str \<Longrightarrow> writes (\<lambda>b. bb_put_string b str) (str @ [0])"
  using bb_put_string_ok by (auto simp: writes_def)

lemma reads_string: "0 \<notin> set str \<Longrightarrow> reads (\<lambda>b. bb_get_string b old) (str @ [0]) str"
  using bb_get_string_ok by (auto simp: reads_def)

section \<open>Scalars\<close>

text \<open>The integers that are saved with a type they can be read back from.\<close>

definition int_ok :: "int \<Rightarrow> bool" where
  "int_ok i \<longleftrightarrow> \<not> (- 0x80000000 \<le> i \<and> i < - 0x8000)"

lemma narrow_of_int: "LENGTH('a::len) \<le> 64 \<Longrightarrow> (ucast (word_of_int i :: u64) :: 'a word) = word_of_int i"
  by transfer (simp add: take_bit_take_bit min_def)

lemma ucast_narrow:
  fixes w :: u64
  assumes "0 \<le> sint w" and "sint w < 2 ^ LENGTH('a::len)" and "LENGTH('a) \<le> 64"
  shows "ucast (ucast w :: 'a word) = w"
proof -
  define j where "j = sint w"
  then have "w = word_of_int j" by simp
  with j_def obtain i where i: "i = sint w" "w = word_of_int i" by blast
  have "(ucast w :: 'a word) = word_of_int i" unfolding i(2) by (rule narrow_of_int [OF assms(3)])
  moreover have "uint (word_of_int i :: 'a word) = i"
    using assms(1,2) unfolding i(1) [symmetric] by (simp add: uint_word_of_int_eq take_bit_int_eq_self)
  ultimately have "word_of_int (uint (ucast w :: 'a word)) = w" using i(2) by simp
  then show ?thesis by simp
qed

lemma scast_narrow:
  fixes w :: u64
  assumes "- (2 ^ (LENGTH('a::len) - 1)) \<le> sint w" and "sint w < 2 ^ (LENGTH('a) - 1)" and "LENGTH('a) \<le> 64"
  shows "scast (ucast w :: 'a word) = w"
proof -
  define j where "j = sint w"
  then have "w = word_of_int j" by simp
  with j_def obtain i where i: "i = sint w" "w = word_of_int i" by blast
  have "(ucast w :: 'a word) = word_of_int i" unfolding i(2) by (rule narrow_of_int [OF assms(3)])
  moreover have "sint (word_of_int i :: 'a word) = i"
    using assms(1,2) unfolding i(1) [symmetric] by (simp add: signed_of_int signed_take_bit_int_eq_self)
  ultimately have "word_of_int (sint (ucast w :: 'a word)) = w" using i(2) by simp
  then show ?thesis by simp
qed

lemma scalar_word:
  fixes x :: "'a::len word"
  assumes "lua_scalar ty v = (\<lambda>b. bb_put b x)"
    and "load_scalar junk ty = (\<lambda>b. map_option (apfst h) (get_local junk b))" and "h x = y"
    and "LENGTH('a) < 2 ^ 32" and "8 dvd LENGTH('a)"
  shows "\<exists>bs. length bs = LENGTH('a) div 8 \<and> writes (lua_scalar ty v) bs \<and> reads (load_scalar junk ty) bs y"
  using writes_word [OF assms(4,5), of x] reads_map [OF reads_word [OF assms(4,5), of junk x], of h] assms(1-3)
  by (intro exI [of _ "word_bytes x"]) simp

text \<open>The number of bytes of a scalar.\<close>

fun type_size :: "lua_type \<Rightarrow> nat" where
  "type_size LVT_i8 = 1" | "type_size LVT_u8 = 1" | "type_size LVT_bool = 1" | "type_size LVT_i16 = 2" | "type_size LVT_u16 = 2"
| "type_size LVT_i32 = 4" | "type_size LVT_u32 = 4" | "type_size ty = 8"

lemma number_roundtrip:
  assumes "int_ok (sint (lua_tointeger v))" and "ty = number_type (sint (lua_tointeger v))"
  shows "\<exists>bs. length bs = type_size ty \<and> writes (lua_scalar ty v) bs
    \<and> reads (load_scalar junk ty) bs (LInt (lua_tointeger v))"
proof -
  let ?w = "lua_tointeger v"
  let ?i = "sint ?w"
  note defs = fun_eq_iff lua_scalar_def load_scalar_def
  consider "ty = LVT_u8" "0 \<le> ?i" "?i \<le> 0xFF" | "ty = LVT_u16" "0 \<le> ?i" "?i < 0xFFFF"
    | "ty = LVT_u32" "0 \<le> ?i" "?i < 0xFFFFFFFF" | "ty = LVT_u64"
    | "ty = LVT_i8" "- 0x80 \<le> ?i" "?i < 0" | "ty = LVT_i16" "- 0x8000 \<le> ?i" "?i < 0" | "ty = LVT_i64"
    using assms by (force simp: number_type_def int_ok_def split: if_splits)
  then show ?thesis
  proof cases
    case 1
    then have "ucast (ucast ?w :: u8) = ?w" by (intro ucast_narrow) simp_all
    then show ?thesis using scalar_word [where x = "ucast ?w :: u8" and h = "\<lambda>w. LInt (ucast w)" and ty = ty and v = v and junk = junk] by (simp add: 1 defs)
  next
    case 2
    then have "ucast (ucast ?w :: u16) = ?w" by (intro ucast_narrow) simp_all
    then show ?thesis using scalar_word [where x = "ucast ?w :: u16" and h = "\<lambda>w. LInt (ucast w)" and ty = ty and v = v and junk = junk] by (simp add: 2 defs)
  next
    case 3
    then have "ucast (ucast ?w :: u32) = ?w" by (intro ucast_narrow) simp_all
    then show ?thesis using scalar_word [where x = "ucast ?w :: u32" and h = "\<lambda>w. LInt (ucast w)" and ty = ty and v = v and junk = junk] by (simp add: 3 defs)
  next
    case 4
    then show ?thesis using scalar_word [where x = ?w and h = LInt and ty = ty and v = v and junk = junk] by (simp add: defs)
  next
    case 5
    then have "scast (ucast ?w :: u8) = ?w" by (intro scast_narrow) simp_all
    then show ?thesis using scalar_word [where x = "ucast ?w :: u8" and h = "\<lambda>w. LInt (scast w)" and ty = ty and v = v and junk = junk] by (simp add: 5 defs)
  next
    case 6
    then have "scast (ucast ?w :: u16) = ?w" by (intro scast_narrow) simp_all
    then show ?thesis using scalar_word [where x = "ucast ?w :: u16" and h = "\<lambda>w. LInt (scast w)" and ty = ty and v = v and junk = junk] by (simp add: 6 defs)
  next
    case 7
    then show ?thesis using scalar_word [where x = ?w and h = LInt and ty = ty and v = v and junk = junk] by (simp add: defs)
  qed
qed

section \<open>Type codes\<close>

lemma lvt_of_code [simp]: "lvt_of (lvt_code ty) = ty"
  by (cases ty) (simp_all add: lvt_of_def)

lemma pair_code:
  assumes "key_type_ok tk" and "val_type_ok tv"
  defines "t \<equiv> or (push_bit 4 (and (lvt_code tk) 0x0F)) (and (lvt_code tv) 0x0F)"
  shows "lvt_of (drop_bit 4 (and t 0xF0)) = tk \<and> lvt_of (and t 0x0F) = tv \<and> lvt_of t \<noteq> LVT_nil"
  using assms(1,2) unfolding t_def
  by (cases tk; cases tv) (simp_all add: key_type_ok_def val_type_ok_def lvt_of_def)

lemma type_ok_not_nil: "val_type_ok ty \<Longrightarrow> ty \<noteq> LVT_nil"
  by (auto simp: val_type_ok_def)

section \<open>What can be saved\<close>

fun key_ok :: "lua_val \<Rightarrow> bool" where
  "key_ok (LInt w) \<longleftrightarrow> int_ok (sint w)"
| "key_ok (LStr str) \<longleftrightarrow> 0 \<notin> set str"
| "key_ok k \<longleftrightarrow> False"

text \<open>
  \<open>sound bd r v\<close>: \<open>v\<close> is nested at most \<open>r\<close> deep, all its numbers and keys can be saved, and a table that is
  saved as an array has no keys but \<open>1\<close> to its length.
\<close>

fun sound :: "(lua_entries \<Rightarrow> nat) \<Rightarrow> nat \<Rightarrow> lua_val \<Rightarrow> bool" where
  "sound bd r (LBool t) \<longleftrightarrow> True"
| "sound bd r (LInt w) \<longleftrightarrow> int_ok (sint w)"
| "sound bd r (LFlt d) \<longleftrightarrow> dbl_finite d \<and>
     (case dbl_integer d of None \<Rightarrow> True | Some i \<Rightarrow> int_ok i \<and> - (2 ^ 63) \<le> i \<and> i < 2 ^ 63)"
| "sound bd r (LStr str) \<longleftrightarrow> 0 \<notin> set str"
| "sound bd (Suc r) (LTab l p es) \<longleftrightarrow>
     (case get_lua_type_table bd l p es of
        Some LVT_Arr \<Rightarrow> bd es < 2 ^ 32 - 1 \<and> (\<forall>i\<in>set [1..<bd es + 1]. sound bd r (lua_rawget es (LInt (word_of_nat i))))
          \<and> fst ` set es \<subseteq> (\<lambda>i. LInt (word_of_nat i)) ` {1..bd es}
      | Some LVT_Hash \<Rightarrow> distinct (map fst es) \<and> (\<forall>(k, v)\<in>set es. key_ok k \<and> sound bd r v)
      | _ \<Rightarrow> False)"
| "sound bd r v \<longleftrightarrow> False"

text \<open>The value after loading: floats that are integral have become integers, metatables are gone.\<close>

fun reload :: "(lua_entries \<Rightarrow> nat) \<Rightarrow> nat \<Rightarrow> lua_val \<Rightarrow> lua_val" where
  "reload bd r (LFlt d) = (case dbl_integer d of Some i \<Rightarrow> LInt (word_of_int i) | None \<Rightarrow> LFlt d)"
| "reload bd (Suc r) (LTab l p es) =
     LTab False False
       (if get_lua_type_table bd l p es = Some LVT_Arr
        then map (\<lambda>i. (LInt (word_of_nat i), reload bd r (lua_rawget es (LInt (word_of_nat i))))) [1..<bd es + 1]
        else map (\<lambda>(k, v). (k, reload bd r v)) es)"
| "reload bd r v = v"

text \<open>The number of bytes a sound value takes.\<close>

fun saved_size :: "(lua_entries \<Rightarrow> nat) \<Rightarrow> nat \<Rightarrow> lua_val \<Rightarrow> nat" where
  "saved_size bd r (LInt w) = type_size (number_type (sint w))"
| "saved_size bd r (LFlt d) = (case dbl_integer d of Some i \<Rightarrow> type_size (number_type i) | None \<Rightarrow> 8)"
| "saved_size bd r (LStr str) = length str + 1"
| "saved_size bd (Suc r) (LTab l p es) =
     1 + (if get_lua_type_table bd l p es = Some LVT_Arr
          then sum_list (map (\<lambda>i. 1 + saved_size bd r (lua_rawget es (LInt (word_of_nat i)))) [1..<bd es + 1])
          else sum_list (map (\<lambda>(k, v). 1 + saved_size bd r k + saved_size bd r v) es))"
| "saved_size bd r v = 1"

lemma reload_not_nil: "sound bd r v \<Longrightarrow> reload bd r v \<noteq> LNil"
  by (induction bd r v rule: sound.induct) (auto split: option.splits)

lemma key_reload: "key_ok k \<Longrightarrow> sound bd r k \<and> reload bd r k = k \<and> lua_key k = Some k \<and> \<not> is_table k"
  by (cases k) (auto simp: lua_key_def)

lemma key_type: "key_ok k \<Longrightarrow> \<exists>ty. get_lua_type bd k = Some ty \<and> key_type_ok ty"
  by (cases k) (auto simp: get_lua_type_def number_type_def key_type_ok_def int_ok_def)

lemma sound_type: "sound bd r v \<Longrightarrow> \<exists>ty. get_lua_type bd v = Some ty \<and> val_type_ok ty"
  by (induction bd r v rule: sound.induct)
    (auto simp: get_lua_type_def number_type_def val_type_ok_def float_type_def split: option.splits lua_type.splits)

section \<open>Loading what was saved\<close>

lemma loads_bind:
  assumes "loads f bs x" and "loads (\<lambda>m. g m x) cs y"
  shows "loads (\<lambda>m b. do { (v, b1) \<leftarrow> f m b; g m v b1 }) (bs @ cs) y"
proof -
  obtain n1 n2 where n: "\<forall>m\<ge>n1. reads (f m) bs x" "\<forall>m\<ge>n2. reads (g m x) cs y"
    using assms by (auto simp: loads_def)
  have "reads (\<lambda>b. do { (v, b1) \<leftarrow> f m b; g m v b1 }) (bs @ cs) y" if "n1 + n2 \<le> m" for m
    unfolding reads_def
  proof (intro allI impI)
    fix b rest
    assume b: "bb_wf b \<and> bb_content b = map Some (bs @ cs) @ rest"
    then have b1: "bb_content b = map Some bs @ (map Some cs @ rest)" by simp
    have 1: "reads (f m) bs x" and 2: "reads (g m x) cs y" using n that by simp_all
    show "\<exists>b'. (do { (v, b1) \<leftarrow> f m b; g m v b1 }) = Some (y, b') \<and> bb_wf b' \<and> bb_content b' = rest"
      by (rule readsD [OF 1 conjunct1 [OF b] b1]) (use 2 in \<open>auto elim: readsD\<close>)
  qed
  then show ?thesis by (auto simp: loads_def)
qed

lemma loads_local:
  fixes v :: "'a::len word"
  assumes "LENGTH('a) < 2 ^ 32" and "8 dvd LENGTH('a)"
  shows "loads (\<lambda>m. get_local junk) (word_bytes v) v"
  using reads_word [OF assms] by (auto simp: loads_def)

lemma loads_Suc: "loads f bs x \<Longrightarrow> (\<And>m. g (Suc m) = f m) \<Longrightarrow> loads g bs x"
  unfolding loads_def by (metis Suc_le_D Suc_le_mono)

lemma reads_done: "reads (\<lambda>b. Some (x, b)) [] x"
  by (simp add: reads_def)

lemma word_bytes_u8 [simp]: "word_bytes (v :: u8) = [v]"
  by (simp add: word_bytes_def)

lemmas loads_u8 = loads_local [where 'a = 8, simplified]
lemmas writes_u8 = writes_word [where 'a = 8, simplified]

text \<open>An array: the items with their types, their bytes and the values they are loaded as.\<close>

fun item_bytes :: "lua_type \<times> byte list \<times> lua_val \<Rightarrow> byte list" where
  "item_bytes (ty, bs, v) = lvt_code ty # bs"

fun arr_entries :: "nat \<Rightarrow> (lua_type \<times> byte list \<times> lua_val) list \<Rightarrow> lua_entries" where
  "arr_entries j [] = []"
| "arr_entries j ((ty, bs, v) # its) = (LInt (word_of_nat j), v) # arr_entries (Suc j) its"

lemma index_key: "j < 2 ^ 32 \<Longrightarrow> (ucast (word_of_nat j :: u32) :: u64) = word_of_nat j"
  by transfer (simp add: take_bit_nat_eq_self take_bit_of_nat flip: of_nat_take_bit)

lemma rawset_fresh:
  "lua_key k = Some k \<Longrightarrow> k \<notin> fst ` set es \<Longrightarrow> v \<noteq> LNil \<Longrightarrow> lua_rawset es k v = Some (es @ [(k, v)])"
  by (simp add: lua_rawset_def)

lemma index_inj: "i < j \<Longrightarrow> j < 2 ^ 32 \<Longrightarrow> (word_of_nat i :: u64) \<noteq> word_of_nat j"
  by (auto simp: word_of_nat_eq_iff take_bit_nat_eq_self)

lemma arr_loads:
  assumes "\<forall>(ty, bs, v)\<in>set its. ty \<noteq> LVT_nil \<and> v \<noteq> LNil \<and> loads (\<lambda>m. deserialize_entity junk m ty) bs v"
    and "\<forall>e\<in>set es. \<exists>i<j. fst e = LInt (word_of_nat i)" and "j + length its < 2 ^ 32"
  shows "loads (\<lambda>m b. do { (t, b1) \<leftarrow> get_local jk b; load_arr junk m t (word_of_nat j) es b1 })
    (concat (map item_bytes its) @ [0]) (es @ arr_entries j its)"
  using assms
proof (induction its arbitrary: j es jk)
  case Nil
  have "loads (\<lambda>m. load_arr junk m 0 (word_of_nat j) es) [] es"
    by (rule loads_Suc [where f = "\<lambda>m b. Some (es, b)"]) (auto simp: loads_def reads_done lvt_of_def)
  then show ?case using loads_bind [OF loads_u8 [of jk 0]] by fastforce
next
  case (Cons it its)
  obtain ty bs v where it: "it = (ty, bs, v)" by (rule prod_cases3)
  have ok: "ty \<noteq> LVT_nil" "v \<noteq> LNil" "loads (\<lambda>m. deserialize_entity junk m ty) bs v"
    using Cons.prems(1) it by auto
  let ?k = "LInt (word_of_nat j)" and ?idx = "word_of_nat j :: u32"
  have key: "LInt (ucast ?idx) = ?k" using index_key Cons.prems(3) by simp
  have "?k \<notin> fst ` set es"
    using Cons.prems(2,3) index_inj by (fastforce simp: image_iff)
  then have set_k: "lua_rawset es ?k v = Some (es @ [(?k, v)])"
    using ok(2) by (intro rawset_fresh) (simp_all add: lua_key_def)
  let ?next = "\<lambda>m b. do { (t, b1) \<leftarrow> get_local (ucast (lvt_code ty)) b; load_arr junk m t (?idx + 1) (es @ [(?k, v)]) b1 }"
  have es1: "\<forall>e\<in>set (es @ [(?k, v)]). \<exists>i<Suc j. fst e = LInt (word_of_nat i)"
    using Cons.prems(2) by (auto intro: less_SucI)
  have idx1: "word_of_nat (Suc j) = ?idx + 1" by simp
  have IH: "loads ?next (concat (map item_bytes its) @ [0]) ((es @ [(?k, v)]) @ arr_entries (Suc j) its)"
    using Cons.IH [OF _ es1] Cons.prems(1,3) unfolding idx1 by simp
  let ?h = "\<lambda>m v' b1. do { es1 \<leftarrow> lua_rawset es ?k v'; (t, b2) \<leftarrow> get_local (ucast (lvt_code ty)) b1;
      load_arr junk m t (?idx + 1) es1 b2 }"
  have "?h m v = ?next m" for m using set_k by (simp add: fun_eq_iff)
  then have "loads (\<lambda>m. ?h m v) (concat (map item_bytes its) @ [0]) ((es @ [(?k, v)]) @ arr_entries (Suc j) its)"
    using IH by simp
  note body = loads_bind [where g = ?h, OF ok(3) this]
  have unfold: "load_arr junk (Suc m) (lvt_code ty) ?idx es
      = (\<lambda>b. do { (v, b1) \<leftarrow> deserialize_entity junk m ty b; ?h m v b1 })" for m
    by (rule ext) (simp add: ok(1) key)
  note loads_Suc [where g = "\<lambda>m. load_arr junk m (lvt_code ty) ?idx es", OF body unfold]
  note loads_bind [where g = "\<lambda>m t. load_arr junk m t ?idx es", OF loads_u8 [of jk "lvt_code ty"] this]
  then show ?case by (simp add: it)
qed

text \<open>A hash: the pairs with the type and the bytes of key and value.\<close>

type_synonym pair_item = "(lua_type \<times> byte list \<times> lua_val) \<times> lua_type \<times> byte list \<times> lua_val"

definition pair_type :: "lua_type \<Rightarrow> lua_type \<Rightarrow> u8" where
  "pair_type tk tv = or (push_bit 4 (and (lvt_code tk) 0x0F)) (and (lvt_code tv) 0x0F)"

fun pair_bytes :: "pair_item \<Rightarrow> byte list" where
  "pair_bytes ((tk, ks, k), (tv, bs, v)) = pair_type tk tv # ks @ bs"

fun pair_entry :: "pair_item \<Rightarrow> lua_val \<times> lua_val" where
  "pair_entry ((tk, ks, k), (tv, bs, v)) = (k, v)"

fun pair_ok :: "u64 \<Rightarrow> pair_item \<Rightarrow> bool" where
  "pair_ok junk ((tk, ks, k), (tv, bs, v)) \<longleftrightarrow>
     (key_type_ok tk \<and> val_type_ok tv \<and> lua_key k = Some k \<and> v \<noteq> LNil
     \<and> loads (\<lambda>m. deserialize_entity junk m tk) ks k \<and> loads (\<lambda>m. deserialize_entity junk m tv) bs v)"

lemma hash_loads:
  assumes "\<forall>it\<in>set its. pair_ok junk it" and "distinct (map fst (es @ map pair_entry its))"
  shows "loads (\<lambda>m b. do { (t, b1) \<leftarrow> get_local jk b; load_hash junk m t es b1 })
    (concat (map pair_bytes its) @ [0]) (es @ map pair_entry its)"
  using assms
proof (induction its arbitrary: es jk)
  case Nil
  have "loads (\<lambda>m. load_hash junk m 0 es) [] es"
    by (rule loads_Suc [where f = "\<lambda>m b. Some (es, b)"]) (auto simp: loads_def reads_done lvt_of_def)
  then show ?case using loads_bind [OF loads_u8 [of jk 0]] by fastforce
next
  case (Cons it its)
  obtain tk ks k tv bs v where it: "it = ((tk, ks, k), (tv, bs, v))" by (metis prod_cases3 prod.collapse)
  have ok: "key_type_ok tk" "val_type_ok tv" "lua_key k = Some k" "v \<noteq> LNil"
    "loads (\<lambda>m. deserialize_entity junk m tk) ks k" "loads (\<lambda>m. deserialize_entity junk m tv) bs v"
    using Cons.prems(1) it by auto
  let ?t = "pair_type tk tv"
  have t: "lvt_of (drop_bit 4 (and ?t 0xF0)) = tk" "lvt_of (and ?t 0x0F) = tv" "lvt_of ?t \<noteq> LVT_nil"
    using pair_code [OF ok(1,2)] by (simp_all add: pair_type_def)
  have "k \<notin> fst ` set es" using Cons.prems(2) it by auto
  then have set_k: "lua_rawset es k v = Some (es @ [(k, v)])" using ok(3,4) by (intro rawset_fresh)
  let ?next = "\<lambda>m b. do { (t, b1) \<leftarrow> get_local (ucast ?t) b; load_hash junk m t (es @ [(k, v)]) b1 }"
  have IH: "loads ?next (concat (map pair_bytes its) @ [0]) ((es @ [(k, v)]) @ map pair_entry its)"
    using Cons.IH [of "es @ [(k, v)]"] Cons.prems it by simp
  let ?h2 = "\<lambda>m k' v' b1. do { es1 \<leftarrow> lua_rawset es k' v'; (t, b2) \<leftarrow> get_local (ucast ?t) b1; load_hash junk m t es1 b2 }"
  let ?h1 = "\<lambda>m k' b1. do { (v', b2) \<leftarrow> deserialize_entity junk m tv b1; ?h2 m k' v' b2 }"
  have "?h2 m k v = ?next m" for m using set_k by (simp add: fun_eq_iff)
  then have "loads (\<lambda>m. ?h2 m k v) (concat (map pair_bytes its) @ [0]) ((es @ [(k, v)]) @ map pair_entry its)"
    using IH by simp
  note vb = loads_bind [where g = "\<lambda>m. ?h2 m k", OF ok(6) this]
  note kb = loads_bind [where g = ?h1, OF ok(5) vb]
  have unfold: "load_hash junk (Suc m) ?t es = (\<lambda>b. do { (k', b1) \<leftarrow> deserialize_entity junk m tk b; ?h1 m k' b1 })" for m
    by (rule ext) (simp add: t t(1) [simplified])
  note loads_Suc [where g = "\<lambda>m. load_hash junk m ?t es", OF kb unfold]
  note loads_bind [where g = "\<lambda>m t. load_hash junk m t es", OF loads_u8 [of jk ?t] this]
  then show ?case by (simp add: it)
qed

section \<open>Entities\<close>

lemma reads_loads: "reads g bs x \<Longrightarrow> (\<And>m. f (Suc m) = g) \<Longrightarrow> loads f bs x"
  by (rule loads_Suc [where f = "\<lambda>m. g"]) (auto simp: loads_def)

lemma tointeger_float:
  "dbl_integer d = Some i \<Longrightarrow> - (2 ^ 63) \<le> i \<Longrightarrow> i < 2 ^ 63 \<Longrightarrow>
   lua_tointeger (LFlt d) = word_of_int i \<and> sint (word_of_int i :: u64) = i"
  by (simp add: lua_tointeger_def signed_of_int signed_take_bit_int_eq_self)

lemma scalar_roundtrip:
  assumes "sound bd r v" and "\<not> is_table v" and "get_lua_type bd v = Some ty"
  shows "ty \<noteq> LVT_Arr \<and> ty \<noteq> LVT_Hash
    \<and> (\<exists>bs. length bs = saved_size bd r v \<and> writes (lua_scalar ty v) bs
         \<and> reads (load_scalar junk ty) bs (reload bd r v))"
proof -
  have int: "number_type i \<noteq> LVT_Arr \<and> number_type i \<noteq> LVT_Hash" for i by (simp add: number_type_def)
  note defs = fun_eq_iff lua_scalar_def load_scalar_def
  show ?thesis
  proof (cases v)
    case (LBool t)
    then have ty: "ty = LVT_bool" using assms(3) by (simp add: get_lua_type_def)
    have "\<exists>bs. length bs = 1 \<and> writes (lua_scalar ty v) bs \<and> reads (load_scalar junk ty) bs (LBool t)"
      using scalar_word [where x = "if t then 1 else 0 :: u8" and h = "\<lambda>w. LBool (w \<noteq> 0)" and ty = ty and v = v and junk = junk]
      by (cases t) (simp_all add: defs ty LBool)
    then show ?thesis using LBool ty by simp
  next
    case (LInt w)
    then show ?thesis
      using number_roundtrip [of v ty junk] assms int [of "sint w"] by (auto simp: get_lua_type_def lua_tointeger_def)
  next
    case (LFlt d)
    show ?thesis
    proof (cases "dbl_integer d")
      case None
      then have ty: "ty = LVT_flt" using assms LFlt by (auto simp: get_lua_type_def float_type_def split: if_splits)
      have "\<exists>bs. length bs = 8 \<and> writes (lua_scalar ty v) bs \<and> reads (load_scalar junk ty) bs (LFlt d)"
        using scalar_word [where x = d and h = LFlt and ty = ty and v = v and junk = junk] by (simp add: defs ty LFlt)
      then show ?thesis using LFlt None ty by simp
    next
      case (Some i)
      have i: "int_ok i" "- (2 ^ 63) \<le> i" "i < 2 ^ 63" using assms(1) LFlt Some by auto
      note ti = tointeger_float [OF Some i(2,3)]
      have "ty = number_type i" using assms LFlt Some by (auto simp: get_lua_type_def float_type_def split: if_splits)
      then have "\<exists>bs. length bs = type_size ty \<and> writes (lua_scalar ty v) bs
          \<and> reads (load_scalar junk ty) bs (LInt (lua_tointeger v))"
        by (intro number_roundtrip) (simp_all add: LFlt ti i(1))
      then show ?thesis using LFlt Some ti int [of i] \<open>ty = number_type i\<close> by simp
    qed
  next
    case (LStr str)
    then have ty: "ty = LVT_str" and z: "0 \<notin> set str" using assms by (simp_all add: get_lua_type_def)
    have "lua_scalar ty v = (\<lambda>b. bb_put_string b str)" "load_scalar junk ty = (\<lambda>b. map_option (apfst LStr) (bb_get_string b []))"
      by (simp_all add: defs ty LStr)
    then show ?thesis
      using writes_string [OF z] reads_map [OF reads_string [OF z], of LStr] ty LStr
      by (auto intro!: exI [of _ "str @ [0]"])
  qed (use assms in auto)
qed

lemma entity_scalar:
  assumes "sound bd r v" and "\<not> is_table v" and "get_lua_type bd v = Some ty"
  shows "\<exists>bs. length bs = saved_size bd r v \<and> writes (serialize_entity bd ty v depth) bs
    \<and> loads (\<lambda>m. deserialize_entity junk m ty) bs (reload bd r v)"
proof -
  obtain bs where len: "length bs = saved_size bd r v" and bs: "writes (lua_scalar ty v) bs" "reads (load_scalar junk ty) bs (reload bd r v)"
    and ty: "ty \<noteq> LVT_Arr" "ty \<noteq> LVT_Hash" using scalar_roundtrip [OF assms] by blast
  have "serialize_entity bd ty v depth = lua_scalar ty v" by (rule ext) (simp add: ty)
  moreover have "loads (\<lambda>m. deserialize_entity junk m ty) bs (reload bd r v)"
    by (rule reads_loads [OF bs(2)]) (simp add: ty fun_eq_iff)
  ultimately show ?thesis using len bs(1) by auto
qed

lemma arr_entries_upt:
  "arr_entries j (map (\<lambda>i. (ty i, bs i, w i)) [j..<j + n]) = map (\<lambda>i. (LInt (word_of_nat i), w i)) [j..<j + n]"
proof (induction n arbitrary: j)
  case (Suc n)
  have "[j..<j + Suc n] = j # [Suc j..<Suc j + n]" by (simp add: upt_conv_Cons)
  then show ?case using Suc [of "Suc j"] by (simp del: upt_Suc)
qed simp

section \<open>Tables\<close>

text \<open>\<open>saves bd r v depth\<close>: the value is saved by a writer whose bytes load as its reloaded value.\<close>

definition saves :: "u64 \<Rightarrow> (lua_entries \<Rightarrow> nat) \<Rightarrow> nat \<Rightarrow> lua_val \<Rightarrow> u8 \<Rightarrow> bool" where
  "saves junk bd r v depth \<longleftrightarrow> (\<forall>ty. get_lua_type bd v = Some ty \<longrightarrow>
     (\<exists>bs. length bs = saved_size bd r v \<and> writes (serialize_entity bd ty v depth) bs
        \<and> loads (\<lambda>m. deserialize_entity junk m ty) bs (reload bd r v)))"

lemma savesD:
  assumes "saves junk bd r v depth" and "sound bd r v"
  obtains ty bs where "get_lua_type bd v = Some ty" "val_type_ok ty" "length bs = saved_size bd r v" "writes (serialize_entity bd ty v depth) bs"
    and "loads (\<lambda>m. deserialize_entity junk m ty) bs (reload bd r v)"
  using assms sound_type [OF assms(2)] by (auto simp: saves_def)

lemma length_saved:
  "(\<And>x. x \<in> set xs \<Longrightarrow> length (g (h x)) = f x) \<Longrightarrow>
   length (concat (map g (map h xs)) @ [c]) = 1 + sum_list (map f xs)"
  by (induction xs) auto

lemma put_code: "writes (\<lambda>b. bb_put b (c :: u8)) [c]"
  by (rule writes_u8)

definition item_saved :: "(lua_entries \<Rightarrow> nat) \<Rightarrow> nat \<Rightarrow> u64 \<Rightarrow> u8 \<Rightarrow> lua_val \<Rightarrow> lua_type \<times> byte list \<Rightarrow> bool" where
  "item_saved bd r junk depth v x \<longleftrightarrow> get_lua_type bd v = Some (fst x) \<and> val_type_ok (fst x)
     \<and> length (snd x) = saved_size bd r v \<and> writes (serialize_entity bd (fst x) v depth) (snd x)
     \<and> loads (\<lambda>m. deserialize_entity junk m (fst x)) (snd x) (reload bd r v) \<and> reload bd r v \<noteq> LNil"

lemma item_saved_ex:
  assumes "\<And>v. sound bd r v \<Longrightarrow> saves junk bd r v depth" and "sound bd r v"
  shows "\<exists>x. item_saved bd r junk depth v x"
  by (rule savesD [OF assms(1) [OF assms(2)] assms(2)]) (use reload_not_nil [OF assms(2)] in \<open>auto simp: item_saved_def\<close>)

lemma item_saved_writes:
  assumes "item_saved bd r junk depth v x"
  shows "writes (serialize_val bd v depth) (item_bytes (fst x, snd x, reload bd r v))"
proof -
  have ok: "get_lua_type bd v = Some (fst x)" "val_type_ok (fst x)" "writes (serialize_entity bd (fst x) v depth) (snd x)"
    using assms by (simp_all add: item_saved_def)
  have "serialize_val bd v depth = (\<lambda>b. do { b1 \<leftarrow> bb_put b (lvt_code (fst x)); serialize_entity bd (fst x) v depth b1 })"
    by (rule ext) (simp only: serialize_val.simps ok(1,2) Option.bind.simps not_True_eq_False if_False)
  then show ?thesis using writes_bind [OF put_code ok(3)] by simp
qed

lemma array_roundtrip:
  assumes IH: "\<And>v. sound bd r v \<Longrightarrow> saves junk bd r v depth" and depth: "depth < MAX_DEPTH" and n: "bd es < 2 ^ 32 - 1"
    and vals: "\<forall>i\<in>set [1..<bd es + 1]. sound bd r (lua_rawget es (LInt (word_of_nat i)))"
  shows "\<exists>bs. length bs = 1 + sum_list (map (\<lambda>i. 1 + saved_size bd r (lua_rawget es (LInt (word_of_nat i)))) [1..<bd es + 1])
    \<and> writes (serialize_table bd LVT_Arr es depth) bs \<and> loads (\<lambda>m. deserialize_table junk m LVT_Arr) bs
    (map (\<lambda>i. (LInt (word_of_nat i), reload bd r (lua_rawget es (LInt (word_of_nat i))))) [1..<bd es + 1])"
proof -
  let ?v = "\<lambda>i. lua_rawget es (LInt (word_of_nat i))"
  have "\<forall>i\<in>set [1..<bd es + 1]. \<exists>x. item_saved bd r junk depth (?v i) x" using vals item_saved_ex [OF IH] by blast
  then obtain c where c: "\<forall>i\<in>set [1..<bd es + 1]. item_saved bd r junk depth (?v i) (c i)" by (rule bchoice [THEN exE])
  let ?it = "\<lambda>i. (fst (c i), snd (c i), reload bd r (?v i))"
  let ?its = "map ?it [1..<1 + bd es]"
  have "writes (\<lambda>b. do { b1 \<leftarrow> run_all (\<lambda>i. serialize_val bd (?v i) depth) [1..<bd es + 1] b; bb_put b1 (lvt_code LVT_nil) })
      (concat (map (\<lambda>i. item_bytes (?it i)) [1..<bd es + 1]) @ [lvt_code LVT_nil])"
    by (rule writes_bind [OF writes_run_all put_code]) (rule item_saved_writes, rule bspec [OF c])
  moreover have "serialize_table bd LVT_Arr es depth
      = (\<lambda>b. do { b1 \<leftarrow> run_all (\<lambda>i. serialize_val bd (?v i) depth) [1..<bd es + 1] b; bb_put b1 (lvt_code LVT_nil) })"
    by (rule ext) (simp only: serialize_table.simps depth if_True simp_thms)
  ultimately have w: "writes (serialize_table bd LVT_Arr es depth) (concat (map item_bytes ?its) @ [0])"
    by (simp only: add.commute map_map o_def lvt_code.simps)
  have items: "\<forall>(ty, bs, v)\<in>set ?its. ty \<noteq> LVT_nil \<and> v \<noteq> LNil \<and> loads (\<lambda>m. deserialize_entity junk m ty) bs v"
  proof (clarify)
    fix ty bs v assume "(ty, bs, v) \<in> set ?its"
    then obtain i where i: "i \<in> set [1..<bd es + 1]" "(ty, bs, v) = ?it i" by auto
    then show "ty \<noteq> LVT_nil \<and> v \<noteq> LNil \<and> loads (\<lambda>m. deserialize_entity junk m ty) bs v"
      using bspec [OF c i(1)] type_ok_not_nil by (auto simp: item_saved_def)
  qed
  have ld: "loads (\<lambda>m b. do { (t, b1) \<leftarrow> get_local junk b; load_arr junk m t 1 [] b1 })
      (concat (map item_bytes ?its) @ [0]) (arr_entries 1 ?its)"
    using arr_loads [OF items, of "[]" 1 junk] n by simp
  have unfold: "deserialize_table junk (Suc m) LVT_Arr
      = (\<lambda>b. do { (t, b1) \<leftarrow> get_local junk b; load_arr junk m t 1 [] b1 })" for m
    by (rule ext) simp
  note loads_Suc [where g = "\<lambda>m. deserialize_table junk m LVT_Arr", OF ld unfold]
  moreover have "arr_entries 1 ?its = map (\<lambda>i. (LInt (word_of_nat i), reload bd r (?v i))) [1..<bd es + 1]"
    by (simp only: arr_entries_upt add.commute [of "bd es" 1])
  moreover have "length (concat (map item_bytes ?its) @ [0])
      = 1 + sum_list (map (\<lambda>i. 1 + saved_size bd r (?v i)) [1..<bd es + 1])"
    using length_saved [of "[1..<bd es + 1]" item_bytes ?it "\<lambda>i. 1 + saved_size bd r (?v i)" 0] c
    by (simp only: add.commute [of 1 "bd es"] item_bytes.simps list.size item_saved_def)
  ultimately show ?thesis using w by (intro exI conjI) simp_all
qed

definition entry_item :: "(lua_entries \<Rightarrow> nat) \<Rightarrow> nat \<Rightarrow> lua_val \<times> lua_val \<Rightarrow> (lua_type \<times> byte list) \<times> (lua_type \<times> byte list) \<Rightarrow>
    (lua_type \<times> byte list \<times> lua_val) \<times> (lua_type \<times> byte list \<times> lua_val)" where
  "entry_item bd r e x = ((fst (fst x), snd (fst x), fst e), (fst (snd x), snd (snd x), reload bd r (snd e)))"

definition entry_saved :: "(lua_entries \<Rightarrow> nat) \<Rightarrow> nat \<Rightarrow> u64 \<Rightarrow> u8 \<Rightarrow> lua_val \<times> lua_val \<Rightarrow>
    (lua_type \<times> byte list) \<times> (lua_type \<times> byte list) \<Rightarrow> bool" where
  "entry_saved bd r junk depth e x \<longleftrightarrow> get_lua_type bd (fst e) = Some (fst (fst x)) \<and> get_lua_type bd (snd e) = Some (fst (snd x))
      \<and> length (snd (fst x)) = saved_size bd r (fst e) \<and> length (snd (snd x)) = saved_size bd r (snd e)
      \<and> writes (serialize_entity bd (fst (fst x)) (fst e) depth) (snd (fst x))
      \<and> writes (serialize_entity bd (fst (snd x)) (snd e) depth) (snd (snd x))
      \<and> pair_ok junk (entry_item bd r e x)"

lemma entry_saved_ex:
  assumes IH: "\<And>v. sound bd r v \<Longrightarrow> saves junk bd r v depth" and k: "key_ok (fst e)" and v: "sound bd r (snd e)"
  shows "\<exists>x. entry_saved bd r junk depth e x"
proof -
  obtain tk where tk: "get_lua_type bd (fst e) = Some tk" "key_type_ok tk" using key_type [OF k] by blast
  note kr = key_reload [OF k, of bd r]
  note sv = savesD [OF IH [OF v] v]
  obtain tv bs where tv: "get_lua_type bd (snd e) = Some tv" "val_type_ok tv" "length bs = saved_size bd r (snd e)" "writes (serialize_entity bd tv (snd e) depth) bs"
    "loads (\<lambda>m. deserialize_entity junk m tv) bs (reload bd r (snd e))" by (rule sv)
  note es = entity_scalar [where junk = junk and depth = depth, OF conjunct1 [OF kr] _ tk(1)]
  obtain ks where ks: "length ks = saved_size bd r (fst e)" "writes (serialize_entity bd tk (fst e) depth) ks" "loads (\<lambda>m. deserialize_entity junk m tk) ks (fst e)"
    using es kr by auto
  have "entry_saved bd r junk depth e ((tk, ks), (tv, bs))"
    using tk tv ks kr reload_not_nil [OF v] by (simp add: entry_saved_def entry_item_def)
  then show ?thesis by blast
qed

lemma entry_saved_writes:
  assumes "entry_saved bd r junk depth e x"
  shows "writes ((\<lambda>(k, v). serialize_key_val bd k v depth) e) (pair_bytes (entry_item bd r e x))"
proof -
  have ok: "get_lua_type bd (fst e) = Some (fst (fst x))" "get_lua_type bd (snd e) = Some (fst (snd x))"
    "writes (serialize_entity bd (fst (fst x)) (fst e) depth) (snd (fst x))"
    "writes (serialize_entity bd (fst (snd x)) (snd e) depth) (snd (snd x))"
    "key_type_ok (fst (fst x))" "val_type_ok (fst (snd x))"
    using assms by (simp_all add: entry_saved_def entry_item_def)
  have "(\<lambda>(k, v). serialize_key_val bd k v depth) e
      = (\<lambda>b. do { b1 \<leftarrow> bb_put b (pair_type (fst (fst x)) (fst (snd x)));
                   b2 \<leftarrow> serialize_entity bd (fst (fst x)) (fst e) depth b1;
                   serialize_entity bd (fst (snd x)) (snd e) depth b2 })"
    unfolding pair_type_def
    by (rule ext) (simp only: split_beta serialize_key_val.simps ok(1,2,5,6) Option.bind.simps simp_thms if_False)
  then show ?thesis using writes_bind [OF put_code writes_bind [OF ok(3,4)]] by (simp add: entry_item_def)
qed

lemma hash_roundtrip:
  assumes IH: "\<And>v. sound bd r v \<Longrightarrow> saves junk bd r v depth" and depth: "depth < MAX_DEPTH"
    and dist: "distinct (map fst es)" and vals: "\<forall>(k, v)\<in>set es. key_ok k \<and> sound bd r v"
  shows "\<exists>bs. length bs = 1 + sum_list (map (\<lambda>(k, v). 1 + saved_size bd r k + saved_size bd r v) es)
    \<and> writes (serialize_table bd LVT_Hash es depth) bs \<and> loads (\<lambda>m. deserialize_table junk m LVT_Hash) bs
    (map (\<lambda>(k, v). (k, reload bd r v)) es)"
proof -
  have "\<forall>e\<in>set es. \<exists>x. entry_saved bd r junk depth e x" using vals entry_saved_ex [OF IH] by fastforce
  then obtain c where c: "\<forall>e\<in>set es. entry_saved bd r junk depth e (c e)" by (rule bchoice [THEN exE])
  let ?it = "\<lambda>e. entry_item bd r e (c e)"
  have "writes (\<lambda>b. do { b1 \<leftarrow> run_all (\<lambda>(k, v). serialize_key_val bd k v depth) es b; bb_put b1 (lvt_code LVT_nil) })
      (concat (map (\<lambda>e. pair_bytes (?it e)) es) @ [lvt_code LVT_nil])"
    by (rule writes_bind [OF writes_run_all put_code]) (rule entry_saved_writes, rule bspec [OF c])
  moreover have "serialize_table bd LVT_Hash es depth
      = (\<lambda>b. do { b1 \<leftarrow> run_all (\<lambda>(k, v). serialize_key_val bd k v depth) es b; bb_put b1 (lvt_code LVT_nil) })"
    by (rule ext) (simp only: serialize_table.simps depth if_True if_False simp_thms lua_type.distinct)
  ultimately have w: "writes (serialize_table bd LVT_Hash es depth) (concat (map pair_bytes (map ?it es)) @ [0])"
    by (simp only: map_map o_def lvt_code.simps)
  have entries: "map pair_entry (map ?it es) = map (\<lambda>(k, v). (k, reload bd r v)) es"
    by (simp add: split_beta entry_item_def)
  have fk: "map fst (map (\<lambda>(k, v). (k, reload bd r v)) es) = map fst es" by (simp add: split_beta o_def)
  have dist2: "distinct (map fst ([] @ map pair_entry (map ?it es)))"
    unfolding entries append_Nil fk by (rule dist)
  have items: "\<forall>it\<in>set (map ?it es). pair_ok junk it" using c by (auto simp: entry_saved_def)
  have ld: "loads (\<lambda>m b. do { (t, b1) \<leftarrow> get_local junk b; load_hash junk m t [] b1 })
      (concat (map pair_bytes (map ?it es)) @ [0]) (map (\<lambda>(k, v). (k, reload bd r v)) es)"
    using hash_loads [OF items dist2, of junk] unfolding entries by simp
  have unfold: "deserialize_table junk (Suc m) LVT_Hash
      = (\<lambda>b. do { (t, b1) \<leftarrow> get_local junk b; load_hash junk m t [] b1 })" for m
    by (rule ext) simp
  note loads_Suc [where g = "\<lambda>m. deserialize_table junk m LVT_Hash", OF ld unfold]
  moreover have "length (concat (map pair_bytes (map ?it es)) @ [0])
      = 1 + sum_list (map (\<lambda>(k, v). 1 + saved_size bd r k + saved_size bd r v) es)"
    by (rule length_saved) (use c in \<open>simp add: entry_saved_def entry_item_def split_beta\<close>)
  ultimately show ?thesis using w by (intro exI conjI)
qed

lemma table_roundtrip:
  assumes IH: "\<And>v. sound bd r v \<Longrightarrow> saves junk bd r v depth" and depth: "depth < MAX_DEPTH"
    and s: "sound bd (Suc r) (LTab l p es)" and ty: "get_lua_type_table bd l p es = Some ty"
  shows "\<exists>bs es'. length bs = saved_size bd (Suc r) (LTab l p es) \<and> writes (serialize_table bd ty es depth) bs
    \<and> loads (\<lambda>m. deserialize_table junk m ty) bs es'
    \<and> reload bd (Suc r) (LTab l p es) = LTab False False es'"
proof (cases "ty = LVT_Arr")
  case True
  have n: "bd es < 2 ^ 32 - 1" and vals: "\<forall>i\<in>set [1..<bd es + 1]. sound bd r (lua_rawget es (LInt (word_of_nat i)))"
    using s ty True by simp_all
  have "reload bd (Suc r) (LTab l p es) = LTab False False
      (map (\<lambda>i. (LInt (word_of_nat i), reload bd r (lua_rawget es (LInt (word_of_nat i))))) [1..<bd es + 1])"
    using ty True by (simp only: reload.simps simp_thms if_True)
  moreover have "saved_size bd (Suc r) (LTab l p es)
      = 1 + sum_list (map (\<lambda>i. 1 + saved_size bd r (lua_rawget es (LInt (word_of_nat i)))) [1..<bd es + 1])"
    using ty True by (simp only: saved_size.simps simp_thms if_True)
  moreover note array_roundtrip [where junk = junk, OF IH depth n vals]
  ultimately show ?thesis unfolding True by (metis (no_types, lifting))
next
  case False
  then have h: "ty = LVT_Hash" "distinct (map fst es)" "\<forall>(k, v)\<in>set es. key_ok k \<and> sound bd r v"
    using s ty by (cases ty; simp)+
  have "reload bd (Suc r) (LTab l p es) = LTab False False (map (\<lambda>(k, v). (k, reload bd r v)) es)"
    using h(1) ty by (simp only: reload.simps option.inject lua_type.distinct if_False)
  moreover have "saved_size bd (Suc r) (LTab l p es)
      = 1 + sum_list (map (\<lambda>(k, v). 1 + saved_size bd r k + saved_size bd r v) es)"
    using h(1) ty by (simp only: saved_size.simps option.inject lua_type.distinct if_False)
  moreover note hash_roundtrip [where junk = junk, OF IH depth h(2,3)]
  ultimately show ?thesis unfolding h(1) by (metis (no_types, lifting))
qed

lemma depth_succ: "unat depth + Suc r \<le> 15 \<Longrightarrow> depth + 1 < MAX_DEPTH \<and> unat (depth + 1) + r \<le> 15" for depth :: u8
proof -
  assume a: "unat depth + Suc r \<le> 15"
  then have "unat (depth + 1) = unat depth + 1" by (subst unat_add_bounded) auto
  then show ?thesis using a by (simp add: MAX_DEPTH_def word_less_nat_alt)
qed

lemma saves_sound: "sound bd r v \<Longrightarrow> unat depth + r \<le> 15 \<Longrightarrow> saves junk bd r v depth"
proof (induction r arbitrary: v depth)
  case 0
  then have "\<not> is_table v" by (cases v) auto
  then show ?case using 0 entity_scalar by (simp add: saves_def)
next
  case (Suc r)
  show ?case
  proof (cases "is_table v")
    case False
    then show ?thesis using Suc.prems entity_scalar by (simp add: saves_def)
  next
    case True
    then obtain l p es where v: "v = LTab l p es" by (cases v) auto
    note d = depth_succ [OF Suc.prems(2)]
    show ?thesis unfolding saves_def
    proof (intro allI impI)
      fix ty assume ty: "get_lua_type bd v = Some ty"
      then have tt: "get_lua_type_table bd l p es = Some ty" by (simp add: v get_lua_type_def)
      then have th: "ty = LVT_Arr \<or> ty = LVT_Hash" by (auto simp: get_lua_type_table_def split: if_splits)
      obtain bs es' where len: "length bs = saved_size bd (Suc r) v" and bs: "writes (serialize_table bd ty es (depth + 1)) bs"
        "loads (\<lambda>m. deserialize_table junk m ty) bs es'" "reload bd (Suc r) (LTab l p es) = LTab False False es'"
        using table_roundtrip [OF Suc.IH conjunct1 [OF d] _ tt] Suc.prems(1) d v by blast
      have "serialize_entity bd ty v depth = serialize_table bd ty es (depth + 1)"
        by (rule ext) (simp only: serialize_entity.simps th if_True v lua_val.case)
      moreover have "loads (\<lambda>m. deserialize_entity junk m ty) bs (LTab False False es')"
      proof -
        have "loads (\<lambda>m b. map_option (apfst (LTab False False)) (deserialize_table junk m ty b)) bs (LTab False False es')"
          using bs(2) by (auto simp: loads_def intro: reads_map)
        then show ?thesis by (rule loads_Suc) (use th in \<open>auto simp: fun_eq_iff\<close>)
      qed
      ultimately show "\<exists>bs. length bs = saved_size bd (Suc r) v \<and> writes (serialize_entity bd ty v depth) bs
          \<and> loads (\<lambda>m. deserialize_entity junk m ty) bs (reload bd (Suc r) v)"
        using len bs(1,3) v by auto
    qed
  qed
qed

section \<open>Saving and loading a table\<close>

text \<open>The two functions one after the other, on a buffer with enough room.\<close>

lemma Serialize_Deserialize:
  assumes "get_lua_type_table bd l p es = Some ty" and "ty = LVT_Arr \<or> ty = LVT_Hash"
    and "writes (serialize_table bd ty es 1) bs" and "loads (\<lambda>m. deserialize_table junk m ty) bs es'"
    and "bb_wf b" and "bb_content b = []" and "length bs + 1 \<le> bb_room b"
  shows "\<exists>b1 b2 fuel. Serialize bd (LTab l p es) b = Some (True, b1)
    \<and> Deserialize junk fuel b1 = Some (Some (LTab False False es'), b2) \<and> bb_content b2 = []"
proof -
  have len: "length (lvt_code ty # bs) \<le> bb_room b" using assms(7) by simp
  have w: "writes (\<lambda>b. do { b1 \<leftarrow> bb_put b (lvt_code ty); serialize_table bd ty es 1 b1 }) (lvt_code ty # bs)"
    using writes_bind [OF put_code assms(3)] by simp
  note wd = writesD [OF w assms(5) len]
  obtain b1 where b1: "do { b1 \<leftarrow> bb_put b (lvt_code ty); serialize_table bd ty es 1 b1 } = Some b1" "bb_wf b1"
    "bb_content b1 = map Some (lvt_code ty # bs)" using assms(6) by (auto intro: wd)
  have s: "Serialize bd (LTab l p es) b = Some (True, b1)"
    using assms(1) b1(1) by (auto simp: Serialize_def Option.bind_eq_Some_conv simp del: serialize_table.simps)
  note ld = loads_bind [where g = "\<lambda>m t. deserialize_table junk m (lvt_of t)", OF loads_u8 [of junk "lvt_code ty"]]
  have "loads (\<lambda>m. deserialize_table junk m (lvt_of (lvt_code ty))) bs es'" using assms(4) by simp
  then have "loads (\<lambda>m b. do { (t, b1) \<leftarrow> get_local junk b; deserialize_table junk m (lvt_of t) b1 }) ([lvt_code ty] @ bs) es'"
    by (rule ld)
  then obtain fuel where r: "reads (\<lambda>b. do { (t, b1) \<leftarrow> get_local junk b; deserialize_table junk fuel (lvt_of t) b1 })
      ([lvt_code ty] @ bs) es'" by (auto simp: loads_def)
  have c: "bb_content b1 = map Some ([lvt_code ty] @ bs) @ []" using b1(3) by simp
  note rd = readsD [OF r b1(2) c]
  obtain b2 where b2: "do { (t, b1) \<leftarrow> get_local junk b1; deserialize_table junk fuel (lvt_of t) b1 } = Some (es', b2)"
    "bb_content b2 = []" by (auto intro: rd)
  then obtain t b3 where t: "get_local junk b1 = Some (t :: u8, b3)" "deserialize_table junk fuel (lvt_of t) b3 = Some (es', b2)"
    by (auto simp: Option.bind_eq_Some_conv)
  have "get_local junk b1 = Some (lvt_code ty, b3)"
  proof -
    have "reads (get_local junk) [lvt_code ty] (lvt_code ty)" using reads_word [where v = "lvt_code ty"] by simp
    moreover have "bb_content b1 = map Some [lvt_code ty] @ map Some bs" using b1(3) by simp
    ultimately show ?thesis using b1(2) t(1) by (auto elim: readsD)
  qed
  then have "Deserialize junk fuel b1 = Some (Some (LTab False False es'), b2)"
    using t assms(2) by (auto simp: Deserialize_def simp del: deserialize_table.simps)
  then show ?thesis using s b2(2) by blast
qed

text \<open>
  C4. A table that is sound survives saving and loading through an empty buffer that has room for it: both functions return, the
  loaded table is the one that \<open>reload\<close> describes (integral floats have become integers, metatables are gone), and no byte is left over.
  A sound table is at most 15 levels deep, a table in it that is saved as an array has no keys but \<open>1\<close> to its length, the keys of others are different strings or
  integers, its values are booleans, finite numbers, strings and sound tables, strings have no zero, and integers, also integral floats, are not negative ones that need 32 bits (\<open>negative_int_corrupted\<close>,
  \<open>mixed_table_truncated\<close> show what happens to others).
\<close>

theorem serialize_roundtrip:
  assumes "sound bd 15 (LTab l p es)" and "bb_wf b" and "bb_content b = []"
    and "saved_size bd 15 (LTab l p es) + 1 \<le> bb_room b"
  shows "\<exists>b1 b2 fuel. Serialize bd (LTab l p es) b = Some (True, b1)
    \<and> Deserialize junk fuel b1 = Some (Some (reload bd 15 (LTab l p es)), b2) \<and> bb_content b2 = []"
proof -
  have s: "sound bd (Suc 14) (LTab l p es)" using assms(1) by (simp only: eval_nat_numeral)
  obtain ty where ty: "get_lua_type_table bd l p es = Some ty"
    using sound_type [OF s] by (auto simp: get_lua_type_def)
  then have th: "ty = LVT_Arr \<or> ty = LVT_Hash" by (auto simp: get_lua_type_table_def split: if_splits)
  have "unat (1 :: u8) + 14 \<le> 15" "(1 :: u8) < MAX_DEPTH" by (simp_all add: MAX_DEPTH_def)
  then obtain bs es' where len: "length bs = saved_size bd (Suc 14) (LTab l p es)"
    and bs: "writes (serialize_table bd ty es 1) bs" "loads (\<lambda>m. deserialize_table junk m ty) bs es'"
    "reload bd (Suc 14) (LTab l p es) = LTab False False es'"
    using table_roundtrip [OF saves_sound _ s ty] by blast
  have "reload bd 15 (LTab l p es) = LTab False False es'" using bs(3) by (simp only: eval_nat_numeral)
  moreover have "length bs + 1 \<le> bb_room b" using len assms(4) by (simp only: eval_nat_numeral)
  ultimately show ?thesis using Serialize_Deserialize [OF ty th bs(1,2) assms(2,3)] by simp
qed

text \<open>The table of the witnesses: \<open>{10, -5, {x = true}}\<close>, with the border of a sequence.\<close>

definition seq_len :: "lua_entries \<Rightarrow> nat" where
  "seq_len es = length (takeWhile (\<lambda>i. LInt (word_of_nat i) \<in> fst ` set es) [1..<length es + 1])"

definition first_table :: lua_entries where
  "first_table = [(LInt 1, LInt 10), (LInt 2, LInt (- 5)), (LInt 3, LTab False False [(LStr [120], LBool True)])]"

lemma first_table_facts:
  "sound seq_len (Suc (Suc r)) (LTab False False first_table)" "saved_size seq_len (Suc (Suc r)) (LTab False False first_table) = 11"
proof -
  have n: "seq_len first_table = 3" "seq_len [(LStr [120], LBool True)] = 0"
    by (simp_all add: seq_len_def first_table_def upt_rec)
  have ty: "get_lua_type_table seq_len False False first_table = Some LVT_Arr"
    "get_lua_type_table seq_len False False [(LStr [120], LBool True)] = Some LVT_Hash"
    using n by (simp_all add: get_lua_type_table_def lua_next_def first_table_def)
  have get: "lua_rawget first_table (LInt 1) = LInt 10" "lua_rawget first_table (LInt 2) = LInt (- 5)"
    "lua_rawget first_table (LInt 3) = LTab False False [(LStr [120], LBool True)]"
    by (simp_all add: lua_rawget_def first_table_def)
  have keys: "fst ` set first_table \<subseteq> (\<lambda>i. LInt (word_of_nat i)) ` {1..3}"
  proof -
    have "{1..3 :: nat} = {1, 2, 3}" by auto
    then show ?thesis by (simp add: first_table_def)
  qed
  have idx: "[1..<seq_len first_table + 1] = [1, 2, 3]" using n by (simp add: upt_rec)
  show "sound seq_len (Suc (Suc r)) (LTab False False first_table)"
    using n ty get keys idx by (simp add: int_ok_def del: upt_Suc)
  show "saved_size seq_len (Suc (Suc r)) (LTab False False first_table) = 11"
    using n ty get idx by (simp add: number_type_def del: upt_Suc)
qed

theorem serialize_roundtrip_witness:
  "\<exists>b1 b2 fuel. Serialize seq_len (LTab False False first_table) (bb_new 100) = Some (True, b1)
    \<and> Deserialize 0 fuel b1 = Some (Some (reload seq_len 15 (LTab False False first_table)), b2) \<and> bb_content b2 = []"
  using serialize_roundtrip [of seq_len False False first_table "bb_new 100" 0] first_table_facts [of 13]
  by (simp add: bb_wf_new)

lemma rawget_tabulate: "lua_rawget (map (\<lambda>k. (k, f k)) ks) k = (if k \<in> set ks then f k else LNil)"
  by (simp add: lua_rawget_def map_of_map_restrict restrict_map_def)

text \<open>
  The loaded table answers every lookup with the reloaded value of the answer of the saved table: no entry
  is lost, moved or added.
\<close>

theorem loaded_lookup:
  assumes "sound bd (Suc r) (LTab l p es)"
  shows "\<exists>es'. reload bd (Suc r) (LTab l p es) = LTab False False es' \<and>
    (\<forall>k. lua_rawget es' k = reload bd r (lua_rawget es k))"
proof -
  obtain ty where ty: "get_lua_type_table bd l p es = Some ty" "ty = LVT_Arr \<or> ty = LVT_Hash"
    using assms by (auto split: option.splits lua_type.splits)
  have nil: "reload bd r LNil = LNil" by simp
  show ?thesis
  proof (cases "ty = LVT_Arr")
    case True
    have keys: "fst ` set es \<subseteq> (\<lambda>i. LInt (word_of_nat i)) ` {1..bd es}" using assms ty(1) True by simp
    let ?f = "\<lambda>k. reload bd r (lua_rawget es k)"
    let ?ks = "map (\<lambda>i. LInt (word_of_nat i)) [1..<bd es + 1]"
    have "lua_rawget (map (\<lambda>k. (k, ?f k)) ?ks) k = ?f k" for k
    proof (cases "k \<in> set ?ks")
      case False
      moreover have "set ?ks = (\<lambda>i. LInt (word_of_nat i)) ` {1..bd es}" by auto
      ultimately have "k \<notin> fst ` set es" using keys by blast
      then have "map_of es k = None" by (simp add: map_of_eq_None_iff)
      then have "?f k = LNil" by (simp add: lua_rawget_def)
      then show ?thesis using False by (simp only: rawget_tabulate if_False)
    qed (simp only: rawget_tabulate if_True)
    moreover have "reload bd (Suc r) (LTab l p es) = LTab False False (map (\<lambda>k. (k, ?f k)) ?ks)"
      using ty(1) True by (simp only: reload.simps simp_thms if_True map_map o_def)
    ultimately show ?thesis by blast
  next
    case False
    then have "reload bd (Suc r) (LTab l p es) = LTab False False (map (\<lambda>(k, v). (k, reload bd r v)) es)"
      using ty by (simp only: reload.simps option.inject lua_type.distinct if_False)
    moreover have "lua_rawget (map (\<lambda>(k, v). (k, reload bd r v)) es) k = reload bd r (lua_rawget es k)" for k
      using nil by (simp add: lua_rawget_def map_of_map split: option.split)
    ultimately show ?thesis by blast
  qed
qed

theorem loaded_lookup_witness:
  "\<exists>es'. reload seq_len 15 (LTab False False first_table) = LTab False False es' \<and> lua_rawget es' (LInt 2) = LInt (- 5)"
proof -
  from loaded_lookup [OF first_table_facts(1) [of 13]] obtain es' where
    es': "reload seq_len 15 (LTab False False first_table) = LTab False False es'"
      "\<And>k. lua_rawget es' k = reload seq_len 14 (lua_rawget first_table k)" by auto
  have "lua_rawget first_table (LInt 2) = LInt (- 5)" by (simp add: lua_rawget_def first_table_def)
  then show ?thesis using es' by auto
qed

section \<open>What is lost\<close>

text \<open>A table whose length is 1 and that counts as an array comes back with its first value only.\<close>

lemma single_saved:
  assumes "get_lua_type_table bd l p es = Some LVT_Arr" and "bd es = 1" and "lua_rawget es (LInt 1) = v"
    and "get_lua_type bd v = Some ty" and "val_type_ok ty" and "writes (serialize_entity bd ty v 1) bs"
    and "loads (\<lambda>m. deserialize_entity junk m ty) bs v'" and "v' \<noteq> LNil"
    and "bb_wf b" and "bb_content b = []" and "length bs + 3 \<le> bb_room b"
  shows "\<exists>b1 b2 fuel. Serialize bd (LTab l p es) b = Some (True, b1)
    \<and> Deserialize junk fuel b1 = Some (Some (LTab False False [(LInt 1, v')]), b2) \<and> bb_content b2 = []"
proof -
  let ?its = "[(ty, bs, v')]"
  have "(1 :: u8) < MAX_DEPTH" by (simp add: MAX_DEPTH_def)
  then have "serialize_table bd LVT_Arr es 1
      = (\<lambda>b. do { b1 \<leftarrow> do { b1 \<leftarrow> bb_put b (lvt_code ty); serialize_entity bd ty v 1 b1 }; bb_put b1 (0 :: u8) })"
    by (intro ext) (simp only: serialize_table.simps if_True simp_thms assms(2) lvt_code.simps,
      simp add: assms(3-5) del: serialize_entity.simps)
  then have w: "writes (serialize_table bd LVT_Arr es 1) (concat (map item_bytes ?its) @ [0])"
    using writes_bind [OF writes_bind [OF put_code assms(6)] put_code] by simp
  have ld: "loads (\<lambda>m b. do { (t, b1) \<leftarrow> get_local junk b; load_arr junk m t 1 [] b1 })
      (concat (map item_bytes ?its) @ [0]) (arr_entries 1 ?its)"
    using arr_loads [where its = ?its and j = 1 and es = "[]" and jk = junk and junk = junk]
      assms(7,8) type_ok_not_nil [OF assms(5)] by simp
  have unfold: "deserialize_table junk (Suc m) LVT_Arr
      = (\<lambda>b. do { (t, b1) \<leftarrow> get_local junk b; load_arr junk m t 1 [] b1 })" for m
    by (rule ext) simp
  have "loads (\<lambda>m. deserialize_table junk m LVT_Arr) (concat (map item_bytes ?its) @ [0]) [(LInt 1, v')]"
    using loads_Suc [where g = "\<lambda>m. deserialize_table junk m LVT_Arr", OF ld unfold] by simp
  from Serialize_Deserialize [OF assms(1) _ w this assms(9,10)] show ?thesis using assms(11) by simp
qed

text \<open>
  A negative number that needs 32 bits is saved with an unsigned type: what is loaded is the number plus
  \<open>2 ^ 32\<close>.
\<close>

theorem negative_int_corrupted:
  assumes "- 0x80000000 \<le> sint w" and "sint w < - 0x8000" and "bd [(LInt 1, LInt w)] = 1"
    and "bb_wf b" and "bb_content b = []" and "7 \<le> bb_room b"
  shows "\<exists>b1 b2 fuel. Serialize bd (LTab False False [(LInt 1, LInt w)]) b = Some (True, b1)
    \<and> Deserialize junk fuel b1 = Some (Some (LTab False False [(LInt 1, LInt (w + 2 ^ 32))]), b2) \<and> bb_content b2 = []"
proof -
  let ?es = "[(LInt 1, LInt w)]"
  have ty: "get_lua_type bd (LInt w) = Some LVT_u32" using assms(1,2) by (simp add: get_lua_type_def number_type_def)
  have arr: "get_lua_type_table bd False False ?es = Some LVT_Arr" using assms(3) by (simp add: get_lua_type_table_def lua_next_def)
  define j where "j = sint w"
  then have "w = word_of_int j" by simp
  with j_def obtain i where i: "sint w = i" "w = word_of_int i" by blast
  have i2: "i + 2 ^ 32 \<ge> 0" "i + 2 ^ 32 < 2 ^ 32" using assms(1,2) i(1) by simp_all
  have "(ucast w :: u32) = word_of_int i" unfolding i(2) by (rule narrow_of_int) simp
  also have "\<dots> = word_of_int (i + 2 ^ 32)"
    by (simp add: word_of_int_eq_iff take_bit_eq_mod del: of_int_add)
  finally have "uint (ucast w :: u32) = i + 2 ^ 32"
    using i2 by (simp add: uint_word_of_int_eq take_bit_int_eq_self del: of_int_add)
  then have "word_of_int (uint (ucast w :: u32)) = (word_of_int (i + 2 ^ 32) :: u64)" by simp
  then have v: "ucast (ucast w :: u32) = w + 2 ^ 32" using i(2) by simp
  have "\<exists>bs. length bs = 32 div 8 \<and> writes (lua_scalar LVT_u32 (LInt w)) bs \<and> reads (load_scalar junk LVT_u32) bs (LInt (w + 2 ^ 32))"
    using scalar_word [where x = "ucast w :: u32" and h = "\<lambda>w. LInt (ucast w)" and ty = LVT_u32 and v = "LInt w" and junk = junk]
    by (simp add: fun_eq_iff lua_scalar_def load_scalar_def lua_tointeger_def v)
  then obtain bs where bs: "length bs = 4" "writes (lua_scalar LVT_u32 (LInt w)) bs"
    "reads (load_scalar junk LVT_u32) bs (LInt (w + 2 ^ 32))" by auto
  have "serialize_entity bd LVT_u32 (LInt w) 1 = lua_scalar LVT_u32 (LInt w)" by (rule ext) simp
  then have w: "writes (serialize_entity bd LVT_u32 (LInt w) 1) bs" using bs(2) by simp
  have l: "loads (\<lambda>m. deserialize_entity junk m LVT_u32) bs (LInt (w + 2 ^ 32))"
    by (rule reads_loads [OF bs(3)]) (simp add: fun_eq_iff)
  show ?thesis
    by (rule single_saved [OF arr assms(3) _ ty _ w l _ assms(4,5)]) (use bs(1) assms(6) in \<open>simp_all add: lua_rawget_def val_type_ok_def\<close>)
qed

theorem negative_int_corrupted_witness:
  "\<exists>b1 b2 fuel. Serialize seq_len (LTab False False [(LInt 1, LInt (- 40000))]) (bb_new 100) = Some (True, b1)
    \<and> Deserialize 0 fuel b1 = Some (Some (LTab False False [(LInt 1, LInt 4294927296)]), b2) \<and> bb_content b2 = []"
proof -
  have "seq_len [(LInt 1, LInt (- 40000))] = 1" by (simp add: seq_len_def)
  then show ?thesis
    using negative_int_corrupted [of "- 40000" seq_len "bb_new 100" 0] by (simp add: bb_wf_new)
qed

text \<open>
  A table with other keys besides its sequence counts as an array when \<^verbatim>\<open>lua_next\<close> happens to list the
  last index of the sequence last; the other entries are then not saved.
\<close>

theorem mixed_table_truncated:
  assumes "bd [(LStr k, v), (LInt 1, LBool t)] = 1" and "bb_wf b" and "bb_content b = []" and "4 \<le> bb_room b"
  shows "\<exists>b1 b2 fuel. Serialize bd (LTab False False [(LStr k, v), (LInt 1, LBool t)]) b = Some (True, b1)
    \<and> Deserialize junk fuel b1 = Some (Some (LTab False False [(LInt 1, LBool t)]), b2) \<and> bb_content b2 = []"
proof -
  let ?es = "[(LStr k, v), (LInt 1, LBool t)]"
  have arr: "get_lua_type_table bd False False ?es = Some LVT_Arr" using assms(1) by (simp add: get_lua_type_table_def lua_next_def)
  have ty: "get_lua_type bd (LBool t) = Some LVT_bool" by (simp add: get_lua_type_def)
  have "sound bd 0 (LBool t)" by simp
  from entity_scalar [where depth = 1 and junk = junk, OF this _ ty] obtain bs where bs: "length bs = 1"
    "writes (serialize_entity bd LVT_bool (LBool t) 1) bs" "loads (\<lambda>m. deserialize_entity junk m LVT_bool) bs (LBool t)"
    by auto
  show ?thesis
    by (rule single_saved [OF arr assms(1) _ ty _ bs(2,3) _ assms(2,3)]) (use bs(1) assms(4) in \<open>simp_all add: lua_rawget_def val_type_ok_def\<close>)
qed

theorem mixed_table_truncated_witness:
  "\<exists>b1 b2 fuel. Serialize seq_len (LTab False False [(LStr [120], LInt 5), (LInt 1, LBool True)]) (bb_new 100) = Some (True, b1)
    \<and> Deserialize 0 fuel b1 = Some (Some (LTab False False [(LInt 1, LBool True)]), b2) \<and> bb_content b2 = []"
proof -
  have "seq_len [(LStr [120], LInt 5), (LInt 1, LBool True)] = 1" by (simp add: seq_len_def upt_rec)
  then show ?thesis
    using mixed_table_truncated [of seq_len "[120]" "LInt 5" True "bb_new 100" 0] by (simp add: bb_wf_new)
qed

end
