(* ===== verification/ScriptData.thy ===== *)
theory ScriptData
  imports LuaRoundTrip
begin

text \<open>
  Values that scripts hand to the program (\<^verbatim>\<open>libcore/src/ScriptParam.cpp\<close>, \<^verbatim>\<open>libcore/src/ScriptTable.cpp\<close> and their
  headers): a parameter is a saved table, a script table is a reference to a live one in the registry of Lua.

  The assertion of \<^verbatim>\<open>ScriptParam::Deserialize\<close> is compiled out, as in a release build.  Tables have identities
  here, so that two references to one table can be told apart from two equal tables: \<open>lw_tabs\<close> is what each
  of them holds.  A new registry index and the identity of a new table are arguments.
\<close>

section \<open>ScriptParam\<close>

definition param_new :: "u32 \<Rightarrow> byte_buffer" where
  "param_new sz = bb_new sz"

text \<open>The moving constructor starts from an empty buffer.\<close>

definition param_move_new :: "byte_buffer \<Rightarrow> byte_buffer \<times> byte_buffer" where
  "param_move_new r = bb_move_assign bb_default r"

definition param_prepare :: "byte_buffer \<Rightarrow> byte_buffer" where
  "param_prepare p = bb_Reset (if bb_size p = 0 then bb_Resize p (16 * 1024) else p)"

text \<open>The argument \<^verbatim>\<open>stack\<close> is not used: the value is the one on top of the stack.\<close>

definition param_Init :: "(lua_entries \<Rightarrow> nat) \<Rightarrow> (int \<Rightarrow> lua_val) \<Rightarrow> int \<Rightarrow> byte_buffer \<Rightarrow> (bool \<times> byte_buffer) option" where
  "param_Init bd stack idx p = Serialize bd (stack (-1)) (param_prepare p)"

definition param_Push :: "u64 \<Rightarrow> nat \<Rightarrow> byte_buffer \<Rightarrow> (lua_val \<times> byte_buffer) option" where
  "param_Push junk fuel p =
     (if bb_Avail p = 0 then Some (LTab False False [], p)
      else do {
        (r, p1) \<leftarrow> Deserialize junk fuel p;
        Some (case r of None \<Rightarrow> LTab False False [] | Some v \<Rightarrow> v, p1)
      })"

definition param_Serialize :: "byte_buffer \<Rightarrow> byte_buffer \<Rightarrow> byte_buffer option" where
  "param_Serialize p bb = do {
     bb1 \<leftarrow> bb_put bb (bb_Avail p);
     map_option snd (bb_In bb1 (drop (unat (rd_ptr p)) (buffer p)) (bb_Avail p))
   }"

text \<open>The parameter and the buffer that was read.\<close>

definition param_Deserialize :: "u64 \<Rightarrow> byte_buffer \<Rightarrow> byte_buffer \<Rightarrow> (byte_buffer \<times> byte_buffer) option" where
  "param_Deserialize junk p bb = do {
     let p1 = param_prepare p;
     (sz :: u32, bb1) \<leftarrow> get_local junk bb;
     if sz \<noteq> 0
     then do {
       (r, p2) \<leftarrow> bb_In p1 (drop (unat (rd_ptr bb1)) (buffer bb1)) sz;
       bb2 \<leftarrow> bb_ReadOffset bb1 sz;
       Some (p2, bb2)
     }
     else Some (p1, bb1)
   }"

section \<open>ScriptTable\<close>

datatype lua_slot = Tab nat | Plain lua_val

record lua_world =
  lw_stack :: "lua_slot list"
  lw_reg :: "nat \<rightharpoonup> lua_slot"
  lw_tabs :: "nat \<rightharpoonup> lua_val"

text \<open>The reference: \<open>None\<close> is \<^verbatim>\<open>LUA_NOREF\<close>.\<close>

type_synonym script_table = "nat option"

definition table_new :: script_table where "table_new = None"

definition table_Destroy :: "script_table \<Rightarrow> lua_world \<Rightarrow> script_table \<times> lua_world" where
  "table_Destroy t w = (case t of None \<Rightarrow> (t, w) | Some r \<Rightarrow> (None, w\<lparr>lw_reg := (lw_reg w)(r := None)\<rparr>))"

text \<open>\<open>k\<close> is the place below the top, 0 for the index \<^verbatim>\<open>-1\<close>.\<close>

definition table_Create :: "nat \<Rightarrow> nat \<Rightarrow> script_table \<Rightarrow> lua_world \<Rightarrow> script_table \<times> lua_world" where
  "table_Create fresh k t w =
     (if k < length (lw_stack w)
      then case lw_stack w ! k of
             Plain v \<Rightarrow> (t, w)
           | Tab i \<Rightarrow> (let (t1, w1) = table_Destroy t w in (Some fresh, w1\<lparr>lw_reg := (lw_reg w1)(fresh \<mapsto> Tab i)\<rparr>))
      else (t, w))"

text \<open>What a registry index holds, and its value.\<close>

definition lw_ref :: "nat \<Rightarrow> lua_world \<Rightarrow> lua_slot" where
  "lw_ref r w = (case lw_reg w r of None \<Rightarrow> Plain LNil | Some sl \<Rightarrow> sl)"

definition lw_val :: "lua_slot \<Rightarrow> lua_world \<Rightarrow> lua_val" where
  "lw_val sl w = (case sl of Plain v \<Rightarrow> v | Tab i \<Rightarrow> (case lw_tabs w i of None \<Rightarrow> LNil | Some v \<Rightarrow> v))"

definition lw_push_table :: "nat \<Rightarrow> lua_val \<Rightarrow> lua_world \<Rightarrow> lua_world" where
  "lw_push_table i v w = w\<lparr>lw_stack := Tab i # lw_stack w, lw_tabs := (lw_tabs w)(i \<mapsto> v)\<rparr>"

definition table_GetTable :: "nat \<Rightarrow> nat \<Rightarrow> script_table \<Rightarrow> lua_world \<Rightarrow> script_table \<times> lua_world" where
  "table_GetTable fresh i t w =
     (case t of
        None \<Rightarrow> table_Create fresh 0 t (lw_push_table i (LTab False False []) w)
      | Some r \<Rightarrow> (t, w\<lparr>lw_stack := lw_ref r w # lw_stack w\<rparr>))"

definition table_Serialize :: "(lua_entries \<Rightarrow> nat) \<Rightarrow> script_table \<Rightarrow> lua_world \<Rightarrow> byte_buffer \<Rightarrow> byte_buffer option" where
  "table_Serialize bd t w bb =
     (case t of
        None \<Rightarrow> bb_put bb (0 :: u8)
      | Some r \<Rightarrow> do {
          bb1 \<leftarrow> bb_put bb (1 :: u8);
          map_option snd (Serialize bd (lw_val (lw_ref r w) w) bb1)
        })"

definition table_Deserialize :: "u64 \<Rightarrow> nat \<Rightarrow> nat \<Rightarrow> nat \<Rightarrow> script_table \<Rightarrow> lua_world \<Rightarrow> byte_buffer \<Rightarrow>
    ((script_table \<times> lua_world) \<times> byte_buffer) option" where
  "table_Deserialize junk fuel fresh i t w bb = do {
     (flag :: u8, bb1) \<leftarrow> get_local junk bb;
     if flag = 0 then Some ((t, w), bb1)
     else do {
       (r, bb2) \<leftarrow> Deserialize junk fuel bb1;
       let w1 = (case r of None \<Rightarrow> w | Some v \<Rightarrow> lw_push_table i v w);
       let (t2, w2) = table_Create fresh 0 t w1;
       (case lw_stack w2 of [] \<Rightarrow> None | sl # st \<Rightarrow> Some ((t2, w2\<lparr>lw_stack := st\<rparr>), bb2))
     }
   }"

section \<open>Properties of parameters\<close>

lemma param_prepare_wf:
  assumes "bb_wf p" and "\<not> attach p"
  shows "bb_wf (param_prepare p)" and "bb_content (param_prepare p) = []"
    and "bb_room (param_prepare p) = (if bb_size p = 0 then 16384 else unat (bb_size p))"
    and "unat (bb_size (param_prepare p)) = (if bb_size p = 0 then 16384 else unat (bb_size p))"
proof -
  show "bb_wf (param_prepare p)"
    using bb_wf_Reset(1) [OF bb_Resize_wf(1) [OF assms(1)]] bb_wf_Reset(1) [OF assms(1)] by (simp add: param_prepare_def)
qed (use assms(2) in \<open>simp_all add: param_prepare_def bb_wf_Reset(2), simp_all add: bb_room_def bb_Reset_def bb_Resize_def\<close>)

text \<open>Copying what a buffer holds, as \<^verbatim>\<open>In\<close> does from the read pointer of another one.\<close>

lemma bb_In_copy:
  assumes "bb_wf q" and "bb_wf b" and "bb_content b = c @ rest" and "unat sz = length c" and "length c \<le> bb_room q"
  obtains q' where "bb_In q (drop (unat (rd_ptr b)) (buffer b)) sz = Some (True, q')" and "bb_wf q'"
    and "bb_content q' = bb_content q @ c" and "bb_room q' = bb_room q - length c"
proof -
  let ?data = "drop (unat (rd_ptr b)) (buffer b)"
  have le: "unat (rd_ptr b) \<le> unat (wr_ptr b)" "unat (wr_ptr b) \<le> length (buffer b)" using bb_wfD [OF assms(2)] by auto
  have "length c \<le> unat (wr_ptr b) - unat (rd_ptr b)"
    using length_bb_content [OF assms(2)] assms(3) by simp
  moreover from this have "take (length c) (bb_content b) = take (length c) ?data"
    by (simp add: bb_content_def)
  ultimately have t: "take (length c) ?data = c" and l: "unat sz \<le> length ?data"
    using assms(3,4) le by simp_all
  have "unat sz \<le> bb_room q" using assms(4,5) by simp
  from bb_In_ok [OF assms(1) l this] obtain q' where "bb_In q ?data sz = Some (True, q')" "bb_wf q'"
    "bb_content q' = bb_content q @ take (unat sz) ?data" "bb_room q' = bb_room q - unat sz" by metis
  then show ?thesis using that t assms(4) by simp
qed

lemma ReadOffset_skip:
  assumes "bb_wf b" and "unat (bb_size b) < 2 ^ 31" and "bb_content b = c @ rest" and "unat sz = length c"
  obtains b' where "bb_ReadOffset b sz = Some b'" and "bb_wf b'" and "bb_content b' = rest"
proof -
  have n: "unat sz \<le> length (bb_content b)" using assms(3,4) by simp
  note le = bb_wfD [OF assms(1)]
  have lc: "length (bb_content b) = unat (wr_ptr b) - unat (rd_ptr b)" by (rule length_bb_content [OF assms(1)])
  have s: "sint sz = int (unat sz)" using n lc le assms(2) by (intro sint_small) linarith
  have "int (unat (rd_ptr b)) + int (unat sz) \<le> int (unat (wr_ptr b))" using n lc le by linarith
  then have "bb_ReadOffset b sz = Some (b\<lparr>rd_ptr := rd_ptr b + sz\<rparr>)"
    unfolding bb_ReadOffset_spec [OF assms(1,2)] s by (simp add: Let_def)
  then show ?thesis using bb_Out_ok(2,3) [OF assms(1) n] assms(3,4) that by simp
qed

text \<open>Saving and loading a table as a writer and a reader.\<close>

lemma bind_Some_map: "Option.bind m (\<lambda>x. Some (f x)) = map_option f m"
  by (cases m) auto

lemma map_option_of_bind: "map_option f (Option.bind m g) = Option.bind m (\<lambda>x. map_option f (g x))"
  by (cases m) auto

lemma Deserialize_local:
  "Deserialize junk fuel = (\<lambda>b. do {
     (t, b1) \<leftarrow> get_local junk b;
     if lvt_of t = LVT_Arr \<or> lvt_of t = LVT_Hash
     then map_option (apfst (\<lambda>es. Some (LTab False False es))) (deserialize_table junk fuel (lvt_of t) b1)
     else Some (None, b1)
   })"
proof -
  have e: "(\<lambda>(es, b2). Some (Some (LTab False False es), b2)) = (\<lambda>x. Some (apfst (\<lambda>es. Some (LTab False False es)) x))"
    by (rule ext) (simp add: split_beta apfst_def map_prod_def)
  show ?thesis by (rule ext) (simp only: Deserialize_def e bind_Some_map)
qed

lemma loads_map: "loads g bs x \<Longrightarrow> loads (\<lambda>m b. map_option (apfst h) (g m b)) bs (h x)"
proof -
  assume "loads g bs x"
  then obtain n where "\<forall>m\<ge>n. reads (g m) bs x" by (auto simp: loads_def)
  then have "\<forall>m\<ge>n. reads (\<lambda>b. map_option (apfst h) (g m b)) bs (h x)" by (simp add: reads_map)
  then show ?thesis unfolding loads_def by blast
qed

lemma table_stream:
  assumes "sound bd 15 (LTab l p es)"
  obtains bs where "length bs = saved_size bd 15 (LTab l p es) + 1"
    and "writes (\<lambda>b. map_option snd (Serialize bd (LTab l p es) b)) bs"
    and "loads (Deserialize junk) bs (Some (reload bd 15 (LTab l p es)))"
proof -
  have s: "sound bd (Suc 14) (LTab l p es)" using assms by (simp only: eval_nat_numeral)
  obtain ty where ty: "get_lua_type_table bd l p es = Some ty"
    using sound_type [OF s] by (auto simp: get_lua_type_def)
  then have th: "ty = LVT_Arr \<or> ty = LVT_Hash" by (auto simp: get_lua_type_table_def split: if_splits)
  have "unat (1 :: u8) + 14 \<le> 15" "(1 :: u8) < MAX_DEPTH" by (simp_all add: MAX_DEPTH_def)
  then obtain bs es' where len: "length bs = saved_size bd (Suc 14) (LTab l p es)"
    and bs: "writes (serialize_table bd ty es 1) bs" "loads (\<lambda>m. deserialize_table junk m ty) bs es'"
    "reload bd (Suc 14) (LTab l p es) = LTab False False es'"
    using table_roundtrip [OF saves_sound _ s ty] by blast
  have re: "reload bd 15 (LTab l p es) = LTab False False es'" using bs(3) by (simp only: eval_nat_numeral)
  have "length (lvt_code ty # bs) = saved_size bd 15 (LTab l p es) + 1" using len by (simp only: eval_nat_numeral list.size)
  moreover have "writes (\<lambda>b. map_option snd (Serialize bd (LTab l p es) b)) (lvt_code ty # bs)"
  proof -
    have e: "map_option snd (Serialize bd (LTab l p es) b) = do { b1 \<leftarrow> bb_put b (lvt_code ty); serialize_table bd ty es 1 b1 }" for b
      by (simp add: Serialize_def ty bind_Some_map map_option_of_bind option.map_comp comp_def option.map_ident
          del: serialize_table.simps)
    show ?thesis unfolding e using writes_bind [OF put_code bs(1), of "lvt_code ty"] by (simp del: serialize_table.simps)
  qed
  moreover have "loads (Deserialize junk) (lvt_code ty # bs) (Some (reload bd 15 (LTab l p es)))"
  proof -
    have "loads (\<lambda>m b. if lvt_of (lvt_code ty) = LVT_Arr \<or> lvt_of (lvt_code ty) = LVT_Hash
        then map_option (apfst (\<lambda>es. Some (LTab False False es))) (deserialize_table junk m (lvt_of (lvt_code ty)) b)
        else Some (None, b)) bs (Some (LTab False False es'))"
      using loads_map [OF bs(2), of "\<lambda>es. Some (LTab False False es)"] th by simp
    from loads_bind [where g = "\<lambda>m t b. if lvt_of t = LVT_Arr \<or> lvt_of t = LVT_Hash
        then map_option (apfst (\<lambda>es. Some (LTab False False es))) (deserialize_table junk m (lvt_of t) b)
        else Some (None, b)", OF loads_u8 [of junk "lvt_code ty"] this]
    show ?thesis unfolding Deserialize_local re by simp
  qed
  ultimately show ?thesis by (rule that)
qed

text \<open>
  Passing a parameter through a buffer: what was written arrives.
\<close>

lemma bb_put_size: "bb_put b v = Some b' \<Longrightarrow> bb_size b' = bb_size b"
  by (auto simp: bb_put_def bb_In_def Option.bind_eq_Some_conv split: if_splits)

lemma bb_Out_size: "bb_Out b n = Some (r, b') \<Longrightarrow> bb_size b' = bb_size b"
  by (auto simp: bb_Out_def Option.bind_eq_Some_conv split: if_splits)

lemma get_local_size: "get_local junk b = Some (v, b') \<Longrightarrow> bb_size b' = bb_size b"
  by (auto simp: get_local_def bb_get_def Option.bind_eq_Some_conv dest: bb_Out_size)

lemma param_transfer:
  assumes p: "bb_wf p" and bb: "bb_wf bb" "bb_content bb = []" "unat (bb_size bb) < 2 ^ 31"
    and room: "length (bb_content p) + 4 \<le> bb_room bb"
    and q: "bb_wf q" "\<not> attach q" "length (bb_content p) \<le> bb_room (param_prepare q)"
  obtains bb1 q1 bb2 where "param_Serialize p bb = Some bb1" and "param_Deserialize junk q bb1 = Some (q1, bb2)"
    and "bb_wf q1" and "bb_content q1 = bb_content p" and "bb_content bb2 = []"
proof -
  let ?n = "bb_Avail p" and ?c = "bb_content p"
  have n: "unat ?n = length ?c" by (rule unat_bb_Avail [OF p])
  have "LENGTH(32) div 8 \<le> bb_room bb" using room by simp
  then obtain ba where ba: "bb_put bb ?n = Some ba" "bb_wf ba" "bb_content ba = map Some (word_bytes ?n)"
    "bb_room ba = bb_room bb - 4" using bb_put_ok [OF bb(1), of ?n] bb(2) by auto
  have "length ?c \<le> bb_room ba" "?c = ?c @ []" using room ba(4) by simp_all
  then obtain bb1 where b1: "bb_In ba (drop (unat (rd_ptr p)) (buffer p)) ?n = Some (True, bb1)" "bb_wf bb1"
    "bb_content bb1 = map Some (word_bytes ?n) @ ?c"
    using bb_In_copy [OF ba(2) p _ n] ba(3) by metis
  have ser: "param_Serialize p bb = Some bb1" by (simp add: param_Serialize_def ba(1) b1(1))
  have "reads (get_local junk) (word_bytes ?n) ?n" by (rule reads_word) simp_all
  then obtain b2 where b2: "get_local junk bb1 = Some (?n, b2)" "bb_wf b2" "bb_content b2 = ?c"
    by (rule readsD [OF _ b1(2,3)])
  have "bb_size bb1 = bb_size bb"
    using bb_put_size [OF ba(1)] b1(1) by (auto simp: bb_In_def Option.bind_eq_Some_conv split: if_splits)
  then have size2: "unat (bb_size b2) < 2 ^ 31" using get_local_size [OF b2(1)] bb(3) by simp
  note prep = param_prepare_wf [OF q(1,2)]
  show ?thesis
  proof (cases "?n = 0")
    case True
    then have "?c = []" using n by simp
    then show ?thesis using that [OF ser, of "param_prepare q" b2] True b2 prep by (simp add: param_Deserialize_def Let_def)
  next
    case False
    have c2: "bb_content b2 = ?c @ []" using b2(3) by simp
    obtain q1 where q1: "bb_In (param_prepare q) (drop (unat (rd_ptr b2)) (buffer b2)) ?n = Some (True, q1)" "bb_wf q1"
      "bb_content q1 = ?c" using bb_In_copy [OF prep(1) b2(2) c2 n q(3)] prep(2) by (metis append_Nil)
    obtain b3 where b3: "bb_ReadOffset b2 ?n = Some b3" "bb_content b3 = []"
      by (rule ReadOffset_skip [OF b2(2) size2 c2 n])
    have "param_Deserialize junk q bb1 = Some (q1, b3)"
      using False by (simp add: param_Deserialize_def Let_def b2(1) q1(1) b3(1))
    then show ?thesis using that [OF ser] q1 b3(2) by blast
  qed
qed

text \<open>How much a parameter can hold.\<close>

definition param_capacity :: "byte_buffer \<Rightarrow> nat" where
  "param_capacity p = (if bb_size p = 0 then 16384 else unat (bb_size p))"

lemma param_room: "bb_wf p \<Longrightarrow> \<not> attach p \<Longrightarrow> bb_room (param_prepare p) = param_capacity p"
  by (simp add: param_capacity_def param_prepare_wf)

text \<open>What \<open>Init\<close> leaves in a parameter, and what pushing does with a parameter that holds it.\<close>

lemma param_Init_stream:
  assumes "stack (-1) = LTab l p es" and "sound bd 15 (LTab l p es)"
    and "bb_wf p0" and "\<not> attach p0" and "saved_size bd 15 (LTab l p es) + 1 \<le> param_capacity p0"
  obtains p1 bs where "param_Init bd stack idx p0 = Some (True, p1)" and "bb_wf p1" and "bb_content p1 = map Some bs"
    and "length bs = saved_size bd 15 (LTab l p es) + 1" and "loads (Deserialize junk) bs (Some (reload bd 15 (LTab l p es)))"
proof -
  let ?v = "LTab l p es"
  obtain bs where bs: "length bs = saved_size bd 15 ?v + 1" "writes (\<lambda>b. map_option snd (Serialize bd ?v b)) bs"
    "loads (Deserialize junk) bs (Some (reload bd 15 ?v))" by (rule table_stream [OF assms(2)])
  note prep = param_prepare_wf [OF assms(3,4)]
  have "length bs \<le> bb_room (param_prepare p0)" using bs(1) assms(5) by (simp add: param_room assms(3,4))
  then obtain p1 where p1: "map_option snd (Serialize bd ?v (param_prepare p0)) = Some p1" "bb_wf p1" "bb_content p1 = map Some bs"
    using prep(2) by (auto elim: writesD [OF bs(2) prep(1)])
  then have "param_Init bd stack idx p0 = Some (True, p1)"
    by (auto simp: param_Init_def assms(1) Serialize_def Option.bind_eq_Some_conv simp del: serialize_table.simps)
  then show ?thesis using that p1(2,3) bs(1,3) by blast
qed

lemma param_Push_stream:
  assumes "loads (Deserialize junk) bs (Some v)" and "bs \<noteq> []" and "bb_wf q" and "bb_content q = map Some bs"
  obtains fuel q2 where "param_Push junk fuel q = Some (v, q2)" and "\<forall>n. param_Push junk n q2 = Some (LTab False False [], q2)"
proof -
  obtain fuel where "reads (Deserialize junk fuel) bs (Some v)" using assms(1) by (auto simp: loads_def)
  then obtain q2 where q2: "Deserialize junk fuel q = Some (Some v, q2)" "bb_wf q2" "bb_content q2 = []"
    using assms(3,4) by (metis append_Nil2 readsD)
  have "unat (bb_Avail q) \<noteq> 0" using unat_bb_Avail [OF assms(3)] assms(2,4) by simp
  then have "bb_Avail q \<noteq> 0" by auto
  then have push: "param_Push junk fuel q = Some (v, q2)" by (simp add: param_Push_def q2(1))
  have "bb_Avail q2 = 0" using unat_bb_Avail [OF q2(2)] q2(3) by (simp add: unat_0_iff)
  then have "\<forall>n. param_Push junk n q2 = Some (LTab False False [], q2)" by (simp add: param_Push_def)
  with push show ?thesis by (rule that)
qed

text \<open>
  C15. A sound table (see \<open>serialize_roundtrip\<close>) that one script passes as a parameter reaches another one through an empty buffer, when it
  fits into the buffer and into both parameters, which own their blocks: the first push gives what \<open>reload\<close> makes of the table.  It uses the parameter up, and every later push gives an empty table.
\<close>

theorem param_pass:
  assumes "stack (-1) = LTab l p es" and "sound bd 15 (LTab l p es)"
    and "bb_wf p0" and "\<not> attach p0" and "saved_size bd 15 (LTab l p es) + 1 \<le> param_capacity p0"
    and "bb_wf bb" and "bb_content bb = []" and "unat (bb_size bb) < 2 ^ 31"
    and "saved_size bd 15 (LTab l p es) + 5 \<le> bb_room bb"
    and "bb_wf q" and "\<not> attach q" and "saved_size bd 15 (LTab l p es) + 1 \<le> param_capacity q"
  shows "\<exists>p1 bb1 q1 bb2 q2 fuel. param_Init bd stack idx p0 = Some (True, p1)
    \<and> param_Serialize p1 bb = Some bb1 \<and> param_Deserialize junk q bb1 = Some (q1, bb2) \<and> bb_content bb2 = []
    \<and> param_Push junk fuel q1 = Some (reload bd 15 (LTab l p es), q2)
    \<and> (\<forall>n. param_Push junk n q2 = Some (LTab False False [], q2))"
proof -
  let ?v = "LTab l p es"
  obtain p1 bs where p1: "param_Init bd stack idx p0 = Some (True, p1)" "bb_wf p1" "bb_content p1 = map Some bs"
    and bs: "length bs = saved_size bd 15 ?v + 1" "loads (Deserialize junk) bs (Some (reload bd 15 ?v))"
    by (rule param_Init_stream [where stack = stack, OF assms(1-5)])
  have c: "length (bb_content p1) + 4 \<le> bb_room bb" "length (bb_content p1) \<le> bb_room (param_prepare q)"
    using p1(3) bs(1) assms(9,12) by (simp_all add: param_room assms(10,11))
  obtain bb1 q1 bb2 where t: "param_Serialize p1 bb = Some bb1" "param_Deserialize junk q bb1 = Some (q1, bb2)"
    "bb_wf q1" "bb_content q1 = bb_content p1" "bb_content bb2 = []"
    by (rule param_transfer [OF p1(2) assms(6-8) c(1) assms(10,11) c(2)])
  have "bs \<noteq> []" using bs(1) by auto
  from param_Push_stream [OF bs(2) this t(3)] obtain fuel q2 where "param_Push junk fuel q1 = Some (reload bd 15 ?v, q2)"
    "\<forall>n. param_Push junk n q2 = Some (LTab False False [], q2)" using t(4) p1(3) by metis
  then show ?thesis using p1(1) t(1,2,5) by blast
qed

theorem param_pass_witness:
  "\<exists>p1 bb1 q1 bb2 q2 fuel. param_Init seq_len (\<lambda>i. LTab False False first_table) (-1) (param_new 0) = Some (True, p1)
    \<and> param_Serialize p1 (bb_new 100) = Some bb1 \<and> param_Deserialize 0 (param_new 0) bb1 = Some (q1, bb2) \<and> bb_content bb2 = []
    \<and> param_Push 0 fuel q1 = Some (reload seq_len 15 (LTab False False first_table), q2)
    \<and> (\<forall>n. param_Push 0 n q2 = Some (LTab False False [], q2))"
proof -
  note f = first_table_facts [of 13]
  show ?thesis
    by (rule param_pass) (use f in \<open>simp_all add: bb_wf_new param_new_def param_capacity_def bb_new_def [where sz = 0]
      bb_new_def [where sz = 100] bb_wf_new [of 0, unfolded bb_new_def, simplified]
      bb_wf_new [of 100, unfolded bb_new_def, simplified]\<close>)
qed

section \<open>Properties of script tables\<close>

lemma u8_stream: "writes (\<lambda>b. bb_put b (c :: u8)) [c]" "loads (\<lambda>m. get_local junk) [c] (c :: u8)"
  using put_code loads_u8 by auto

text \<open>
  C23. A script table that holds a sound table (see \<open>serialize_roundtrip\<close>) survives saving into an empty buffer that has room for it and loading
  into any other script table: the new reference leads to what \<open>reload\<close> makes of the table, the Lua stack is as before, and no byte is left over.
\<close>

theorem table_transfer:
  assumes "lw_reg w r = Some (Tab i)" and "lw_tabs w i = Some (LTab l p es)" and "sound bd 15 (LTab l p es)"
    and "bb_wf bb" and "bb_content bb = []" and "saved_size bd 15 (LTab l p es) + 2 \<le> bb_room bb"
  shows "\<exists>bb1 fuel w3 bb2. table_Serialize bd (Some r) w bb = Some bb1
    \<and> table_Deserialize junk fuel fresh j t2 w2 bb1 = Some ((Some fresh, w3), bb2) \<and> bb_content bb2 = []
    \<and> lw_val (lw_ref fresh w3) w3 = reload bd 15 (LTab l p es) \<and> lw_stack w3 = lw_stack w2"
proof -
  let ?v = "LTab l p es"
  obtain bs where bs: "length bs = saved_size bd 15 ?v + 1" "writes (\<lambda>b. map_option snd (Serialize bd ?v b)) bs"
    "loads (Deserialize junk) bs (Some (reload bd 15 ?v))" by (rule table_stream [OF assms(3)])
  have v: "lw_val (lw_ref r w) w = ?v" by (simp add: lw_val_def lw_ref_def assms(1,2))
  have w: "writes (\<lambda>b. do { b1 \<leftarrow> bb_put b (1 :: u8); map_option snd (Serialize bd ?v b1) }) ([1] @ bs)"
    by (rule writes_bind [OF u8_stream(1) bs(2)])
  have len: "length ([1] @ bs) \<le> bb_room bb" using bs(1) assms(6) by simp
  note wd = writesD [OF w assms(4) len]
  obtain bb1 where s1: "do { b1 \<leftarrow> bb_put bb (1 :: u8); map_option snd (Serialize bd ?v b1) } = Some bb1" "bb_wf bb1"
    "bb_content bb1 = bb_content bb @ map Some ([1] @ bs)" by (rule wd)
  then have b1: "table_Serialize bd (Some r) w bb = Some bb1" "bb_wf bb1" "bb_content bb1 = map Some [1] @ map Some bs"
    by (simp_all add: table_Serialize_def v assms(5))
  obtain fuel where rd: "reads (Deserialize junk fuel) bs (Some (reload bd 15 ?v))" using bs(3) by (auto simp: loads_def)
  have "reads (get_local junk) [1] (1 :: u8)" using reads_word [where v = "1 :: u8" and junk = junk] by simp
  then obtain b2 where b2: "get_local junk bb1 = Some (1 :: u8, b2)" "bb_wf b2" "bb_content b2 = map Some bs @ []"
    by (metis append_Nil2 readsD b1(2,3))
  obtain b3 where b3: "Deserialize junk fuel b2 = Some (Some (reload bd 15 ?v), b3)" "bb_content b3 = []"
    by (rule readsD [OF rd b2(2,3)])
  let ?w3 = "snd (table_Create fresh 0 t2 (lw_push_table j (reload bd 15 ?v) w2))\<lparr>lw_stack := lw_stack w2\<rparr>"
  have "table_Deserialize junk fuel fresh j t2 w2 bb1 = Some ((Some fresh, ?w3), b3)"
    by (simp add: table_Deserialize_def b2(1) b3(1) table_Create_def lw_push_table_def table_Destroy_def Let_def split: option.split)
  moreover have "lw_val (lw_ref fresh ?w3) ?w3 = reload bd 15 ?v"
    by (simp add: table_Create_def lw_push_table_def table_Destroy_def Let_def lw_val_def lw_ref_def split: option.split)
  moreover have "lw_stack ?w3 = lw_stack w2" by simp
  ultimately show ?thesis using b1(1) b3(2) by blast
qed

definition sample_world :: lua_world where
  "sample_world = \<lparr>lw_stack = [], lw_reg = [3 \<mapsto> Tab 8], lw_tabs = [8 \<mapsto> LTab False False first_table]\<rparr>"

theorem table_transfer_witness:
  "\<exists>bb1 fuel w3 bb2. table_Serialize seq_len (Some 3) sample_world (bb_new 100) = Some bb1
    \<and> table_Deserialize 0 fuel 4 9 None sample_world bb1 = Some ((Some 4, w3), bb2)
    \<and> lw_val (lw_ref 4 w3) w3 = reload seq_len 15 (LTab False False first_table)"
proof -
  note f = first_table_facts [of 13]
  have "lw_reg sample_world 3 = Some (Tab 8)" "lw_tabs sample_world 8 = Some (LTab False False first_table)"
    by (simp_all add: sample_world_def)
  from table_transfer [OF this, of seq_len "bb_new 100" 0 4 9 None sample_world] f
  show ?thesis by (simp add: bb_wf_new) blast
qed

text \<open>
  When the data is not a table, loading a script table takes a value from the stack that belongs to the
  caller, and refers to it from then on when that value is a table.
\<close>

theorem bad_data_pops:
  assumes "bb_wf bb" and "bb_content bb = Some flag # Some ty # rest" and "flag \<noteq> 0"
    and "lvt_of ty \<noteq> LVT_Arr" and "lvt_of ty \<noteq> LVT_Hash"
  shows "\<exists>bb2. table_Deserialize junk fuel fresh j t w bb =
    (case lw_stack w of
       [] \<Rightarrow> None
     | Plain v # st \<Rightarrow> Some ((t, w\<lparr>lw_stack := st\<rparr>), bb2)
     | Tab i # st \<Rightarrow> Some ((Some fresh, snd (table_Create fresh 0 t w)\<lparr>lw_stack := st\<rparr>), bb2))"
proof -
  have rd: "reads (get_local junk) [c] (c :: u8)" for c using reads_word [where v = c and junk = junk] by simp
  have "bb_content bb = map Some [flag] @ Some ty # rest" using assms(2) by simp
  then obtain b1 where b1: "get_local junk bb = Some (flag, b1)" "bb_wf b1" "bb_content b1 = map Some [ty] @ rest"
    using readsD [OF rd assms(1)] by (metis append_Cons append_Nil list.simps(8,9))
  obtain b2 where b2: "get_local junk b1 = Some (ty, b2)" by (rule readsD [OF rd b1(2,3)])
  then have d: "Deserialize junk fuel b1 = Some (None, b2)" using assms(4,5) by (simp add: Deserialize_def)
  have "table_Deserialize junk fuel fresh j t w bb =
    (case lw_stack w of
       [] \<Rightarrow> None
     | Plain v # st \<Rightarrow> Some ((t, w\<lparr>lw_stack := st\<rparr>), b2)
     | Tab i # st \<Rightarrow> Some ((Some fresh, snd (table_Create fresh 0 t w)\<lparr>lw_stack := st\<rparr>), b2))"
    using assms(3)
    by (simp add: table_Deserialize_def b1(1) d table_Create_def table_Destroy_def Let_def split: list.split lua_slot.split option.split)
  then show ?thesis by blast
qed

theorem bad_data_pops_witness:
  "\<exists>bb2. table_Deserialize 0 5 4 9 None (sample_world\<lparr>lw_stack := [Plain (LInt 7)]\<rparr>)
     \<lparr>rd_ptr = 0, wr_ptr = 2, buffer = [Some 1, Some 0], bb_size = 2, growth = 0, attach = False\<rparr>
   = Some ((None, sample_world\<lparr>lw_stack := []\<rparr>), bb2)"
proof -
  let ?b = "\<lparr>rd_ptr = 0, wr_ptr = 2, buffer = [Some 1, Some 0], bb_size = 2, growth = 0, attach = False\<rparr>"
  have b: "bb_wf ?b" "bb_content ?b = Some 1 # Some 0 # []" by (simp_all add: bb_wf_def bb_content_def)
  have l: "lvt_of (0 :: u8) \<noteq> LVT_Arr" "lvt_of (0 :: u8) \<noteq> LVT_Hash" by (simp_all add: lvt_of_def)
  from bad_data_pops [OF b one_neq_zero l, of 0 5 4 9 None "sample_world\<lparr>lw_stack := [Plain (LInt 7)]\<rparr>"]
  show ?thesis by simp
qed

text \<open>
  Asking a script table for its table twice pushes the same table both times, made by the first request
  when there was none.
\<close>

theorem get_table_same:
  assumes "table_GetTable fresh i t w = (t1, w1)" and "lw_stack w1 = sl # st"
  shows "t1 \<noteq> None \<and> st = lw_stack w \<and> table_GetTable fresh2 i2 t1 w1 = (t1, w1\<lparr>lw_stack := sl # sl # st\<rparr>)"
proof (cases t)
  case None
  then show ?thesis using assms(1,2)
    by (auto simp: table_GetTable_def table_Create_def table_Destroy_def lw_push_table_def lw_ref_def Let_def)
next
  case (Some r')
  then show ?thesis using assms(1,2) by (auto simp: table_GetTable_def lw_ref_def)
qed

theorem get_table_same_witness:
  "snd (table_GetTable 6 2 (Some 3) (snd (table_GetTable 5 1 (Some 3) sample_world))) = sample_world\<lparr>lw_stack := [Tab 8, Tab 8]\<rparr>"
proof -
  have g: "table_GetTable 5 1 (Some 3) sample_world = (Some 3, sample_world\<lparr>lw_stack := [Tab 8]\<rparr>)"
    by (simp add: table_GetTable_def sample_world_def lw_ref_def)
  have "lw_stack (sample_world\<lparr>lw_stack := [Tab 8]\<rparr>) = Tab 8 # []" by simp
  from get_table_same [OF g this, of 6 2] g show ?thesis by simp
qed

end
