(* ===== verification/Strings.thy ===== *)
theory Strings
  imports Prelude
begin

text \<open>
  Splitting strings the way \<^verbatim>\<open>strtok_r\<close> does, for the command line (\<^verbatim>\<open>CommandInput\<close>) and the paths of the Lua
  reader (\<^verbatim>\<open>LuaReader\<close>): the separators are a predicate, characters are of any type.
\<close>

text \<open>One call of \<^verbatim>\<open>strtok_r\<close>: the word and where the next call goes on.\<close>

definition strtok_by :: "('a \<Rightarrow> bool) \<Rightarrow> 'a list \<Rightarrow> ('a list \<times> 'a list) option" where
  "strtok_by sep s =
     (let t = dropWhile sep s
      in if t = [] then None
         else Some (takeWhile (\<lambda>c. \<not> sep c) t, drop 1 (dropWhile (\<lambda>c. \<not> sep c) t)))"

lemma strtok_shorter: "strtok_by sep s = Some (w, rest) \<Longrightarrow> length rest < length s"
proof -
  assume a: "strtok_by sep s = Some (w, rest)"
  let ?t = "dropWhile sep s"
  have t: "?t \<noteq> []" "rest = drop 1 (dropWhile (\<lambda>c. \<not> sep c) ?t)"
    using a by (auto simp: strtok_by_def Let_def split: if_splits)
  have "\<not> sep (hd ?t)" using t(1) by (rule hd_dropWhile)
  then have "length (dropWhile (\<lambda>c. \<not> sep c) ?t) < length ?t"
    using t(1) by (cases ?t) (auto simp: less_Suc_eq_le length_dropWhile_le)
  then show ?thesis using t(2) length_dropWhile_le [of sep s] by simp
qed

text \<open>The specification: the maximal parts of the line without separators.\<close>

fun words_by :: "('a \<Rightarrow> bool) \<Rightarrow> 'a list \<Rightarrow> 'a list list" where
  "words_by sep [] = []"
| "words_by sep (c # cs) =
     (if sep c then words_by sep cs
      else (case cs of
              [] \<Rightarrow> [[c]]
            | d # ds \<Rightarrow> if sep d then [c] # words_by sep cs
                        else (case words_by sep cs of w # ws \<Rightarrow> (c # w) # ws | [] \<Rightarrow> [[c]])))"

lemma words_seps: "words_by sep (dropWhile sep s) = words_by sep s"
  by (induction s) auto

lemma words_run:
  "s \<noteq> [] \<Longrightarrow> \<not> sep (hd s) \<Longrightarrow>
   words_by sep s = takeWhile (\<lambda>c. \<not> sep c) s # words_by sep (dropWhile (\<lambda>c. \<not> sep c) s)"
proof (induction s)
  case (Cons c cs)
  then show ?case by (cases cs) auto
qed simp

lemma words_strtok: "words_by sep s = (case strtok_by sep s of None \<Rightarrow> [] | Some (w, rest) \<Rightarrow> w # words_by sep rest)"
proof (cases "dropWhile sep s = []")
  case True
  have "words_by sep s = []" using words_seps [of sep s] unfolding True by simp
  moreover have "strtok_by sep s = None" by (simp only: strtok_by_def Let_def True simp_thms if_True)
  ultimately show ?thesis by simp
next
  case False
  let ?t = "dropWhile sep s"
  let ?u = "dropWhile (\<lambda>c. \<not> sep c) ?t"
  have "\<not> sep (hd ?t)" using False by (rule hd_dropWhile)
  from words_run [where sep = sep, OF False this] have w: "words_by sep s = takeWhile (\<lambda>c. \<not> sep c) ?t # words_by sep ?u"
    by (simp add: words_seps)
  have "words_by sep ?u = words_by sep (drop 1 ?u)"
  proof (cases ?u)
    case Nil
    show ?thesis unfolding Nil by simp
  next
    case (Cons c cs)
    then have "sep c" using hd_dropWhile [of "\<lambda>c. \<not> sep c" ?t] by simp
    then show ?thesis unfolding Cons by simp
  qed
  then show ?thesis using w False by (simp add: strtok_by_def Let_def)
qed

text \<open>The words of a line and the separators between them are part of it.\<close>

lemma words_length: "sum_list (map (\<lambda>w. length w + 1) (words_by sep s)) \<le> length s + 1"
proof (induction "length s" arbitrary: s rule: less_induct)
  case less
  show ?case
  proof (cases "strtok_by sep s")
    case None
    then show ?thesis by (simp add: words_strtok [of sep s])
  next
    case (Some x)
    obtain w rest where x: "x = (w, rest)" by (rule prod.exhaust)
    let ?t = "dropWhile sep s"
    let ?u = "dropWhile (\<lambda>c. \<not> sep c) ?t"
    have w: "w = takeWhile (\<lambda>c. \<not> sep c) ?t" "rest = drop 1 ?u"
      using Some x by (auto simp: strtok_by_def Let_def split: if_splits)
    have "length w + length ?u = length ?t" unfolding w(1) by (metis length_append takeWhile_dropWhile_id)
    then have len: "length w + length ?u \<le> length s" using length_dropWhile_le [of sep s] by simp
    have ws: "words_by sep s = w # words_by sep rest" using Some x by (simp add: words_strtok [of sep s])
    show ?thesis
    proof (cases "?u = []")
      case True
      have "rest = []" unfolding w(2) True by simp
      then have "words_by sep rest = []" by simp
      then show ?thesis using ws len by simp
    next
      case False
      then have "length rest + 1 = length ?u" using w(2) by (cases ?u) auto
      moreover have "sum_list (map (\<lambda>w. length w + 1) (words_by sep rest)) \<le> length rest + 1"
        using Some x strtok_shorter by (intro less) auto
      ultimately show ?thesis using ws len by simp
    qed
  qed
qed

lemma words_part: "w \<in> set (words_by sep s) \<Longrightarrow> set w \<subseteq> set s"
proof (induction "length s" arbitrary: s rule: less_induct)
  case less
  show ?case
  proof (cases "strtok_by sep s")
    case None
    then show ?thesis using less.prems by (simp add: words_strtok [of sep s])
  next
    case (Some x)
    obtain v rest where x: "x = (v, rest)" by (rule prod.exhaust)
    let ?t = "dropWhile sep s"
    have v: "v = takeWhile (\<lambda>c. \<not> sep c) ?t" "rest = drop 1 (dropWhile (\<lambda>c. \<not> sep c) ?t)"
      using Some x by (auto simp: strtok_by_def Let_def split: if_splits)
    have s1: "set v \<subseteq> set s" unfolding v(1) using set_takeWhileD set_dropWhileD by fast
    have s2: "set rest \<subseteq> set s" unfolding v(2) by (meson in_set_dropD set_dropWhileD subsetI)
    have "w = v \<or> w \<in> set (words_by sep rest)" using less.prems Some x by (simp add: words_strtok [of sep s])
    then show ?thesis
    proof
      assume "w \<in> set (words_by sep rest)"
      then have "set w \<subseteq> set rest" using Some x by (intro less.hyps strtok_shorter [of sep s v]) auto
      then show ?thesis using s2 by blast
    qed (use s1 in simp)
  qed
qed

end
