(* ===== verification/LuaReader.thy ===== *)
theory LuaReader
  imports LuaTable Strings
begin

text \<open>
  Reading Lua tables from C++ (\<^verbatim>\<open>libcore/include/LuaReader.h\<close>, \<^verbatim>\<open>libcore/src/LuaReader.cpp\<close>).

  The Lua stack is a list with its top first; \<open>None\<close> is an access that the Lua manual forbids (popping an
  empty stack, indexing what is no table) or a null string.  How Lua converts values to numbers and strings
  is a parameter.  An integer key is its value as a Lua integer; strings are lists of bytes.
\<close>

section \<open>The stack\<close>

type_synonym lua_stack = "lua_val list"

record lua_conv =
  lc_number :: "lua_val \<Rightarrow> u64 option"
  lc_integer :: "lua_val \<Rightarrow> u64 option"
  lc_string :: "lua_val \<Rightarrow> byte list option"

fun lua_toboolean :: "lua_val \<Rightarrow> bool" where
  "lua_toboolean LNil = False"
| "lua_toboolean (LBool b) = b"
| "lua_toboolean v = True"

fun lua_pop1 :: "lua_stack \<Rightarrow> lua_stack option" where
  "lua_pop1 [] = None"
| "lua_pop1 (v # st) = Some st"

text \<open>\<^verbatim>\<open>lua_rawgeti(L, -1, idx)\<close>, or a pushed string and \<^verbatim>\<open>lua_rawget(L, -2)\<close>.\<close>

fun push_field :: "lua_val \<Rightarrow> lua_stack \<Rightarrow> lua_stack option" where
  "push_field k (LTab l p es # st) = Some (lua_rawget es k # LTab l p es # st)"
| "push_field k st = None"

text \<open>A \<^verbatim>\<open>std::string\<close> made from a C string ends at the first zero.\<close>

definition c_bytes :: "byte list \<Rightarrow> byte list" where
  "c_bytes = takeWhile (\<lambda>b. b \<noteq> 0)"

definition int_key :: "int \<Rightarrow> lua_val" where "int_key i = LInt (word_of_int i)"
definition str_key :: "byte list \<Rightarrow> lua_val" where "str_key s = LStr (c_bytes s)"

section \<open>The reader\<close>

text \<open>A state is a number; which states are open is part of the program's state.\<close>

record lua_reader =
  rd_L :: "nat option"
  rd_attach :: bool

definition reader_new :: lua_reader where
  "reader_new = \<lparr>rd_L = None, rd_attach = False\<rparr>"

definition reader_Create :: "nat \<Rightarrow> lua_reader \<Rightarrow> nat list \<Rightarrow> lua_reader \<times> nat list" where
  "reader_Create l r opened = (r\<lparr>rd_L := Some l\<rparr>, l # opened)"

definition reader_Attach :: "nat \<Rightarrow> lua_reader \<Rightarrow> lua_reader" where
  "reader_Attach l r = r\<lparr>rd_L := Some l, rd_attach := True\<rparr>"

text \<open>\<^verbatim>\<open>lua_close\<close> of no state, or of one that is closed already, is undefined.\<close>

definition reader_Close :: "lua_reader \<Rightarrow> nat list \<Rightarrow> nat list option" where
  "reader_Close r opened =
     (if rd_attach r then Some opened
      else case rd_L r of
             None \<Rightarrow> None
           | Some l \<Rightarrow> if l \<in> set opened then Some (remove1 l opened) else None)"

definition reader_destroy :: "lua_reader \<Rightarrow> nat list \<Rightarrow> nat list option" where
  "reader_destroy r opened = reader_Close r opened"

text \<open>\<^verbatim>\<open>luaL_dofile\<close>: the chunk leaves its results, or the error, on the stack.\<close>

definition DoFile :: "(byte list \<Rightarrow> lua_val + lua_val list) \<Rightarrow> byte list \<Rightarrow> lua_stack \<Rightarrow> (bool \<times> lua_stack) option" where
  "DoFile dofile fname st =
     (case dofile fname of
        Inl err \<Rightarrow> map_option (Pair False) (lua_pop1 (err # st))
      | Inr results \<Rightarrow> Some (True, rev results @ st))"

definition EnterTable_at :: "lua_val \<Rightarrow> lua_stack \<Rightarrow> (bool \<times> lua_stack) option" where
  "EnterTable_at k st = do {
     st1 \<leftarrow> push_field k st;
     if \<not> is_table (hd st1) then map_option (Pair False) (lua_pop1 st1) else Some (True, st1)
   }"

definition EnterTable_idx :: "int \<Rightarrow> lua_stack \<Rightarrow> (bool \<times> lua_stack) option" where
  "EnterTable_idx i = EnterTable_at (int_key i)"

definition EnterTable_key :: "byte list \<Rightarrow> lua_stack \<Rightarrow> (bool \<times> lua_stack) option" where
  "EnterTable_key key = EnterTable_at (str_key key)"

definition EnterGlobalTable :: "lua_val \<Rightarrow> lua_stack \<Rightarrow> lua_stack" where
  "EnterGlobalTable globals st = globals # st"

definition LeaveTable :: "lua_stack \<Rightarrow> lua_stack option" where
  "LeaveTable st = lua_pop1 st"

text \<open>The getters: push the field, convert it, pop it.\<close>

definition get_field :: "lua_val \<Rightarrow> (lua_val \<Rightarrow> 'r option) \<Rightarrow> lua_stack \<Rightarrow> ('r \<times> lua_stack) option" where
  "get_field k f st = do {
     st1 \<leftarrow> push_field k st;
     r \<leftarrow> f (hd st1);
     st2 \<leftarrow> lua_pop1 st1;
     Some (r, st2)
   }"

text \<open>The value and \<^verbatim>\<open>isnum\<close>; what is no number reads as 0.\<close>

definition num_of :: "u64 option \<Rightarrow> u64 \<times> bool" where
  "num_of r = (case r of Some w \<Rightarrow> (w, True) | None \<Rightarrow> (0, False))"

definition GetNumber_idx :: "lua_conv \<Rightarrow> int \<Rightarrow> lua_stack \<Rightarrow> ((u64 \<times> bool) \<times> lua_stack) option" where
  "GetNumber_idx c i = get_field (int_key i) (\<lambda>v. Some (num_of (lc_number c v)))"

definition GetNumber_key :: "lua_conv \<Rightarrow> byte list \<Rightarrow> lua_stack \<Rightarrow> ((u64 \<times> bool) \<times> lua_stack) option" where
  "GetNumber_key c key = get_field (str_key key) (\<lambda>v. Some (num_of (lc_number c v)))"

definition GetBoolean_idx :: "int \<Rightarrow> lua_stack \<Rightarrow> (bool \<times> lua_stack) option" where
  "GetBoolean_idx i = get_field (int_key i) (\<lambda>v. Some (lua_toboolean v))"

definition GetBoolean_key :: "byte list \<Rightarrow> lua_stack \<Rightarrow> (bool \<times> lua_stack) option" where
  "GetBoolean_key key = get_field (str_key key) (\<lambda>v. Some (lua_toboolean v))"

definition GetInteger_idx :: "lua_conv \<Rightarrow> int \<Rightarrow> lua_stack \<Rightarrow> ((u64 \<times> bool) \<times> lua_stack) option" where
  "GetInteger_idx c i = get_field (int_key i) (\<lambda>v. Some (num_of (lc_integer c v)))"

definition GetInteger_key :: "lua_conv \<Rightarrow> byte list \<Rightarrow> lua_stack \<Rightarrow> ((u64 \<times> bool) \<times> lua_stack) option" where
  "GetInteger_key c key = get_field (str_key key) (\<lambda>v. Some (num_of (lc_integer c v)))"

text \<open>\<^verbatim>\<open>lua_tostring\<close> gives a null pointer for what is no string, from which no \<^verbatim>\<open>std::string\<close> can be made.\<close>

definition GetString_idx :: "lua_conv \<Rightarrow> int \<Rightarrow> lua_stack \<Rightarrow> (byte list \<times> lua_stack) option" where
  "GetString_idx c i = get_field (int_key i) (\<lambda>v. map_option c_bytes (lc_string c v))"

definition GetString_key :: "lua_conv \<Rightarrow> byte list \<Rightarrow> lua_stack \<Rightarrow> (byte list \<times> lua_stack) option" where
  "GetString_key c key = get_field (str_key key) (\<lambda>v. map_option c_bytes (lc_string c v))"

section \<open>Paths\<close>

definition is_dot :: "byte \<Rightarrow> bool" where "is_dot b \<longleftrightarrow> b = 0x2E"

text \<open>The loop that collects the names; the rest that \<^verbatim>\<open>strtok_s\<close> works on is passed along.\<close>

function split_dirs :: "byte list \<Rightarrow> byte list list" where
  "split_dirs s = (case strtok_by is_dot s of None \<Rightarrow> [] | Some (w, rest) \<Rightarrow> w # split_dirs rest)"
  by pat_completeness auto
termination
  by (relation "measure length") (auto dest: strtok_shorter)

declare split_dirs.simps [simp del]

text \<open>The bound of the loop is the number of names in 8 bits.\<close>

definition enter_bound :: "nat \<Rightarrow> nat" where
  "enter_bound n = nat (sint (word_of_nat n :: 8 word) - 1)"

fun enter_dirs :: "byte list list \<Rightarrow> u8 \<Rightarrow> lua_stack \<Rightarrow> (bool \<times> u8 \<times> lua_stack) option" where
  "enter_dirs [] cnt st = Some (True, cnt, st)"
| "enter_dirs (d # ds) cnt st = do {
     (ok, st1) \<leftarrow> EnterTable_key d st;
     if ok then enter_dirs ds (cnt + 1) st1 else Some (False, cnt, st1)
   }"

text \<open>\<^verbatim>\<open>while (cnt--) LeaveTable();\<close> leaves 255 in the counter.\<close>

function leave_loop :: "u8 \<Rightarrow> lua_stack \<Rightarrow> (u8 \<times> lua_stack) option" where
  "leave_loop cnt st =
     (if cnt = 0 then Some (cnt - 1, st)
      else do { st1 \<leftarrow> LeaveTable st; leave_loop (cnt - 1) st1 })"
  by pat_completeness auto
termination
  by (relation "measure (\<lambda>(cnt, st). unat cnt)") (auto simp: measure_unat)

declare leave_loop.simps [simp del]

definition get_deep :: "(byte list \<Rightarrow> lua_stack \<Rightarrow> ('r \<times> lua_stack) option) \<Rightarrow> 'r \<Rightarrow> byte list \<Rightarrow> lua_stack \<Rightarrow> ('r \<times> lua_stack) option" where
  "get_deep get ret0 expr st = do {
     let dirs = split_dirs (c_bytes expr);
     if dirs = [] then None
     else do {
       (enter, cnt, st1) \<leftarrow> enter_dirs (take (enter_bound (length dirs)) dirs) 0 st;
       (ret, cnt2, st2) \<leftarrow>
         (if enter then do { (r, st2) \<leftarrow> get (last dirs) st1; Some (r, cnt, st2) }
          else if cnt \<noteq> 0 then do { (cnt2, st2) \<leftarrow> leave_loop cnt st1; Some (ret0, cnt2, st2) }
          else Some (ret0, cnt, st1));
       (cnt3, st3) \<leftarrow> leave_loop cnt2 st2;
       Some (ret, st3)
     }
   }"

definition GetNumberDeep :: "lua_conv \<Rightarrow> byte list \<Rightarrow> lua_stack \<Rightarrow> (u64 \<times> lua_stack) option" where
  "GetNumberDeep c = get_deep (\<lambda>k st. map_option (apfst fst) (GetNumber_key c k st)) 0"

definition GetStringDeep :: "lua_conv \<Rightarrow> byte list \<Rightarrow> lua_stack \<Rightarrow> (byte list \<times> lua_stack) option" where
  "GetStringDeep c = get_deep (GetString_key c) []"

section \<open>Properties\<close>

text \<open>What the functions of a path do, without the stack.\<close>

lemma split_dirs_words: "split_dirs s = words_by is_dot s"
proof (induction s rule: split_dirs.induct)
  case (1 s)
  show ?case by (subst split_dirs.simps, subst words_strtok) (auto simp: 1 split: option.splits)
qed

lemma unat_small: "n < 256 \<Longrightarrow> unat (word_of_nat n :: u8) = n"
  by (simp add: unat_of_nat)

lemma leave_loop_eq:
  "n < 256 \<Longrightarrow> leave_loop (word_of_nat n) st = (if n \<le> length st then Some (255, drop n st) else None)"
proof (induction n arbitrary: st)
  case 0
  then show ?case by (simp add: leave_loop.simps)
next
  case (Suc n)
  have "(word_of_nat (Suc n) :: u8) \<noteq> 0"
    using unat_small [OF Suc.prems] by (metis Suc_neq_Zero unsigned_0)
  moreover have "(word_of_nat (Suc n) :: u8) - 1 = word_of_nat n" by simp
  ultimately show ?case using Suc by (subst leave_loop.simps) (cases st, auto simp: LeaveTable_def)
qed

lemma enter_bound_eq: "0 < n \<Longrightarrow> n < 128 \<Longrightarrow> enter_bound n = n - 1"
  by (simp add: enter_bound_def signed_of_nat signed_take_bit_int_eq_self nat_diff_distrib)

text \<open>The field a name stands for, and the tables on the way along a path, the last one first.\<close>

fun lua_field :: "lua_val \<Rightarrow> byte list \<Rightarrow> lua_val" where
  "lua_field (LTab l p es) d = lua_rawget es (str_key d)"
| "lua_field v d = LNil"

fun trail :: "lua_val \<Rightarrow> byte list list \<Rightarrow> lua_val list" where
  "trail v [] = []"
| "trail v (d # ds) = (let w = lua_field v d in if is_table w then trail w ds @ [w] else [])"

lemma push_field_table: "is_table v \<Longrightarrow> push_field (str_key d) (v # st) = Some (lua_field v d # v # st)"
  by (cases v) auto

lemma push_field_int: "push_field k (LTab l p es # st) = Some (lua_rawget es k # LTab l p es # st)"
  by simp

lemma EnterTable_key_eq:
  "is_table v \<Longrightarrow> EnterTable_key d (v # st) =
     Some (if is_table (lua_field v d) then (True, lua_field v d # v # st) else (False, v # st))"
  by (simp add: EnterTable_key_def EnterTable_at_def push_field_table)

lemma length_trail: "length (trail v ds) \<le> length ds"
  by (induction ds arbitrary: v) (auto simp: Let_def)

lemma enter_dirs_eq:
  "is_table v \<Longrightarrow> enter_dirs ds cnt (v # st) =
     Some (length (trail v ds) = length ds, cnt + word_of_nat (length (trail v ds)), trail v ds @ v # st)"
proof (induction ds arbitrary: v cnt st)
  case (Cons d ds)
  then show ?case by (simp add: EnterTable_key_eq Let_def add.assoc)
qed simp

lemma trail_full: "length (trail v ds) = length ds \<Longrightarrow> hd (trail v ds @ [v]) = foldl lua_field v ds"
proof (induction ds arbitrary: v)
  case (Cons d ds)
  then show ?case using Cons.IH [of "lua_field v d"]
    by (cases "trail (lua_field v d) ds") (auto simp: Let_def split: if_splits)
qed simp

lemma trail_table: "is_table v \<Longrightarrow> is_table (hd (trail v ds @ [v]))"
proof (induction ds arbitrary: v)
  case (Cons d ds)
  then show ?case using Cons.IH [of "lua_field v d"]
    by (cases "trail (lua_field v d) ds") (auto simp: Let_def)
qed simp

lemma trail_full_iff:
  "is_table v \<Longrightarrow> (length (trail v ds) = length ds) = (\<forall>n\<le>length ds. is_table (foldl lua_field v (take n ds)))"
proof (induction ds arbitrary: v)
  case (Cons d ds)
  have "(\<forall>n\<le>length (d # ds). is_table (foldl lua_field v (take n (d # ds)))) =
      (\<forall>n\<le>length ds. is_table (foldl lua_field (lua_field v d) (take n ds)))"
    using Cons.prems by (auto simp: All_less_Suc2 simp flip: less_Suc_eq_le)
  moreover have "is_table (lua_field v d)" if "\<forall>n\<le>length ds. is_table (foldl lua_field (lua_field v d) (take n ds))"
    using that by (metis foldl_Nil take_0 zero_le)
  ultimately show ?case using Cons.IH [of "lua_field v d"] by (auto simp: Let_def)
qed simp

lemma trail_path:
  assumes "is_table v" and "dirs \<noteq> []"
  shows "(length (trail v (butlast dirs)) = length (butlast dirs)) = (\<forall>n<length dirs. is_table (foldl lua_field v (take n dirs)))"
proof -
  have len: "n \<le> length (butlast dirs) \<longleftrightarrow> n < length dirs" for n using assms(2) by (cases dirs) auto
  have tk: "n < length dirs \<Longrightarrow> take n (butlast dirs) = take n dirs" for n by (simp add: take_butlast)
  show ?thesis unfolding trail_full_iff [OF assms(1)] len using tk by auto
qed

text \<open>
  What \<^verbatim>\<open>GetNumberDeep\<close> and \<^verbatim>\<open>GetStringDeep\<close> rely on: a getter that converts a field of the table on top and
  leaves the stack as it was.
\<close>

locale field_getter =
  fixes get :: "byte list \<Rightarrow> lua_stack \<Rightarrow> ('r \<times> lua_stack) option"
    and f :: "lua_val \<Rightarrow> 'r option"
  assumes get_field: "is_table v \<Longrightarrow> get d (v # st) = map_option (\<lambda>r. (r, v # st)) (f (lua_field v d))"
begin

lemma get_deep_eq:
  assumes dirs: "dirs = words_by is_dot (c_bytes expr)" "dirs \<noteq> []" "length dirs < 128"
    and v: "is_table v"
  shows "get_deep get r0 expr (v # st) =
    (let t = trail v (butlast dirs)
     in if length t = length (butlast dirs) then map_option (\<lambda>r. (r, v # st)) (f (foldl lua_field v dirs))
        else if t = [] then Some (r0, v # st)
        else if 255 \<le> length (v # st) then Some (r0, drop 255 (v # st)) else None)"
proof -
  let ?ps = "butlast dirs" and ?t = "trail v (butlast dirs)"
  have ps: "take (enter_bound (length dirs)) dirs = ?ps"
    using dirs(2,3) by (simp add: enter_bound_eq butlast_conv_take)
  have n: "length ?t < 256" "length ?t < 255"
    using length_trail [of v ?ps] dirs(3) by simp_all
  have e: "enter_dirs ?ps 0 (v # st) = Some (length ?t = length ?ps, word_of_nat (length ?t), ?t @ v # st)"
    using enter_dirs_eq [OF v, of ?ps 0] by simp
  have leave: "leave_loop (word_of_nat (length ?t)) (?t @ v # st) = Some (255, v # st)"
    using leave_loop_eq [OF n(1), of "?t @ v # st"] by simp
  have leave255: "leave_loop 255 (v # st) = (if 255 \<le> length (v # st) then Some (255, drop 255 (v # st)) else None)"
    using leave_loop_eq [of 255 "v # st"] by simp
  have zero: "(word_of_nat (length ?t) = (0 :: u8)) = (?t = [])"
    by (simp flip: unat_0_iff add: unat_small [OF n(1)])
  have last: "get (last dirs) (?t @ v # st) = map_option (\<lambda>r. (r, ?t @ v # st)) (f (foldl lua_field v dirs))"
    if full: "length ?t = length ?ps"
  proof -
    obtain w rest where w: "?t @ v # st = w # rest" "w = hd (?t @ [v])" by (cases ?t) auto
    have "foldl lua_field v dirs = lua_field (foldl lua_field v ?ps) (last dirs)"
      using dirs(2) by (metis append_butlast_last_id foldl_append foldl_Cons foldl_Nil)
    then have "foldl lua_field v dirs = lua_field w (last dirs)" using trail_full [OF full] w(2) by simp
    moreover have "is_table w" using trail_table [OF v] w(2) by simp
    ultimately show ?thesis unfolding w(1) by (simp add: get_field)
  qed
  have d: "split_dirs (c_bytes expr) = dirs" using dirs(1) by (simp add: split_dirs_words)
  show ?thesis
  proof (cases "length ?t = length ?ps")
    case True
    then show ?thesis using last [OF True] leave dirs(2)
      by (cases "f (foldl lua_field v dirs)") (simp_all add: get_deep_def d ps e Let_def)
  next
    case False
    show ?thesis
    proof (cases "?t = []")
      case True
      then show ?thesis using False leave dirs(2) e by (simp add: get_deep_def d ps Let_def leave_loop.simps)
    next
      case ne: False
      then show ?thesis using False leave leave255 dirs(2) zero by (simp add: get_deep_def d ps e Let_def)
    qed
  qed
qed

lemma deep_found:
  assumes "dirs = words_by is_dot (c_bytes expr)" and "dirs \<noteq> []" and "length dirs < 128"
    and "\<forall>n<length dirs. is_table (foldl lua_field v (take n dirs))"
  shows "get_deep get r0 expr (v # st) = map_option (\<lambda>r. (r, v # st)) (f (foldl lua_field v dirs))"
proof -
  have v: "is_table v" using assms(2,4) by (metis foldl_Nil length_greater_0_conv take_0)
  show ?thesis using get_deep_eq [OF assms(1-3) v] trail_path [OF v assms(2)] assms(4) by (simp add: Let_def)
qed

lemma deep_broken:
  assumes "dirs = words_by is_dot (c_bytes expr)" and "length dirs < 128"
    and "is_table v" and "is_table (lua_field v (hd dirs))"
    and "n < length dirs" and "\<not> is_table (foldl lua_field v (take n dirs))"
  shows "get_deep get r0 expr (v # st) = (if 255 \<le> length (v # st) then Some (r0, drop 255 (v # st)) else None)"
proof -
  have ne: "dirs \<noteq> []" using assms(5) by auto
  have t: "length (trail v (butlast dirs)) \<noteq> length (butlast dirs)"
    using trail_path [OF assms(3) ne] assms(5,6) by blast
  obtain d ds where d: "dirs = d # ds" using ne by (cases dirs) auto
  have "n \<noteq> 0" using assms(3,6) by (metis foldl_Nil take_0)
  moreover have "n \<noteq> 1" using assms(4,6) d by auto
  ultimately have "ds \<noteq> []" using assms(5) d by (cases ds) auto
  then have "trail v (butlast dirs) \<noteq> []" using assms(4) d by (simp add: Let_def)
  then show ?thesis using get_deep_eq [OF assms(1) ne assms(2,3)] t by (simp add: Let_def)
qed

end

interpretation number_getter:
  field_getter "\<lambda>k st. map_option (apfst fst) (GetNumber_key c k st)" "\<lambda>v. Some (fst (num_of (lc_number c v)))" for c
  by unfold_locales (simp add: GetNumber_key_def get_field_def push_field_table)

interpretation string_getter: field_getter "GetString_key c" "\<lambda>v. map_option c_bytes (lc_string c v)" for c
  by unfold_locales (auto simp: GetString_key_def get_field_def push_field_table map_option_case split: option.split)

text \<open>
  C28. Looking up a path of at most 127 names whose inner names are all tables gives the number at its end,
  0 when there is none, and leaves the Lua stack as it was.
\<close>

theorem deep_lookup:
  assumes "dirs = words_by is_dot (c_bytes expr)" and "dirs \<noteq> []" and "length dirs < 128"
    and "\<forall>n<length dirs. is_table (foldl lua_field v (take n dirs))"
  shows "GetNumberDeep c expr (v # st) = Some (fst (num_of (lc_number c (foldl lua_field v dirs))), v # st)"
  unfolding GetNumberDeep_def using number_getter.deep_found [OF assms] by simp

definition sample_conv :: lua_conv where
  "sample_conv = \<lparr>lc_number = (\<lambda>v. case v of LFlt d \<Rightarrow> Some d | _ \<Rightarrow> None), lc_integer = (\<lambda>v. case v of LInt i \<Rightarrow> Some i | _ \<Rightarrow> None),
     lc_string = (\<lambda>v. case v of LStr s \<Rightarrow> Some s | _ \<Rightarrow> None)\<rparr>"

definition sample_table :: lua_val where
  "sample_table = LTab False False [(LStr [0x61], LTab False False [(LStr [0x62], LFlt 7)])]"

theorem deep_lookup_witness:
  "GetNumberDeep sample_conv [0x61, 0x2E, 0x62] [sample_table] = Some (7, [sample_table])"
proof -
  have "[[0x61], [0x62]] = words_by is_dot (c_bytes [0x61, 0x2E, 0x62 :: byte])" by (simp add: c_bytes_def is_dot_def)
  from deep_lookup [OF this, of sample_table sample_conv "[]"]
  show ?thesis
    by (simp add: All_less_Suc2 sample_table_def sample_conv_def lua_rawget_def str_key_def c_bytes_def num_of_def)
qed

text \<open>
  A path that breaks after its first table was entered leaves the tables it entered and then goes on to
  pop 255 further values, which belong to the caller; with fewer on the stack this is undefined behaviour.
\<close>

theorem deep_failure:
  assumes "dirs = words_by is_dot (c_bytes expr)" and "length dirs < 128"
    and "is_table v" and "is_table (lua_field v (hd dirs))"
    and "n < length dirs" and "\<not> is_table (foldl lua_field v (take n dirs))"
  shows "GetNumberDeep c expr (v # st) = (if 255 \<le> length (v # st) then Some (0, drop 255 (v # st)) else None)"
  unfolding GetNumberDeep_def by (rule number_getter.deep_broken [OF assms])

theorem deep_failure_witness:
  "GetNumberDeep sample_conv [0x61, 0x2E, 0x63, 0x2E, 0x62] [sample_table] = None"
proof -
  have "[[0x61], [0x63], [0x62]] = words_by is_dot (c_bytes [0x61, 0x2E, 0x63, 0x2E, 0x62 :: byte])"
    by (simp add: c_bytes_def is_dot_def)
  from deep_failure [OF this, of sample_table "Suc (Suc 0)" sample_conv "[]"]
  show ?thesis
    by (simp add: sample_table_def lua_rawget_def str_key_def c_bytes_def)
qed

text \<open>
  A reader that made its state and was closed destroys it a second time when it goes out of scope, and one
  that never had a state closes a null pointer.
\<close>

theorem reader_double_close:
  assumes "l \<notin> set opened"
  shows "reader_destroy reader_new opened = None \<and>
    (case reader_Create l reader_new opened of (r, op1) \<Rightarrow>
       reader_destroy r op1 = Some opened \<and>
       (\<forall>op2. reader_Close r op1 = Some op2 \<longrightarrow> op2 = opened \<and> reader_destroy r op2 = None))"
  using assms by (simp add: reader_new_def reader_Create_def reader_destroy_def reader_Close_def)

theorem reader_double_close_witness:
  "reader_Close (fst (reader_Create 1 reader_new [])) (snd (reader_Create 1 reader_new [])) = Some []
    \<and> reader_destroy (fst (reader_Create 1 reader_new [])) [] = None"
proof -
  have n: "(1 :: nat) \<notin> set []" by simp
  have c: "reader_Close (fst (reader_Create 1 reader_new [])) (snd (reader_Create 1 reader_new [])) = Some []"
    by (simp add: reader_Create_def reader_Close_def reader_new_def)
  then show ?thesis using reader_double_close [OF n] by (auto split: prod.splits)
qed

end
