(* ===== verification/LuaEngine.thy ===== *)
theory LuaEngine
  imports LuaReader
begin

text \<open>
  Running Lua (\<^verbatim>\<open>libcore/include/LuaEngine.h\<close>, \<^verbatim>\<open>libcore/src/LuaEngine.cpp\<close>, \<^verbatim>\<open>libcore/src/LuaHelper.cpp\<close>).

  The state is the Lua stack, top first, and the remembered function name.  Functions are values
  \<open>LOther\<close>; loading a chunk and calling a function are parameters (an error value or the results), as are the
  global variables, which are read without metamethods.  \<open>None\<close> is undefined behaviour or a Lua error outside a
  protected call, which ends the process.  The log output is left out.
\<close>

section \<open>The stack\<close>

type_synonym lua_result = "lua_val + lua_val list"

definition MULTRET :: int where "MULTRET = -1"

text \<open>The results as the caller asked for them.\<close>

definition adjust_results :: "int \<Rightarrow> lua_val list \<Rightarrow> lua_val list" where
  "adjust_results n rs = (if n = MULTRET then rs else take (nat n) (rs @ replicate (nat n) LNil))"

text \<open>\<^verbatim>\<open>lua_remove\<close> with a negative index.\<close>

definition lua_remove :: "int \<Rightarrow> lua_stack \<Rightarrow> lua_stack option" where
  "lua_remove idx st =
     (let k = nat (- idx) in if idx < 0 \<and> k \<le> length st then Some (take (k - 1) st @ drop k st) else None)"

fun lua_pops :: "nat \<Rightarrow> lua_stack \<Rightarrow> lua_stack option" where
  "lua_pops 0 st = Some st"
| "lua_pops (Suc n) st = do { st1 \<leftarrow> lua_pop1 st; lua_pops n st1 }"

text \<open>\<^verbatim>\<open>lua_replace(L, -2)\<close>.\<close>

fun lua_replace2 :: "lua_stack \<Rightarrow> lua_stack option" where
  "lua_replace2 (a # b # st) = Some (a # st)"
| "lua_replace2 st = None"

text \<open>\<^verbatim>\<open>lua_pcall\<close>: the arguments and the function are replaced by the results or the error; 0 is success.\<close>

definition lua_pcall :: "(lua_val \<Rightarrow> lua_val list \<Rightarrow> lua_result) \<Rightarrow> nat \<Rightarrow> int \<Rightarrow> lua_stack \<Rightarrow> (bool \<times> lua_stack) option" where
  "lua_pcall call narg nresult st =
     (case drop narg st of
        [] \<Rightarrow> None
      | f # rest \<Rightarrow>
          (case call f (rev (take narg st)) of
             Inl err \<Rightarrow> Some (False, err # rest)
           | Inr rs \<Rightarrow> Some (True, rev (adjust_results nresult rs) @ rest)))"

text \<open>The function and the arguments that such a call is given.\<close>

definition pcall_given :: "nat \<Rightarrow> lua_stack \<Rightarrow> (lua_val \<times> lua_val list) option" where
  "pcall_given narg st = (case drop narg st of [] \<Rightarrow> None | f # rest \<Rightarrow> Some (f, rev (take narg st)))"

lemma lua_pcall_given:
  "lua_pcall call narg nresult st =
     (case pcall_given narg st of
        None \<Rightarrow> None
      | Some (f, args) \<Rightarrow>
          (case call f args of
             Inl err \<Rightarrow> Some (False, err # drop (Suc narg) st)
           | Inr rs \<Rightarrow> Some (True, rev (adjust_results nresult rs) @ drop (Suc narg) st)))"
proof (cases "drop narg st")
  case (Cons f rest)
  then have "drop (Suc narg) st = rest" by (metis drop_Suc list.sel(3) tl_drop)
  then show ?thesis unfolding lua_pcall_def pcall_given_def Cons by (simp split: sum.split)
qed (simp add: lua_pcall_def pcall_given_def)

section \<open>The engine\<close>

text \<open>The pointer to the function name: \<open>None\<close> before its first assignment, \<open>Some None\<close> when it is null.\<close>

record lua_engine =
  eg_stack :: lua_stack
  eg_fn :: "byte list option option"

definition engine_Init :: lua_engine where
  "engine_Init = \<lparr>eg_stack = [], eg_fn = None\<rparr>"

text \<open>The error handler of the engine, as a value.\<close>

definition on_lua_error :: lua_val where "on_lua_error = LOther 0"

text \<open>The handler writes the message into a buffer of 1024 bytes, then replaces it by the trace.\<close>

definition error_report :: "byte list" where
  "error_report = [0x0A, 0x65, 0x72, 0x72, 0x6F, 0x72, 0x20, 0x72, 0x65, 0x70, 0x6F, 0x72, 0x74, 0x3A, 0x0A, 0x09]"

definition run_on_lua_error :: "lua_conv \<Rightarrow> (byte list \<Rightarrow> lua_val) \<Rightarrow> lua_stack \<Rightarrow> lua_stack option" where
  "run_on_lua_error c traceback st = do {
     v \<leftarrow> (case st of [] \<Rightarrow> None | v # rest \<Rightarrow> Some v);
     msg \<leftarrow> map_option c_bytes (lc_string c v);
     let err = error_report @ msg;
     if length err < 1024 then lua_replace2 (traceback err # st) else None
   }"

text \<open>The name is read to choose the message.\<close>

definition emit_error :: "lua_engine \<Rightarrow> lua_engine option" where
  "emit_error s = do {
     fname \<leftarrow> eg_fn s;
     st \<leftarrow> lua_pop1 (eg_stack s);
     Some (s\<lparr>eg_stack := st\<rparr>)
   }"

text \<open>\<^verbatim>\<open>ExecFile\<close> and \<^verbatim>\<open>ExecString\<close>, with what \<^verbatim>\<open>luaL_loadfile\<close> and \<^verbatim>\<open>luaL_loadstring\<close> give.\<close>

definition exec_loaded :: "(lua_val \<Rightarrow> lua_val list \<Rightarrow> lua_result) \<Rightarrow> lua_val + lua_val \<Rightarrow> lua_engine \<Rightarrow> (bool \<times> lua_engine) option" where
  "exec_loaded call loaded s = do {
     let st1 = on_lua_error # eg_stack s;
     (ok, st2) \<leftarrow> (case loaded of
                    Inl err \<Rightarrow> Some (False, err # st1)
                  | Inr f \<Rightarrow> lua_pcall call 0 MULTRET (f # st1));
     if ok then map_option (\<lambda>st3. (True, s\<lparr>eg_stack := st3\<rparr>)) (lua_remove (-1) st2)
     else do {
       s3 \<leftarrow> emit_error (s\<lparr>eg_stack := st2\<rparr>);
       st4 \<leftarrow> lua_pop1 (eg_stack s3);
       Some (False, s3\<lparr>eg_stack := st4\<rparr>)
     }
   }"

definition ExecFile :: "(lua_val \<Rightarrow> lua_val list \<Rightarrow> lua_result) \<Rightarrow> (byte list \<Rightarrow> lua_val + lua_val) \<Rightarrow> byte list \<Rightarrow> lua_engine \<Rightarrow>
    (bool \<times> lua_engine) option" where
  "ExecFile call loadfile fname s = exec_loaded call (loadfile fname) s"

definition ExecString :: "(lua_val \<Rightarrow> lua_val list \<Rightarrow> lua_result) \<Rightarrow> (byte list \<Rightarrow> lua_val + lua_val) \<Rightarrow> byte list \<Rightarrow> lua_engine \<Rightarrow>
    (bool \<times> lua_engine) option" where
  "ExecString call loadstring str s = exec_loaded call (loadstring str) s"

text \<open>\<^verbatim>\<open>zcg\<close>, \<^verbatim>\<open>dump_locals\<close>, \<^verbatim>\<open>debug\<close> and \<^verbatim>\<open>traceback\<close>.\<close>

definition name_zcg :: "byte list" where "name_zcg = [0x7A, 0x63, 0x67]"
definition name_dump_locals :: "byte list" where
  "name_dump_locals = [0x64, 0x75, 0x6D, 0x70, 0x5F, 0x6C, 0x6F, 0x63, 0x61, 0x6C, 0x73]"
definition name_debug :: "byte list" where "name_debug = [0x64, 0x65, 0x62, 0x75, 0x67]"
definition name_traceback :: "byte list" where
  "name_traceback = [0x74, 0x72, 0x61, 0x63, 0x65, 0x62, 0x61, 0x63, 0x6B]"

text \<open>\<^verbatim>\<open>lua_getfield(L, -1, name)\<close>: indexing what is no table is an error.\<close>

fun lua_getfield :: "byte list \<Rightarrow> lua_stack \<Rightarrow> lua_stack option" where
  "lua_getfield name (LTab l p es # st) = Some (lua_rawget es (str_key name) # LTab l p es # st)"
| "lua_getfield name st = None"

definition lua_getglobal :: "lua_entries \<Rightarrow> byte list \<Rightarrow> lua_stack \<Rightarrow> lua_stack" where
  "lua_getglobal globals name st = lua_rawget globals (str_key name) # st"

definition PushFunction :: "lua_entries \<Rightarrow> byte list \<Rightarrow> lua_engine \<Rightarrow> (bool \<times> lua_engine) option" where
  "PushFunction globals fname s = do {
     st1 \<leftarrow> lua_getfield name_dump_locals (lua_getglobal globals name_zcg (eg_stack s));
     st2 \<leftarrow> lua_replace2 st1;
     let s1 = s\<lparr>eg_fn := Some (Some fname)\<rparr>;
     let st3 = lua_getglobal globals fname st2;
     if hd st3 = LNil then map_option (\<lambda>st4. (False, s1\<lparr>eg_stack := st4\<rparr>)) (lua_pops 2 st3)
     else Some (True, s1\<lparr>eg_stack := st3\<rparr>)
   }"

definition ExecFunction :: "(lua_val \<Rightarrow> lua_val list \<Rightarrow> lua_result) \<Rightarrow> nat \<Rightarrow> int \<Rightarrow> lua_engine \<Rightarrow> (bool \<times> lua_engine) option" where
  "ExecFunction call narg nresult s = do {
     (ok, st1) \<leftarrow> lua_pcall call narg nresult (eg_stack s);
     st2 \<leftarrow> (if ok then lua_remove (-1 - nresult) st1
            else do { s2 \<leftarrow> emit_error (s\<lparr>eg_stack := st1\<rparr>); lua_pop1 (eg_stack s2) });
     Some (ok, s\<lparr>eg_stack := st2, eg_fn := Some None\<rparr>)
   }"

text \<open>\<^verbatim>\<open>lua_register\<close>; the table of functions ends at the first null name.\<close>

definition RegisterGlobalApi :: "byte list \<Rightarrow> lua_val \<Rightarrow> lua_entries \<Rightarrow> lua_entries option" where
  "RegisterGlobalApi name f globals = lua_rawset globals (str_key name) f"

fun RegisterGlobalApis :: "(byte list option \<times> lua_val) list \<Rightarrow> lua_entries \<Rightarrow> lua_entries option" where
  "RegisterGlobalApis [] globals = None"
| "RegisterGlobalApis ((None, f) # ms) globals = Some globals"
| "RegisterGlobalApis ((Some name, f) # ms) globals = do {
     g1 \<leftarrow> RegisterGlobalApi name f globals;
     RegisterGlobalApis ms g1
   }"

text \<open>\<^verbatim>\<open>g_print_stack\<close>: the value that is printed and the stack.\<close>

definition g_print_stack :: "(lua_val \<Rightarrow> lua_val list \<Rightarrow> lua_result) \<Rightarrow> lua_entries \<Rightarrow> lua_stack \<Rightarrow> (lua_val \<times> lua_stack) option" where
  "g_print_stack call globals st = do {
     st1 \<leftarrow> lua_getfield name_traceback (lua_getglobal globals name_debug st);
     (ok, st2) \<leftarrow> lua_pcall call 0 1 st1;
     st3 \<leftarrow> (if \<not> ok then lua_pop1 st2 else Some st2);
     let shown = hd st3;
     st4 \<leftarrow> lua_pops 2 st3;
     Some (shown, st4)
   }"

section \<open>Properties\<close>

lemma length_adjust: "0 \<le> n \<Longrightarrow> length (adjust_results n rs) = nat n"
  by (simp add: adjust_results_def MULTRET_def)

lemma lua_remove_below: "lua_remove (-1 - int (length xs)) (xs @ h # st) = Some (xs @ st)"
  by (simp add: lua_remove_def Let_def nat_add_distrib)

text \<open>Pushing the arguments of a call.\<close>

definition push_args :: "lua_val list \<Rightarrow> lua_engine \<Rightarrow> lua_engine" where
  "push_args args s = s\<lparr>eg_stack := rev args @ eg_stack s\<rparr>"

lemma PushFunction_eq:
  assumes "lua_rawget globals (str_key name_zcg) = LTab l p es"
  shows "PushFunction globals fname s =
    Some (if lua_rawget globals (str_key fname) = LNil then (False, s\<lparr>eg_fn := Some (Some fname)\<rparr>)
          else (True, s\<lparr>eg_fn := Some (Some fname),
                  eg_stack := lua_rawget globals (str_key fname) # lua_rawget es (str_key name_dump_locals) # eg_stack s\<rparr>))"
  by (simp add: PushFunction_def lua_getglobal_def assms numeral_2_eq_2)

lemma pcall_args:
  "lua_pcall call (length args) nres (rev args @ f # st) =
     (case call f args of Inl err \<Rightarrow> Some (False, err # st) | Inr rs \<Rightarrow> Some (True, rev (adjust_results nres rs) @ st))"
  by (simp add: lua_pcall_def)

lemma ExecFunction_eq:
  assumes "eg_stack s = rev args @ f # h # st" and "eg_fn s = Some fn"
  shows "ExecFunction call (length args) (int nres) s =
    (case call f args of
       Inl err \<Rightarrow> Some (False, s\<lparr>eg_stack := st, eg_fn := Some None\<rparr>)
     | Inr rs \<Rightarrow> Some (True, s\<lparr>eg_stack := rev (adjust_results (int nres) rs) @ st, eg_fn := Some None\<rparr>))"
proof -
  have "lua_remove (-1 - int nres) (rev (adjust_results (int nres) rs) @ h # st) =
      Some (rev (adjust_results (int nres) rs) @ st)" for rs
    using lua_remove_below [of "rev (adjust_results (int nres) rs)" h st] by (simp add: length_adjust)
  then show ?thesis
    by (simp add: ExecFunction_def assms pcall_args emit_error_def split: sum.split)
qed

text \<open>
  C25. Calling a global Lua function leaves exactly the results that were asked for on the stack when it
  succeeds, and the stack as it was before when the function does not exist or raises an error.
\<close>

theorem engine_call:
  assumes "lua_rawget globals (str_key name_zcg) = LTab l p es"
  shows "do { (found, s1) \<leftarrow> PushFunction globals fname s;
              if found then ExecFunction call (length args) (int nres) (push_args args s1) else Some (False, s1) } =
    (let f = lua_rawget globals (str_key fname) in
     if f = LNil then Some (False, s\<lparr>eg_fn := Some (Some fname)\<rparr>)
     else case call f args of
            Inl err \<Rightarrow> Some (False, s\<lparr>eg_fn := Some None\<rparr>)
          | Inr rs \<Rightarrow> Some (True, s\<lparr>eg_fn := Some None, eg_stack := rev (adjust_results (int nres) rs) @ eg_stack s\<rparr>))"
  by (simp add: PushFunction_eq [OF assms] push_args_def ExecFunction_eq [where h = "lua_rawget es (str_key name_dump_locals)"]
      Let_def split: sum.split)

definition sample_globals :: lua_entries where
  "sample_globals = [(str_key name_zcg, LTab False False [(str_key name_dump_locals, LOther 1)]),
     (str_key name_debug, LTab False False [(str_key name_traceback, LOther 2)]), (str_key [0x66], LOther 3)]"

lemma sample_lookup:
  "lua_rawget sample_globals (str_key name_zcg) = LTab False False [(str_key name_dump_locals, LOther 1)]"
  "lua_rawget sample_globals (str_key name_debug) = LTab False False [(str_key name_traceback, LOther 2)]"
  "lua_rawget sample_globals (str_key [0x66]) = LOther 3"
  by (simp_all add: sample_globals_def lua_rawget_def str_key_def c_bytes_def name_zcg_def name_debug_def)

theorem engine_call_witness:
  "do { (found, s1) \<leftarrow> PushFunction sample_globals [0x66] engine_Init;
        if found then ExecFunction (\<lambda>f args. Inr args) (length [LInt 7]) (int 1) (push_args [LInt 7] s1) else Some (False, s1) }
   = Some (True, \<lparr>eg_stack = [LInt 7], eg_fn = Some None\<rparr>)"
  unfolding engine_call [OF sample_lookup(1)]
  by (simp add: sample_lookup Let_def engine_Init_def adjust_results_def MULTRET_def)

text \<open>
  A chunk that returns values loses its last one and leaves the error handler and the others on the
  stack; only a chunk that returns nothing, or fails, leaves the stack as it was.  A failure before any function
  was called by name reads a pointer that was never set.
\<close>

theorem exec_file_stack:
  "ExecFile call loadfile fname s =
    (case loadfile fname of
       Inl err \<Rightarrow> if eg_fn s = None then None else Some (False, s)
     | Inr f \<Rightarrow>
         (case call f [] of
            Inl err \<Rightarrow> if eg_fn s = None then None else Some (False, s)
          | Inr rs \<Rightarrow> Some (True, if rs = [] then s
                                 else s\<lparr>eg_stack := rev (butlast rs) @ on_lua_error # eg_stack s\<rparr>)))"
proof -
  have "lua_remove (-1) (rev rs @ on_lua_error # st) = Some (if rs = [] then st else rev (butlast rs) @ on_lua_error # st)" for rs st
    by (cases rs rule: rev_cases) (simp_all add: lua_remove_def)
  then show ?thesis
    by (cases "eg_fn s") (simp_all add: ExecFile_def exec_loaded_def emit_error_def lua_pcall_def adjust_results_def
        MULTRET_def Let_def split: sum.split)
qed

text \<open>
  The error handler overruns its buffer exactly when the message has more than 1007 bytes.
\<close>

theorem error_handler_overflow:
  assumes "lc_string c v = Some msg"
  shows "run_on_lua_error c traceback (v # st) =
    (if length (c_bytes msg) \<le> 1007 then Some (traceback (error_report @ c_bytes msg) # st) else None)"
  by (simp add: run_on_lua_error_def assms error_report_def Let_def)

theorem error_handler_overflow_witness:
  "run_on_lua_error sample_conv LStr [LStr (replicate 1008 1)] = None"
proof -
  have "lc_string sample_conv (LStr (replicate 1008 1)) = Some (replicate 1008 1)" by (simp add: sample_conv_def)
  moreover have "c_bytes (replicate 1008 1) = replicate 1008 1" by (simp add: c_bytes_def)
  ultimately show ?thesis using error_handler_overflow [of sample_conv "LStr (replicate 1008 1)" "replicate 1008 1" LStr "[]"]
    by simp
qed

text \<open>
  When the call of \<^verbatim>\<open>debug.traceback\<close> fails, \<^verbatim>\<open>g_print_stack\<close> prints the table \<^verbatim>\<open>debug\<close> and removes a value of its
  caller from the stack.
\<close>

theorem print_stack_failure:
  assumes "lua_rawget globals (str_key name_debug) = LTab l p es"
    and "call (lua_rawget es (str_key name_traceback)) [] = Inl err"
  shows "g_print_stack call globals st = (case st of [] \<Rightarrow> None | v # rest \<Rightarrow> Some (LTab l p es, rest))"
  by (simp add: g_print_stack_def lua_getglobal_def assms lua_pcall_def numeral_2_eq_2 split: list.split)

theorem print_stack_failure_witness:
  "g_print_stack (\<lambda>f args. Inl LNil) sample_globals [] = None"
proof -
  have "(\<lambda>f args. Inl LNil :: lua_result) (lua_rawget [(str_key name_traceback, LOther 2)] (str_key name_traceback)) [] = Inl LNil"
    by simp
  from print_stack_failure [OF sample_lookup(2) this, of "[]"] show ?thesis by simp
qed

end
