(* ===== verification/CommandInput.thy ===== *)
theory CommandInput
  imports Strings
begin

text \<open>
  The command line of the server (\<^verbatim>\<open>libcore/include/commandInput.h\<close>, \<^verbatim>\<open>libcore/src/commandInput.cpp\<close>): lines
  are read by the main thread, split into words, and run at once or queued for the logic thread.

  A line is what \<^verbatim>\<open>fgets\<close> stored, without the terminating zero.  The commands of the program that uses the
  class are values of the type parameter \<open>'c\<close>.  What is printed is collected in the state.
\<close>

section \<open>Strings in fixed arrays\<close>

abbreviation NUL :: char where "NUL \<equiv> CHR 0x00"

definition PARAM_CNT :: nat where "PARAM_CNT = 10"
definition PARAM_LEN :: nat where "PARAM_LEN = 16"
definition HELP_LEN :: nat where "HELP_LEN = 64"
definition DESC_LEN :: nat where "DESC_LEN = 64"
definition CMD_MAX_CHAR :: nat where "CMD_MAX_CHAR = 128"

text \<open>\<^verbatim>\<open>_stricmp\<close>, which the Linux build maps to \<^verbatim>\<open>strcasecmp\<close>.\<close>

definition to_lower :: "char \<Rightarrow> char" where
  "to_lower c = (let n = of_char c :: nat in if 65 \<le> n \<and> n \<le> 90 then char_of (n + 32) else c)"

definition stricmp :: "string \<Rightarrow> string \<Rightarrow> bool" where
  "stricmp a b \<longleftrightarrow> map to_lower a = map to_lower b"

text \<open>The string that starts at an offset of an array; \<open>None\<close> when it runs out of the array.\<close>

definition c_str :: "string \<Rightarrow> nat \<Rightarrow> string option" where
  "c_str arr off =
     (if NUL \<in> set (drop off arr) then Some (takeWhile (\<lambda>c. c \<noteq> NUL) (drop off arr)) else None)"

text \<open>\<^verbatim>\<open>strncpy\<close> of \<open>PARAM_LEN\<close> characters: the rest is filled with zeros, a longer word gets none.\<close>

definition pad_word :: "string \<Rightarrow> string" where
  "pad_word w = take PARAM_LEN (w @ replicate PARAM_LEN NUL)"

definition put_word :: "nat \<Rightarrow> string \<Rightarrow> string \<Rightarrow> string" where
  "put_word i w argv = take (PARAM_LEN * i) argv @ pad_word w @ drop (PARAM_LEN * i + PARAM_LEN) argv"

section \<open>State\<close>

datatype 'c command = OnQuit | OnHelp | OnList | User 'c

record 'c cmd_input =
  in_argc :: nat
  in_argv :: string
  in_func :: "'c command"

record 'c cmd_config =
  cf_name :: string
  cf_help :: string
  cf_desc :: string
  cf_func :: "'c command"

record 'c command_input =
  ci_running :: bool
  ci_prompt :: string
  ci_config :: "'c cmd_config list"
  ci_queue :: "'c cmd_input list"
  ci_out :: "string list"

text \<open>\<^verbatim>\<open>add_command\<close> copies into the arrays without a check; \<open>None\<close> when a text does not fit.\<close>

definition add_command :: "string \<Rightarrow> 'c command \<Rightarrow> string \<Rightarrow> string \<Rightarrow> 'c command_input \<Rightarrow> 'c command_input option" where
  "add_command name func help desc s =
     (if length name < PARAM_LEN \<and> length help < HELP_LEN \<and> length desc < DESC_LEN
      then Some (s\<lparr>ci_config := ci_config s @ [\<lparr>cf_name = name, cf_help = help, cf_desc = desc, cf_func = func\<rparr>]\<rparr>)
      else None)"

definition command_input_new :: "'c command_input option" where
  "command_input_new = do {
     let s0 = \<lparr>ci_running = False, ci_prompt = ''server# '', ci_config = [], ci_queue = [], ci_out = []\<rparr>;
     s1 \<leftarrow> add_command ''quit'' OnQuit ''quit'' ''quit this program.'' s0;
     s2 \<leftarrow> add_command ''help'' OnHelp ''help <cmd>'' ''detail info of command.'' s1;
     s3 \<leftarrow> add_command ''list'' OnList ''list'' ''show commands list.'' s2;
     add_command ''?'' OnList ''list'' ''show commands list.'' s3
   }"

definition set_prompt :: "string \<Rightarrow> 'c command_input \<Rightarrow> 'c command_input" where
  "set_prompt p s = s\<lparr>ci_prompt := p\<rparr>"

definition print_out :: "string \<Rightarrow> 'c command_input \<Rightarrow> 'c command_input" where
  "print_out t s = s\<lparr>ci_out := ci_out s @ [t]\<rparr>"

definition print_prompt :: "'c command_input \<Rightarrow> 'c command_input" where
  "print_prompt s = print_out (ci_prompt s) s"

section \<open>The commands of the class\<close>

text \<open>The argument of \<^verbatim>\<open>help\<close> is read from the array; \<open>None\<close> when it has no end there.\<close>

definition cmd_OnHelp :: "nat \<Rightarrow> string \<Rightarrow> 'c command_input \<Rightarrow> 'c command_input option" where
  "cmd_OnHelp argc argv s =
     (if argc < 2 then Some (print_out ''usage: help <cmd>'' s)
      else do {
        arg \<leftarrow> c_str argv PARAM_LEN;
        (case List.find (\<lambda>cc. stricmp (cf_name cc) arg) (ci_config s) of
           None \<Rightarrow> Some s
         | Some cc \<Rightarrow> Some (print_out (cf_desc cc) (print_out (cf_help cc) (print_out (cf_name cc) s))))
      })"

definition cmd_OnList :: "'c command_input \<Rightarrow> 'c command_input" where
  "cmd_OnList s = fold (\<lambda>cc. print_out (cf_name cc @ '':'' @ [CHR 0x09, CHR 0x09] @ cf_help cc)) (ci_config s) s"

text \<open>
  A call of a command; the program's own commands and its hook \<^verbatim>\<open>on_quit\<close> act on the world \<open>'w\<close>.
\<close>

record ('c, 'w) cmd_hooks =
  ch_quit :: "'w \<Rightarrow> 'w option"
  ch_user :: "'c \<Rightarrow> nat \<Rightarrow> string \<Rightarrow> 'w \<Rightarrow> 'w option"

fun call_command :: "('c, 'w) cmd_hooks \<Rightarrow> 'c command \<Rightarrow> nat \<Rightarrow> string \<Rightarrow> 'c command_input \<Rightarrow> 'w \<Rightarrow>
    ('c command_input \<times> 'w) option" where
  "call_command h OnQuit argc argv s w = map_option (Pair (s\<lparr>ci_running := False\<rparr>)) (ch_quit h w)"
| "call_command h OnHelp argc argv s w = map_option (\<lambda>s'. (s', w)) (cmd_OnHelp argc argv s)"
| "call_command h OnList argc argv s w = Some (cmd_OnList s, w)"
| "call_command h (User c) argc argv s w = map_option (Pair s) (ch_user h c argc argv w)"

section \<open>Reading a line\<close>

definition is_sep :: "char \<Rightarrow> bool" where
  "is_sep c \<longleftrightarrow> c \<in> set '' ,.'' \<or> c = CHR 0x09 \<or> c = CHR 0x0D \<or> c = CHR 0x0A"

abbreviation strtok :: "string \<Rightarrow> (string \<times> string) option" where
  "strtok \<equiv> strtok_by is_sep"

abbreviation words :: "string \<Rightarrow> string list" where
  "words \<equiv> words_by is_sep"

function parse_words :: "string \<Rightarrow> nat \<Rightarrow> string \<Rightarrow> nat \<times> string" where
  "parse_words s argc argv =
     (case strtok s of
        None \<Rightarrow> (argc, argv)
      | Some (w, rest) \<Rightarrow>
          if argc \<ge> PARAM_CNT then (argc, argv) else parse_words rest (argc + 1) (put_word argc w argv))"
  by pat_completeness auto
termination
  by (relation "measure (\<lambda>(s, argc, argv). length s)") (auto dest: strtok_shorter)

declare parse_words.simps [simp del]

definition empty_argv :: string where
  "empty_argv = replicate (PARAM_CNT * PARAM_LEN) NUL"

text \<open>\<^verbatim>\<open>_parse_command\<close>: whether the command was queued, the new state and the new world.\<close>

definition strip_newline :: "string \<Rightarrow> string" where
  "strip_newline s = (if s \<noteq> [] \<and> last s = CHR 0x0A then butlast s else s)"

definition parse_command :: "('c, 'w) cmd_hooks \<Rightarrow> string \<Rightarrow> 'c command_input \<Rightarrow> 'w \<Rightarrow>
    (bool \<times> 'c command_input \<times> 'w) option" where
  "parse_command h buf s w =
     (let line = strip_newline buf
      in if line = [] then Some (False, s, w)
         else let (argc, argv) = parse_words line 0 empty_argv
              in do {
                arg0 \<leftarrow> c_str argv 0;
                (case List.find (\<lambda>cc. stricmp arg0 (cf_name cc)) (ci_config s) of
                   None \<Rightarrow> Some (False, print_out ''Unknown command.'' s, w)
                 | Some cc \<Rightarrow>
                     if stricmp ''quit'' arg0 \<or> stricmp ''help'' arg0 \<or> stricmp ''list'' arg0
                     then do { (s1, w1) \<leftarrow> call_command h (cf_func cc) argc argv s w; Some (False, s1, w1) }
                     else Some (True, s\<lparr>ci_queue := ci_queue s @ [\<lparr>in_argc = argc, in_argv = argv, in_func = cf_func cc\<rparr>]\<rparr>, w))
              })"

text \<open>\<^verbatim>\<open>Update\<close>, in the logic thread: the queued commands run in order, under the lock.\<close>

fun run_queue :: "('c, 'w) cmd_hooks \<Rightarrow> 'c cmd_input list \<Rightarrow> 'c command_input \<Rightarrow> 'w \<Rightarrow> ('c command_input \<times> 'w) option" where
  "run_queue h [] s w = Some (s, w)"
| "run_queue h (ci # cis) s w = do {
     (s1, w1) \<leftarrow> call_command h (in_func ci) (in_argc ci) (in_argv ci) s w;
     run_queue h cis s1 w1
   }"

definition input_Update :: "('c, 'w) cmd_hooks \<Rightarrow> 'c command_input \<Rightarrow> 'w \<Rightarrow> ('c command_input \<times> 'w) option" where
  "input_Update h s w = do { (s1, w1) \<leftarrow> run_queue h (ci_queue s) s w; Some (s1\<lparr>ci_queue := []\<rparr>, w1) }"

text \<open>
  \<^verbatim>\<open>Run\<close>, given what each \<^verbatim>\<open>fgets\<close> stores (nothing at the end of the input).  The result lists which lines
  made the thread sleep; \<open>None\<close> when the loop is still running after all of them.
\<close>

fun input_loop :: "('c, 'w) cmd_hooks \<Rightarrow> string list \<Rightarrow> 'c command_input \<Rightarrow> 'w \<Rightarrow> ('c command_input \<times> 'w \<times> bool list) option" where
  "input_loop h lines s w =
     (if \<not> ci_running s then Some (s, w, [])
      else case lines of
             [] \<Rightarrow> None
           | l # ls \<Rightarrow> do {
               (queued, s1, w1) \<leftarrow> parse_command h (takeWhile (\<lambda>c. c \<noteq> NUL) (take (CMD_MAX_CHAR - 1) l)) (print_prompt s) w;
               (s2, w2, qs) \<leftarrow> input_loop h ls s1 w1;
               Some (s2, w2, queued # qs)
             })"

declare input_loop.simps [simp del]

definition input_Run :: "('c, 'w) cmd_hooks \<Rightarrow> string list \<Rightarrow> 'c command_input \<Rightarrow> 'w \<Rightarrow> ('c command_input \<times> 'w \<times> bool list) option" where
  "input_Run h lines s w = input_loop h lines (s\<lparr>ci_running := True\<rparr>) w"

declare PARAM_CNT_def [code_defs] PARAM_LEN_def [code_defs] HELP_LEN_def [code_defs] DESC_LEN_def [code_defs]
  CMD_MAX_CHAR_def [code_defs] stricmp_def [code_defs] c_str_def [code_defs] pad_word_def [code_defs] put_word_def [code_defs]
  add_command_def [code_defs] command_input_new_def [code_defs] parse_command_def [code_defs] empty_argv_def [code_defs]
  strip_newline_def [code_defs] strtok_by_def [code_defs] is_sep_def [code_defs] print_out_def [code_defs] to_lower_def [code_defs]
  print_prompt_def [code_defs] input_Update_def [code_defs] input_Run_def [code_defs]

section \<open>The words of a line\<close>

text \<open>The array that holds given words.\<close>

definition argv_of :: "string list \<Rightarrow> string" where
  "argv_of ws = concat (map pad_word ws) @ replicate (PARAM_CNT * PARAM_LEN - PARAM_LEN * length ws) NUL"

lemma length_pad [simp]: "length (pad_word w) = PARAM_LEN"
  by (simp add: pad_word_def)

lemma length_pads: "length (concat (map pad_word ws)) = PARAM_LEN * length ws"
  by (induction ws) auto

lemma put_word_argv:
  assumes "length ws < PARAM_CNT"
  shows "put_word (length ws) w (argv_of ws) = argv_of (ws @ [w])"
proof -
  have "PARAM_LEN * length ws + PARAM_LEN \<le> PARAM_CNT * PARAM_LEN"
    using assms by (auto simp: PARAM_CNT_def PARAM_LEN_def)
  then show ?thesis by (simp add: put_word_def argv_of_def length_pads algebra_simps)
qed

text \<open>The parser stores the first ten words.\<close>

lemma parse_words_spec:
  "length ws \<le> PARAM_CNT \<Longrightarrow> parse_words s (length ws) (argv_of ws)
     = (let r = take PARAM_CNT (ws @ words s) in (length r, argv_of r))"
proof (induction "length s" arbitrary: s ws rule: less_induct)
  case less
  show ?case
  proof (cases "strtok s")
    case None
    then have "words s = []" by (simp add: words_strtok)
    then show ?thesis using None less.prems by (simp add: parse_words.simps)
  next
    case (Some x)
    obtain w rest where x: "x = (w, rest)" by (rule prod.exhaust)
    then have ws: "words s = w # words rest" using Some by (simp add: words_strtok [of is_sep s])
    show ?thesis
    proof (cases "length ws = PARAM_CNT")
      case True
      then show ?thesis using Some x by (simp add: parse_words.simps)
    next
      case False
      then have l: "length ws < PARAM_CNT" using less.prems by simp
      have "parse_words s (length ws) (argv_of ws) = parse_words rest (length (ws @ [w])) (argv_of (ws @ [w]))"
        using Some x l by (subst parse_words.simps) (simp add: put_word_argv)
      also have "\<dots> = (let r = take PARAM_CNT ((ws @ [w]) @ words rest) in (length r, argv_of r))"
        using l Some x strtok_shorter by (intro less.hyps) auto
      finally show ?thesis by (simp add: ws)
    qed
  qed
qed

lemma parse_line: "parse_words s 0 empty_argv = (let r = take PARAM_CNT (words s) in (length r, argv_of r))"
  using parse_words_spec [of "[]" s] by (simp add: argv_of_def empty_argv_def)

text \<open>Where a word of the array ends.\<close>

lemma argv_drop:
  assumes "i \<le> length ws" and "length ws \<le> PARAM_CNT"
  shows "drop (PARAM_LEN * i) (argv_of ws) = concat (map pad_word (drop i ws)) @ replicate (PARAM_CNT * PARAM_LEN - PARAM_LEN * length ws) NUL"
proof -
  have "map pad_word ws = map pad_word (take i ws) @ map pad_word (drop i ws)" by (simp flip: map_append)
  then have "concat (map pad_word ws) = concat (map pad_word (take i ws)) @ concat (map pad_word (drop i ws))"
    by (metis concat_append)
  moreover have "length (concat (map pad_word (take i ws))) = PARAM_LEN * i" using assms(1) by (simp add: length_pads)
  ultimately show ?thesis by (simp add: argv_of_def)
qed

lemma pad_short: "length w < PARAM_LEN \<Longrightarrow> \<exists>k. pad_word w = w @ NUL # replicate k NUL"
proof -
  assume a: "length w < PARAM_LEN"
  then obtain k where "PARAM_LEN = Suc (length w + k)" using less_iff_Suc_add by blast
  then have "PARAM_LEN - length w = Suc k" by simp
  then have "pad_word w = w @ NUL # replicate k NUL" using a by (simp add: pad_word_def)
  then show ?thesis by blast
qed

lemma c_str_word:
  assumes "i < length ws" and "length ws \<le> PARAM_CNT" and "length (ws ! i) < PARAM_LEN" and "NUL \<notin> set (ws ! i)"
  shows "c_str (argv_of ws) (PARAM_LEN * i) = Some (ws ! i)"
proof -
  obtain k where k: "pad_word (ws ! i) = ws ! i @ NUL # replicate k NUL" using pad_short [OF assms(3)] by blast
  have "drop i ws = ws ! i # drop (Suc i) ws" using assms(1) by (simp add: Cons_nth_drop_Suc)
  then obtain r where r: "drop (PARAM_LEN * i) (argv_of ws) = ws ! i @ NUL # r"
    using argv_drop [of i ws] assms(1,2) k by auto
  have "\<And>c. c \<in> set (ws ! i) \<Longrightarrow> c \<noteq> NUL" using assms(4) by auto
  then have "takeWhile (\<lambda>c. c \<noteq> NUL) (ws ! i @ NUL # r) = ws ! i" by (simp add: takeWhile_append2)
  then show ?thesis unfolding c_str_def r by simp
qed

section \<open>Properties\<close>

text \<open>
  The parser implements the splitting of a line into words: it stores the first ten words, and every
  one that has less than 16 characters is read back unchanged.
\<close>

theorem parse_words_correct:
  assumes "parse_words line 0 empty_argv = (argc, argv)" and "NUL \<notin> set (concat (words line))"
  shows "argc = min PARAM_CNT (length (words line)) \<and>
    (\<forall>i<argc. length (words line ! i) < PARAM_LEN \<longrightarrow> c_str argv (PARAM_LEN * i) = Some (words line ! i))"
proof -
  let ?ws = "take PARAM_CNT (words line)"
  have p: "argc = length ?ws" "argv = argv_of ?ws" using assms(1) by (simp_all add: parse_line Let_def)
  have "c_str argv (PARAM_LEN * i) = Some (words line ! i)" if "i < argc" "length (words line ! i) < PARAM_LEN" for i
  proof -
    have i: "i < length ?ws" "?ws ! i = words line ! i" using that(1) p(1) by simp_all
    then have "NUL \<notin> set (?ws ! i)" using assms(2) by auto
    then show ?thesis using c_str_word [OF i(1)] that(2) i(2) p(2) by simp
  qed
  then show ?thesis using p(1) by (simp add: min.commute)
qed

theorem parse_words_correct_witness:
  "parse_words ''reload script'' 0 empty_argv = (2, argv_of [''reload'', ''script''])
    \<and> c_str (argv_of [''reload'', ''script'']) (PARAM_LEN * 1) = Some ''script''"
proof -
  have w: "words ''reload script'' = [''reload'', ''script'']" by (simp add: is_sep_def)
  then have p: "parse_words ''reload script'' 0 empty_argv = (2, argv_of [''reload'', ''script''])"
    by (simp add: parse_line PARAM_CNT_def)
  have z: "NUL \<notin> set (concat (words ''reload script''))" unfolding w by simp
  have "length (words ''reload script'' ! 1) < PARAM_LEN" "1 < (2 :: nat)" unfolding w by (simp_all add: PARAM_LEN_def)
  then have "c_str (argv_of [''reload'', ''script'']) (PARAM_LEN * 1) = Some (words ''reload script'' ! 1)"
    using parse_words_correct [OF p z] by blast
  then show ?thesis using p unfolding w by simp
qed

lemma long_words: "\<forall>w\<in>set ws. n \<le> length w \<Longrightarrow> (n + 1) * length ws \<le> sum_list (map (\<lambda>w. length w + 1) ws)"
  by (induction ws) auto

lemma sum_list_part: "sum_list (map f (drop i (take n xs))) \<le> sum_list (map (f :: 'a \<Rightarrow> nat) xs)"
proof -
  have "sum_list (map f xs) = sum_list (map f (take n xs)) + sum_list (map f (drop n xs))"
    by (metis append_take_drop_id map_append sum_list_append)
  moreover have "sum_list (map f (take n xs)) = sum_list (map f (take i (take n xs))) + sum_list (map f (drop i (take n xs)))"
    by (metis append_take_drop_id map_append sum_list_append)
  ultimately show ?thesis by simp
qed

lemma argv_end:
  assumes "length line < CMD_MAX_CHAR" and "i \<le> 2"
  shows "c_str (argv_of (take PARAM_CNT (words line))) (PARAM_LEN * i) \<noteq> None"
proof -
  let ?ws = "take PARAM_CNT (words line)"
  have len: "length ?ws \<le> PARAM_CNT" by simp
  have "NUL \<in> set (drop (PARAM_LEN * i) (argv_of ?ws))"
  proof (cases "length ?ws < PARAM_CNT")
    case True
    then have "length (argv_of ?ws) = PARAM_CNT * PARAM_LEN" "last (argv_of ?ws) = NUL"
      by (auto simp: argv_of_def length_pads PARAM_CNT_def PARAM_LEN_def)
    moreover have "PARAM_LEN * i < PARAM_CNT * PARAM_LEN" using assms(2) by (simp add: PARAM_CNT_def PARAM_LEN_def)
    ultimately show ?thesis by (metis last_drop last_in_set length_drop length_greater_0_conv zero_less_diff)
  next
    case False
    then have n: "length ?ws = PARAM_CNT" by simp
    have "\<exists>w\<in>set (drop i ?ws). length w < PARAM_LEN"
    proof (rule ccontr)
      assume "\<not> ?thesis"
      then have "\<forall>w\<in>set (drop i ?ws). PARAM_LEN \<le> length w" by auto
      from long_words [OF this] have "(PARAM_LEN + 1) * length (drop i ?ws) \<le> sum_list (map (\<lambda>w. length w + 1) (words line))"
        using sum_list_part [of "\<lambda>w. length w + 1" i PARAM_CNT "words line"] by linarith
      then have "17 * (10 - i) \<le> length line + 1"
        using words_length [of is_sep line] n by (simp add: PARAM_CNT_def PARAM_LEN_def)
      then show False using assms(1,2) by (simp add: CMD_MAX_CHAR_def)
    qed
    then obtain w where w: "w \<in> set (drop i ?ws)" "length w < PARAM_LEN" by blast
    then have "NUL \<in> set (pad_word w)" using pad_short [OF w(2)] by auto
    then have "NUL \<in> set (concat (map pad_word (drop i ?ws)))" using w(1) by auto
    then show ?thesis using argv_drop [of i ?ws] n assms(2) by (simp add: PARAM_CNT_def)
  qed
  then show ?thesis by (simp add: c_str_def)
qed

text \<open>
  A long word gets no terminating zero, but with lines of at most 127 characters the first three places
  of the argument array, the only ones a command reads, always end within it.
\<close>

theorem args_terminated:
  assumes "length line < CMD_MAX_CHAR" and "parse_words line 0 empty_argv = (argc, argv)" and "i \<le> 2"
  shows "c_str argv (PARAM_LEN * i) \<noteq> None"
  using argv_end [OF assms(1,3)] assms(2) by (simp add: parse_line Let_def)

theorem args_terminated_witness:
  "c_str (snd (parse_words (replicate 100 CHR ''x'') 0 empty_argv)) (PARAM_LEN * 0) \<noteq> None"
proof -
  obtain argc argv where p: "parse_words (replicate 100 CHR ''x'') 0 empty_argv = (argc, argv)" by (rule prod.exhaust)
  have "length (replicate 100 CHR ''x'') < CMD_MAX_CHAR" by (simp add: CMD_MAX_CHAR_def)
  from args_terminated [OF this p, of 0] p show ?thesis by simp
qed

text \<open>
  The command that a line names, by its first word; the array is not involved.
\<close>

definition named_command :: "string \<Rightarrow> 'c command_input \<Rightarrow> 'c cmd_config option" where
  "named_command line s = List.find (\<lambda>cc. stricmp (hd (words line)) (cf_name cc)) (ci_config s)"

definition names_fit :: "'c command_input \<Rightarrow> bool" where
  "names_fit s \<longleftrightarrow> (\<forall>cc\<in>set (ci_config s). length (cf_name cc) < PARAM_LEN)"

lemma stricmp_length: "stricmp a b \<Longrightarrow> length a = length b"
  unfolding stricmp_def by (metis length_map)

lemma long_arg0:
  assumes "PARAM_LEN \<le> length w" and "NUL \<notin> set w" and "c_str (argv_of (w # ws)) 0 = Some a"
  shows "PARAM_LEN \<le> length a"
proof -
  have "pad_word w = take PARAM_LEN w" using assms(1) by (simp add: pad_word_def)
  then obtain r where r: "argv_of (w # ws) = take PARAM_LEN w @ r" by (simp add: argv_of_def)
  have "\<And>c. c \<in> set (take PARAM_LEN w) \<Longrightarrow> c \<noteq> NUL" using assms(2) in_set_takeD by fastforce
  then have "takeWhile (\<lambda>c. c \<noteq> NUL) (take PARAM_LEN w @ r) = take PARAM_LEN w @ takeWhile (\<lambda>c. c \<noteq> NUL) r"
    by (rule takeWhile_append2)
  then have "a = take PARAM_LEN w @ takeWhile (\<lambda>c. c \<noteq> NUL) r"
    using assms(3) r by (simp add: c_str_def split: if_splits)
  then show ?thesis using assms(1) by simp
qed

lemma arg0_matches:
  assumes "NUL \<notin> set w" and "length ws < PARAM_CNT" and "c_str (argv_of (w # ws)) 0 = Some a" and "length name < PARAM_LEN"
  shows "stricmp a name = stricmp w name"
proof (cases "length w < PARAM_LEN")
  case True
  then have "c_str (argv_of (w # ws)) 0 = Some w" using c_str_word [of 0 "w # ws"] assms(1,2) by simp
  then show ?thesis using assms(3) by simp
next
  case False
  then have "length a \<noteq> length name" "length w \<noteq> length name" using long_arg0 [OF _ assms(1,3)] assms(4) by simp_all
  then show ?thesis using stricmp_length by blast
qed

text \<open>The configuration of a constructed object.\<close>

lemma command_input_new_eq:
  "(command_input_new :: 'c command_input option) = Some \<lparr>ci_running = False, ci_prompt = ''server# '',
     ci_config = [\<lparr>cf_name = ''quit'', cf_help = ''quit'', cf_desc = ''quit this program.'', cf_func = OnQuit\<rparr>,
                  \<lparr>cf_name = ''help'', cf_help = ''help <cmd>'', cf_desc = ''detail info of command.'', cf_func = OnHelp\<rparr>,
                  \<lparr>cf_name = ''list'', cf_help = ''list'', cf_desc = ''show commands list.'', cf_func = OnList\<rparr>,
                  \<lparr>cf_name = ''?'', cf_help = ''list'', cf_desc = ''show commands list.'', cf_func = OnList\<rparr>],
     ci_queue = [], ci_out = []\<rparr>"
  by (simp add: command_input_new_def add_command_def PARAM_LEN_def HELP_LEN_def DESC_LEN_def)

lemma find_cong_pred: "(\<And>x. x \<in> set xs \<Longrightarrow> P x = Q x) \<Longrightarrow> List.find P xs = List.find Q xs"
  by (induction xs) auto

lemma find_lookup:
  assumes "c_str (argv_of (take PARAM_CNT (words line))) 0 = Some a" and "words line \<noteq> []" and "NUL \<notin> set line" and "names_fit s"
  shows "List.find (\<lambda>cc. stricmp a (cf_name cc)) (ci_config s) = named_command line s"
proof -
  obtain w ws where ws: "words line = w # ws" using assms(2) by (cases "words line") auto
  obtain n where n: "PARAM_CNT = Suc n" by (simp add: PARAM_CNT_def)
  have t: "take PARAM_CNT (words line) = w # take n ws" by (simp add: ws n)
  have w: "NUL \<notin> set w" using words_part [of w is_sep line] ws assms(3) by auto
  show ?thesis unfolding named_command_def
  proof (rule find_cong_pred)
    fix cc assume "cc \<in> set (ci_config s)"
    then have "length (cf_name cc) < PARAM_LEN" using assms(4) by (simp add: names_fit_def)
    moreover have "length (take n ws) < PARAM_CNT" using n by simp
    ultimately show "stricmp a (cf_name cc) = stricmp (hd (words line)) (cf_name cc)"
      using arg0_matches [OF w _ assms(1) [unfolded t]] ws by simp
  qed
qed

definition at_once :: "string \<Rightarrow> bool" where
  "at_once w \<longleftrightarrow> stricmp ''quit'' w \<or> stricmp ''help'' w \<or> stricmp ''list'' w"

lemma stricmp_sym: "stricmp a b \<longleftrightarrow> stricmp b a"
  by (auto simp: stricmp_def)

text \<open>The first word of a line with less than 128 characters can be read, and has the class of the word itself.\<close>

lemma first_word:
  assumes "words line \<noteq> []" and "NUL \<notin> set line" and "length line < CMD_MAX_CHAR"
  obtains a where "c_str (argv_of (take PARAM_CNT (words line))) 0 = Some a" and "at_once a = at_once (hd (words line))"
proof -
  obtain w ws where ws: "words line = w # ws" using assms(1) by (cases "words line") auto
  obtain n where n: "PARAM_CNT = Suc n" by (simp add: PARAM_CNT_def)
  have t: "take PARAM_CNT (words line) = w # take n ws" by (simp add: ws n)
  have w: "NUL \<notin> set w" using words_part [of w is_sep line] ws assms(2) by auto
  have l: "length (take n ws) < PARAM_CNT" using n by simp
  have "c_str (argv_of (take PARAM_CNT (words line))) (PARAM_LEN * 0) \<noteq> None"
    by (rule argv_end [OF assms(3)]) simp
  then obtain a where a: "c_str (argv_of (take PARAM_CNT (words line))) 0 = Some a" by auto
  have "stricmp a x = stricmp w x" if "length x < PARAM_LEN" for x
    using arg0_matches [OF w l a [unfolded t] that] .
  then have "at_once a = at_once w" by (simp add: at_once_def stricmp_sym [of _ a] stricmp_sym [of _ w] PARAM_LEN_def)
  then show ?thesis using that a ws by simp
qed

lemma bind_tag: "m \<bind> (\<lambda>(a, b). Some (x, a, b)) = map_option (Pair x) m"
  by (cases m) auto

text \<open>
  C9. A line runs the first command whose name is its first word, letter case aside, with the first ten words
  as arguments: quit, help and list at once in the reading thread, any other one queued for the logic thread.
\<close>

theorem command_lookup:
  assumes "words (strip_newline buf) \<noteq> []" and "NUL \<notin> set (strip_newline buf)"
    and "length (strip_newline buf) < CMD_MAX_CHAR" and "names_fit s"
  shows "parse_command h buf s w =
    (let ws = take PARAM_CNT (words (strip_newline buf)) in
     case named_command (strip_newline buf) s of
       None \<Rightarrow> Some (False, print_out ''Unknown command.'' s, w)
     | Some cc \<Rightarrow>
         if at_once (hd ws) then map_option (Pair False) (call_command h (cf_func cc) (length ws) (argv_of ws) s w)
         else Some (True, s\<lparr>ci_queue := ci_queue s @ [\<lparr>in_argc = length ws, in_argv = argv_of ws, in_func = cf_func cc\<rparr>]\<rparr>, w))"
proof -
  let ?line = "strip_newline buf"
  obtain a where a: "c_str (argv_of (take PARAM_CNT (words ?line))) 0 = Some a" "at_once a = at_once (hd (words ?line))"
    by (rule first_word [OF assms(1-3)])
  have f: "List.find (\<lambda>cc. stricmp a (cf_name cc)) (ci_config s) = named_command ?line s"
    by (rule find_lookup [OF a(1) assms(1,2,4)])
  have n: "?line \<noteq> []" using assms(1) by auto
  have hd: "hd (take PARAM_CNT (words ?line)) = hd (words ?line)" by (simp add: hd_take PARAM_CNT_def)
  have once: "(stricmp ''quit'' a \<or> stricmp ''help'' a \<or> stricmp ''list'' a) = at_once (hd (take PARAM_CNT (words ?line)))"
    unfolding hd a(2) [symmetric] by (simp add: at_once_def)
  show ?thesis
    unfolding parse_command_def Let_def parse_line
    using n a(1) f by (simp add: once bind_tag split: option.splits)
qed

definition idle_hooks :: "(unit, unit) cmd_hooks" where
  "idle_hooks = \<lparr>ch_quit = Some, ch_user = (\<lambda>_ _ _. Some)\<rparr>"

definition fresh_input :: "unit command_input" where
  "fresh_input = the command_input_new"

theorem command_lookup_witness:
  "parse_command idle_hooks (''?'' @ [CHR 0x0A]) fresh_input () =
     Some (True, fresh_input\<lparr>ci_queue := [\<lparr>in_argc = 1, in_argv = argv_of [''?''], in_func = OnList\<rparr>]\<rparr>, ())"
proof -
  let ?b = "''?'' @ [CHR 0x0A]"
  have b: "strip_newline ?b = ''?''" by (simp add: strip_newline_def)
  have w: "words ''?'' = [''?'']" by (simp add: is_sep_def)
  have f: "names_fit fresh_input"
    by (simp add: names_fit_def fresh_input_def command_input_new_eq PARAM_LEN_def)
  have n: "named_command ''?'' fresh_input = Some \<lparr>cf_name = ''?'', cf_help = ''list'', cf_desc = ''show commands list.'', cf_func = OnList\<rparr>"
    unfolding named_command_def w by (simp add: fresh_input_def command_input_new_eq stricmp_def to_lower_def)
  have o: "\<not> at_once ''?''" by (simp add: at_once_def stricmp_def)
  have "words (strip_newline ?b) \<noteq> []" "NUL \<notin> set (strip_newline ?b)" "length (strip_newline ?b) < CMD_MAX_CHAR"
    unfolding b w by (simp_all add: CMD_MAX_CHAR_def)
  from command_lookup [OF this f, of idle_hooks "()", unfolded b w]
  show ?thesis unfolding n using o by (simp add: PARAM_CNT_def Let_def fresh_input_def command_input_new_eq)
qed

lemma empty_line: "parse_command h [] s w = Some (False, s, w)"
  by (simp add: parse_command_def strip_newline_def)

text \<open>
  At the end of the input the reading thread does not end: whatever number of further reads deliver
  nothing, it prints its prompt, never sleeps, and goes on.
\<close>

theorem eof_spins: "input_Run h (replicate n []) s w = None"
proof -
  have "ci_running s \<Longrightarrow> input_loop h (replicate n []) s w = None" for s
    by (induction n arbitrary: s) (simp_all add: input_loop.simps empty_line print_prompt_def print_out_def)
  then show ?thesis by (simp add: input_Run_def)
qed

end
