(* ===== verification/GameScripts.thy ===== *)
theory GameScripts
  imports LuaEngine ScriptData CommandInput
begin

text \<open>
  What the game server does with Lua: loading and reloading script files (\<^verbatim>\<open>gameserver/ScriptResource.cpp\<close>,
  \<^verbatim>\<open>libcore/src/utils.cpp\<close>), the configuration (\<^verbatim>\<open>gameserver/SystemConfig.cpp\<close>), the functions it calls by name
  (\<^verbatim>\<open>GlobalScript.cpp\<close>, \<^verbatim>\<open>GameServerFrame.cpp\<close>, \<^verbatim>\<open>libcore/src/ScriptTimer.cpp\<close>, \<^verbatim>\<open>ScriptTimerGS.cpp\<close>), the
  bindings of global scripts (\<^verbatim>\<open>ScriptMgr.cpp\<close>, \<^verbatim>\<open>GlobalAPI.cpp\<close>) and the objects that \<^verbatim>\<open>main\<close> creates.

  An object that scripts see is a value \<open>LOther\<close>.
\<close>

section \<open>Script files\<close>

text \<open>A directory as \<^verbatim>\<open>readdir\<close> lists it; one that cannot be opened is empty.\<close>

datatype fs_node = RegFile | OtherFile | Dir "(string \<times> fs_node) list"

fun scan_node :: "string \<Rightarrow> fs_node \<Rightarrow> string list"
  and scan_dir :: "string \<Rightarrow> (string \<times> fs_node) list \<Rightarrow> string list" where
  "scan_node fname RegFile = [fname]"
| "scan_node fname OtherFile = []"
| "scan_node fname (Dir es) = scan_dir fname es"
| "scan_dir dir [] = []"
| "scan_dir dir ((name, node) # es) =
     (if name \<noteq> [] \<and> hd name = CHR ''.'' then scan_dir dir es
      else scan_node (dir @ ''/'' @ name) node @ scan_dir dir es)"

definition ScanDir :: "(string \<Rightarrow> (string \<times> fs_node) list) \<Rightarrow> string \<Rightarrow> string list \<Rightarrow> string list" where
  "ScanDir opendir dir files = files @ scan_dir dir (opendir dir)"

text \<open>\<^verbatim>\<open>strrchr(name, '.')\<close>: the string from the last dot on.\<close>

definition from_last_dot :: "string \<Rightarrow> string option" where
  "from_last_dot name =
     (if CHR ''.'' \<in> set name then Some (CHR ''.'' # rev (takeWhile (\<lambda>c. c \<noteq> CHR ''.'') (rev name))) else None)"

definition is_load_file :: "string \<Rightarrow> bool" where
  "is_load_file name = (case from_last_dot name of None \<Rightarrow> False | Some p \<Rightarrow> stricmp p ''.lua'' \<or> stricmp p ''.once'')"

definition is_reload_script :: "string \<Rightarrow> bool" where
  "is_reload_script name = (case from_last_dot name of None \<Rightarrow> False | Some p \<Rightarrow> stricmp p ''.lua'')"

definition load_files :: "(string \<Rightarrow> (string \<times> fs_node) list) \<Rightarrow> string list" where
  "load_files opendir =
     filter is_load_file (ScanDir opendir ''./world/gs_scripts'' (ScanDir opendir ''./world/1.pub_config''
       (ScanDir opendir ''./world/0.sys_base'' [])))"

definition reload_files :: "(string \<Rightarrow> (string \<times> fs_node) list) \<Rightarrow> string list" where
  "reload_files opendir = filter is_reload_script (ScanDir opendir ''./world/gs_scripts'' [])"

definition bytes :: "string \<Rightarrow> byte list" where "bytes = map of_char"

text \<open>The files are run in order; the results are ignored.\<close>

fun exec_files :: "(lua_val \<Rightarrow> lua_val list \<Rightarrow> lua_result) \<Rightarrow> (byte list \<Rightarrow> lua_val + lua_val) \<Rightarrow> string list \<Rightarrow> lua_engine \<Rightarrow>
    lua_engine option" where
  "exec_files call loadfile [] s = Some s"
| "exec_files call loadfile (f # fs) s = do { (ok, s1) \<leftarrow> ExecFile call loadfile (bytes f) s; exec_files call loadfile fs s1 }"

definition LoadScripts :: "(lua_val \<Rightarrow> lua_val list \<Rightarrow> lua_result) \<Rightarrow> (byte list \<Rightarrow> lua_val + lua_val) \<Rightarrow>
    (string \<Rightarrow> (string \<times> fs_node) list) \<Rightarrow> lua_engine \<Rightarrow> lua_engine option" where
  "LoadScripts call loadfile opendir s = exec_files call loadfile (load_files opendir) s"

definition ReloadScripts :: "(lua_val \<Rightarrow> lua_val list \<Rightarrow> lua_result) \<Rightarrow> (byte list \<Rightarrow> lua_val + lua_val) \<Rightarrow>
    (string \<Rightarrow> (string \<times> fs_node) list) \<Rightarrow> lua_engine \<Rightarrow> lua_engine option" where
  "ReloadScripts call loadfile opendir s = exec_files call loadfile (reload_files opendir) s"

section \<open>Functions called by name\<close>

definition push_value :: "lua_val \<Rightarrow> lua_engine \<Rightarrow> lua_engine" where
  "push_value v s = s\<lparr>eg_stack := v # eg_stack s\<rparr>"

text \<open>The part of \<^verbatim>\<open>on_start\<close> that runs the script's own start function.\<close>

definition start_scripts :: "(lua_val \<Rightarrow> lua_val list \<Rightarrow> lua_result) \<Rightarrow> lua_entries \<Rightarrow> lua_engine \<Rightarrow> lua_engine option" where
  "start_scripts call globals s = do {
     (found, s1) \<leftarrow> PushFunction globals (bytes ''glof'') s;
     (ok, s2) \<leftarrow> ExecFunction call 0 0 s1;
     Some s2
   }"

definition OnPlayerLogin :: "(lua_val \<Rightarrow> lua_val list \<Rightarrow> lua_result) \<Rightarrow> lua_entries \<Rightarrow> byte list \<Rightarrow> lua_val \<Rightarrow> lua_engine \<Rightarrow>
    lua_engine option" where
  "OnPlayerLogin call globals binding plr s =
     (if binding = [] then Some s
      else do {
        (found, s1) \<leftarrow> PushFunction globals binding s;
        (ok, s2) \<leftarrow> ExecFunction call 1 0 (push_value plr s1);
        Some s2
      })"

text \<open>The context of a timer; \<open>push_ctx\<close> pushes it and says how many values it pushed.\<close>

datatype timer_ctx = CT_Global | CT_Object lua_val | CT_Map nat

definition push_ctx :: "timer_ctx \<Rightarrow> lua_engine \<Rightarrow> nat \<times> lua_engine" where
  "push_ctx ctx s =
     (case ctx of
        CT_Global \<Rightarrow> (0, s)
      | CT_Object ob \<Rightarrow> (1, push_value ob s)
      | CT_Map m \<Rightarrow> (1, s))"

text \<open>The callback of a script timer: up to the call of the script, with the number of the arguments, and the call.\<close>

definition cb_script_timer_push :: "lua_entries \<Rightarrow> u64 \<Rightarrow> nat \<Rightarrow> timer_ctx \<Rightarrow> byte list \<Rightarrow> byte_buffer \<Rightarrow> lua_engine \<Rightarrow>
    (nat \<times> lua_engine \<times> byte_buffer) option" where
  "cb_script_timer_push globals junk fuel ctx cb sp s = do {
     (found, s1) \<leftarrow> PushFunction globals cb s;
     let (n, s2) = push_ctx ctx s1;
     (v, sp1) \<leftarrow> param_Push junk fuel sp;
     Some (n + 1, push_value v s2, sp1)
   }"

definition cb_script_timer :: "(lua_val \<Rightarrow> lua_val list \<Rightarrow> lua_result) \<Rightarrow> lua_entries \<Rightarrow> u64 \<Rightarrow> nat \<Rightarrow> timer_ctx \<Rightarrow> byte list \<Rightarrow>
    byte_buffer \<Rightarrow> lua_engine \<Rightarrow> (lua_engine \<times> byte_buffer) option" where
  "cb_script_timer call globals junk fuel ctx cb sp s = do {
     (narg, s1, sp1) \<leftarrow> cb_script_timer_push globals junk fuel ctx cb sp s;
     (ok, s2) \<leftarrow> ExecFunction call narg 0 s1;
     Some (s2, sp1)
   }"

section \<open>Global scripts and the objects of the program\<close>

definition GSE_END :: nat where "GSE_END = 2"

text \<open>The instances that \<^verbatim>\<open>main\<close> creates, and in which order it destroys them.\<close>

definition main_created :: "string list" where
  "main_created = [''Logger'', ''CGameServerInput'', ''CGameServerFrame'', ''Poll::Poller'', ''CNetMgr'', ''TimerMgr'',
     ''MessageQueue'', ''MessageQueue 2'', ''FrameEvent'', ''SystemConfig'', ''CMapMgr'', ''CScriptResource'', ''LuaEngine'',
     ''AsyncTask'', ''CDBMgr'', ''ScheduleMgr'']"

definition main_destroyed :: "string list" where
  "main_destroyed = [''ScheduleMgr'', ''CDBMgr'', ''AsyncTask'', ''LuaEngine'', ''CScriptResource'', ''CMapMgr'', ''SystemConfig'',
     ''FrameEvent'', ''MessageQueue'', ''MessageQueue 2'', ''TimerMgr'', ''Poll::Poller'', ''CNetMgr'', ''CGameServerFrame'',
     ''CGameServerInput'', ''Logger'']"

text \<open>The bindings of the instance of \<^verbatim>\<open>CScriptMgr\<close>; \<open>None\<close> is the null pointer of a class without an instance.\<close>

definition script_mgr :: "byte list list option" where
  "script_mgr = (if ''CScriptMgr'' \<in> set main_created then Some (replicate GSE_END []) else None)"

definition RegisterGlobalScript :: "u32 \<Rightarrow> byte list \<Rightarrow> byte list list option \<Rightarrow> (bool \<times> byte list list option) option" where
  "RegisterGlobalScript evt name this =
     (if unat evt \<ge> GSE_END then Some (False, this)
      else case this of None \<Rightarrow> None | Some bs \<Rightarrow> Some (True, Some (bs[unat evt := name])))"

definition GetGlobalScriptBinding :: "u32 \<Rightarrow> byte list list option \<Rightarrow> byte list option" where
  "GetGlobalScriptBinding evt this =
     (if unat evt < GSE_END then (case this of None \<Rightarrow> None | Some bs \<Rightarrow> Some (bs ! unat evt)) else None)"

text \<open>The API function: the arguments have been checked to be an integer and a string.\<close>

definition register_global_script :: "u64 \<Rightarrow> byte list \<Rightarrow> byte list list option \<Rightarrow> (lua_val \<times> byte list list option) option" where
  "register_global_script evt name this =
     map_option (apfst LBool) (RegisterGlobalScript (ucast evt) (c_bytes name) this)"

section \<open>The configuration\<close>

record sys_config =
  sc_listen_ip :: "byte list"
  sc_listen_pt :: u16
  sc_connect_ip :: "byte list"
  sc_connect_pt :: u16
  sc_db_host :: "byte list"
  sc_db_user :: "byte list"
  sc_db_pwd :: "byte list"
  sc_db_name :: "byte list"
  sc_db_port :: u16
  sc_db_chat_set :: "byte list"

text \<open>The first block reads some values and drops them.\<close>

definition config_probe :: "lua_conv \<Rightarrow> lua_stack \<Rightarrow> lua_stack option" where
  "config_probe c st = do {
     (a, st1) \<leftarrow> GetInteger_key c (bytes ''a'') st;
     (b, st2) \<leftarrow> GetBoolean_key (bytes ''b'') st1;
     (t, st3) \<leftarrow> GetString_key c (bytes ''c'') st2;
     (d, st4) \<leftarrow> GetNumber_key c (bytes ''d'') st3;
     (t2, st5) \<leftarrow> GetStringDeep c (bytes ''e.e3.fuck'') st4;
     LeaveTable st5
   }"

definition config_db :: "lua_conv \<Rightarrow> sys_config \<Rightarrow> lua_stack \<Rightarrow> (sys_config \<times> lua_stack) option" where
  "config_db c sc st = do {
     (host, st1) \<leftarrow> GetString_key c (bytes ''host'') st;
     (user, st2) \<leftarrow> GetString_key c (bytes ''user'') st1;
     (pwd, st3) \<leftarrow> GetString_key c (bytes ''pwd'') st2;
     (name, st4) \<leftarrow> GetString_key c (bytes ''name'') st3;
     (port, st5) \<leftarrow> GetInteger_key c (bytes ''port'') st4;
     (chat_set, st6) \<leftarrow> GetString_key c (bytes ''chat_set'') st5;
     st7 \<leftarrow> LeaveTable st6;
     Some (sc\<lparr>sc_db_host := host, sc_db_user := user, sc_db_pwd := pwd, sc_db_name := name, sc_db_port := ucast (fst port),
              sc_db_chat_set := chat_set\<rparr>, st7)
   }"

definition config_values :: "lua_conv \<Rightarrow> sys_config \<Rightarrow> lua_stack \<Rightarrow> (sys_config \<times> lua_stack) option" where
  "config_values c sc st = do {
     (lip, st1) \<leftarrow> GetString_key c (bytes ''listen_ip'') st;
     (lpt, st2) \<leftarrow> GetInteger_key c (bytes ''listen_pt'') st1;
     (cip, st3) \<leftarrow> GetString_key c (bytes ''connect_ip'') st2;
     (cpt, st4) \<leftarrow> GetInteger_key c (bytes ''connect_pt'') st3;
     let sc1 = sc\<lparr>sc_listen_ip := lip, sc_listen_pt := ucast (fst lpt), sc_connect_ip := cip, sc_connect_pt := ucast (fst cpt)\<rparr>;
     (db, st5) \<leftarrow> EnterTable_key (bytes ''db'') st4;
     if db then config_db c sc1 st5 else Some (sc1, st5)
   }"

definition LoadSystemConfig :: "lua_conv \<Rightarrow> (byte list \<Rightarrow> lua_val + lua_val list) \<Rightarrow> lua_val \<Rightarrow> sys_config \<Rightarrow> lua_stack \<Rightarrow>
    (sys_config \<times> lua_stack) option" where
  "LoadSystemConfig c dofile globals sc st = do {
     (ok, st1) \<leftarrow> DoFile dofile (bytes ''./world/system_config.lua'') st;
     if \<not> ok then Some (sc, st1)
     else do {
       (found, st2) \<leftarrow> EnterTable_key (bytes ''SystemConfig'') (EnterGlobalTable globals st1);
       st3 \<leftarrow> (if found then config_probe c st2 else Some st2);
       st4 \<leftarrow> LeaveTable st3;
       (found2, st5) \<leftarrow> EnterTable_key (bytes ''SystemConfig'') (EnterGlobalTable globals st4);
       (sc1, st6) \<leftarrow> (if found2 then config_values c sc st5 else Some (sc, st5));
       st7 \<leftarrow> LeaveTable st6;
       Some (sc1, st7)
     }
   }"

section \<open>Properties of the script files\<close>

text \<open>The regular files below a directory that is reached through visible names only.\<close>

definition visible :: "string \<Rightarrow> bool" where
  "visible name \<longleftrightarrow> \<not> (name \<noteq> [] \<and> hd name = CHR ''.'')"

inductive file_below :: "(string \<times> fs_node) list \<Rightarrow> string \<Rightarrow> bool" where
  here: "(name, RegFile) \<in> set es \<Longrightarrow> visible name \<Longrightarrow> file_below es (''/'' @ name)"
| there: "(name, Dir sub) \<in> set es \<Longrightarrow> visible name \<Longrightarrow> file_below sub p \<Longrightarrow> file_below es (''/'' @ name @ p)"

inductive_cases file_belowE: "file_below es p"

lemma file_below_iff:
  "file_below es p \<longleftrightarrow> (\<exists>name node. (name, node) \<in> set es \<and> visible name \<and>
     (case node of RegFile \<Rightarrow> p = ''/'' @ name | OtherFile \<Rightarrow> False | Dir sub \<Rightarrow> (\<exists>q. file_below sub q \<and> p = ''/'' @ name @ q)))"
  (is "?l \<longleftrightarrow> ?r")
proof
  assume ?l
  then show ?r by (cases rule: file_below.cases) fastforce+
next
  assume ?r
  then obtain name node where n: "(name, node) \<in> set es" "visible name"
    "case node of RegFile \<Rightarrow> p = ''/'' @ name | OtherFile \<Rightarrow> False | Dir sub \<Rightarrow> (\<exists>q. file_below sub q \<and> p = ''/'' @ name @ q)"
    by blast
  then show ?l by (cases node) (auto dest: here there)
qed

lemma file_below_Cons:
  "file_below ((name, node) # es) p \<longleftrightarrow> file_below es p \<or> visible name \<and>
     (case node of RegFile \<Rightarrow> p = ''/'' @ name | OtherFile \<Rightarrow> False | Dir sub \<Rightarrow> (\<exists>q. file_below sub q \<and> p = ''/'' @ name @ q))"
  using file_below_iff [of "(name, node) # es" p] file_below_iff [of es p] by auto

lemma file_below_Nil [simp]: "\<not> file_below [] p"
  by (auto elim: file_belowE)

lemma scan_files:
  "set (scan_node fname node) = {fname @ p |p. case node of RegFile \<Rightarrow> p = [] | OtherFile \<Rightarrow> False | Dir sub \<Rightarrow> file_below sub p}"
  "set (scan_dir dir es) = {dir @ p |p. file_below es p}"
proof (induction fname node and dir es rule: scan_node_scan_dir.induct)
  case (5 dir name node es)
  show ?case
  proof (cases "visible name")
    case True
    then have v: "\<not> (name \<noteq> [] \<and> hd name = CHR ''.'')" by (simp add: visible_def)
    have "set (scan_dir dir ((name, node) # es)) = set (scan_node (dir @ ''/'' @ name) node) \<union> set (scan_dir dir es)"
      by (simp only: scan_dir.simps if_not_P [OF v] set_append)
    then show ?thesis unfolding 5(2) [OF v] 5(3) [OF v] file_below_Cons using True by (cases node) auto
  next
    case False
    then have v: "name \<noteq> [] \<and> hd name = CHR ''.''" by (simp add: visible_def)
    then have "set (scan_dir dir ((name, node) # es)) = set (scan_dir dir es)" by simp
    then show ?thesis unfolding 5(1) [OF v] file_below_Cons using False by simp
  qed
qed auto

text \<open>
  Directories as file systems have them: the entries of a directory have different names, and no name has a slash.
\<close>

fun proper_node :: "fs_node \<Rightarrow> bool" and proper_dir :: "(string \<times> fs_node) list \<Rightarrow> bool" where
  "proper_node RegFile = True"
| "proper_node OtherFile = True"
| "proper_node (Dir es) = proper_dir es"
| "proper_dir [] = True"
| "proper_dir ((name, node) # es) \<longleftrightarrow> name \<notin> fst ` set es \<and> CHR ''/'' \<notin> set name \<and> proper_node node \<and> proper_dir es"

lemma proper_dir_names: "proper_dir es \<Longrightarrow> (name, node) \<in> set es \<Longrightarrow> CHR ''/'' \<notin> set name"
  by (induction es) auto

lemma below_name: "file_below es p \<Longrightarrow> \<exists>name node r. (name, node) \<in> set es \<and> p = ''/'' @ name @ r \<and> (r = [] \<or> hd r = CHR ''/'')"
proof (induction rule: file_below.induct)
  case (here name es)
  then show ?case by (intro exI [of _ name] exI [of _ RegFile] exI [of _ "[]"]) simp
next
  case (there name sub es p)
  then have "hd p = CHR ''/''" by auto
  then show ?case using there by (intro exI [of _ name] exI [of _ "Dir sub"] exI [of _ p]) simp
qed

lemma first_name:
  assumes "n @ r = n1 @ r1" and "CHR ''/'' \<notin> set n" and "CHR ''/'' \<notin> set n1"
    and "r = [] \<or> hd r = CHR ''/''" and "r1 = [] \<or> hd r1 = CHR ''/''"
  shows "n = n1"
proof -
  have "takeWhile (\<lambda>c. c \<noteq> CHR ''/'') (n @ r) = n" if "CHR ''/'' \<notin> set n" "r = [] \<or> hd r = CHR ''/''" for n r
  proof -
    have "takeWhile (\<lambda>c. c \<noteq> CHR ''/'') r = []" using that(2) by (cases r) auto
    moreover have "\<And>c. c \<in> set n \<Longrightarrow> c \<noteq> CHR ''/''" using that(1) by auto
    ultimately show ?thesis by (subst takeWhile_append2) auto
  qed
  from this [of n r] this [of n1 r1] show ?thesis using assms by simp
qed

lemma distinct_scan:
  "proper_node node \<Longrightarrow> distinct (scan_node fname node)"
  "proper_dir es \<Longrightarrow> distinct (scan_dir dir es)"
proof (induction fname node and dir es rule: scan_node_scan_dir.induct)
  case (5 dir name node es)
  have rest: "distinct (scan_dir dir es)" if "visible name \<or> \<not> visible name"
    using 5 by (cases "name \<noteq> [] \<and> hd name = CHR ''.''") auto
  show ?case
  proof (cases "visible name")
    case True
    then have v: "\<not> (name \<noteq> [] \<and> hd name = CHR ''.'')" by (simp add: visible_def)
    have n: "CHR ''/'' \<notin> set name" "name \<notin> fst ` set es" "proper_dir es" using 5(4) by simp_all
    have "set (scan_node (dir @ ''/'' @ name) node) \<inter> set (scan_dir dir es) = {}"
    proof -
      have "x \<notin> set (scan_dir dir es)" if x: "x \<in> set (scan_node (dir @ ''/'' @ name) node)" for x
      proof
        assume "x \<in> set (scan_dir dir es)"
        then obtain p where p: "x = dir @ p" "file_below es p" by (auto simp: scan_files(2))
        obtain name1 node1 r1 where 1: "(name1, node1) \<in> set es" "p = ''/'' @ name1 @ r1" "r1 = [] \<or> hd r1 = CHR ''/''"
          using below_name [OF p(2)] by blast
        obtain r where r: "x = (dir @ ''/'' @ name) @ r" "case node of RegFile \<Rightarrow> r = [] | OtherFile \<Rightarrow> False | Dir sub \<Rightarrow> file_below sub r"
          using x by (auto simp: scan_files(1))
        have "r = [] \<or> hd r = CHR ''/''"
          using r(2) below_name [of _ r] by (cases node) force+
        then have "name = name1"
          using first_name [of name r name1 r1] r(1) p(1) 1 n(1) proper_dir_names [OF n(3) 1(1)] by simp
        then show False using 1(1) n(2) by force
      qed
      then show ?thesis by blast
    qed
    moreover have "distinct (scan_node (dir @ ''/'' @ name) node)" using 5(2) [OF v] 5(4) by simp
    ultimately show ?thesis using rest v by simp
  next
    case False
    then show ?thesis using rest by (simp add: visible_def)
  qed
qed auto

lemma exec_files_fold:
  "exec_files call loadfile fs s =
     fold (\<lambda>f r. Option.bind r (\<lambda>s. map_option snd (ExecFile call loadfile (bytes f) s))) fs (Some s)"
proof (induction fs arbitrary: s)
  case (Cons f fs)
  have none: "fold (\<lambda>f r. Option.bind r (\<lambda>s. map_option snd (ExecFile call loadfile (bytes f) s))) fs None = None"
    by (induction fs) auto
  show ?case using Cons none by (cases "ExecFile call loadfile (bytes f) s") auto
qed simp

text \<open>A name that ends in \<^verbatim>\<open>.lua\<close> or \<^verbatim>\<open>.once\<close>, in letters of either case.\<close>

definition ends_in_lua :: "string \<Rightarrow> bool" where
  "ends_in_lua f \<longleftrightarrow> (\<exists>r l u a. f = r @ [CHR ''.'', l, u, a] \<and> l \<in> {CHR ''l'', CHR ''L''} \<and> u \<in> {CHR ''u'', CHR ''U''}
     \<and> a \<in> {CHR ''a'', CHR ''A''})"

definition ends_in_once :: "string \<Rightarrow> bool" where
  "ends_in_once f \<longleftrightarrow> (\<exists>r o1 n c e. f = r @ [CHR ''.'', o1, n, c, e] \<and> o1 \<in> {CHR ''o'', CHR ''O''} \<and> n \<in> {CHR ''n'', CHR ''N''}
     \<and> c \<in> {CHR ''c'', CHR ''C''} \<and> e \<in> {CHR ''e'', CHR ''E''})"

lemma from_last_dot_eq:
  "from_last_dot f = Some p \<longleftrightarrow> (\<exists>r q. f = r @ p \<and> p = CHR ''.'' # q \<and> CHR ''.'' \<notin> set q)"
proof
  assume p: "from_last_dot f = Some p"
  let ?q = "rev (takeWhile (\<lambda>c. c \<noteq> CHR ''.'') (rev f))"
  have d: "CHR ''.'' \<in> set f" "p = CHR ''.'' # ?q" using p by (auto simp: from_last_dot_def split: if_splits)
  let ?d = "dropWhile (\<lambda>c. c \<noteq> CHR ''.'') (rev f)"
  have "?d \<noteq> []" using d(1) by (simp add: dropWhile_eq_Nil_conv)
  then have "?d = CHR ''.'' # tl ?d" using hd_dropWhile [of "\<lambda>c. c \<noteq> CHR ''.''" "rev f"] by (metis list.collapse)
  then have "rev f = takeWhile (\<lambda>c. c \<noteq> CHR ''.'') (rev f) @ CHR ''.'' # tl ?d" by (metis takeWhile_dropWhile_id)
  then have "rev (rev f) = rev (takeWhile (\<lambda>c. c \<noteq> CHR ''.'') (rev f) @ CHR ''.'' # tl ?d)" by (rule arg_cong)
  then have "f = rev (tl ?d) @ p" using d(2) by simp
  moreover have "CHR ''.'' \<notin> set ?q" by (auto dest: set_takeWhileD)
  ultimately show "\<exists>r q. f = r @ p \<and> p = CHR ''.'' # q \<and> CHR ''.'' \<notin> set q" using d(2) by blast
next
  assume "\<exists>r q. f = r @ p \<and> p = CHR ''.'' # q \<and> CHR ''.'' \<notin> set q"
  then obtain r q where f: "f = r @ CHR ''.'' # q" "p = CHR ''.'' # q" "CHR ''.'' \<notin> set q" by blast
  have "takeWhile (\<lambda>c. c \<noteq> CHR ''.'') (rev q @ CHR ''.'' # rev r) = rev q"
    using f(3) by (subst takeWhile_append2) auto
  then show "from_last_dot f = Some p" using f by (simp add: from_last_dot_def)
qed

lemma to_lower_eq:
  assumes "(of_char c :: nat) = of_char C + 32" and "65 \<le> (of_char C :: nat)" and "(of_char C :: nat) \<le> 90"
  shows "to_lower x = c \<longleftrightarrow> x \<in> {c, C}"
proof -
  have "to_lower x = c \<longleftrightarrow> (of_char (to_lower x) :: nat) = of_char c" by simp
  also have "\<dots> \<longleftrightarrow> (of_char x :: nat) = of_char c \<or> (of_char x :: nat) = of_char C"
    using assms by (auto simp: to_lower_def Let_def)
  finally show ?thesis by simp
qed

lemma to_lower_cases:
  "to_lower x = CHR ''.'' \<longleftrightarrow> x = CHR ''.''"
  "to_lower x = CHR ''l'' \<longleftrightarrow> x \<in> {CHR ''l'', CHR ''L''}" "to_lower x = CHR ''u'' \<longleftrightarrow> x \<in> {CHR ''u'', CHR ''U''}"
  "to_lower x = CHR ''a'' \<longleftrightarrow> x \<in> {CHR ''a'', CHR ''A''}" "to_lower x = CHR ''o'' \<longleftrightarrow> x \<in> {CHR ''o'', CHR ''O''}"
  "to_lower x = CHR ''n'' \<longleftrightarrow> x \<in> {CHR ''n'', CHR ''N''}" "to_lower x = CHR ''c'' \<longleftrightarrow> x \<in> {CHR ''c'', CHR ''C''}"
  "to_lower x = CHR ''e'' \<longleftrightarrow> x \<in> {CHR ''e'', CHR ''E''}"
proof -
  have "(of_char (to_lower x) :: nat) = of_char (CHR ''.'') \<longleftrightarrow> (of_char x :: nat) = of_char (CHR ''.'')"
    by (auto simp: to_lower_def Let_def)
  then show "to_lower x = CHR ''.'' \<longleftrightarrow> x = CHR ''.''" by (simp only: of_char_eq_iff)
qed (rule to_lower_eq; simp)+

lemma map_eq_4: "map f p = [a, b, c, d] \<longleftrightarrow> (\<exists>w x y z. p = [w, x, y, z] \<and> f w = a \<and> f x = b \<and> f y = c \<and> f z = d)"
  by auto

lemma map_eq_5: "map f p = [a, b, c, d, e] \<longleftrightarrow>
    (\<exists>v w x y z. p = [v, w, x, y, z] \<and> f v = a \<and> f w = b \<and> f x = c \<and> f y = d \<and> f z = e)"
  by auto

lemma lower_lua: "map to_lower p = ''.lua'' \<longleftrightarrow>
    (\<exists>l u a. p = [CHR ''.'', l, u, a] \<and> l \<in> {CHR ''l'', CHR ''L''} \<and> u \<in> {CHR ''u'', CHR ''U''} \<and> a \<in> {CHR ''a'', CHR ''A''})"
  unfolding map_eq_4 to_lower_cases by simp

lemma lower_once: "map to_lower p = ''.once'' \<longleftrightarrow>
    (\<exists>o1 n c e. p = [CHR ''.'', o1, n, c, e] \<and> o1 \<in> {CHR ''o'', CHR ''O''} \<and> n \<in> {CHR ''n'', CHR ''N''}
       \<and> c \<in> {CHR ''c'', CHR ''C''} \<and> e \<in> {CHR ''e'', CHR ''E''})"
  unfolding map_eq_5 to_lower_cases by simp

lemma lower_rest: "map to_lower ''.lua'' = ''.lua''" "map to_lower ''.once'' = ''.once''"
  unfolding lower_lua lower_once by simp_all

lemma ending:
  "(\<exists>p. from_last_dot f = Some p \<and> map to_lower p = ''.lua'') \<longleftrightarrow> ends_in_lua f"
  "(\<exists>p. from_last_dot f = Some p \<and> map to_lower p = ''.once'') \<longleftrightarrow> ends_in_once f"
proof -
  show "(\<exists>p. from_last_dot f = Some p \<and> map to_lower p = ''.lua'') \<longleftrightarrow> ends_in_lua f"
  proof
    assume "\<exists>p. from_last_dot f = Some p \<and> map to_lower p = ''.lua''"
    then show "ends_in_lua f" unfolding from_last_dot_eq lower_lua ends_in_lua_def by blast
  next
    assume "ends_in_lua f"
    then obtain r l u a where f: "f = r @ [CHR ''.'', l, u, a]" "l \<in> {CHR ''l'', CHR ''L''}" "u \<in> {CHR ''u'', CHR ''U''}"
      "a \<in> {CHR ''a'', CHR ''A''}" unfolding ends_in_lua_def by blast
    then have "CHR ''.'' \<notin> set [l, u, a]" by auto
    then have "from_last_dot f = Some [CHR ''.'', l, u, a]" unfolding from_last_dot_eq using f(1) by blast
    then show "\<exists>p. from_last_dot f = Some p \<and> map to_lower p = ''.lua''" unfolding lower_lua using f(2-) by blast
  qed
  show "(\<exists>p. from_last_dot f = Some p \<and> map to_lower p = ''.once'') \<longleftrightarrow> ends_in_once f"
  proof
    assume "\<exists>p. from_last_dot f = Some p \<and> map to_lower p = ''.once''"
    then show "ends_in_once f" unfolding from_last_dot_eq lower_once ends_in_once_def by blast
  next
    assume "ends_in_once f"
    then obtain r o1 n c e where f: "f = r @ [CHR ''.'', o1, n, c, e]" "o1 \<in> {CHR ''o'', CHR ''O''}" "n \<in> {CHR ''n'', CHR ''N''}"
      "c \<in> {CHR ''c'', CHR ''C''}" "e \<in> {CHR ''e'', CHR ''E''}" unfolding ends_in_once_def by blast
    then have "CHR ''.'' \<notin> set [o1, n, c, e]" by auto
    then have "from_last_dot f = Some [CHR ''.'', o1, n, c, e]" unfolding from_last_dot_eq using f(1) by blast
    then show "\<exists>p. from_last_dot f = Some p \<and> map to_lower p = ''.once''" unfolding lower_once using f(2-) by blast
  qed
qed

lemma is_reload_script_iff: "is_reload_script f \<longleftrightarrow> ends_in_lua f"
  unfolding is_reload_script_def stricmp_def lower_rest ending(1) [symmetric] by (simp split: option.splits)

lemma is_load_file_iff: "is_load_file f \<longleftrightarrow> ends_in_lua f \<or> ends_in_once f"
  unfolding is_load_file_def stricmp_def lower_rest ending [symmetric] by (auto split: option.splits)

lemma ends_in_lua_last: "ends_in_lua f \<Longrightarrow> last f \<in> {CHR ''a'', CHR ''A''}"
  by (auto simp: ends_in_lua_def)

lemma run_dirs:
  assumes "proper_dir (opendir d)"
  shows "distinct (filter P (scan_dir d (opendir d)))"
    and "set (filter P (scan_dir d (opendir d))) = {f. \<exists>p. f = d @ p \<and> file_below (opendir d) p \<and> P f}"
  using distinct_scan(2) [OF assms] by (auto simp: scan_files)

lemma load_files_parts:
  "load_files opendir = concat (map (\<lambda>d. filter (\<lambda>f. ends_in_lua f \<or> ends_in_once f) (scan_dir d (opendir d)))
     [''./world/0.sys_base'', ''./world/1.pub_config'', ''./world/gs_scripts''])"
  "reload_files opendir = filter ends_in_lua (scan_dir ''./world/gs_scripts'' (opendir ''./world/gs_scripts''))"
proof -
  have e: "is_load_file = (\<lambda>f. ends_in_lua f \<or> ends_in_once f)" "is_reload_script = ends_in_lua"
    using is_load_file_iff is_reload_script_iff by blast+
  show "load_files opendir = concat (map (\<lambda>d. filter (\<lambda>f. ends_in_lua f \<or> ends_in_once f) (scan_dir d (opendir d)))
     [''./world/0.sys_base'', ''./world/1.pub_config'', ''./world/gs_scripts''])"
    by (simp only: load_files_def ScanDir_def e list.map concat.simps filter_append append_Nil append_Nil2 append_assoc)
  show "reload_files opendir = filter ends_in_lua (scan_dir ''./world/gs_scripts'' (opendir ''./world/gs_scripts''))"
    by (simp only: reload_files_def ScanDir_def e append_Nil)
qed

text \<open>
  C29. In directories whose entries have different names without slashes, loading runs the files below \<^verbatim>\<open>0.sys_base\<close>, then those
  below \<^verbatim>\<open>1.pub_config\<close>, then those below \<^verbatim>\<open>gs_scripts\<close>: each regular file that is reached through visible names and whose
  name ends in \<^verbatim>\<open>.lua\<close> or \<^verbatim>\<open>.once\<close> exactly once, and no other.  A reload runs each of those below \<^verbatim>\<open>gs_scripts\<close> that end in
  \<^verbatim>\<open>.lua\<close> exactly once and no other.
\<close>

theorem script_files:
  assumes "proper_dir (opendir ''./world/0.sys_base'')" and "proper_dir (opendir ''./world/1.pub_config'')"
    and "proper_dir (opendir ''./world/gs_scripts'')"
  shows "\<exists>base config scripts again.
     (\<forall>call loadfile s. LoadScripts call loadfile opendir s =
        fold (\<lambda>f r. Option.bind r (\<lambda>s. map_option snd (ExecFile call loadfile (bytes f) s))) (base @ config @ scripts) (Some s))
   \<and> (\<forall>call loadfile s. ReloadScripts call loadfile opendir s =
        fold (\<lambda>f r. Option.bind r (\<lambda>s. map_option snd (ExecFile call loadfile (bytes f) s))) again (Some s))
   \<and> distinct base \<and> distinct config \<and> distinct scripts \<and> distinct again
   \<and> set base = {f. \<exists>p. f = ''./world/0.sys_base'' @ p \<and> file_below (opendir ''./world/0.sys_base'') p \<and> (ends_in_lua f \<or> ends_in_once f)}
   \<and> set config = {f. \<exists>p. f = ''./world/1.pub_config'' @ p \<and> file_below (opendir ''./world/1.pub_config'') p \<and> (ends_in_lua f \<or> ends_in_once f)}
   \<and> set scripts = {f. \<exists>p. f = ''./world/gs_scripts'' @ p \<and> file_below (opendir ''./world/gs_scripts'') p \<and> (ends_in_lua f \<or> ends_in_once f)}
   \<and> set again = {f. \<exists>p. f = ''./world/gs_scripts'' @ p \<and> file_below (opendir ''./world/gs_scripts'') p \<and> ends_in_lua f}"
proof -
  let ?load = "\<lambda>d. filter (\<lambda>f. ends_in_lua f \<or> ends_in_once f) (scan_dir d (opendir d))"
    and ?again = "filter ends_in_lua (scan_dir ''./world/gs_scripts'' (opendir ''./world/gs_scripts''))"
  have l: "load_files opendir = ?load ''./world/0.sys_base'' @ ?load ''./world/1.pub_config'' @ ?load ''./world/gs_scripts''"
    by (simp only: load_files_parts list.map concat.simps append_Nil2)
  note d = run_dirs [where opendir = opendir and d = "''./world/0.sys_base''", OF assms(1)] run_dirs [where opendir = opendir and d = "''./world/1.pub_config''", OF assms(2)]
    run_dirs [where opendir = opendir and d = "''./world/gs_scripts''", OF assms(3)]
  show ?thesis
    by (rule exI [of _ "?load ''./world/0.sys_base''"], rule exI [of _ "?load ''./world/1.pub_config''"],
        rule exI [of _ "?load ''./world/gs_scripts''"], rule exI [of _ ?again], intro conjI allI)
      ((simp only: LoadScripts_def ReloadScripts_def l load_files_parts(2) exec_files_fold | rule d)+)
qed

definition sample_tree :: "string \<Rightarrow> (string \<times> fs_node) list" where
  "sample_tree d = (if d = ''./world/gs_scripts'' then [(''a.LUA'', RegFile), (''.b.lua'', RegFile), (''lib'', Dir [(''c.once'', RegFile)])] else [])"

theorem script_files_witness:
  "\<exists>again. set again = {''./world/gs_scripts/a.LUA''} \<and> distinct again
     \<and> (\<forall>call loadfile s. ReloadScripts call loadfile sample_tree s =
        fold (\<lambda>f r. Option.bind r (\<lambda>s. map_option snd (ExecFile call loadfile (bytes f) s))) again (Some s))"
proof -
  let ?d = "''./world/gs_scripts''"
  have t: "sample_tree ?d = [(''a.LUA'', RegFile), (''.b.lua'', RegFile), (''lib'', Dir [(''c.once'', RegFile)])]"
    by (simp add: sample_tree_def)
  have p: "proper_dir (sample_tree ''./world/0.sys_base'')" "proper_dir (sample_tree ''./world/1.pub_config'')" "proper_dir (sample_tree ?d)"
    by (simp_all add: sample_tree_def)
  have b: "file_below (sample_tree ?d) q \<longleftrightarrow> q = ''/a.LUA'' \<or> q = ''/lib/c.once''" for q
    by (auto simp: t file_below_Cons visible_def)
  have "ends_in_lua (?d @ ''/a.LUA'')" unfolding ends_in_lua_def by (intro exI [of _ "?d @ ''/a''"]) simp
  moreover have "\<not> ends_in_lua (?d @ ''/lib/c.once'')" by (auto dest: ends_in_lua_last)
  ultimately have "{f. \<exists>p. f = ?d @ p \<and> file_below (sample_tree ?d) p \<and> ends_in_lua f} = {''./world/gs_scripts/a.LUA''}"
    by (auto simp: b)
  moreover obtain again where "set again = {f. \<exists>p. f = ?d @ p \<and> file_below (sample_tree ?d) p \<and> ends_in_lua f}" "distinct again"
    "\<forall>call loadfile s. ReloadScripts call loadfile sample_tree s =
       fold (\<lambda>f r. Option.bind r (\<lambda>s. map_option snd (ExecFile call loadfile (bytes f) s))) again (Some s)"
    using script_files [of sample_tree, OF p] by (elim exE conjE) (rule that)
  ultimately show ?thesis by (intro exI [of _ again] conjI) (simp only:)
qed

text \<open>Names without a zero are different keys when they are different.\<close>

lemma key_eq: "NUL \<notin> set a \<Longrightarrow> NUL \<notin> set b \<Longrightarrow> (str_key (bytes a) = str_key (bytes b)) = (a = b)"
proof -
  have u: "unat (of_char x :: byte) = of_char x" for x
  proof -
    have "(of_char x :: byte) = of_nat (of_char x)" by (simp add: of_nat_of_char)
    then show ?thesis by (simp add: unat_of_nat)
  qed
  have i: "inj (of_char :: char \<Rightarrow> byte)"
    by (rule injI) (metis u of_char_eq_iff)
  have z: "(of_char x :: byte) \<noteq> 0" if "x \<noteq> NUL" for x
  proof
    assume "(of_char x :: byte) = 0"
    then have "of_char x = (0 :: nat)" using u [of x] by simp
    also have "(0 :: nat) = of_char NUL" by simp
    finally show False using that by (simp only: of_char_eq_iff)
  qed
  have inj: "(bytes a = bytes b) = (a = b)" unfolding bytes_def by (rule inj_map_eq_map [OF i])
  have "c_bytes (bytes x) = bytes x" if "NUL \<notin> set x" for x
  proof -
    have "\<And>y. y \<in> set x \<Longrightarrow> y \<noteq> NUL" using that by auto
    then show ?thesis using z unfolding c_bytes_def bytes_def by (induction x) auto
  qed
  then show "NUL \<notin> set a \<Longrightarrow> NUL \<notin> set b \<Longrightarrow> (str_key (bytes a) = str_key (bytes b)) = (a = b)"
    by (simp add: str_key_def inj)
qed

section \<open>Properties of the calls\<close>

lemma ExecFunction_empty: "eg_stack s = replicate n v \<Longrightarrow> n \<le> narg \<Longrightarrow> ExecFunction call narg nres s = None"
  by (simp add: ExecFunction_def lua_pcall_def)

text \<open>
  The callers do not look whether the function was found: on an empty Lua stack, calling one that does not
  exist is undefined behaviour, at the start of the server, at a login and in a timer.
\<close>

theorem missing_function_undefined:
  assumes "lua_rawget globals (str_key name_zcg) = LTab l p es" and "eg_stack s = []"
    and "\<forall>f \<in> {bytes ''glof'', binding, cb}. lua_rawget globals (str_key f) = LNil" and "binding \<noteq> []"
  shows "start_scripts call globals s = None \<and> OnPlayerLogin call globals binding plr s = None
    \<and> cb_script_timer call globals junk fuel CT_Global cb sp s = None"
proof -
  have f: "PushFunction globals f s = Some (False, s\<lparr>eg_fn := Some (Some f)\<rparr>)" if "f \<in> {bytes ''glof'', binding, cb}" for f
  proof -
    have "lua_rawget globals (str_key f) = LNil" using assms(3) that by blast
    then show ?thesis by (simp add: PushFunction_eq [OF assms(1)])
  qed
  have e0: "ExecFunction call 0 0 (s\<lparr>eg_fn := g\<rparr>) = None" for g
    by (rule ExecFunction_empty [where n = 0]) (simp_all add: assms(2))
  have e1: "ExecFunction call 1 0 (push_value v (s\<lparr>eg_fn := g\<rparr>)) = None" for v g
    by (rule ExecFunction_empty [where n = 1 and v = v]) (simp_all add: push_value_def assms(2))
  have "start_scripts call globals s = None" by (simp add: start_scripts_def f e0)
  moreover have "OnPlayerLogin call globals binding plr s = None"
    using assms(4) e1 by (simp add: OnPlayerLogin_def f)
  moreover have "cb_script_timer call globals junk fuel CT_Global cb sp s = None"
    using e1 by (cases "param_Push junk fuel sp") (auto simp: cb_script_timer_def cb_script_timer_push_def f push_ctx_def)
  ultimately show ?thesis by simp
qed

theorem missing_function_undefined_witness:
  "start_scripts (\<lambda>f args. Inr []) sample_globals engine_Init = None"
proof -
  have "bytes ''glof'' \<noteq> [0x66]" by (simp add: bytes_def)
  have n: "lua_rawget sample_globals (str_key (bytes ''glof'')) = LNil" "lua_rawget sample_globals (str_key [0x67]) = LNil"
    by (simp_all add: sample_globals_def lua_rawget_def str_key_def c_bytes_def name_zcg_def name_debug_def bytes_def)
  have "\<forall>f \<in> {bytes ''glof'', [0x67], [0x67]}. lua_rawget sample_globals (str_key f) = LNil" using n by simp
  moreover have "eg_stack engine_Init = []" "[0x67 :: byte] \<noteq> []" by (simp_all add: engine_Init_def)
  ultimately show ?thesis
    using missing_function_undefined [OF sample_lookup(1), of engine_Init "[0x67]" "[0x67]" "\<lambda>f args. Inr []" LNil 0 0 "param_new 0"]
    by blast
qed

text \<open>
  A timer of an object or of no context calls its function and leaves the Lua stack as it was, whether the
  function succeeds or fails.
\<close>

theorem timer_callback_balanced:
  assumes "lua_rawget globals (str_key name_zcg) = LTab l p es" and "lua_rawget globals (str_key cb) \<noteq> LNil"
    and "param_Push junk fuel sp = Some (v, sp1)" and "\<And>m. ctx \<noteq> CT_Map m"
  shows "cb_script_timer call globals junk fuel ctx cb sp s = Some (s\<lparr>eg_fn := Some None\<rparr>, sp1)"
proof -
  let ?f = "lua_rawget globals (str_key cb)" and ?h = "lua_rawget es (str_key name_dump_locals)"
  have e: "ExecFunction call (length args) 0 (s\<lparr>eg_fn := Some g, eg_stack := rev args @ ?f # ?h # eg_stack s\<rparr>)
      = Some (case call ?f args of Inl err \<Rightarrow> False | Inr rs \<Rightarrow> True, s\<lparr>eg_fn := Some None\<rparr>)" for args g
    using ExecFunction_eq [where args = args and f = ?f and h = ?h and st = "eg_stack s" and nres = 0
        and s = "s\<lparr>eg_fn := Some g, eg_stack := rev args @ ?f # ?h # eg_stack s\<rparr>" and call = call]
    by (auto simp: adjust_results_def MULTRET_def split: sum.split)
  show ?thesis
  proof (cases ctx)
    case CT_Global
    then show ?thesis using assms(2,3) e [of "[v]"]
      by (simp add: cb_script_timer_def cb_script_timer_push_def PushFunction_eq [OF assms(1)] push_ctx_def push_value_def)
  next
    case (CT_Object ob)
    then show ?thesis using assms(2,3) e [of "[ob, v]"]
      by (simp add: cb_script_timer_def cb_script_timer_push_def PushFunction_eq [OF assms(1)] push_ctx_def push_value_def)
  next
    case (CT_Map m)
    then show ?thesis using assms(4) by blast
  qed
qed

theorem timer_callback_balanced_witness:
  "cb_script_timer (\<lambda>f args. Inl LNil) sample_globals 0 0 (CT_Object LNil) [0x66] (param_new 0) engine_Init
     = Some (engine_Init\<lparr>eg_fn := Some None\<rparr>, param_new 0)"
proof -
  have "param_Push 0 0 (param_new 0) = Some (LTab False False [], param_new 0)"
    by (simp add: param_Push_def param_new_def bb_new_def bb_Avail_def)
  moreover have "lua_rawget sample_globals (str_key [0x66]) \<noteq> LNil" by (simp add: sample_lookup)
  ultimately show ?thesis using timer_callback_balanced [OF sample_lookup(1)] by simp
qed

text \<open>
  A timer of a map counts a context that it does not push: the error handler is called instead of the
  function, and a value of the caller is taken from the Lua stack.
\<close>

theorem timer_map_context:
  assumes "lua_rawget globals (str_key name_zcg) = LTab l p es" and "lua_rawget globals (str_key cb) \<noteq> LNil"
    and "param_Push junk fuel sp = Some (v, sp1)"
  shows "cb_script_timer call globals junk fuel (CT_Map m) cb sp s =
    (case eg_stack s of [] \<Rightarrow> None | x # rest \<Rightarrow> Some (s\<lparr>eg_stack := rest, eg_fn := Some None\<rparr>, sp1))"
  using assms(2,3)
  by (simp add: cb_script_timer_def cb_script_timer_push_def PushFunction_eq [OF assms(1)] push_ctx_def push_value_def ExecFunction_def
      lua_pcall_def lua_remove_def emit_error_def adjust_results_def MULTRET_def Let_def numeral_2_eq_2
      split: sum.split list.split)

theorem timer_map_context_witness:
  "cb_script_timer (\<lambda>f args. Inr []) sample_globals 0 0 (CT_Map 1) [0x66] (param_new 0) engine_Init = None"
proof -
  have "param_Push 0 0 (param_new 0) = Some (LTab False False [], param_new 0)"
    by (simp add: param_Push_def param_new_def bb_new_def bb_Avail_def)
  moreover have "lua_rawget sample_globals (str_key [0x66]) \<noteq> LNil" by (simp add: sample_lookup)
  ultimately show ?thesis using timer_map_context [OF sample_lookup(1), of "[0x66]" 0 0 "param_new 0"]
    by (simp add: engine_Init_def)
qed

text \<open>
  The program creates and destroys each of its objects once, but there is none of \<^verbatim>\<open>CScriptMgr\<close>: a script that
  registers a binding for an event writes through a null pointer.
\<close>

theorem script_mgr_missing:
  "distinct main_created \<and> distinct main_destroyed \<and> set main_created = set main_destroyed
   \<and> register_global_script evt name script_mgr =
      (if unat (ucast evt :: u32) \<ge> GSE_END then Some (LBool False, None) else None)"
proof -
  have "set main_created = set main_destroyed" unfolding main_created_def main_destroyed_def by auto
  then show ?thesis
    by (simp add: script_mgr_def register_global_script_def RegisterGlobalScript_def, simp add: main_created_def main_destroyed_def)
qed

section \<open>Properties of the configuration\<close>

text \<open>The getters on a table that stays on the stack.\<close>

lemma getters_table:
  assumes "is_table v"
  shows "GetString_key c k (v # st) = map_option (\<lambda>r. (c_bytes r, v # st)) (lc_string c (lua_field v k))"
    and "GetInteger_key c k (v # st) = Some (num_of (lc_integer c (lua_field v k)), v # st)"
    and "GetNumber_key c k (v # st) = Some (num_of (lc_number c (lua_field v k)), v # st)"
    and "GetBoolean_key k (v # st) = Some (lua_toboolean (lua_field v k), v # st)"
  using assms
  by (auto simp: GetString_key_def GetInteger_key_def GetNumber_key_def GetBoolean_key_def get_field_def
      push_field_table map_option_case split: option.split)

lemma probe_names: "words_by is_dot (c_bytes (bytes ''e.e3.fuck'')) = [bytes ''e'', bytes ''e3'', bytes ''fuck'']"
  by (simp add: bytes_def c_bytes_def is_dot_def)

definition cfg_string :: "lua_conv \<Rightarrow> lua_val \<Rightarrow> string \<Rightarrow> byte list option" where
  "cfg_string c v k = map_option c_bytes (lc_string c (lua_field v (bytes k)))"

definition cfg_port :: "lua_conv \<Rightarrow> lua_val \<Rightarrow> string \<Rightarrow> u16" where
  "cfg_port c v k = ucast (fst (num_of (lc_integer c (lua_field v (bytes k)))))"

lemma GetString_cfg: "is_table v \<Longrightarrow> cfg_string c v k = Some r \<Longrightarrow> GetString_key c (bytes k) (v # st) = Some (r, v # st)"
  by (auto simp: getters_table cfg_string_def)

text \<open>A configuration with everything that is read from it.\<close>

definition cfg_ok :: "lua_conv \<Rightarrow> lua_val \<Rightarrow> bool" where
  "cfg_ok c v \<longleftrightarrow> is_table v \<and> cfg_string c v ''c'' \<noteq> None \<and>
     is_table (lua_field v (bytes ''e'')) \<and> is_table (lua_field (lua_field v (bytes ''e'')) (bytes ''e3'')) \<and>
     lc_string c (lua_field (lua_field (lua_field v (bytes ''e'')) (bytes ''e3'')) (bytes ''fuck'')) \<noteq> None"

lemma config_probe_ok:
  assumes "cfg_ok c v"
  shows "config_probe c (v # st) = Some st"
proof -
  have v: "is_table v" and s: "cfg_string c v ''c'' \<noteq> None" using assms by (simp_all add: cfg_ok_def)
  let ?ns = "[bytes ''e'', bytes ''e3'', bytes ''fuck'']"
  have ne: "?ns \<noteq> []" "length ?ns < 128" by simp_all
  have "length (trail v (butlast ?ns)) = length (butlast ?ns)"
    using assms by (simp add: cfg_ok_def Let_def)
  then have "\<exists>r. GetStringDeep c (bytes ''e.e3.fuck'') (v # st) = Some (r, v # st)"
    unfolding GetStringDeep_def using string_getter.get_deep_eq [OF probe_names [symmetric] ne v, of c "[]" st] assms
    by (auto simp: Let_def cfg_ok_def)
  moreover obtain r where "cfg_string c v ''c'' = Some r" using s by auto
  ultimately show ?thesis
    by (auto simp: config_probe_def getters_table(2-4) [OF v] GetString_cfg [OF v] LeaveTable_def)
qed

lemma LoadSystemConfig_eq:
  assumes "dofile (bytes ''./world/system_config.lua'') = Inr []" and "is_table g"
    and "cfg = lua_field g (bytes ''SystemConfig'')" and "cfg_ok c cfg"
    and "cfg_string c cfg ''listen_ip'' = Some lip" and "cfg_string c cfg ''connect_ip'' = Some cip"
    and "db = lua_field cfg (bytes ''db'')" and "is_table db"
    and "cfg_string c db ''host'' = Some host" and "cfg_string c db ''user'' = Some user" and "cfg_string c db ''pwd'' = Some pwd"
    and "cfg_string c db ''name'' = Some name" and "cfg_string c db ''chat_set'' = Some cs"
  shows "LoadSystemConfig c dofile g sc st = Some (sc\<lparr>sc_listen_ip := lip, sc_listen_pt := cfg_port c cfg ''listen_pt'',
     sc_connect_ip := cip, sc_connect_pt := cfg_port c cfg ''connect_pt'', sc_db_host := host, sc_db_user := user, sc_db_pwd := pwd,
     sc_db_name := name, sc_db_port := cfg_port c db ''port'', sc_db_chat_set := cs\<rparr>, g # st)"
proof -
  have cfg: "is_table cfg" using assms(4) by (simp add: cfg_ok_def)
  have enter: "EnterTable_key (bytes ''SystemConfig'') (g # s) = Some (True, cfg # g # s)" for s
    using cfg assms(3) by (simp add: EnterTable_key_eq [OF assms(2)])
  have dbe: "EnterTable_key (bytes ''db'') (cfg # s) = Some (True, db # cfg # s)" for s
    using assms(7,8) by (simp add: EnterTable_key_eq [OF cfg])
  have vals: "config_values c sc (cfg # s) = Some (sc\<lparr>sc_listen_ip := lip, sc_listen_pt := cfg_port c cfg ''listen_pt'',
     sc_connect_ip := cip, sc_connect_pt := cfg_port c cfg ''connect_pt'', sc_db_host := host, sc_db_user := user, sc_db_pwd := pwd,
     sc_db_name := name, sc_db_port := cfg_port c db ''port'', sc_db_chat_set := cs\<rparr>, cfg # s)" for s
    using assms(5,6,9-13)
    by (simp add: config_values_def config_db_def GetString_cfg [OF cfg] GetString_cfg [OF assms(8)] getters_table(2) [OF cfg]
        getters_table(2) [OF assms(8)] dbe cfg_port_def LeaveTable_def)
  have d: "DoFile dofile (bytes ''./world/system_config.lua'') st = Some (True, st)" using assms(1) by (simp add: DoFile_def)
  show ?thesis
    by (simp add: LoadSystemConfig_def d EnterGlobalTable_def enter config_probe_ok [OF assms(4)] vals LeaveTable_def)
qed

text \<open>
  A complete configuration file is read into the program's settings, ports modulo \<open>2 ^ 16\<close>, but the table of
  the globals stays behind on the Lua stack.
\<close>

theorem config_loaded:
  assumes "dofile (bytes ''./world/system_config.lua'') = Inr []" and "is_table g"
    and "cfg = lua_field g (bytes ''SystemConfig'')" and "cfg_ok c cfg"
    and "cfg_string c cfg ''listen_ip'' = Some lip" and "cfg_string c cfg ''connect_ip'' = Some cip"
    and "db = lua_field cfg (bytes ''db'')" and "is_table db"
    and "cfg_string c db ''host'' = Some host" and "cfg_string c db ''user'' = Some user" and "cfg_string c db ''pwd'' = Some pwd"
    and "cfg_string c db ''name'' = Some name" and "cfg_string c db ''chat_set'' = Some cs"
  shows "LoadSystemConfig c dofile g sc st = Some (sc\<lparr>sc_listen_ip := lip, sc_listen_pt := cfg_port c cfg ''listen_pt'',
     sc_connect_ip := cip, sc_connect_pt := cfg_port c cfg ''connect_pt'', sc_db_host := host, sc_db_user := user, sc_db_pwd := pwd,
     sc_db_name := name, sc_db_port := cfg_port c db ''port'', sc_db_chat_set := cs\<rparr>, g # st)"
  using assms by (rule LoadSystemConfig_eq)

definition sample_config :: lua_val where
  "sample_config = LTab False False [(str_key (bytes ''SystemConfig''), LTab False False
     [(str_key (bytes ''c''), LStr [1]), (str_key (bytes ''listen_ip''), LStr [2]), (str_key (bytes ''listen_pt''), LInt 65537),
      (str_key (bytes ''connect_ip''), LStr [3]),
      (str_key (bytes ''e''), LTab False False [(str_key (bytes ''e3''), LTab False False [(str_key (bytes ''fuck''), LStr [4])])]),
      (str_key (bytes ''db''), LTab False False [(str_key (bytes ''host''), LStr [5]), (str_key (bytes ''user''), LStr [6]),
         (str_key (bytes ''pwd''), LStr [7]), (str_key (bytes ''name''), LStr [8]), (str_key (bytes ''chat_set''), LStr [9])])])]"

definition blank_config :: sys_config where
  "blank_config = \<lparr>sc_listen_ip = [], sc_listen_pt = 0, sc_connect_ip = [], sc_connect_pt = 0,
     sc_db_host = [], sc_db_user = [], sc_db_pwd = [], sc_db_name = [], sc_db_port = 0, sc_db_chat_set = []\<rparr>"

theorem config_loaded_witness:
  "\<exists>sc. LoadSystemConfig sample_conv (\<lambda>f. Inr []) sample_config blank_config [] = Some (sc, [sample_config])
     \<and> sc_listen_pt sc = 1 \<and> sc_db_host sc = [5]"
proof -
  let ?cfg = "lua_field sample_config (bytes ''SystemConfig'')"
  let ?db = "lua_field ?cfg (bytes ''db'')"
  note look = sample_config_def lua_rawget_def key_eq
  have ok: "is_table sample_config" "cfg_ok sample_conv ?cfg" "is_table ?db"
    by (simp_all add: look cfg_ok_def cfg_string_def sample_conv_def)
  have s: "cfg_string sample_conv ?cfg ''listen_ip'' = Some [2]" "cfg_string sample_conv ?cfg ''connect_ip'' = Some [3]"
    "cfg_string sample_conv ?db ''host'' = Some [5]" "cfg_string sample_conv ?db ''user'' = Some [6]"
    "cfg_string sample_conv ?db ''pwd'' = Some [7]" "cfg_string sample_conv ?db ''name'' = Some [8]"
    "cfg_string sample_conv ?db ''chat_set'' = Some [9]"
    by (simp_all add: look cfg_string_def sample_conv_def c_bytes_def)
  have p: "cfg_port sample_conv ?cfg ''listen_pt'' = 1" by (simp add: look cfg_port_def sample_conv_def num_of_def)
  have d: "(\<lambda>f :: byte list. Inr [] :: lua_result) (bytes ''./world/system_config.lua'') = Inr []" by simp
  show ?thesis
    using config_loaded [OF d ok(1) refl ok(2) s(1,2) refl ok(3) s(3-7), of blank_config "[]"] p by auto
qed

end
