(* ===== verification/GameObjects.thy ===== *)
theory GameObjects
  imports Prelude
begin

text \<open>
  The types of game objects (\<^verbatim>\<open>gameserver/Object.h\<close>, \<^verbatim>\<open>gameserver/Object.cpp\<close> and the headers of the classes) and
  their interface for scripts (\<^verbatim>\<open>libcore/include/LuaHelper.h\<close>, the \<^verbatim>\<open>*Api\<close> files, \<^verbatim>\<open>ScriptMgr.cpp\<close>).

  The registry of Lua maps a class to its metatable: its methods and the class whose metatable is the
  metatable of this one.  An object that scripts hold is a user datum with the metatable of its class.
\<close>

section \<open>Type codes\<close>

definition OBJECT_FLAG_Object :: u16 where "OBJECT_FLAG_Object = 0x0001"
definition OBJECT_FLAG_SceneObject :: u16 where "OBJECT_FLAG_SceneObject = 0x0002"
definition OBJECT_FLAG_Unit :: u16 where "OBJECT_FLAG_Unit = 0x0004"
definition OBJECT_FLAG_Creature :: u16 where "OBJECT_FLAG_Creature = 0x0008"
definition OBJECT_FLAG_Player :: u16 where "OBJECT_FLAG_Player = 0x0010"
definition OBJECT_FLAG_WorldObject :: u16 where "OBJECT_FLAG_WorldObject = 0x0020"
definition OBJECT_FLAG_ItemObject :: u16 where "OBJECT_FLAG_ItemObject = 0x0040"

definition OBJECT_TYPE_Object :: u16 where "OBJECT_TYPE_Object = OBJECT_FLAG_Object"
definition OBJECT_TYPE_SceneObject :: u16 where "OBJECT_TYPE_SceneObject = OBJECT_TYPE_Object OR OBJECT_FLAG_SceneObject"
definition OBJECT_TYPE_Unit :: u16 where "OBJECT_TYPE_Unit = OBJECT_TYPE_SceneObject OR OBJECT_FLAG_Unit"
definition OBJECT_TYPE_Creature :: u16 where "OBJECT_TYPE_Creature = OBJECT_TYPE_Unit OR OBJECT_FLAG_Creature"
definition OBJECT_TYPE_Player :: u16 where "OBJECT_TYPE_Player = OBJECT_TYPE_Unit OR OBJECT_FLAG_Player"
definition OBJECT_TYPE_WorldObject :: u16 where "OBJECT_TYPE_WorldObject = OBJECT_TYPE_SceneObject OR OBJECT_FLAG_WorldObject"
definition OBJECT_TYPE_ItemObject :: u16 where "OBJECT_TYPE_ItemObject = OBJECT_TYPE_SceneObject OR OBJECT_FLAG_ItemObject"

lemmas object_codes = OBJECT_FLAG_Object_def OBJECT_FLAG_SceneObject_def OBJECT_FLAG_Unit_def OBJECT_FLAG_Creature_def
  OBJECT_FLAG_Player_def OBJECT_FLAG_WorldObject_def OBJECT_FLAG_ItemObject_def OBJECT_TYPE_Object_def
  OBJECT_TYPE_SceneObject_def OBJECT_TYPE_Unit_def OBJECT_TYPE_Creature_def OBJECT_TYPE_Player_def
  OBJECT_TYPE_WorldObject_def OBJECT_TYPE_ItemObject_def

text \<open>The classes of the program; there are codes for two more.\<close>

datatype obj_class = CObject | CSceneObject | CUnit | CCreature | CPlayer

text \<open>The static function \<^verbatim>\<open>ObjectType\<close> that each class has.\<close>

fun class_ObjectType :: "obj_class \<Rightarrow> u16" where
  "class_ObjectType CObject = OBJECT_TYPE_Object"
| "class_ObjectType CSceneObject = OBJECT_TYPE_SceneObject"
| "class_ObjectType CUnit = OBJECT_TYPE_Unit"
| "class_ObjectType CCreature = OBJECT_TYPE_Creature"
| "class_ObjectType CPlayer = OBJECT_TYPE_Player"

text \<open>
  \<^verbatim>\<open>obj->ObjectType()\<close> with a pointer of type \<^verbatim>\<open>const CObject*\<close>: a static function is chosen by the type of the
  pointer, whatever the object is.
\<close>

definition ptr_ObjectType :: "obj_class \<Rightarrow> u16" where
  "ptr_ObjectType obj = class_ObjectType CObject"

definition AsObject :: "obj_class \<Rightarrow> u16" where "AsObject obj = ptr_ObjectType obj AND OBJECT_FLAG_Object"
definition AsSceneObject :: "obj_class \<Rightarrow> u16" where "AsSceneObject obj = ptr_ObjectType obj AND OBJECT_FLAG_SceneObject"
definition AsUnit :: "obj_class \<Rightarrow> u16" where "AsUnit obj = ptr_ObjectType obj AND OBJECT_FLAG_Unit"
definition AsCreature :: "obj_class \<Rightarrow> u16" where "AsCreature obj = ptr_ObjectType obj AND OBJECT_FLAG_Creature"
definition AsPlayer :: "obj_class \<Rightarrow> u16" where "AsPlayer obj = ptr_ObjectType obj AND OBJECT_FLAG_Player"
definition AsWorldObject :: "obj_class \<Rightarrow> u16" where "AsWorldObject obj = ptr_ObjectType obj AND OBJECT_FLAG_WorldObject"
definition AsItemObject :: "obj_class \<Rightarrow> u16" where "AsItemObject obj = ptr_ObjectType obj AND OBJECT_FLAG_ItemObject"

definition code_of :: "bool \<Rightarrow> u16" where "code_of b = (if b then 1 else 0)"

definition IsObject :: "obj_class \<Rightarrow> u16" where "IsObject obj = code_of (ptr_ObjectType obj = OBJECT_TYPE_Object)"
definition IsSceneObject :: "obj_class \<Rightarrow> u16" where "IsSceneObject obj = code_of (ptr_ObjectType obj = OBJECT_TYPE_SceneObject)"
definition IsUnit :: "obj_class \<Rightarrow> u16" where "IsUnit obj = code_of (ptr_ObjectType obj = OBJECT_TYPE_Unit)"
definition IsCreature :: "obj_class \<Rightarrow> u16" where "IsCreature obj = code_of (ptr_ObjectType obj = OBJECT_TYPE_Creature)"
definition IsPlayer :: "obj_class \<Rightarrow> u16" where "IsPlayer obj = code_of (ptr_ObjectType obj = OBJECT_TYPE_Player)"
definition IsWorldObject :: "obj_class \<Rightarrow> u16" where "IsWorldObject obj = code_of (ptr_ObjectType obj = OBJECT_TYPE_WorldObject)"
definition IsItemObject :: "obj_class \<Rightarrow> u16" where "IsItemObject obj = code_of (ptr_ObjectType obj = OBJECT_TYPE_ItemObject)"

section \<open>The interface for scripts\<close>

text \<open>\<^verbatim>\<open>ObjectParent\<close> and the tables of methods.\<close>

fun class_parent :: "obj_class \<Rightarrow> obj_class" where
  "class_parent CObject = CObject"
| "class_parent CSceneObject = CObject"
| "class_parent CUnit = CSceneObject"
| "class_parent CCreature = CUnit"
| "class_parent CPlayer = CUnit"

fun class_mapping :: "obj_class \<Rightarrow> string list" where
  "class_mapping CObject = [''Name'', ''Type'', ''Table'']"
| "class_mapping CSceneObject = [''Pos'']"
| "class_mapping CUnit = [''Level'']"
| "class_mapping CCreature = [''Attackable'']"
| "class_mapping CPlayer = [''Sex'']"

record metatable =
  mt_methods :: "string list"
  mt_parent :: "obj_class option"

type_synonym api_registry = "obj_class \<rightharpoonup> metatable"

text \<open>\<^verbatim>\<open>luaL_newmetatable\<close> keeps a metatable that is there already.\<close>

definition RegisterObjectApi :: "obj_class \<Rightarrow> api_registry \<Rightarrow> api_registry" where
  "RegisterObjectApi c reg =
     (let old = (case reg c of None \<Rightarrow> \<lparr>mt_methods = [], mt_parent = None\<rparr> | Some mt \<Rightarrow> mt);
          m1 = old\<lparr>mt_methods := mt_methods old @ class_mapping c\<rparr>;
          m2 = (if class_parent c \<noteq> c
                then m1\<lparr>mt_parent := (if reg (class_parent c) = None then None else Some (class_parent c))\<rparr>
                else m1)
      in reg(c \<mapsto> m2))"

definition ScriptMgr_Init :: "api_registry \<Rightarrow> api_registry" where
  "ScriptMgr_Init reg =
     RegisterObjectApi CCreature (RegisterObjectApi CPlayer (RegisterObjectApi CUnit
       (RegisterObjectApi CSceneObject (RegisterObjectApi CObject reg))))"

text \<open>A user datum: the class whose metatable it got, if that was registered, and the object.\<close>

definition PushObject :: "obj_class \<Rightarrow> 'o \<Rightarrow> api_registry \<Rightarrow> obj_class option \<times> 'o" where
  "PushObject c ob reg = (if reg c = None then None else Some c, ob)"

text \<open>The loop of \<^verbatim>\<open>GetObject\<close> along the metatables; \<open>None\<close> when they form a circle.\<close>

partial_function (option) metatable_walk :: "api_registry \<Rightarrow> obj_class \<Rightarrow> obj_class option \<Rightarrow> bool option" where
  "metatable_walk reg t mt =
     (case mt of
        None \<Rightarrow> Some False
      | Some c \<Rightarrow> if t = c then Some True
                  else metatable_walk reg t (case reg c of None \<Rightarrow> None | Some m \<Rightarrow> mt_parent m))"

text \<open>\<open>Some None\<close> is the Lua error for an argument of another type.\<close>

definition GetObject :: "api_registry \<Rightarrow> obj_class \<Rightarrow> (obj_class option \<times> 'o) option \<Rightarrow> 'o option option" where
  "GetObject reg t arg =
     (case arg of
        None \<Rightarrow> Some None
      | Some (mt, ob) \<Rightarrow> do { r \<leftarrow> metatable_walk reg t mt; Some (if r then Some ob else None) })"

text \<open>How Lua finds a method: in the metatable of the object, then along the chain; the class that has it.\<close>

partial_function (option) method_walk :: "api_registry \<Rightarrow> string \<Rightarrow> obj_class option \<Rightarrow> obj_class option option" where
  "method_walk reg name mt =
     (case mt of
        None \<Rightarrow> Some None
      | Some c \<Rightarrow>
          (case reg c of
             None \<Rightarrow> Some None
           | Some m \<Rightarrow> if name \<in> set (mt_methods m) then Some (Some c) else method_walk reg name (mt_parent m)))"

text \<open>A method call: the dispatcher of the class that has the method takes the object out of the first argument.\<close>

definition api_call :: "api_registry \<Rightarrow> string \<Rightarrow> obj_class option \<times> 'o \<Rightarrow> (obj_class \<times> 'o) option option" where
  "api_call reg name arg = do {
     found \<leftarrow> method_walk reg name (fst arg);
     (case found of
        None \<Rightarrow> Some None
      | Some c \<Rightarrow> do { ob \<leftarrow> GetObject reg c (Some arg); Some (map_option (Pair c) ob) })
   }"

section \<open>Properties\<close>

text \<open>The classes a class derives from, itself included.\<close>

fun derives :: "obj_class \<Rightarrow> obj_class \<Rightarrow> bool" where
  "derives c CObject = True"
| "derives c CSceneObject = (c \<noteq> CObject)"
| "derives c CUnit = (c = CUnit \<or> c = CCreature \<or> c = CPlayer)"
| "derives c d = (c = d)"

fun class_flag :: "obj_class \<Rightarrow> u16" where
  "class_flag CObject = OBJECT_FLAG_Object"
| "class_flag CSceneObject = OBJECT_FLAG_SceneObject"
| "class_flag CUnit = OBJECT_FLAG_Unit"
| "class_flag CCreature = OBJECT_FLAG_Creature"
| "class_flag CPlayer = OBJECT_FLAG_Player"

text \<open>
  The type codes represent the classes: the code of a class has the flag of another one exactly when it
  derives from it, and different classes have different codes.
\<close>

theorem type_codes:
  "(class_ObjectType c AND class_flag d \<noteq> 0 \<longleftrightarrow> derives c d) \<and> (class_ObjectType c = class_ObjectType d \<longleftrightarrow> c = d)"
  by (cases c; cases d) (simp_all add: object_codes)

text \<open>
  The tests do not use them: since \<^verbatim>\<open>ObjectType\<close> is static, every object counts as a plain object only, and
  no player, creature or unit is recognised as such.
\<close>

theorem type_tests_static:
  "IsObject obj = 1 \<and> AsObject obj = 1 \<and>
   map (\<lambda>test. test obj) [IsSceneObject, IsUnit, IsCreature, IsPlayer, IsWorldObject, IsItemObject,
     AsSceneObject, AsUnit, AsCreature, AsPlayer, AsWorldObject, AsItemObject] = [0, 0, 0, 0, 0, 0, 0, 0, 0, 0, 0, 0]"
  by (simp add: IsObject_def AsObject_def IsSceneObject_def IsUnit_def IsCreature_def IsPlayer_def IsWorldObject_def
      IsItemObject_def AsSceneObject_def AsUnit_def AsCreature_def AsPlayer_def AsWorldObject_def AsItemObject_def
      ptr_ObjectType_def code_of_def object_codes)

lemma registry_entries:
  "ScriptMgr_Init Map.empty c = Some \<lparr>mt_methods = class_mapping c,
     mt_parent = (if class_parent c = c then None else Some (class_parent c))\<rparr>"
  by (cases c) (simp_all add: ScriptMgr_Init_def RegisterObjectApi_def Let_def)

lemma walk_derives: "metatable_walk (ScriptMgr_Init Map.empty) d (Some c) = Some (derives c d)"
  by (cases c; cases d) (simp_all add: metatable_walk.simps registry_entries)

text \<open>
  C24. After the start of the scripts an object is accepted as an argument of a class exactly when its class
  derives from that one, and any other value is refused with an error.
\<close>

theorem GetObject_types:
  "GetObject (ScriptMgr_Init Map.empty) d (Some (PushObject c ob (ScriptMgr_Init Map.empty))) =
     Some (if derives c d then Some ob else None)
   \<and> GetObject (ScriptMgr_Init Map.empty) d (None :: (obj_class option \<times> 'o) option) = Some None"
  by (simp_all add: GetObject_def PushObject_def registry_entries walk_derives)

lemma api_call_inherited:
  assumes "name \<in> set (class_mapping d)"
  shows "api_call (ScriptMgr_Init Map.empty) name (PushObject c ob (ScriptMgr_Init Map.empty)) =
     Some (if derives c d then Some (d, ob) else None)"
proof -
  have "method_walk (ScriptMgr_Init Map.empty) name (Some c) = Some (if derives c d then Some d else None)"
    using assms by (cases d; cases c) (auto simp: method_walk.simps registry_entries)
  then show ?thesis by (simp add: api_call_def GetObject_def PushObject_def registry_entries walk_derives)
qed

text \<open>
  A method of a class can be called on the objects of every class that derives from it, and reaches the
  dispatcher of the class it belongs to with the object itself; on other objects there is no such method.
\<close>

theorem method_inherited:
  assumes "name \<in> set (class_mapping d)"
  shows "api_call (ScriptMgr_Init Map.empty) name (PushObject c ob (ScriptMgr_Init Map.empty)) =
     Some (if derives c d then Some (d, ob) else None)"
  by (rule api_call_inherited [OF assms])

theorem method_inherited_witness:
  "api_call (ScriptMgr_Init Map.empty) ''Table'' (PushObject CPlayer (7 :: nat) (ScriptMgr_Init Map.empty)) = Some (Some (CObject, 7))"
proof -
  have "''Table'' \<in> set (class_mapping CObject)" by simp
  from method_inherited [OF this, of CPlayer "7 :: nat"] show ?thesis by simp
qed

section \<open>Artificial intelligence\<close>

text \<open>The classes of the AI of scene objects; an update reaches the classes of a chain, the base class first.\<close>

datatype scene_ai = CSceneObjectAI | CUnitAI | CCreatureAI | CPlayerAI

text \<open>\<^verbatim>\<open>CSceneObject::init\<close>: the AI it makes; \<open>None\<close> leaves the pointer null.\<close>

definition scene_init :: "obj_class \<Rightarrow> scene_ai option" where
  "scene_init this =
     (if IsPlayer this \<noteq> 0 then Some CPlayerAI
      else if IsCreature this \<noteq> 0 then Some CCreatureAI
      else if IsUnit this \<noteq> 0 then Some CUnitAI
      else if IsSceneObject this \<noteq> 0 then Some CSceneObjectAI
      else if IsItemObject this \<noteq> 0 then None
      else if IsWorldObject this \<noteq> 0 then None
      else None)"

text \<open>
  The virtual functions only call those of the base class; the results list the classes whose body runs, in
  the order in which they do their work.
\<close>

function on_update_chain :: "obj_class \<Rightarrow> obj_class list" where
  "on_update_chain CObject = [CObject]"
| "on_update_chain CSceneObject = on_update_chain CObject @ [CSceneObject]"
| "on_update_chain CUnit = on_update_chain CSceneObject @ [CUnit]"
| "on_update_chain CCreature = on_update_chain CUnit @ [CCreature]"
| "on_update_chain CPlayer = on_update_chain CUnit @ [CPlayer]"
  by pat_completeness auto
termination
  by (relation "measure (\<lambda>c. case c of CObject \<Rightarrow> 0 | CSceneObject \<Rightarrow> 1 | CUnit \<Rightarrow> 2 | _ \<Rightarrow> 3)") auto

function ai_update_chain :: "scene_ai \<Rightarrow> scene_ai list" where
  "ai_update_chain CSceneObjectAI = [CSceneObjectAI]"
| "ai_update_chain CUnitAI = ai_update_chain CSceneObjectAI @ [CUnitAI]"
| "ai_update_chain CCreatureAI = ai_update_chain CUnitAI @ [CCreatureAI]"
| "ai_update_chain CPlayerAI = ai_update_chain CUnitAI @ [CPlayerAI]"
  by pat_completeness auto
termination
  by (relation "measure (\<lambda>a. case a of CSceneObjectAI \<Rightarrow> 0 | CUnitAI \<Rightarrow> 1 | _ \<Rightarrow> 2)") auto

definition object_Update :: "obj_class \<Rightarrow> scene_ai option \<Rightarrow> obj_class list \<times> scene_ai list" where
  "object_Update this ai = (on_update_chain this, case ai of None \<Rightarrow> [] | Some a \<Rightarrow> ai_update_chain a)"

text \<open>An update runs the bodies of exactly the classes that the object belongs to.\<close>

lemma on_update_chain_derives: "set (on_update_chain c) = {d. derives c d}"
  by (rule set_eqI, rename_tac d, case_tac d; cases c) auto

text \<open>No object gets an AI, because the tests of its type take it for a plain object.\<close>

theorem no_ai:
  "scene_init c = None \<and> object_Update c (scene_init c) = (on_update_chain c, [])"
  by (simp add: scene_init_def object_Update_def IsPlayer_def IsCreature_def IsUnit_def IsSceneObject_def ptr_ObjectType_def
      code_of_def object_codes)

end
