(* ===== verification/ObjRef.thy ===== *)
theory ObjRef
  imports Prelude "HOL-Library.Multiset"
begin

text \<open>
  Weak references to objects (\<^verbatim>\<open>libcore/include/obj_ref.h\<close>): an object that derives from \<open>holder\<close> shares a counted
  block with the references to it, which outlives the object and then points to nothing.

  The blocks are a partial map from addresses, objects are numbers, and a reference is its pointer to the
  block, \<open>None\<close> when it was moved from.  \<open>None\<close> as a result is an access through a null pointer or to a block
  that was deleted.  The address of a new block is an argument.
\<close>

section \<open>The counted block\<close>

record shared_block =
  sh_obj :: "nat option"
  sh_cnt :: u16

type_synonym blocks = "nat \<rightharpoonup> shared_block"
type_synonym obj_ref = "nat option"

definition shared_new :: "nat \<Rightarrow> nat \<Rightarrow> blocks \<Rightarrow> blocks" where
  "shared_new a ob h = h(a \<mapsto> \<lparr>sh_obj = Some ob, sh_cnt = 0\<rparr>)"

definition shared_retain :: "nat \<Rightarrow> blocks \<Rightarrow> blocks option" where
  "shared_retain a h = do { b \<leftarrow> h a; Some (h(a \<mapsto> b\<lparr>sh_cnt := sh_cnt b + 1\<rparr>)) }"

definition shared_release :: "nat \<Rightarrow> blocks \<Rightarrow> blocks option" where
  "shared_release a h = do {
     b \<leftarrow> h a;
     let cnt = sh_cnt b - 1;
     Some (if cnt = 0 then h(a := None) else h(a \<mapsto> b\<lparr>sh_cnt := cnt\<rparr>))
   }"

definition shared_clean :: "nat \<Rightarrow> blocks \<Rightarrow> blocks option" where
  "shared_clean a h = do { b \<leftarrow> h a; Some (h(a \<mapsto> b\<lparr>sh_obj := None\<rparr>)) }"

definition shared_obj_ptr :: "nat \<Rightarrow> blocks \<Rightarrow> nat option option" where
  "shared_obj_ptr a h = map_option sh_obj (h a)"

section \<open>References and holders\<close>

definition obj_ref_new :: "nat \<Rightarrow> nat \<Rightarrow> blocks \<Rightarrow> (obj_ref \<times> blocks) option" where
  "obj_ref_new a ob h = map_option (Pair (Some a)) (shared_retain a (shared_new a ob h))"

definition obj_ref_destroy :: "obj_ref \<Rightarrow> blocks \<Rightarrow> blocks option" where
  "obj_ref_destroy r h = (case r of None \<Rightarrow> Some h | Some a \<Rightarrow> shared_release a h)"

definition obj_ref_copy :: "obj_ref \<Rightarrow> blocks \<Rightarrow> (obj_ref \<times> blocks) option" where
  "obj_ref_copy r h = (case r of None \<Rightarrow> None | Some a \<Rightarrow> map_option (Pair r) (shared_retain a h))"

text \<open>The new reference and the old one.\<close>

definition obj_ref_move :: "obj_ref \<Rightarrow> obj_ref \<times> obj_ref" where
  "obj_ref_move r = (r, None)"

definition obj_ref_clone :: "obj_ref \<Rightarrow> blocks \<Rightarrow> (obj_ref \<times> blocks) option" where
  "obj_ref_clone r h = obj_ref_copy r h"

definition obj_ref_obj_ptr :: "obj_ref \<Rightarrow> blocks \<Rightarrow> nat option option" where
  "obj_ref_obj_ptr r h = (case r of None \<Rightarrow> Some None | Some a \<Rightarrow> shared_obj_ptr a h)"

definition obj_ref_clean :: "obj_ref \<Rightarrow> blocks \<Rightarrow> blocks option" where
  "obj_ref_clean r h = (case r of None \<Rightarrow> None | Some a \<Rightarrow> shared_clean a h)"

definition holder_new :: "nat \<Rightarrow> nat \<Rightarrow> blocks \<Rightarrow> (obj_ref \<times> blocks) option" where
  "holder_new a this h = obj_ref_new a this h"

definition holder_destroy :: "obj_ref \<Rightarrow> blocks \<Rightarrow> blocks option" where
  "holder_destroy r h = do { h1 \<leftarrow> obj_ref_clean r h; obj_ref_destroy r h1 }"

definition holder_get_ref :: "obj_ref \<Rightarrow> blocks \<Rightarrow> (obj_ref \<times> blocks) option" where
  "holder_get_ref r h = obj_ref_copy r h"

declare shared_new_def [code_defs] shared_retain_def [code_defs] shared_release_def [code_defs] shared_clean_def [code_defs]
  obj_ref_new_def [code_defs] obj_ref_destroy_def [code_defs] obj_ref_copy_def [code_defs] obj_ref_clean_def [code_defs]
  holder_new_def [code_defs] holder_destroy_def [code_defs] holder_get_ref_def [code_defs] obj_ref_clone_def [code_defs]
  obj_ref_obj_ptr_def [code_defs] shared_obj_ptr_def [code_defs]

section \<open>Programs that use them\<close>

text \<open>
  The living objects with the block their holder made, and the references that exist besides the holders' own.
  A step is one operation of the program.
\<close>

record ref_state =
  rs_blocks :: blocks
  rs_holders :: "nat \<rightharpoonup> nat"
  rs_refs :: "obj_ref multiset"

datatype ref_act = Make nat nat | Drop nat | Get nat | Copy obj_ref | Move obj_ref | Destroy obj_ref

text \<open>What the program can do: objects and references are used while they exist, and \<^verbatim>\<open>new\<close> gives fresh memory.\<close>

fun can :: "ref_act \<Rightarrow> ref_state \<Rightarrow> bool" where
  "can (Make ob a) s \<longleftrightarrow> rs_holders s ob = None \<and> rs_blocks s a = None"
| "can (Drop ob) s \<longleftrightarrow> rs_holders s ob \<noteq> None"
| "can (Get ob) s \<longleftrightarrow> rs_holders s ob \<noteq> None"
| "can (Copy r) s \<longleftrightarrow> r \<in># rs_refs s \<and> r \<noteq> None"
| "can (Move r) s \<longleftrightarrow> r \<in># rs_refs s"
| "can (Destroy r) s \<longleftrightarrow> r \<in># rs_refs s"

fun ref_step :: "ref_act \<Rightarrow> ref_state \<Rightarrow> ref_state option" where
  "ref_step (Make ob a) s = do {
     (r, h) \<leftarrow> holder_new a ob (rs_blocks s);
     Some (s\<lparr>rs_blocks := h, rs_holders := (rs_holders s)(ob := r)\<rparr>)
   }"
| "ref_step (Drop ob) s = do {
     h \<leftarrow> holder_destroy (rs_holders s ob) (rs_blocks s);
     Some (s\<lparr>rs_blocks := h, rs_holders := (rs_holders s)(ob := None)\<rparr>)
   }"
| "ref_step (Get ob) s = do {
     (r, h) \<leftarrow> holder_get_ref (rs_holders s ob) (rs_blocks s);
     Some (s\<lparr>rs_blocks := h, rs_refs := add_mset r (rs_refs s)\<rparr>)
   }"
| "ref_step (Copy r) s = do {
     (r1, h) \<leftarrow> obj_ref_clone r (rs_blocks s);
     Some (s\<lparr>rs_blocks := h, rs_refs := add_mset r1 (rs_refs s)\<rparr>)
   }"
| "ref_step (Move r) s =
     (case obj_ref_move r of (r1, r2) \<Rightarrow> Some (s\<lparr>rs_refs := add_mset r1 (add_mset r2 (rs_refs s - {#r#}))\<rparr>))"
| "ref_step (Destroy r) s = do {
     h \<leftarrow> obj_ref_destroy r (rs_blocks s);
     Some (s\<lparr>rs_blocks := h, rs_refs := rs_refs s - {#r#}\<rparr>)
   }"

text \<open>The references to a block, the holder's own one included.\<close>

definition uses :: "ref_state \<Rightarrow> nat \<Rightarrow> nat" where
  "uses s a = count (rs_refs s) (Some a) + (if a \<in> ran (rs_holders s) then 1 else 0)"

text \<open>A block exists exactly while something refers to it, counts that modulo \<open>2 ^ 16\<close>, and knows its object.\<close>

definition block_ok :: "ref_state \<Rightarrow> nat \<Rightarrow> bool" where
  "block_ok s a \<longleftrightarrow>
     (case rs_blocks s a of
        None \<Rightarrow> uses s a = 0
      | Some b \<Rightarrow> 0 < uses s a \<and> sh_cnt b = word_of_nat (uses s a) \<and> (\<forall>ob. sh_obj b = Some ob \<longleftrightarrow> rs_holders s ob = Some a))"

definition refs_ok :: "ref_state \<Rightarrow> bool" where
  "refs_ok s \<longleftrightarrow> inj_on (rs_holders s) (dom (rs_holders s)) \<and> (\<forall>a. block_ok s a)"

definition ref_init :: ref_state where
  "ref_init = \<lparr>rs_blocks = Map.empty, rs_holders = Map.empty, rs_refs = {#}\<rparr>"

lemma refs_ok_init: "refs_ok ref_init"
  by (simp add: refs_ok_def block_ok_def uses_def ref_init_def)

lemma holder_block:
  assumes "refs_ok s" and "rs_holders s ob = Some a"
  obtains b where "rs_blocks s a = Some b" and "sh_obj b = Some ob"
proof -
  have "0 < uses s a" using assms(2) by (auto simp: uses_def intro: ranI)
  then obtain b where b: "rs_blocks s a = Some b"
    using assms(1) by (cases "rs_blocks s a") (auto simp: refs_ok_def block_ok_def dest: spec [of _ a])
  moreover have "sh_obj b = Some ob" using assms b by (auto simp: refs_ok_def block_ok_def dest: spec [of _ a])
  ultimately show ?thesis by (rule that)
qed

lemma ref_block:
  assumes "refs_ok s" and "Some a \<in># rs_refs s"
  obtains b where "rs_blocks s a = Some b"
proof -
  have "0 < uses s a" using assms(2) by (simp add: uses_def)
  then show ?thesis using assms(1) that
    by (cases "rs_blocks s a") (auto simp: refs_ok_def block_ok_def dest: spec [of _ a])
qed

text \<open>An operation that concerns one block keeps what holds of the others.\<close>

lemma block_ok_other:
  assumes "block_ok s x" and "rs_blocks s' x = rs_blocks s x" and "uses s' x = uses s x"
    and "\<And>ob. (rs_holders s' ob = Some x) = (rs_holders s ob = Some x)"
  shows "block_ok s' x"
  using assms(1) unfolding block_ok_def assms(2-4) .

lemma refs_okI: "inj_on (rs_holders s) (dom (rs_holders s)) \<Longrightarrow> (\<And>x. block_ok s x) \<Longrightarrow> refs_ok s"
  by (simp add: refs_ok_def)

lemma refs_ok_inj: "refs_ok s \<Longrightarrow> inj_on (rs_holders s) (dom (rs_holders s))"
  by (simp add: refs_ok_def)

lemma block_okI:
  "rs_blocks s a = Some b \<Longrightarrow> 0 < uses s a \<Longrightarrow> sh_cnt b = word_of_nat (uses s a) \<Longrightarrow>
   (\<And>ob. (sh_obj b = Some ob) = (rs_holders s ob = Some a)) \<Longrightarrow> block_ok s a"
  by (simp add: block_ok_def)

lemma block_okD:
  assumes "refs_ok s" and "rs_blocks s a = Some b"
  shows "0 < uses s a" and "sh_cnt b = word_of_nat (uses s a)" and "(sh_obj b = Some ob) = (rs_holders s ob = Some a)"
proof -
  have "block_ok s a" using assms(1) by (simp add: refs_ok_def)
  then show "0 < uses s a" "sh_cnt b = word_of_nat (uses s a)" "(sh_obj b = Some ob) = (rs_holders s ob = Some a)"
    by (simp_all add: block_ok_def assms(2))
qed

lemma fresh_block:
  assumes "refs_ok s" and "rs_blocks s a = None"
  shows "a \<notin> ran (rs_holders s)" and "Some a \<notin># rs_refs s"
  using assms by (auto simp: refs_ok_def block_ok_def uses_def split: if_splits dest: spec [of _ a] simp flip: count_eq_zero_iff)

lemma release_eq:
  assumes "h a = Some b" and "sh_cnt b = word_of_nat n" and "0 < n" and "n \<le> 2 ^ 16"
  shows "shared_release a h = Some (if n = 1 then h(a := None) else h(a \<mapsto> b\<lparr>sh_cnt := word_of_nat (n - 1)\<rparr>))"
proof -
  obtain k where k: "n = Suc k" using assms(3) by (cases n) auto
  have "(word_of_nat n :: u16) - 1 = word_of_nat k" using k by simp
  moreover have "(word_of_nat k = (0 :: u16)) = (k = 0)"
    using k assms(4) by (auto simp: word_of_nat_eq_0_iff dest: dvd_imp_le)
  ultimately show ?thesis using assms k by (simp add: shared_release_def Let_def)
qed

text \<open>One more reference to a block.\<close>

lemma retain_ok:
  assumes "refs_ok s" and "rs_blocks s a = Some b"
    and "s' = s\<lparr>rs_blocks := (rs_blocks s)(a \<mapsto> b\<lparr>sh_cnt := sh_cnt b + 1\<rparr>), rs_refs := add_mset (Some a) (rs_refs s)\<rparr>"
  shows "refs_ok s'"
  unfolding refs_ok_def
proof (intro conjI allI)
  show "inj_on (rs_holders s') (dom (rs_holders s'))" using assms by (simp add: refs_ok_def)
  have u: "uses s' x = (if x = a then uses s x + 1 else uses s x)" for x by (simp add: assms(3) uses_def)
  fix x
  show "block_ok s' x"
  proof (cases "x = a")
    case True
    show ?thesis unfolding True
      by (rule block_okI [of s' a "b\<lparr>sh_cnt := sh_cnt b + 1\<rparr>"]) (use block_okD [OF assms(1,2)] u in \<open>simp_all add: assms(3)\<close>)
  next
    case False
    show ?thesis
      by (rule block_ok_other [of s]) (use assms(1) False u in \<open>simp_all add: refs_ok_def assms(3)\<close>)
  qed
qed

text \<open>One reference less: the block goes away with the last one.\<close>

lemma release_ok:
  assumes "refs_ok s" and "Some a \<in># rs_refs s" and "uses s a \<le> 2 ^ 16"
  obtains h where "shared_release a (rs_blocks s) = Some h" and "refs_ok (s\<lparr>rs_blocks := h, rs_refs := rs_refs s - {#Some a#}\<rparr>)"
proof -
  obtain b where b: "rs_blocks s a = Some b" by (rule ref_block [OF assms(1,2)])
  note ok = block_okD [OF assms(1) b]
  define h where "h = (if uses s a = 1 then (rs_blocks s)(a := None) else (rs_blocks s)(a \<mapsto> b\<lparr>sh_cnt := word_of_nat (uses s a - 1)\<rparr>))"
  let ?s = "s\<lparr>rs_blocks := h, rs_refs := rs_refs s - {#Some a#}\<rparr>"
  have r: "shared_release a (rs_blocks s) = Some h" unfolding h_def by (rule release_eq [where h = "rs_blocks s", OF b ok(2,1) assms(3)])
  have c: "0 < count (rs_refs s) (Some a)" using assms(2) by simp
  have u: "uses ?s x = (if x = a then uses s x - 1 else uses s x)" for x using c by (auto simp: uses_def)
  have "block_ok ?s x" for x
  proof (cases "x = a")
    case True
    show ?thesis
    proof (cases "uses s a = 1")
      case True
      then show ?thesis using u [of a] \<open>x = a\<close> by (simp add: block_ok_def h_def)
    next
      case False
      show ?thesis unfolding True
        by (rule block_okI [of ?s a "b\<lparr>sh_cnt := word_of_nat (uses s a - 1)\<rparr>"])
          (use ok False u [of a] in \<open>simp_all add: h_def\<close>)
    qed
  next
    case False
    show ?thesis
      by (rule block_ok_other [of s]) (use assms(1) False u [of x] in \<open>simp_all add: refs_ok_def h_def\<close>)
  qed
  then have "refs_ok ?s" using assms(1) by (simp add: refs_ok_def)
  then show ?thesis using r that by blast
qed

text \<open>The steps.\<close>

lemma make_ok:
  assumes "refs_ok s" and "can (Make ob a) s"
  shows "\<exists>s'. ref_step (Make ob a) s = Some s' \<and> refs_ok s'"
proof -
  have n: "rs_holders s ob = None" "rs_blocks s a = None" using assms(2) by simp_all
  note fresh = fresh_block [OF assms(1) n(2)]
  let ?b = "\<lparr>sh_obj = Some ob, sh_cnt = 1\<rparr>"
  let ?s = "s\<lparr>rs_blocks := (rs_blocks s)(a \<mapsto> ?b), rs_holders := (rs_holders s)(ob \<mapsto> a)\<rparr>"
  have step: "ref_step (Make ob a) s = Some ?s"
    by (simp add: holder_new_def obj_ref_new_def shared_retain_def shared_new_def)
  have u: "uses ?s x = (if x = a then 1 else uses s x)" for x
    using n fresh by (auto simp: uses_def count_eq_zero_iff)
  have "block_ok ?s x" for x
  proof (cases "x = a")
    case True
    have "(Some ob = Some ob') = (rs_holders ?s ob' = Some a)" for ob'
      using fresh(1) by (auto intro: ranI)
    then show ?thesis unfolding True by (intro block_okI [of ?s a ?b]) (simp_all add: u)
  next
    case False
    show ?thesis by (rule block_ok_other [of s]) (use assms(1) False u [of x] n in \<open>auto simp: refs_ok_def\<close>)
  qed
  moreover have "inj_on (rs_holders ?s) (dom (rs_holders ?s))"
    using assms(1) fresh(1) n(1) by (auto simp: refs_ok_def inj_on_def dom_def ran_def split: if_splits)
  ultimately show ?thesis using step by (auto simp: refs_ok_def)
qed

lemma get_ok:
  assumes "refs_ok s" and "can (Get ob) s"
  shows "\<exists>s'. ref_step (Get ob) s = Some s' \<and> refs_ok s'"
proof -
  obtain a where a: "rs_holders s ob = Some a" using assms(2) by auto
  obtain b where b: "rs_blocks s a = Some b" by (rule holder_block [OF assms(1) a])
  show ?thesis using retain_ok [OF assms(1) b refl]
    by (simp add: a b holder_get_ref_def obj_ref_copy_def shared_retain_def)
qed

lemma copy_ok:
  assumes "refs_ok s" and "can (Copy r) s"
  shows "\<exists>s'. ref_step (Copy r) s = Some s' \<and> refs_ok s'"
proof -
  obtain a where a: "r = Some a" "Some a \<in># rs_refs s" using assms(2) by auto
  obtain b where b: "rs_blocks s a = Some b" by (rule ref_block [OF assms(1) a(2)])
  show ?thesis using retain_ok [OF assms(1) b refl]
    by (simp add: a b obj_ref_clone_def obj_ref_copy_def shared_retain_def)
qed

lemma move_ok:
  assumes "refs_ok s" and "can (Move r) s"
  shows "\<exists>s'. ref_step (Move r) s = Some s' \<and> refs_ok s'"
proof -
  let ?s = "s\<lparr>rs_refs := add_mset r (add_mset None (rs_refs s - {#r#}))\<rparr>"
  have "0 < count (rs_refs s) r" using assms(2) by simp
  then have u: "uses ?s x = uses s x" for x by (auto simp: uses_def)
  have "block_ok ?s x" for x
    by (rule block_ok_other [of s]) (use assms(1) u [of x] in \<open>simp_all add: refs_ok_def\<close>)
  then have "refs_ok ?s" by (intro refs_okI) (simp_all add: refs_ok_inj [OF assms(1)])
  then show ?thesis by (simp add: obj_ref_move_def)
qed

lemma destroy_ok:
  assumes "refs_ok s" and "can (Destroy r) s" and "\<And>a. r = Some a \<Longrightarrow> uses s a \<le> 2 ^ 16"
  shows "\<exists>s'. ref_step (Destroy r) s = Some s' \<and> refs_ok s'"
proof (cases r)
  case None
  have u: "uses (s\<lparr>rs_refs := rs_refs s - {#None#}\<rparr>) x = uses s x" for x by (simp add: uses_def)
  have "block_ok (s\<lparr>rs_refs := rs_refs s - {#None#}\<rparr>) x" for x
    by (rule block_ok_other [of s]) (use assms(1) u [of x] in \<open>simp_all add: refs_ok_def\<close>)
  then have "refs_ok (s\<lparr>rs_refs := rs_refs s - {#None#}\<rparr>)" by (intro refs_okI) (simp_all add: refs_ok_inj [OF assms(1)])
  then show ?thesis using None by (simp add: obj_ref_destroy_def)
next
  case (Some a)
  have m: "Some a \<in># rs_refs s" using assms(2) Some by simp
  obtain h where "shared_release a (rs_blocks s) = Some h" "refs_ok (s\<lparr>rs_blocks := h, rs_refs := rs_refs s - {#Some a#}\<rparr>)"
    by (rule release_ok [OF assms(1) m assms(3) [OF Some]])
  then show ?thesis using Some by (simp add: obj_ref_destroy_def)
qed

text \<open>When a holder goes, its block has one use less.\<close>

lemma drop_uses:
  assumes "rs_holders s ob = Some a" and "inj_on (rs_holders s) (dom (rs_holders s))"
  shows "uses (s\<lparr>rs_blocks := h, rs_holders := (rs_holders s)(ob := None)\<rparr>) x = (if x = a then uses s x - 1 else uses s x)"
proof -
  let ?hs = "(rs_holders s)(ob := None)"
  have only: "rs_holders s ob' = Some a \<Longrightarrow> ob' = ob" for ob' using assms by (auto simp: inj_on_def dom_def)
  have ran: "x \<in> ran ?hs \<longleftrightarrow> x \<noteq> a \<and> x \<in> ran (rs_holders s)"
  proof
    assume "x \<in> ran ?hs"
    then obtain ob' where "ob' \<noteq> ob" "rs_holders s ob' = Some x" by (auto simp: ran_def split: if_splits)
    then show "x \<noteq> a \<and> x \<in> ran (rs_holders s)" using only by (auto intro: ranI)
  next
    assume "x \<noteq> a \<and> x \<in> ran (rs_holders s)"
    then obtain ob' where x: "x \<noteq> a" "rs_holders s ob' = Some x" by (auto simp: ran_def)
    then have "?hs ob' = Some x" using assms(1) by (cases "ob' = ob") simp_all
    then show "x \<in> ran ?hs" by (rule ranI)
  qed
  have "a \<in> ran (rs_holders s)" by (rule ranI [where m = "rs_holders s", OF assms(1)])
  then show ?thesis unfolding uses_def by (auto simp: ran simp del: fun_upd_apply)
qed

lemma drop_ok:
  assumes "refs_ok s" and "can (Drop ob) s" and "\<And>a. rs_holders s ob = Some a \<Longrightarrow> uses s a \<le> 2 ^ 16"
  shows "\<exists>s'. ref_step (Drop ob) s = Some s' \<and> refs_ok s'"
proof -
  obtain a where a: "rs_holders s ob = Some a" using assms(2) by auto
  obtain b where b: "rs_blocks s a = Some b" by (rule holder_block [OF assms(1) a])
  note ok = block_okD [OF assms(1) b]
  let ?b = "b\<lparr>sh_obj := None\<rparr>" and ?hs = "(rs_holders s)(ob := None)"
  define h where "h = (if uses s a = 1 then (rs_blocks s)(a := None) else (rs_blocks s)(a \<mapsto> ?b\<lparr>sh_cnt := word_of_nat (uses s a - 1)\<rparr>))"
  let ?s = "s\<lparr>rs_blocks := h, rs_holders := ?hs\<rparr>"
  have "shared_release a ((rs_blocks s)(a \<mapsto> ?b)) = Some h"
    using release_eq [of "(rs_blocks s)(a \<mapsto> ?b)" a ?b "uses s a"] ok(1,2) assms(3) [OF a] by (simp add: h_def)
  then have step: "ref_step (Drop ob) s = Some ?s"
    by (simp add: a b holder_destroy_def obj_ref_clean_def shared_clean_def obj_ref_destroy_def)
  have inj: "inj_on (rs_holders s) (dom (rs_holders s))" using assms(1) by (simp add: refs_ok_def)
  then have only: "rs_holders s ob' = Some a \<Longrightarrow> ob' = ob" for ob' using a by (auto simp: inj_on_def dom_def)
  note u = drop_uses [where h = h, OF a inj]
  have "block_ok ?s x" for x
  proof (cases "x = a")
    case True
    show ?thesis
    proof (cases "uses s a = 1")
      case True
      then show ?thesis using u [of a] \<open>x = a\<close> by (simp add: block_ok_def h_def)
    next
      case False
      have "(None = Some ob') = (rs_holders ?s ob' = Some a)" for ob' using only by auto
      then show ?thesis unfolding True using ok(1) False u [of a]
        by (intro block_okI [of ?s a "?b\<lparr>sh_cnt := word_of_nat (uses s a - 1)\<rparr>"]) (simp_all add: h_def)
    qed
  next
    case False
    show ?thesis
      by (rule block_ok_other [of s]) (use assms(1) False u [of x] a in \<open>auto simp: refs_ok_def h_def\<close>)
  qed
  moreover have "inj_on (rs_holders ?s) (dom (rs_holders ?s))" using inj by (auto simp: inj_on_def dom_def)
  ultimately show ?thesis using step by (auto simp: refs_ok_def)
qed

lemma ref_step_ok:
  assumes "refs_ok s" and "can act s" and "\<And>a. uses s a \<le> 2 ^ 16"
  shows "\<exists>s'. ref_step act s = Some s' \<and> refs_ok s'"
proof (cases act)
  case (Drop ob)
  show ?thesis unfolding Drop by (rule drop_ok) (use assms Drop in auto)
next
  case (Destroy r)
  show ?thesis unfolding Destroy by (rule destroy_ok) (use assms Destroy in auto)
qed (use assms make_ok get_ok copy_ok move_ok in blast)+

text \<open>The states that a program reaches with at most \<open>65536\<close> references to one block at any time.\<close>

inductive ref_reach :: "ref_state \<Rightarrow> bool" where
  start: "ref_reach ref_init"
| step: "ref_reach s \<Longrightarrow> can act s \<Longrightarrow> ref_step act s = Some s' \<Longrightarrow> (\<And>a. uses s' a \<le> 2 ^ 16) \<Longrightarrow> ref_reach s'"

lemma ref_reach_ok: "ref_reach s \<Longrightarrow> refs_ok s \<and> (\<forall>a. uses s a \<le> 2 ^ 16)"
proof (induction rule: ref_reach.induct)
  case start
  show ?case using refs_ok_init by (simp add: uses_def ref_init_def)
next
  case (step s act s')
  then show ?case using ref_step_ok [of s act] by auto
qed

text \<open>
  C5. As long as an object has at most 65536 references, nothing a program does with objects and references
  reaches a deleted block, and a reference points to its object while that lives and to nothing afterwards.
\<close>

theorem refs_safe:
  assumes "ref_reach s"
  shows "(\<forall>act. can act s \<longrightarrow> ref_step act s \<noteq> None) \<and>
    (\<forall>r \<in># rs_refs s. \<exists>p. obj_ref_obj_ptr r (rs_blocks s) = Some p \<and>
       (\<forall>ob. p = Some ob \<longleftrightarrow> (\<exists>a. r = Some a \<and> rs_holders s ob = Some a)))"
proof
  note ok = ref_reach_ok [OF assms]
  show "\<forall>act. can act s \<longrightarrow> ref_step act s \<noteq> None" using ref_step_ok [of s] ok by blast
  show "\<forall>r \<in># rs_refs s. \<exists>p. obj_ref_obj_ptr r (rs_blocks s) = Some p \<and>
       (\<forall>ob. p = Some ob \<longleftrightarrow> (\<exists>a. r = Some a \<and> rs_holders s ob = Some a))"
  proof
    fix r assume r: "r \<in># rs_refs s"
    show "\<exists>p. obj_ref_obj_ptr r (rs_blocks s) = Some p \<and> (\<forall>ob. p = Some ob \<longleftrightarrow> (\<exists>a. r = Some a \<and> rs_holders s ob = Some a))"
    proof (cases r)
      case None
      then show ?thesis by (simp add: obj_ref_obj_ptr_def)
    next
      case (Some a)
      then have m: "Some a \<in># rs_refs s" using r by simp
      have s: "refs_ok s" using ok by simp
      obtain b where b: "rs_blocks s a = Some b" by (rule ref_block [OF s m])
      show ?thesis using block_okD(3) [OF s b] by (simp add: Some obj_ref_obj_ptr_def shared_obj_ptr_def b)
    qed
  qed
qed

theorem refs_safe_witness:
  "ref_reach (ref_init\<lparr>rs_blocks := [5 \<mapsto> \<lparr>sh_obj = Some 1, sh_cnt = 1\<rparr>], rs_holders := [1 \<mapsto> 5]\<rparr>)
   \<and> ref_step (Get 1) (ref_init\<lparr>rs_blocks := [5 \<mapsto> \<lparr>sh_obj = Some 1, sh_cnt = 1\<rparr>], rs_holders := [1 \<mapsto> 5]\<rparr>) \<noteq> None"
proof -
  let ?s = "ref_init\<lparr>rs_blocks := [5 \<mapsto> \<lparr>sh_obj = Some 1, sh_cnt = 1\<rparr>], rs_holders := [1 \<mapsto> 5]\<rparr>"
  have s: "ref_step (Make 1 5) ref_init = Some ?s"
    by (simp add: ref_init_def holder_new_def obj_ref_new_def shared_retain_def shared_new_def)
  have "ref_reach ?s"
    by (rule ref_reach.step [OF ref_reach.start _ s]) (simp_all add: ref_init_def uses_def)
  moreover have "can (Get 1) ?s" by simp
  ultimately show ?thesis using refs_safe [of ?s] by blast
qed

text \<open>
  The counter has 16 bits: with 65537 references to a living object, destroying one of them deletes the
  block, so that each of the 65536 others points into deleted memory.
\<close>

theorem refs_overflow:
  assumes "refs_ok s" and "Some a \<in># rs_refs s" and "uses s a = 2 ^ 16 + 1"
  shows "\<exists>s'. ref_step (Destroy (Some a)) s = Some s' \<and> uses s' a = 2 ^ 16 \<and> rs_blocks s' a = None
    \<and> obj_ref_obj_ptr (Some a) (rs_blocks s') = None"
proof -
  obtain b where b: "rs_blocks s a = Some b" by (rule ref_block [OF assms(1,2)])
  have "sh_cnt b = word_of_nat (2 ^ 16 + 1)" using block_okD(2) [OF assms(1) b] assms(3) by simp
  also have "\<dots> = 1" by simp
  finally have c: "sh_cnt b = 1" .
  let ?s = "s\<lparr>rs_blocks := (rs_blocks s)(a := None), rs_refs := rs_refs s - {#Some a#}\<rparr>"
  have "ref_step (Destroy (Some a)) s = Some ?s"
    by (simp add: obj_ref_destroy_def shared_release_def b c)
  moreover have "uses ?s a = 2 ^ 16" using assms(2,3) by (simp add: uses_def)
  ultimately show ?thesis by (auto simp: obj_ref_obj_ptr_def shared_obj_ptr_def)
qed

definition crowded :: ref_state where
  "crowded = \<lparr>rs_blocks = [5 \<mapsto> \<lparr>sh_obj = Some 1, sh_cnt = 1\<rparr>], rs_holders = [1 \<mapsto> 5],
     rs_refs = replicate_mset (2 ^ 16) (Some 5)\<rparr>"

lemma crowded_uses: "uses crowded a = (if a = 5 then 2 ^ 16 + 1 else 0)"
  by (simp add: uses_def crowded_def)

lemma crowded_ok: "refs_ok crowded"
proof (rule refs_okI)
  fix x
  show "block_ok crowded x" unfolding block_ok_def crowded_uses by (simp add: crowded_def)
qed (simp add: crowded_def)

theorem refs_overflow_witness:
  "\<exists>s'. ref_step (Destroy (Some 5)) crowded = Some s' \<and> uses s' 5 = 2 ^ 16 \<and> rs_blocks s' 5 = None"
proof -
  have "Some 5 \<in># rs_refs crowded" by (simp add: crowded_def)
  from refs_overflow [OF crowded_ok this] show ?thesis by (auto simp: crowded_uses)
qed

end
