(* ===== verification/Logger.thy ===== *)
theory Logger
  imports Prelude
begin

text \<open>
  The logger (\<^verbatim>\<open>libcore/include/logger.h\<close>, \<^verbatim>\<open>libcore/src/logger.cpp\<close>, Linux branch): five levels, one mask for
  the screen and one for the file, lines with a time stamp built in a buffer of 1024 characters.

  The state holds what was written to the screen and to the open file.  The broken-down local time, the
  text that the format and its arguments stand for (without a zero character), and whether \<^verbatim>\<open>fopen\<close> succeeds
  are arguments.  The mutex makes one line atomic.
\<close>

section \<open>Levels and masks\<close>

datatype log_type = LT_DEBUG | LT_INFO | LT_WARNING | LT_ERROR | LT_FATAL

fun lt_code :: "log_type \<Rightarrow> u32" where
  "lt_code LT_DEBUG = 0x1" | "lt_code LT_INFO = 0x2" | "lt_code LT_WARNING = 0x4" | "lt_code LT_ERROR = 0x8"
| "lt_code LT_FATAL = 0x10"

fun lt_index :: "log_type \<Rightarrow> nat" where
  "lt_index LT_DEBUG = 0" | "lt_index LT_INFO = 1" | "lt_index LT_WARNING = 2" | "lt_index LT_ERROR = 3"
| "lt_index LT_FATAL = 4"

definition szType :: "string list" where
  "szType = [''DEBUG'', ''INFO'', ''WARN'', ''ERROR'', ''FATAL'']"

definition sColor :: "string list" where
  "sColor = map (\<lambda>d. [CHR 0x1B] @ ''[3'' @ [d] @ ''m'') [CHR ''6'', CHR ''2'', CHR ''3'', CHR ''1'', CHR ''5'']"

record logger =
  lg_screen_mask :: u32
  lg_file_mask :: u32
  lg_file :: "string option"
  lg_screen :: string

definition logger_new :: logger where
  "logger_new =
     (let m = lt_code LT_DEBUG OR lt_code LT_INFO OR lt_code LT_WARNING OR lt_code LT_ERROR OR lt_code LT_FATAL
      in \<lparr>lg_screen_mask = m, lg_file_mask = m, lg_file = None, lg_screen = ''''\<rparr>)"

definition SetScreenMask :: "u32 \<Rightarrow> logger \<Rightarrow> logger" where
  "SetScreenMask m s = s\<lparr>lg_screen_mask := lg_screen_mask s OR m\<rparr>"

definition SetFileMask :: "u32 \<Rightarrow> logger \<Rightarrow> logger" where
  "SetFileMask m s = s\<lparr>lg_file_mask := lg_file_mask s OR m\<rparr>"

text \<open>\<^verbatim>\<open>Init\<close> removes the old file, so that the new one is empty; \<^verbatim>\<open>Release\<close> closes it.\<close>

definition logger_Init :: "bool \<Rightarrow> logger \<Rightarrow> logger \<times> bool" where
  "logger_Init opened s = (s\<lparr>lg_file := (if opened then Some '''' else None)\<rparr>, opened)"

definition logger_Release :: "logger \<Rightarrow> logger" where
  "logger_Release s = (if lg_file s \<noteq> None then s\<lparr>lg_file := None\<rparr> else s)"

text \<open>Colours, by an index into the table; \<open>None\<close> behind its end.\<close>

definition SetColor :: "nat \<Rightarrow> logger \<Rightarrow> logger option" where
  "SetColor idx s = (if idx < length sColor then Some (s\<lparr>lg_screen := lg_screen s @ sColor ! idx\<rparr>) else None)"

definition ResetColor :: "logger \<Rightarrow> logger" where
  "ResetColor s = s\<lparr>lg_screen := lg_screen s @ [CHR 0x1B] @ ''[0m''\<rparr>"

section \<open>Lines\<close>

fun dec :: "nat \<Rightarrow> string" where
  "dec n = (if n < 10 then [char_of (48 + n)] else dec (n div 10) @ [char_of (48 + n mod 10)])"

declare dec.simps [simp del]

text \<open>The conversions \<^verbatim>\<open>%04d\<close> and \<^verbatim>\<open>%02d\<close>, and \<^verbatim>\<open>%5s\<close>.\<close>

definition fmt_0d :: "nat \<Rightarrow> int \<Rightarrow> string" where
  "fmt_0d k i =
     (let d = dec (nat \<bar>i\<bar>)
      in if i < 0 then CHR ''-'' # replicate (k - 1 - length d) CHR ''0'' @ d else replicate (k - length d) CHR ''0'' @ d)"

definition fmt_s :: "nat \<Rightarrow> string \<Rightarrow> string" where
  "fmt_s k t = replicate (k - length t) CHR '' '' @ t"

record local_tm =
  lt_year :: int
  lt_mon :: int
  lt_mday :: int
  lt_hour :: int
  lt_min :: int
  lt_sec :: int

definition MAX_LEN :: nat where "MAX_LEN = 1024"

definition log_prefix :: "local_tm \<Rightarrow> nat \<Rightarrow> string" where
  "log_prefix tm idx =
     ''['' @ fmt_0d 4 (lt_year tm + 1900) @ ''-'' @ fmt_0d 2 (lt_mon tm + 1) @ ''-'' @ fmt_0d 2 (lt_mday tm) @ '' '' @
     fmt_0d 2 (lt_hour tm) @ '':'' @ fmt_0d 2 (lt_min tm) @ '':'' @ fmt_0d 2 (lt_sec tm) @ '' '' @
     fmt_s 5 (szType ! idx) @ ''] ''"

text \<open>\<^verbatim>\<open>vsnprintf\<close> fills the rest of the buffer and keeps one place for the zero.\<close>

definition log_line :: "local_tm \<Rightarrow> nat \<Rightarrow> string \<Rightarrow> string" where
  "log_line tm idx txt = log_prefix tm idx @ take (MAX_LEN - length (log_prefix tm idx) - 1) txt"

definition newline :: char where "newline = CHR 0x0A"

definition log_output :: "log_type \<Rightarrow> nat \<Rightarrow> local_tm \<Rightarrow> string \<Rightarrow> logger \<Rightarrow> logger option" where
  "log_output type idx tm txt s = do {
     let line = log_line tm idx txt;
     s1 \<leftarrow> (if lg_screen_mask s OR lt_code type \<noteq> 0
           then map_option (\<lambda>s. ResetColor (s\<lparr>lg_screen := lg_screen s @ line @ [newline]\<rparr>)) (SetColor idx s)
           else Some s);
     (case lg_file s1 of
        Some f \<Rightarrow> if lg_file_mask s1 OR lt_code type \<noteq> 0 then Some (s1\<lparr>lg_file := Some (f @ line @ [newline])\<rparr>)
                  else Some s1
      | None \<Rightarrow> Some s1)
   }"

definition enabled :: "log_type \<Rightarrow> logger \<Rightarrow> bool" where
  "enabled type s \<longleftrightarrow> lg_screen_mask s AND lt_code type \<noteq> 0 \<or> lg_file_mask s AND lt_code type \<noteq> 0"

definition log_Debug :: "local_tm \<Rightarrow> string \<Rightarrow> logger \<Rightarrow> logger option" where
  "log_Debug tm txt s = (if enabled LT_DEBUG s then log_output LT_DEBUG 0 tm txt s else Some s)"

definition log_Info :: "local_tm \<Rightarrow> string \<Rightarrow> logger \<Rightarrow> logger option" where
  "log_Info tm txt s = (if enabled LT_INFO s then log_output LT_INFO 1 tm txt s else Some s)"

definition log_Warning :: "local_tm \<Rightarrow> string \<Rightarrow> logger \<Rightarrow> logger option" where
  "log_Warning tm txt s = (if enabled LT_WARNING s then log_output LT_WARNING 2 tm txt s else Some s)"

definition log_Error :: "local_tm \<Rightarrow> string \<Rightarrow> logger \<Rightarrow> logger option" where
  "log_Error tm txt s = (if enabled LT_ERROR s then log_output LT_ERROR 3 tm txt s else Some s)"

definition log_Fatal :: "local_tm \<Rightarrow> string \<Rightarrow> logger \<Rightarrow> logger option" where
  "log_Fatal tm txt s = (if enabled LT_FATAL s then log_output LT_FATAL 4 tm txt s else Some s)"

section \<open>Properties\<close>

text \<open>A call of a level, and the calls that set masks.\<close>

fun log_call :: "log_type \<Rightarrow> local_tm \<Rightarrow> string \<Rightarrow> logger \<Rightarrow> logger option" where
  "log_call LT_DEBUG tm txt s = log_Debug tm txt s"
| "log_call LT_INFO tm txt s = log_Info tm txt s"
| "log_call LT_WARNING tm txt s = log_Warning tm txt s"
| "log_call LT_ERROR tm txt s = log_Error tm txt s"
| "log_call LT_FATAL tm txt s = log_Fatal tm txt s"

datatype mask_call = ScreenMask u32 | FileMask u32

fun set_mask :: "mask_call \<Rightarrow> logger \<Rightarrow> logger" where
  "set_mask (ScreenMask m) s = SetScreenMask m s"
| "set_mask (FileMask m) s = SetFileMask m s"

lemma lt_code_nonzero [simp]: "lt_code t \<noteq> 0"
  by (cases t) auto

lemma word_or_nonzero: "(b :: 'a::len word) \<noteq> 0 \<Longrightarrow> a OR b \<noteq> 0"
  by (metis or_eq_0_iff)

lemma set_mask_fields:
  "lg_file (set_mask m s) = lg_file s" "lg_screen (set_mask m s) = lg_screen s"
  by (cases m; simp add: SetScreenMask_def SetFileMask_def)+

lemma set_masks_fields:
  "lg_file (fold set_mask ms s) = lg_file s" "lg_screen (fold set_mask ms s) = lg_screen s"
  by (induction ms arbitrary: s) (auto simp: set_mask_fields)

lemma enabled_mono: "enabled t s \<Longrightarrow> enabled t (set_mask m s)"
  by (cases m) (auto simp: enabled_def SetScreenMask_def SetFileMask_def bit.conj_disj_distrib2 or_eq_0_iff)

lemma enabled_masks: "enabled t s \<Longrightarrow> enabled t (fold set_mask ms s)"
  by (induction ms arbitrary: s) (auto simp: enabled_mono)

lemma enabled_new: "enabled t logger_new"
  by (cases t) (simp_all add: enabled_def logger_new_def)

lemma enabled_file: "enabled t (s\<lparr>lg_file := f, lg_screen := c\<rparr>) = enabled t s"
  by (simp add: enabled_def)

lemma lt_index_color: "lt_index t < length sColor"
  by (cases t) (simp_all add: sColor_def)

lemma log_output_eq:
  "log_output t (lt_index t) tm txt s = Some (s\<lparr>
     lg_screen := lg_screen s @ sColor ! lt_index t @ log_line tm (lt_index t) txt @ [newline] @ [CHR 0x1B] @ ''[0m'',
     lg_file := map_option (\<lambda>f. f @ log_line tm (lt_index t) txt @ [newline]) (lg_file s)\<rparr>)"
  by (simp add: log_output_def SetColor_def ResetColor_def lt_index_color word_or_nonzero Let_def split: option.split)

lemma log_call_eq: "log_call t tm txt s = (if enabled t s then log_output t (lt_index t) tm txt s else Some s)"
  by (cases t) (simp_all add: log_Debug_def log_Info_def log_Warning_def log_Error_def log_Fatal_def)

text \<open>
  Whatever masks are set on a new logger, no level is ever switched off, neither on the screen nor in the
  file: a message of any level is written to both, as one coloured line and one plain line.
\<close>

theorem masks_never_silence:
  "log_call t tm txt (fold set_mask ms (logger_new\<lparr>lg_file := Some f, lg_screen := c\<rparr>)) =
    Some ((fold set_mask ms (logger_new\<lparr>lg_file := Some f, lg_screen := c\<rparr>))\<lparr>
      lg_screen := c @ sColor ! lt_index t @ log_line tm (lt_index t) txt @ [newline] @ [CHR 0x1B] @ ''[0m'',
      lg_file := Some (f @ log_line tm (lt_index t) txt @ [newline])\<rparr>)"
proof -
  have "enabled t (fold set_mask ms (logger_new\<lparr>lg_file := Some f, lg_screen := c\<rparr>))"
    by (intro enabled_masks) (simp add: enabled_file enabled_new)
  then show ?thesis by (simp add: log_call_eq log_output_eq set_masks_fields)
qed

text \<open>
  The two masks do not separate the screen from the file: a level that is in one of them is written to
  both, a level in neither to none.
\<close>

theorem masks_not_separate:
  "log_call t tm txt s = Some (if enabled t s
     then s\<lparr>lg_screen := lg_screen s @ sColor ! lt_index t @ log_line tm (lt_index t) txt @ [newline] @ [CHR 0x1B] @ ''[0m'',
            lg_file := map_option (\<lambda>f. f @ log_line tm (lt_index t) txt @ [newline]) (lg_file s)\<rparr>
     else s)"
  by (simp add: log_call_eq log_output_eq)

lemma length_dec: "n < 10 ^ k \<Longrightarrow> 0 < k \<Longrightarrow> length (dec n) \<le> k"
proof (induction k arbitrary: n)
  case (Suc k)
  show ?case
  proof (cases "n < 10")
    case True
    then show ?thesis by (simp add: dec.simps)
  next
    case False
    then have "n div 10 < 10 ^ k" "0 < k" using Suc.prems by (auto simp: less_mult_imp_div_less mult.commute intro: gr0I)
    from Suc.IH [OF this] show ?thesis using False by (subst dec.simps) simp
  qed
qed simp

lemma length_fmt_0d: "0 \<le> i \<Longrightarrow> i < 10 ^ k \<Longrightarrow> 0 < k \<Longrightarrow> length (fmt_0d k i) = k"
  using length_dec [of "nat i" k] by (simp add: fmt_0d_def Let_def nat_less_iff)

definition tm_ok :: "local_tm \<Rightarrow> bool" where
  "tm_ok tm \<longleftrightarrow> lt_year tm \<in> {-1900..<8100} \<and> lt_mon tm \<in> {0..<12} \<and> lt_mday tm \<in> {1..<32} \<and> lt_hour tm \<in> {0..<24}
     \<and> lt_min tm \<in> {0..<60} \<and> lt_sec tm \<in> {0..<61}"

text \<open>
  For a calendar time up to the year 9999 the text of every line starts after 28 characters and is cut
  after 995, so that the line and its zero fit into the buffer.
\<close>

theorem log_line_layout:
  assumes "tm_ok tm" and "idx < 5"
  shows "length (log_prefix tm idx) = 28 \<and> log_line tm idx txt = log_prefix tm idx @ take 995 txt
    \<and> length (log_line tm idx txt) < MAX_LEN"
proof -
  have "idx \<in> {0, 1, 2, 3, 4}" using assms(2) by auto
  then have s: "length (fmt_s 5 (szType ! idx)) = 5" by (auto simp: szType_def fmt_s_def)
  have "length (fmt_0d 4 (lt_year tm + 1900)) = 4" "length (fmt_0d 2 (lt_mon tm + 1)) = 2" "length (fmt_0d 2 (lt_mday tm)) = 2"
    "length (fmt_0d 2 (lt_hour tm)) = 2" "length (fmt_0d 2 (lt_min tm)) = 2" "length (fmt_0d 2 (lt_sec tm)) = 2"
    using assms(1) by (auto simp: tm_ok_def intro!: length_fmt_0d)
  then have p: "length (log_prefix tm idx) = 28" using s by (simp add: log_prefix_def)
  then show ?thesis by (simp add: log_line_def MAX_LEN_def)
qed

theorem log_line_layout_witness:
  "log_line \<lparr>lt_year = 126, lt_mon = 0, lt_mday = 5, lt_hour = 9, lt_min = 30, lt_sec = 7\<rparr> 1 ''started''
     = ''[2026-01-05 09:30:07  INFO] started''"
proof -
  let ?tm = "\<lparr>lt_year = 126, lt_mon = 0, lt_mday = 5, lt_hour = 9, lt_min = 30, lt_sec = 7\<rparr>"
  have "tm_ok ?tm" "(1 :: nat) < 5" by (simp_all add: tm_ok_def)
  from log_line_layout [OF this, of "''started''"]
  have "log_line ?tm 1 ''started'' = log_prefix ?tm 1 @ take 995 ''started''" by blast
  then show ?thesis by (simp add: log_prefix_def fmt_0d_def dec.simps fmt_s_def szType_def char_of_def bit_0)
qed

end
