(* ===== verification/Database.thy ===== *)
theory Database
  imports Prelude
begin

text \<open>
  Database connections (\<^verbatim>\<open>libcore/include/Database.h\<close>, \<^verbatim>\<open>libcore/src/Database.cpp\<close>) and their manager
  (\<^verbatim>\<open>gameserver/DbMgr.h\<close>, \<^verbatim>\<open>gameserver/DbMgr.cpp\<close>).

  The handler of MySQL is a log of the calls made to it; its answers are arguments.  Times are integers in the
  range of \<^verbatim>\<open>int64\<close>, whose differences do not overflow for clock readings.
\<close>

section \<open>One connection\<close>

datatype db_call = HandlerInit | HandlerConnect | HandlerIsAlive | HandlerExecuteSql | HandlerRelease

record database =
  db_free :: bool
  db_last_travel_time :: int
  db_calls :: "db_call list"

definition database_new :: database where
  "database_new = \<lparr>db_free = True, db_last_travel_time = 0, db_calls = [HandlerInit]\<rparr>"

definition db_log :: "db_call \<Rightarrow> database \<Rightarrow> database" where
  "db_log c d = d\<lparr>db_calls := db_calls d @ [c]\<rparr>"

text \<open>
  The destructor waits until the connection is free, given what each reading of the flag finds; \<open>None\<close> when it
  is still waiting after all of them.
\<close>

fun database_destroy :: "bool list \<Rightarrow> database \<Rightarrow> database option" where
  "database_destroy [] d = None"
| "database_destroy (free # later) d = (if \<not> free then database_destroy later d else Some (db_log HandlerRelease d))"

definition database_Occupy :: "database \<Rightarrow> bool \<times> database" where
  "database_Occupy d = (if db_free d then (True, d\<lparr>db_free := False\<rparr>) else (False, d))"

definition database_Release :: "int \<Rightarrow> database \<Rightarrow> database" where
  "database_Release now d = d\<lparr>db_free := True, db_last_travel_time := now\<rparr>"

definition database_Connect :: "bool \<Rightarrow> database \<Rightarrow> bool \<times> database" where
  "database_Connect ret d =
     (let d1 = db_log HandlerConnect d in (ret, if ret then d1\<lparr>db_last_travel_time := 0\<rparr> else d1))"

text \<open>\<^verbatim>\<open>Update\<close> after its check of the flag, which it makes without the lock.\<close>

definition database_Update_use :: "bool \<Rightarrow> bool \<Rightarrow> int \<Rightarrow> database \<Rightarrow> database" where
  "database_Update_use alive connected now d =
     (let d1 = db_log HandlerIsAlive d;
          d2 = (if \<not> alive then snd (database_Connect connected d1) else d1)
      in if now - db_last_travel_time d2 > 30
         then (db_log HandlerExecuteSql d2)\<lparr>db_last_travel_time := now\<rparr>
         else d2)"

definition database_Update :: "bool \<Rightarrow> bool \<Rightarrow> int \<Rightarrow> database \<Rightarrow> database" where
  "database_Update alive connected now d =
     (if \<not> db_free d then d else database_Update_use alive connected now d)"

section \<open>The manager\<close>

text \<open>The loop makes one connection; whether that one connects is the argument.\<close>

definition DbMgr_Start :: "bool \<Rightarrow> database list \<Rightarrow> database list" where
  "DbMgr_Start connected dbs = fold (\<lambda>i dbs. dbs @ [snd (database_Connect connected database_new)]) [0..<1] dbs"

definition DbMgr_Update :: "(nat \<Rightarrow> bool \<times> bool) \<Rightarrow> int \<Rightarrow> database list \<Rightarrow> database list" where
  "DbMgr_Update answers now dbs =
     map (\<lambda>i. database_Update (fst (answers i)) (snd (answers i)) now (dbs ! i)) [0..<length dbs]"

text \<open>The result is the index of the connection; \<open>None\<close> is the null pointer.\<close>

fun GetFreeConnection :: "database list \<Rightarrow> nat option \<times> database list" where
  "GetFreeConnection [] = (None, [])"
| "GetFreeConnection (d # ds) =
     (case database_Occupy d of
        (True, d1) \<Rightarrow> (Some 0, d1 # ds)
      | (False, d1) \<Rightarrow> (case GetFreeConnection ds of (r, ds1) \<Rightarrow> (map_option Suc r, d1 # ds1)))"

text \<open>\<^verbatim>\<open>Close\<close> waits for every connection in turn.\<close>

fun DbMgr_Close :: "bool list list \<Rightarrow> database list \<Rightarrow> database list option" where
  "DbMgr_Close readings [] = Some []"
| "DbMgr_Close [] (d # ds) = None"
| "DbMgr_Close (r # rs) (d # ds) = do { d1 \<leftarrow> database_destroy r d; ds1 \<leftarrow> DbMgr_Close rs ds; Some (d1 # ds1) }"

section \<open>Who uses a connection\<close>

text \<open>
  The workers take and give back connections while the logic thread updates them.  \<open>GetFreeConnection\<close> is no
  critical section: it holds the lock of one connection at a time, inside \<open>Occupy\<close>, and other threads run between
  two of its tests.  So each test is a step: \<open>dw_scanning\<close> is the connection that a worker inside the loop tests
  next, \<open>dw_held\<close> lists which worker has which connection, \<open>dw_updating\<close> is the connection for which the logic
  thread has passed the check of \<open>Update\<close> and which it uses next.  Taking, giving and updating do not change
  the list of connections.
\<close>

record db_world =
  dw_dbs :: "database list"
  dw_scanning :: "nat \<Rightarrow> nat option"
  dw_held :: "(nat \<times> nat) list"
  dw_updating :: "nat option"

inductive db_step :: "db_world \<Rightarrow> db_world \<Rightarrow> bool" where
  scan_start: "dw_scanning s w = None \<Longrightarrow> db_step s (s\<lparr>dw_scanning := (dw_scanning s)(w \<mapsto> 0)\<rparr>)"
| scan_take: "dw_scanning s w = Some i \<Longrightarrow> i < length (dw_dbs s) \<Longrightarrow> database_Occupy (dw_dbs s ! i) = (True, d) \<Longrightarrow>
    db_step s (s\<lparr>dw_dbs := (dw_dbs s)[i := d], dw_scanning := (dw_scanning s)(w := None), dw_held := (w, i) # dw_held s\<rparr>)"
| scan_next: "dw_scanning s w = Some i \<Longrightarrow> i < length (dw_dbs s) \<Longrightarrow> database_Occupy (dw_dbs s ! i) = (False, d) \<Longrightarrow>
    db_step s (s\<lparr>dw_dbs := (dw_dbs s)[i := d], dw_scanning := (dw_scanning s)(w \<mapsto> i + 1)\<rparr>)"
| scan_none: "dw_scanning s w = Some i \<Longrightarrow> \<not> i < length (dw_dbs s) \<Longrightarrow>
    db_step s (s\<lparr>dw_scanning := (dw_scanning s)(w := None)\<rparr>)"
| give: "(w, i) \<in> set (dw_held s) \<Longrightarrow>
    db_step s (s\<lparr>dw_dbs := (dw_dbs s)[i := database_Release now (dw_dbs s ! i)], dw_held := remove1 (w, i) (dw_held s)\<rparr>)"
| update_check: "dw_updating s = None \<Longrightarrow> i < length (dw_dbs s) \<Longrightarrow> db_free (dw_dbs s ! i) \<Longrightarrow>
    db_step s (s\<lparr>dw_updating := Some i\<rparr>)"
| update_use: "dw_updating s = Some i \<Longrightarrow>
    db_step s (s\<lparr>dw_dbs := (dw_dbs s)[i := database_Update_use alive connected now (dw_dbs s ! i)], dw_updating := None\<rparr>)"

inductive db_reach :: "db_world \<Rightarrow> db_world \<Rightarrow> bool" for s where
  refl: "db_reach s s"
| step: "db_reach s t \<Longrightarrow> db_step t u \<Longrightarrow> db_reach s u"

definition db_start :: "bool list \<Rightarrow> db_world" where
  "db_start oks = \<lparr>dw_dbs = map (\<lambda>ok. snd (database_Connect ok database_new)) oks, dw_scanning = \<lambda>w. None, dw_held = [], dw_updating = None\<rparr>"

section \<open>Properties\<close>

lemma GetFreeConnection_eq:
  "GetFreeConnection dbs =
     (if \<exists>d\<in>set dbs. db_free d
      then let i = length (takeWhile (\<lambda>d. \<not> db_free d) dbs) in (Some i, dbs[i := (dbs ! i)\<lparr>db_free := False\<rparr>])
      else (None, dbs))"
  by (induction dbs) (auto simp: database_Occupy_def Let_def split: prod.splits if_splits)

lemma free_connection_spec:
  "GetFreeConnection dbs = (r, dbs1) \<Longrightarrow>
     length dbs1 = length dbs \<and>
     (case r of
        None \<Rightarrow> (\<forall>d\<in>set dbs. \<not> db_free d) \<and> dbs1 = dbs
      | Some i \<Rightarrow> i < length dbs \<and> db_free (dbs ! i) \<and> (\<forall>j<i. \<not> db_free (dbs ! j))
                  \<and> dbs1 = dbs[i := (dbs ! i)\<lparr>db_free := False\<rparr>])"
proof -
  assume g: "GetFreeConnection dbs = (r, dbs1)"
  let ?i = "length (takeWhile (\<lambda>d. \<not> db_free d) dbs)"
  have b: "j < ?i \<Longrightarrow> \<not> db_free (dbs ! j)" for j using nth_mem [of j "takeWhile (\<lambda>d. \<not> db_free d) dbs"]
    by (metis set_takeWhileD takeWhile_nth)
  have f: "?i < length dbs \<and> db_free (dbs ! ?i)" if "\<exists>d\<in>set dbs. db_free d"
  proof -
    have "length (takeWhile (\<lambda>d. \<not> db_free d) dbs) \<noteq> length dbs"
      using that by (metis (mono_tags, lifting) takeWhile_eq_all_conv takeWhile_eq_take take_all_iff le_refl)
    then have "?i < length dbs" using length_takeWhile_le [of "\<lambda>d. \<not> db_free d" dbs] by linarith
    then show ?thesis using nth_length_takeWhile by fastforce
  qed
  show ?thesis
  proof (cases "\<exists>d\<in>set dbs. db_free d")
    case True
    then have "r = Some ?i" "dbs1 = dbs[?i := (dbs ! ?i)\<lparr>db_free := False\<rparr>]"
      using g by (simp_all add: GetFreeConnection_eq Let_def)
    then show ?thesis using f [OF True] b by simp
  next
    case False
    then have "r = None" "dbs1 = dbs" using g by (simp_all add: GetFreeConnection_eq)
    then show ?thesis using False by simp
  qed
qed

text \<open>
  A caller gets the first connection that is free, which is then occupied, and no other connection changes;
  when none is free it gets a null pointer.
\<close>

theorem free_connection:
  "GetFreeConnection dbs = (r, dbs1) \<Longrightarrow>
     length dbs1 = length dbs \<and>
     (case r of
        None \<Rightarrow> (\<forall>d\<in>set dbs. \<not> db_free d) \<and> dbs1 = dbs
      | Some i \<Rightarrow> i < length dbs \<and> db_free (dbs ! i) \<and> (\<forall>j<i. \<not> db_free (dbs ! j))
                  \<and> dbs1 = dbs[i := (dbs ! i)\<lparr>db_free := False\<rparr>])"
  by (rule free_connection_spec)

theorem free_connection_witness:
  "GetFreeConnection [database_new\<lparr>db_free := False\<rparr>, database_new] =
     (Some 1, [database_new\<lparr>db_free := False\<rparr>, database_new\<lparr>db_free := False\<rparr>])"
proof -
  obtain r dbs1 where g: "GetFreeConnection [database_new\<lparr>db_free := False\<rparr>, database_new] = (r, dbs1)" by (rule prod.exhaust)
  have "r = Some 1" using g by (simp add: GetFreeConnection_eq database_new_def)
  then show ?thesis using free_connection [OF g] g by simp
qed

text \<open>The connections that are held are exactly those that are not free, and each is held once.\<close>

definition db_ok :: "db_world \<Rightarrow> bool" where
  "db_ok s \<longleftrightarrow> distinct (map snd (dw_held s)) \<and> snd ` set (dw_held s) = {i. i < length (dw_dbs s) \<and> \<not> db_free (dw_dbs s ! i)}
     \<and> (\<forall>i. dw_updating s = Some i \<longrightarrow> i < length (dw_dbs s))"

lemma free_Update_use: "db_free (database_Update_use alive connected now d) = db_free d"
  by (simp add: database_Update_use_def database_Connect_def db_log_def Let_def)

lemma db_ok_step: "db_step s t \<Longrightarrow> db_ok s \<Longrightarrow> db_ok t"
proof (induction rule: db_step.induct)
  case (scan_start s w)
  then show ?case by (simp add: db_ok_def)
next
  case (scan_take s w i d)
  then have i: "i < length (dw_dbs s)" "db_free (dw_dbs s ! i)" "\<not> db_free d"
    by (auto simp: database_Occupy_def split: if_splits)
  have "snd ` set (dw_held s) = {j. j < length (dw_dbs s) \<and> \<not> db_free (dw_dbs s ! j)}" using scan_take.prems by (simp add: db_ok_def)
  moreover have "{j. j < length ((dw_dbs s)[i := d]) \<and> \<not> db_free ((dw_dbs s)[i := d] ! j)}
      = insert i {j. j < length (dw_dbs s) \<and> \<not> db_free (dw_dbs s ! j)}"
    using i by (auto simp: nth_list_update)
  ultimately show ?case using scan_take.prems i by (auto simp: db_ok_def)
next
  case (scan_next s w i d)
  then have "(dw_dbs s)[i := d] = dw_dbs s" by (auto simp: database_Occupy_def split: if_splits)
  then show ?case using scan_next.prems by (simp add: db_ok_def)
next
  case (scan_none s w i)
  then show ?case by (simp add: db_ok_def)
next
  case (give w i s now)
  let ?dbs = "(dw_dbs s)[i := database_Release now (dw_dbs s ! i)]"
  have d: "distinct (map snd (dw_held s))" and e: "snd ` set (dw_held s) = {j. j < length (dw_dbs s) \<and> \<not> db_free (dw_dbs s ! j)}"
    using give.prems by (simp_all add: db_ok_def)
  have "i \<in> snd ` set (dw_held s)" using give.hyps by force
  then have i: "i < length (dw_dbs s)" using e by simp
  have "snd ` set (remove1 (w, i) (dw_held s)) = snd ` set (dw_held s) - {i}"
  proof -
    have "x = (w, i)" if "x \<in> set (dw_held s)" "snd x = i" for x
      using d give.hyps that by (metis distinct_map inj_on_def snd_conv)
    then show ?thesis using d by (force simp: distinct_map)
  qed
  moreover have "{j. j < length ?dbs \<and> \<not> db_free (?dbs ! j)} = {j. j < length (dw_dbs s) \<and> \<not> db_free (dw_dbs s ! j)} - {i}"
    using i by (auto simp: nth_list_update database_Release_def split: if_splits)
  moreover have "distinct (map snd (remove1 (w, i) (dw_held s)))"
    using d by (auto simp: distinct_map intro: inj_on_subset dest: notin_set_remove1)
  ultimately show ?case using give.prems e by (simp add: db_ok_def)
next
  case (update_check s i)
  then show ?case by (simp add: db_ok_def)
next
  case (update_use s i alive connected now)
  let ?dbs = "(dw_dbs s)[i := database_Update_use alive connected now (dw_dbs s ! i)]"
  have "i < length (dw_dbs s)" using update_use by (simp add: db_ok_def)
  then have "{j. j < length ?dbs \<and> \<not> db_free (?dbs ! j)} = {j. j < length (dw_dbs s) \<and> \<not> db_free (dw_dbs s ! j)}"
    by (auto simp: nth_list_update free_Update_use split: if_splits)
  then show ?case using update_use.prems by (simp add: db_ok_def)
qed

lemma db_ok_start: "db_ok (db_start oks)"
  by (auto simp: db_ok_def db_start_def database_Connect_def database_new_def db_log_def Let_def)

lemma db_reach_ok: "db_reach (db_start oks) s \<Longrightarrow> db_ok s"
  by (induction rule: db_reach.induct) (auto intro: db_ok_start db_ok_step)

lemma database_at_start [simp]: "i < length oks \<Longrightarrow> db_free (dw_dbs (db_start oks) ! i)"
  by (simp add: db_start_def database_Connect_def database_new_def db_log_def Let_def)

lemma length_db_start [simp]: "length (dw_dbs (db_start oks)) = length oks" by (simp add: db_start_def)

text \<open>
  A worker that nobody disturbs gets what \<open>GetFreeConnection\<close> returns: the steps of the loop, taken one after
  the other, are the function.
\<close>

lemma scan_from:
  assumes "dw_scanning s w = Some (length a)" and "dw_dbs s = a @ b" and "GetFreeConnection b = (r, b1)" and "db_reach s0 s"
  shows "\<exists>t. db_reach s0 t \<and> dw_dbs t = a @ b1 \<and> dw_scanning t w = None \<and> dw_updating t = dw_updating s
    \<and> dw_held t = (case r of None \<Rightarrow> dw_held s | Some i \<Rightarrow> (w, length a + i) # dw_held s)"
  using assms
proof (induction b arbitrary: a s r b1)
  case Nil
  let ?t = "s\<lparr>dw_scanning := (dw_scanning s)(w := None)\<rparr>"
  have "db_step s ?t" using Nil by (intro db_step.scan_none) auto
  then have "db_reach s0 ?t" using Nil.prems(4) db_reach.step by blast
  then show ?case using Nil by (intro exI [of _ ?t]) simp
next
  case (Cons d ds)
  have i: "length a < length (dw_dbs s)" "dw_dbs s ! length a = d" using Cons.prems(2) by simp_all
  show ?case
  proof (cases "db_free d")
    case True
    let ?t = "s\<lparr>dw_dbs := (dw_dbs s)[length a := d\<lparr>db_free := False\<rparr>], dw_scanning := (dw_scanning s)(w := None), dw_held := (w, length a) # dw_held s\<rparr>"
    have "db_step s ?t" using Cons.prems(1) i True by (intro db_step.scan_take) (simp_all add: database_Occupy_def)
    then have "db_reach s0 ?t" using Cons.prems(4) db_reach.step by blast
    moreover have "r = Some 0" "b1 = d\<lparr>db_free := False\<rparr> # ds" using Cons.prems(3) True by (simp_all add: database_Occupy_def)
    ultimately show ?thesis using Cons.prems(2) by (intro exI [of _ ?t]) simp
  next
    case False
    let ?t = "s\<lparr>dw_dbs := (dw_dbs s)[length a := d], dw_scanning := (dw_scanning s)(w \<mapsto> length a + 1)\<rparr>"
    have "db_step s ?t" using Cons.prems(1) i False by (intro db_step.scan_next) (simp_all add: database_Occupy_def)
    then have t: "db_reach s0 ?t" using Cons.prems(4) db_reach.step by blast
    obtain r1 b2 where g: "GetFreeConnection ds = (r1, b2)" by (rule prod.exhaust)
    then have r: "r = map_option Suc r1" "b1 = d # b2" using Cons.prems(3) False by (simp_all add: database_Occupy_def)
    have "dw_scanning ?t w = Some (length (a @ [d]))" "dw_dbs ?t = (a @ [d]) @ ds" using Cons.prems(2) by simp_all
    from Cons.IH [OF this g t] show ?thesis by (auto simp: r split: option.splits)
  qed
qed

lemma scan_undisturbed:
  assumes "db_reach s0 s" and "dw_scanning s w = None" and "GetFreeConnection (dw_dbs s) = (r, dbs)"
  shows "\<exists>t. db_reach s0 t \<and> dw_dbs t = dbs \<and> dw_scanning t w = None \<and> dw_updating t = dw_updating s
    \<and> dw_held t = (case r of None \<Rightarrow> dw_held s | Some i \<Rightarrow> (w, i) # dw_held s)"
proof -
  let ?s = "s\<lparr>dw_scanning := (dw_scanning s)(w \<mapsto> 0)\<rparr>"
  have "db_reach s0 ?s" using db_step.scan_start [OF assms(2)] assms(1) db_reach.step by blast
  from scan_from [of ?s w "[]" "dw_dbs s" r dbs s0, OF _ _ _ this] assms(3) show ?thesis by (simp cong: option.case_cong)
qed

text \<open>
  C12. However the tests of the workers inside \<open>GetFreeConnection\<close>, the releases and the updates of the logic
  thread interleave, no two workers ever hold the same connection, and a connection is marked free exactly
  while no worker holds it.  A worker that is told that it occupied a connection found it held by nobody.
\<close>

theorem connections_exclusive:
  assumes "db_reach (db_start oks) s" and "i < length (dw_dbs s)"
  shows "length (filter (\<lambda>h. snd h = i) (dw_held s)) \<le> 1
    \<and> (db_free (dw_dbs s ! i) \<longleftrightarrow> filter (\<lambda>h. snd h = i) (dw_held s) = [])
    \<and> (fst (database_Occupy (dw_dbs s ! i)) \<longleftrightarrow> (\<forall>w. (w, i) \<notin> set (dw_held s)))"
proof -
  have ok: "distinct (map snd (dw_held s))" "snd ` set (dw_held s) = {j. j < length (dw_dbs s) \<and> \<not> db_free (dw_dbs s ! j)}"
    using db_reach_ok [OF assms(1)] by (simp_all add: db_ok_def)
  have "length (filter (\<lambda>h. snd h = i) hs) \<le> 1" if "distinct (map snd hs)" for hs :: "(nat \<times> nat) list"
    using that by (induction hs) (force simp: filter_empty_conv)+
  moreover have "filter (\<lambda>h. snd h = i) (dw_held s) = [] \<longleftrightarrow> i \<notin> snd ` set (dw_held s)"
    by (auto simp: filter_empty_conv)
  moreover have "i \<in> snd ` set (dw_held s) \<longleftrightarrow> (\<exists>w. (w, i) \<in> set (dw_held s))" by force
  ultimately show ?thesis using ok assms(2) by (auto simp: database_Occupy_def)
qed

text \<open>
  Two workers race for the only connection: both are in the loop before either has tested it, the first to test
  gets it and the other moves on to the end of the list.
\<close>

definition race :: "nat \<Rightarrow> db_world" where
  "race n =
     (let s = db_start [True];
          s1 = s\<lparr>dw_scanning := (dw_scanning s)(1 \<mapsto> 0)\<rparr>;
          s2 = s1\<lparr>dw_scanning := (dw_scanning s1)(2 \<mapsto> 0)\<rparr>;
          s3 = s2\<lparr>dw_dbs := (dw_dbs s2)[0 := (dw_dbs s2 ! 0)\<lparr>db_free := False\<rparr>], dw_scanning := (dw_scanning s2)(1 := None), dw_held := (1, 0) # dw_held s2\<rparr>;
          s4 = s3\<lparr>dw_dbs := (dw_dbs s3)[0 := dw_dbs s3 ! 0], dw_scanning := (dw_scanning s3)(2 \<mapsto> 0 + 1)\<rparr>
      in [s, s1, s2, s3, s4] ! n)"

lemma race_reached: "db_reach (db_start [True]) (race 4)"
proof -
  let ?S = "db_start [True]"
  have f: "db_free (dw_dbs (race 2) ! 0)" "0 < length (dw_dbs (race 2))" "race 0 = ?S" by (simp_all add: race_def Let_def)
  have "db_step (race 0) (race 1)"
    unfolding race_def Let_def by (simp, rule db_step.scan_start) (simp add: db_start_def)
  moreover have "db_step (race 1) (race 2)"
    unfolding race_def Let_def by (simp, rule db_step.scan_start [of "db_start [True]\<lparr>dw_scanning := _\<rparr>", simplified]) (simp add: db_start_def)
  moreover have "db_step (race 2) (race 3)"
  proof -
    have "race 3 = (race 2)\<lparr>dw_dbs := (dw_dbs (race 2))[0 := (dw_dbs (race 2) ! 0)\<lparr>db_free := False\<rparr>],
        dw_scanning := (dw_scanning (race 2))(1 := None), dw_held := (1, 0) # dw_held (race 2)\<rparr>"
      by (simp add: race_def Let_def)
    then show ?thesis using f by (simp only:) (rule db_step.scan_take, simp_all add: database_Occupy_def, simp add: race_def Let_def)
  qed
  moreover have "db_step (race 3) (race 4)"
  proof -
    have "race 4 = (race 3)\<lparr>dw_dbs := (dw_dbs (race 3))[0 := dw_dbs (race 3) ! 0], dw_scanning := (dw_scanning (race 3))(2 \<mapsto> 0 + 1)\<rparr>"
      by (simp add: race_def Let_def)
    then show ?thesis by (simp only:) (rule db_step.scan_next, simp_all add: database_Occupy_def race_def Let_def)
  qed
  ultimately show ?thesis using f db_reach.refl db_reach.step by metis
qed

lemma race_end: "dw_held (race 4) = [(1, 0)]" "dw_scanning (race 4) 2 = Some 1" "length (dw_dbs (race 4)) = 1"
  by (simp_all add: race_def Let_def db_start_def)

theorem connections_exclusive_witness:
  "\<exists>s. db_reach (db_start [True]) s \<and> dw_held s = [(1, 0)] \<and> dw_scanning s 2 = Some 1
     \<and> \<not> db_free (dw_dbs s ! 0) \<and> \<not> fst (database_Occupy (dw_dbs s ! 0))"
proof -
  have "0 < length (dw_dbs (race 4))" by (simp add: race_end)
  from connections_exclusive [OF race_reached this]
  have "\<not> db_free (dw_dbs (race 4) ! 0)" "\<not> fst (database_Occupy (dw_dbs (race 4) ! 0))"
    by (simp_all add: race_end)
  then show ?thesis using race_reached race_end by blast
qed

text \<open>
  \<^verbatim>\<open>Update\<close> looks at the flag without occupying the connection: a worker can take it in between, so that two
  threads use one handler at the same time.
\<close>

theorem update_races:
  "\<exists>s. db_reach (db_start [True]) s \<and> dw_updating s = Some 0 \<and> (w, 0) \<in> set (dw_held s)"
proof -
  let ?s0 = "db_start [True]" and ?s1 = "(db_start [True])\<lparr>dw_updating := Some 0\<rparr>"
  have "db_step ?s0 ?s1" by (rule db_step.update_check) (simp_all add: db_start_def database_Connect_def database_new_def db_log_def)
  then have r: "db_reach ?s0 ?s1" using db_reach.refl db_reach.step by blast
  obtain dbs where g: "GetFreeConnection (dw_dbs ?s1) = (Some 0, dbs)"
    by (auto simp: GetFreeConnection_eq db_start_def database_Connect_def database_new_def db_log_def)
  have "dw_scanning ?s1 w = None" by (simp add: db_start_def)
  from scan_undisturbed [OF r this g] show ?thesis by auto
qed

end
