(* ===== verification/MysqlQuery.thy ===== *)
theory MysqlQuery
  imports Prelude
begin

text \<open>
  The connection to MySQL and the results of plain queries (\<^verbatim>\<open>libcore/include/MysqlService.h\<close>, the classes
  \<open>MysqlHandler\<close> and \<open>MysqlQueryResult\<close> of \<^verbatim>\<open>libcore/src/MysqlService.cpp\<close>).

  The client library of MySQL is not part of the repository: what its functions return is an argument, the
  calls made to it are logged in the handler.  A result set is the list of the rows that \<^verbatim>\<open>mysql_fetch_row\<close> is still
  going to give; a column of a row is its bytes, or \<open>None\<close> for \<^verbatim>\<open>NULL\<close>.  The log output is left out.  \<open>None\<close> as the
  result of a function is undefined behaviour: a null pointer followed or a column read outside a row.
\<close>

section \<open>Numbers in text\<close>

text \<open>
  \<^verbatim>\<open>strtoul\<close> and \<^verbatim>\<open>strtoull\<close> to base 10 of the C library: blanks, a sign, digits; the largest number when the
  digits do not fit in 64 bits, and the two's complement of the digits after a minus sign.
\<close>

definition is_blank :: "byte \<Rightarrow> bool" where
  "is_blank b \<longleftrightarrow> b = 32 \<or> (9 \<le> b \<and> b \<le> 13)"

definition is_digit :: "byte \<Rightarrow> bool" where
  "is_digit b \<longleftrightarrow> 48 \<le> b \<and> b \<le> 57"

definition digits_nat :: "byte list \<Rightarrow> nat" where
  "digits_nat ds = foldl (\<lambda>n b. 10 * n + (unat b - 48)) 0 ds"

definition strtoul :: "byte list \<Rightarrow> u64" where
  "strtoul s =
     (let t = dropWhile is_blank s;
          neg = (t \<noteq> [] \<and> hd t = 45);
          u = (if t \<noteq> [] \<and> (hd t = 45 \<or> hd t = 43) then tl t else t);
          n = digits_nat (takeWhile is_digit u)
      in if 2 ^ 64 \<le> n then - 1 else if neg then - word_of_nat n else word_of_nat n)"

text \<open>The text of an integer, as MySQL sends it.\<close>

fun nat_text :: "nat \<Rightarrow> byte list" where
  "nat_text n = (if n < 10 then [word_of_nat (48 + n)] else nat_text (n div 10) @ [word_of_nat (48 + n mod 10)])"

declare nat_text.simps [simp del]

definition int_text :: "int \<Rightarrow> byte list" where
  "int_text i = (if i < 0 then 45 # nat_text (nat (- i)) else nat_text (nat i))"

lemma unat_digit: "n < 10 \<Longrightarrow> unat (word_of_nat (48 + n) :: byte) = 48 + n"
  by (subst unat_of_nat) simp

lemma is_digit_digit: "n < 10 \<Longrightarrow> is_digit (word_of_nat (48 + n))"
  using unat_digit [of n] by (simp add: is_digit_def word_le_nat_alt)

lemma nat_text_digits: "list_all is_digit (nat_text n)"
proof (induction n rule: nat_text.induct)
  case (1 n)
  show ?case
    using 1 is_digit_digit [of n] is_digit_digit [of "n mod 10"] by (subst nat_text.simps) simp
qed

lemma digits_nat_text: "digits_nat (nat_text n) = n"
proof (induction n rule: nat_text.induct)
  case (1 n)
  show ?case
  proof (cases "n < 10")
    case True
    then show ?thesis using unat_digit [of n] by (subst nat_text.simps) (simp add: digits_nat_def)
  next
    case False
    with 1 have "digits_nat (nat_text (n div 10)) = n div 10" by simp
    with False show ?thesis
      using unat_digit [of "n mod 10"] by (subst nat_text.simps) (simp add: digits_nat_def)
  qed
qed

lemma nat_text_nonempty: "nat_text n \<noteq> []"
  by (subst nat_text.simps) simp

lemma nat_text_head: "\<exists>d ds. nat_text n = d # ds \<and> is_digit d"
  using nat_text_digits [of n] nat_text_nonempty [of n] by (cases "nat_text n") auto

lemma is_digit_not_sign: "is_digit d \<Longrightarrow> \<not> is_blank d \<and> d \<noteq> 45 \<and> d \<noteq> 43"
  by (auto simp: is_digit_def is_blank_def word_le_nat_alt)

lemma strtoul_int_text:
  assumes "\<bar>i\<bar> < 2 ^ 64"
  shows "strtoul (int_text i) = word_of_int i"
proof -
  have t: "takeWhile is_digit (nat_text n) = nat_text n" for n
    using nat_text_digits [of n] by (simp add: takeWhile_eq_all_conv list_all_iff)
  show ?thesis
  proof (cases "i < 0")
    case True
    have "\<not> is_blank (45 :: byte)" by (simp add: is_blank_def)
    moreover have "(word_of_nat (nat (- i)) :: u64) = - word_of_int i"
      using True by (simp add: word_of_nat_eq_iff flip: word_of_int_minus) 
    moreover have "\<not> 2 ^ 64 \<le> nat (- i)" using assms True by simp
    ultimately show ?thesis
      using True by (simp add: strtoul_def int_text_def t digits_nat_text)
  next
    case False
    obtain d ds where d: "nat_text (nat i) = d # ds" "is_digit d" using nat_text_head by blast
    have "(word_of_nat (nat i) :: u64) = word_of_int i" using False by simp
    moreover have "\<not> 2 ^ 64 \<le> nat i" using assms False by simp
    moreover have tw: "takeWhile is_digit (d # ds) = d # ds" using t [of "nat i"] d by (simp only:)
    moreover have "digits_nat (d # ds) = nat i" using d digits_nat_text [of "nat i"] by (simp only:)
    ultimately show ?thesis
      using False d is_digit_not_sign [OF d(2)] by (simp add: strtoul_def int_text_def Let_def tw del: takeWhile.simps)
  qed
qed

section \<open>Going through rows\<close>

text \<open>\<^verbatim>\<open>while (rs->NextRow()) ...\<close> with the results of either kind; \<open>None\<close> when the body or \<^verbatim>\<open>NextRow\<close> is undefined.\<close>

partial_function (option) while_rows :: "('r \<Rightarrow> (bool \<times> 'r) option) \<Rightarrow> ('r \<Rightarrow> 's \<Rightarrow> 's option) \<Rightarrow> 'r \<Rightarrow> 's \<Rightarrow> ('r \<times> 's) option" where
  "while_rows advance body r s = do {
     (more, r1) \<leftarrow> advance r;
     (if more then do { s1 \<leftarrow> body r1 s; while_rows advance body r1 s1 } else Some (r1, s))
   }"

text \<open>
  What the loop relies on: a result that is \<open>ok\<close> has rows left; advancing makes the first of them the current one, and
  says so, until none is left.
\<close>

locale row_cursor =
  fixes advance :: "'r \<Rightarrow> (bool \<times> 'r) option"
    and ok :: "'r \<Rightarrow> bool"
    and todo :: "'r \<Rightarrow> 'row list"
    and current :: "'r \<Rightarrow> 'row option"
  assumes next_row: "ok r \<Longrightarrow> todo r = x # xs \<Longrightarrow>
      \<exists>r'. advance r = Some (True, r') \<and> ok r' \<and> current r' = Some x \<and> todo r' = xs"
    and next_end: "ok r \<Longrightarrow> todo r = [] \<Longrightarrow> \<exists>r'. advance r = Some (False, r')"
begin

lemma rows_in_order:
  assumes "ok r" and "\<And>r' x s. ok r' \<Longrightarrow> current r' = Some x \<Longrightarrow> x \<in> set (todo r) \<Longrightarrow> body r' s = Some (f x s)"
  shows "\<exists>r'. while_rows advance body r s = Some (r', fold f (todo r) s)"
  using assms
proof (induction "todo r" arbitrary: r s)
  case Nil
  then obtain r' where "advance r = Some (False, r')" using next_end [of r] by auto
  then show ?case using Nil.hyps by (subst while_rows.simps) (simp flip: Nil.hyps)
next
  case (Cons x xs)
  note xs = Cons.hyps(2) [symmetric]
  obtain r1 where r1: "advance r = Some (True, r1)" "ok r1" "current r1 = Some x" "todo r1 = xs"
    using next_row [OF Cons.prems(1) xs] by auto
  have b: "body r1 s = Some (f x s)" using Cons.prems(2) [OF r1(2,3)] xs by simp
  have "\<exists>r'. while_rows advance body r1 (f x s) = Some (r', fold f (todo r1) (f x s))"
    using Cons.hyps(1) [OF r1(4) [symmetric] r1(2)] Cons.prems(2) xs r1(4) by simp
  then show ?case using r1 b xs by (subst while_rows.simps) simp
qed

lemma row_count:
  assumes "ok r" and "\<And>r' x n. ok r' \<Longrightarrow> current r' = Some x \<Longrightarrow> x \<in> set (todo r) \<Longrightarrow> body r' n = Some (n + (1 :: nat))"
  shows "\<exists>r'. while_rows advance body r 0 = Some (r', length (todo r))"
proof -
  have "fold (\<lambda>x n. n + 1) xs m = m + length xs" for xs :: "'row list" and m :: nat by (induction xs arbitrary: m) auto
  then show ?thesis using rows_in_order [OF assms(1), of body "\<lambda>x n. n + 1" 0] assms(2) by simp
qed

end

section \<open>Results of plain queries\<close>

type_synonym column = "byte list option"

text \<open>What \<^verbatim>\<open>mysql_store_result\<close> gives.\<close>

record mysql_res =
  res_rows :: "column list list"
  res_fields :: u32

record query_result =
  qr_result :: "mysql_res option"
  qr_num_rows :: u64
  qr_num_fields :: u32
  qr_row :: "column list option"
  qr_lengths :: "u64 list"

definition column_length :: "column \<Rightarrow> u64" where
  "column_length c = word_of_nat (length (case c of None \<Rightarrow> [] | Some bs \<Rightarrow> bs))"

definition qr_new :: "mysql_res \<Rightarrow> query_result" where
  "qr_new r = \<lparr>qr_result = Some r, qr_num_rows = word_of_nat (length (res_rows r)), qr_num_fields = res_fields r,
     qr_row = None, qr_lengths = []\<rparr>"

definition qr_NextRow :: "query_result \<Rightarrow> (bool \<times> query_result) option" where
  "qr_NextRow q = do {
     r \<leftarrow> qr_result q;
     (case res_rows r of
        [] \<Rightarrow> Some (False, q\<lparr>qr_row := None\<rparr>)
      | row # rest \<Rightarrow> Some (True, q\<lparr>qr_result := Some (r\<lparr>res_rows := rest\<rparr>), qr_row := Some row,
                                   qr_lengths := map column_length row\<rparr>))
   }"

text \<open>\<^verbatim>\<open>_row[idx]\<close> and \<^verbatim>\<open>_lengths[idx]\<close>.\<close>

definition qr_column :: "query_result \<Rightarrow> u32 \<Rightarrow> column option" where
  "qr_column q idx = do { row \<leftarrow> qr_row q; (if unat idx < length row then Some (row ! unat idx) else None) }"

definition qr_column_length :: "query_result \<Rightarrow> u32 \<Rightarrow> u64 option" where
  "qr_column_length q idx = (if unat idx < length (qr_lengths q) then Some (qr_lengths q ! unat idx) else None)"

definition qr_GetValue :: "query_result \<Rightarrow> u32 \<Rightarrow> column option" where
  "qr_GetValue q idx = (if qr_row q = None \<or> idx \<ge> qr_num_fields q then Some None else qr_column q idx)"

definition qr_GetLength :: "query_result \<Rightarrow> u32 \<Rightarrow> u64 option" where
  "qr_GetLength q idx = (if qr_row q = None \<or> idx \<ge> qr_num_fields q then Some 0 else qr_column_length q idx)"

text \<open>The other readers do not ask whether there is a row.\<close>

definition qr_GetInt32 :: "query_result \<Rightarrow> u32 \<Rightarrow> u32 option" where
  "qr_GetInt32 q idx =
     (if idx \<ge> qr_num_fields q then Some 0
      else do { c \<leftarrow> qr_column q idx; Some (case c of None \<Rightarrow> 0 | Some s \<Rightarrow> ucast (strtoul s)) })"

definition qr_GetInt64 :: "query_result \<Rightarrow> u32 \<Rightarrow> u64 option" where
  "qr_GetInt64 q idx =
     (if idx \<ge> qr_num_fields q then Some 0
      else do { c \<leftarrow> qr_column q idx; Some (case c of None \<Rightarrow> 0 | Some s \<Rightarrow> strtoul s) })"

text \<open>\<^verbatim>\<open>atof\<close> of the C library and the conversion to \<^verbatim>\<open>float\<close>, on the bits of the numbers, are arguments.\<close>

definition qr_GetDouble :: "(byte list \<Rightarrow> u64) \<Rightarrow> query_result \<Rightarrow> u32 \<Rightarrow> u64 option" where
  "qr_GetDouble atof q idx =
     (if idx \<ge> qr_num_fields q then Some 0
      else do { c \<leftarrow> qr_column q idx; Some (case c of None \<Rightarrow> 0 | Some s \<Rightarrow> atof s) })"

definition qr_GetFloat :: "(byte list \<Rightarrow> u64) \<Rightarrow> (u64 \<Rightarrow> u32) \<Rightarrow> query_result \<Rightarrow> u32 \<Rightarrow> u32 option" where
  "qr_GetFloat atof to_float q idx =
     (if idx \<ge> qr_num_fields q then Some 0
      else do { c \<leftarrow> qr_column q idx; Some (case c of None \<Rightarrow> 0 | Some s \<Rightarrow> to_float (atof s)) })"

definition qr_GetString :: "query_result \<Rightarrow> u32 \<Rightarrow> column option" where
  "qr_GetString q idx = (if idx \<ge> qr_num_fields q then Some None else qr_column q idx)"

text \<open>The inner \<open>None\<close> is the null pointer; otherwise the bytes of the caller's buffer afterwards.\<close>

definition qr_GetBinary :: "query_result \<Rightarrow> u32 \<Rightarrow> mem \<Rightarrow> u64 \<Rightarrow> mem option option" where
  "qr_GetBinary q idx data n =
     (if qr_row q = None then Some None
      else if idx \<ge> qr_num_fields q then Some None
      else do {
        len \<leftarrow> qr_column_length q idx;
        (if n < len then Some None
         else do {
           c \<leftarrow> qr_column q idx;
           data1 \<leftarrow> mem_write 0 (map Some (case c of None \<Rightarrow> [] | Some bs \<Rightarrow> bs)) data;
           Some (Some data1)
         })
      })"

section \<open>The handler of a connection\<close>

text \<open>A bound parameter: its buffer, its length, whether it is \<^verbatim>\<open>NULL\<close>; and the calls of the client library.\<close>

datatype mysql_bind = MYSQL_TYPE_STRING "mem option" u64 bool | MYSQL_TYPE_BLOB "mem option" u64 bool

datatype mysql_call =
    CInit | CClose | CReportTruncation bool | CSetCharset "byte list" | CRealConnect "byte list" "byte list" "byte list" "byte list" u16
  | CRealQuery "byte list" | CStoreResult | CFreeResult
  | CStmtInit | CStmtPrepare "byte list" | CStmtUpdateMaxLength | CStmtMetadata | CStmtBindResult | CStmtBindParam "mysql_bind list"
  | CStmtExecute | CStmtStoreResult | CStmtFetch | CStmtFreeResult | CStmtClose

record mysql_handler =
  mh_mysql :: bool
  mh_alive :: bool
  mh_calls :: "mysql_call list"

definition mysql_calls :: "mysql_call list \<Rightarrow> mysql_handler \<Rightarrow> mysql_handler" where
  "mysql_calls cs h = h\<lparr>mh_calls := mh_calls h @ cs\<rparr>"

definition handler_new :: mysql_handler where
  "handler_new = \<lparr>mh_mysql = False, mh_alive = False, mh_calls = []\<rparr>"

definition handler_Init :: "mysql_handler \<Rightarrow> mysql_handler" where
  "handler_Init h = (mysql_calls [CInit] h)\<lparr>mh_mysql := True\<rparr>"

definition handler_Release :: "mysql_handler \<Rightarrow> mysql_handler" where
  "handler_Release h = (if mh_mysql h then (mysql_calls [CClose] h)\<lparr>mh_mysql := False\<rparr> else h)"

definition handler_destroy :: "mysql_handler \<Rightarrow> mysql_handler" where
  "handler_destroy h = handler_Release h"

text \<open>The error numbers that mean that the connection is lost.\<close>

definition handler_OnError :: "u32 \<Rightarrow> mysql_handler \<Rightarrow> mysql_handler" where
  "handler_OnError err_no h = (if err_no = 2006 \<or> err_no = 2013 \<or> err_no = 2055 then h\<lparr>mh_alive := False\<rparr> else h)"

definition MysqlErrorReport :: "u32 \<Rightarrow> mysql_handler \<Rightarrow> mysql_handler" where
  "MysqlErrorReport err_no h = handler_OnError err_no h"

text \<open>Where to connect to; and what MySQL answers: whether it took the character set, connected, and the error number.\<close>

record db_login =
  dl_host :: "byte list"
  dl_user :: "byte list"
  dl_passwd :: "byte list"
  dl_db :: "byte list"
  dl_port :: u16
  dl_charset :: "byte list option"

record db_connect_io =
  cn_charset :: bool
  cn_connected :: bool
  cn_errno :: u32

definition handler_Connect :: "db_connect_io \<Rightarrow> db_login \<Rightarrow> mysql_handler \<Rightarrow> (bool \<times> mysql_handler) option" where
  "handler_Connect io a h =
     (if \<not> mh_mysql h then None
      else let h1 = mysql_calls [CReportTruncation False] h;
               h2 = (case dl_charset a of None \<Rightarrow> h1 | Some cs \<Rightarrow> mysql_calls [CSetCharset cs] h1)
           in if dl_charset a \<noteq> None \<and> \<not> cn_charset io then Some (False, MysqlErrorReport (cn_errno io) h2)
              else let h3 = mysql_calls [CRealConnect (dl_host a) (dl_user a) (dl_passwd a) (dl_db a) (dl_port a)] h2
                   in if \<not> cn_connected io then Some (False, MysqlErrorReport (cn_errno io) h3)
                      else Some (True, h3\<lparr>mh_alive := True\<rparr>))"

text \<open>What MySQL answers to a query: whether it ran, its result set, the number of columns it has, the error number.\<close>

record query_io =
  qi_ok :: bool
  qi_result :: "mysql_res option"
  qi_field_count :: u32
  qi_errno :: u32

definition handler_ExecuteSql :: "query_io \<Rightarrow> byte list \<Rightarrow> mysql_handler \<Rightarrow> (query_result option \<times> mysql_handler) option" where
  "handler_ExecuteSql io sql h =
     (if \<not> mh_mysql h then None
      else let h1 = mysql_calls [CRealQuery sql] h
           in if \<not> qi_ok io then Some (None, MysqlErrorReport (qi_errno io) h1)
              else let h2 = mysql_calls [CStoreResult] h1
                   in case qi_result io of
                        Some r \<Rightarrow> Some (Some (qr_new r), h2)
                      | None \<Rightarrow> if qi_field_count io = 0 then Some (None, h2)
                                else Some (None, MysqlErrorReport (qi_errno io) h2))"

definition qr_destroy :: "query_result \<Rightarrow> mysql_handler \<Rightarrow> mysql_handler" where
  "qr_destroy q h = (if qr_result q \<noteq> None then mysql_calls [CFreeResult] h else h)"

section \<open>Properties\<close>

text \<open>A result with its rows as MySQL makes them: every row has all the columns, and their lengths are of 64 bits.\<close>

definition column_bytes :: "column \<Rightarrow> byte list" where
  "column_bytes c = (case c of None \<Rightarrow> [] | Some bs \<Rightarrow> bs)"

definition row_ok :: "nat \<Rightarrow> column list \<Rightarrow> bool" where
  "row_ok n row \<longleftrightarrow> length row = n \<and> list_all (\<lambda>c. length (column_bytes c) < 2 ^ 64) row"

definition qr_ok :: "query_result \<Rightarrow> bool" where
  "qr_ok q \<longleftrightarrow> (\<exists>r. qr_result q = Some r \<and> list_all (row_ok (unat (qr_num_fields q))) (res_rows r))
     \<and> (\<forall>row. qr_row q = Some row \<longrightarrow> row_ok (unat (qr_num_fields q)) row \<and> qr_lengths q = map column_length row)"

definition qr_todo :: "query_result \<Rightarrow> column list list" where
  "qr_todo q = (case qr_result q of None \<Rightarrow> [] | Some r \<Rightarrow> res_rows r)"

interpretation plain: row_cursor qr_NextRow qr_ok qr_todo qr_row
proof unfold_locales
  fix q x xs
  assume "qr_ok q" and "qr_todo q = x # xs"
  then show "\<exists>q'. qr_NextRow q = Some (True, q') \<and> qr_ok q' \<and> qr_row q' = Some x \<and> qr_todo q' = xs"
    by (auto simp: qr_ok_def qr_todo_def qr_NextRow_def)
next
  fix q
  assume "qr_ok q" and "qr_todo q = []"
  then show "\<exists>q'. qr_NextRow q = Some (False, q')"
    by (auto simp: qr_ok_def qr_todo_def qr_NextRow_def)
qed

lemma qr_ok_new: "list_all (row_ok (unat (res_fields r))) (res_rows r) \<Longrightarrow> qr_ok (qr_new r)"
  by (simp add: qr_ok_def qr_new_def)

lemma qr_todo_new [simp]: "qr_todo (qr_new r) = res_rows r"
  by (simp add: qr_todo_def qr_new_def)

lemma qr_column_ok:
  assumes "qr_ok q" and "qr_row q = Some row" and "idx < qr_num_fields q"
  shows "qr_column q idx = Some (row ! unat idx)" "qr_column_length q idx = Some (column_length (row ! unat idx))"
    "unat (column_length (row ! unat idx)) = length (column_bytes (row ! unat idx))"
proof -
  have r: "row_ok (unat (qr_num_fields q)) row" "unat idx < length row"
    using assms by (auto simp: qr_ok_def row_ok_def word_less_nat_alt)
  then have "length (column_bytes (row ! unat idx)) < 2 ^ 64" by (auto simp: row_ok_def list_all_length)
  then show "unat (column_length (row ! unat idx)) = length (column_bytes (row ! unat idx))"
    by (simp add: column_length_def column_bytes_def unat_of_nat)
  show "qr_column q idx = Some (row ! unat idx)" "qr_column_length q idx = Some (column_length (row ! unat idx))"
    using assms r by (auto simp: qr_ok_def qr_column_def qr_column_length_def)
qed

lemma ucast_word_of_int: "(ucast (word_of_int i :: u64) :: u32) = word_of_int i"
  by (rule bit_word_eqI) (simp add: bit_simps)

text \<open>
  C31. An integer column is read back exactly: the text of every integer of at most 64 bits gives its
  two's complement in the width that is asked for.
\<close>

theorem integer_columns:
  assumes "qr_ok q" and "qr_row q = Some row" and "idx < qr_num_fields q"
    and "row ! unat idx = Some (int_text i)" and "\<bar>i\<bar> < 2 ^ 64"
  shows "qr_GetInt64 q idx = Some (word_of_int i) \<and> qr_GetInt32 q idx = Some (word_of_int i)"
  using qr_column_ok(1) [OF assms(1-3)] assms(3,4) strtoul_int_text [OF assms(5)] ucast_word_of_int
  by (auto simp: qr_GetInt64_def qr_GetInt32_def)

definition one_row :: query_result where
  "one_row = \<lparr>qr_result = Some \<lparr>res_rows = [], res_fields = 2\<rparr>, qr_num_rows = 1, qr_num_fields = 2,
     qr_row = Some [Some (int_text (- 42)), None], qr_lengths = [3, 0]\<rparr>"

lemma int_text_minus_42: "int_text (- 42) = [45, 52, 50]"
  by (simp add: int_text_def nat_text.simps)

lemma one_row_ok: "qr_ok one_row"
  by (simp add: qr_ok_def row_ok_def column_bytes_def one_row_def int_text_minus_42 column_length_def)

theorem integer_columns_witness:
  "map_option sint (qr_GetInt32 one_row 0) = Some (- 42)"
proof -
  have "qr_row one_row = Some [Some (int_text (- 42)), None]" "0 < qr_num_fields one_row" by (simp_all add: one_row_def)
  from integer_columns [OF one_row_ok this, of "- 42"] show ?thesis by simp
qed

lemma binary_column_written:
  assumes "qr_ok q" and "unat n \<le> length data" 
  shows "qr_GetBinary q idx data n =
    (case qr_row q of
       None \<Rightarrow> Some None
     | Some row \<Rightarrow>
         if idx \<ge> qr_num_fields q then Some None
         else let bs = column_bytes (row ! unat idx)
              in if unat n < length bs then Some None else Some (Some (map Some bs @ drop (length bs) data)))"
proof (cases "qr_row q")
  case None
  then show ?thesis by (simp add: qr_GetBinary_def)
next
  case (Some row)
  then show ?thesis
    using qr_column_ok [OF assms(1) Some, of idx] assms(2)
    by (auto simp: qr_GetBinary_def Let_def mem_write_def not_le not_less word_less_nat_alt word_le_nat_alt simp flip: column_bytes_def)
qed

text \<open>
  A column is copied whole when the caller's buffer is as long as he says; when it is too short for the column,
  outside the row, or there is no row, the buffer stays as it is and a null pointer is returned.
\<close>

theorem binary_columns:
  assumes "qr_ok q" and "unat n \<le> length data" 
  shows "qr_GetBinary q idx data n =
    (case qr_row q of
       None \<Rightarrow> Some None
     | Some row \<Rightarrow>
         if idx \<ge> qr_num_fields q then Some None
         else let bs = column_bytes (row ! unat idx)
              in if unat n < length bs then Some None else Some (Some (map Some bs @ drop (length bs) data)))"
  by (rule binary_column_written [OF assms])

theorem binary_columns_witness:
  "qr_GetBinary one_row 0 [None, None, None, None] 4 = Some (Some [Some 45, Some 52, Some 50, None])"
proof -
  have "unat (4 :: u64) \<le> length [None, None, None, None :: cell]" by simp
  from binary_columns [OF one_row_ok this, of 0] show ?thesis
    by (simp add: one_row_def int_text_minus_42 column_bytes_def)
qed

text \<open>Reading a number before the first row, or after the last one, follows a null pointer.\<close>

theorem number_without_row:
  assumes "qr_row q = None" and "idx < qr_num_fields q"
  shows "qr_GetInt32 q idx = None \<and> qr_GetInt64 q idx = None \<and> qr_GetString q idx = None \<and> qr_GetValue q idx = Some None"
  using assms by (simp add: qr_GetInt32_def qr_GetInt64_def qr_GetString_def qr_GetValue_def qr_column_def not_le)

theorem number_without_row_witness:
  "qr_GetInt32 (qr_new \<lparr>res_rows = [], res_fields = 1\<rparr>) 0 = None"
  by (rule number_without_row [of "qr_new \<lparr>res_rows = [], res_fields = 1\<rparr>" 0, THEN conjunct1]) (simp_all add: qr_new_def)

end
