(* ===== verification/MysqlStmt.thy ===== *)
theory MysqlStmt
  imports MysqlQuery
begin

text \<open>
  Prepared statements (the classes \<open>MysqlHanderStmt\<close> and \<open>MysqlQueryResultStmt\<close> of \<^verbatim>\<open>libcore/src/MysqlService.cpp\<close>).

  MySQL writes the columns of a row into buffers that were bound to the statement; a reply of \<^verbatim>\<open>mysql_stmt_fetch\<close> is
  its return code and, for each column, the bytes that it writes to the buffer, the length of the whole value and whether it
  is \<^verbatim>\<open>NULL\<close>.  Pointers that a constructor leaves unset are options whose outer \<open>None\<close> is the unset one; to use
  it is undefined, as is a null statement, or a read outside a buffer or of bytes that were never written there.
\<close>

section \<open>Results of prepared statements\<close>

text \<open>What is known about a column before the statement ran; and a bound column with its \<open>result_bind_data\<close>.\<close>

record stmt_field =
  sf_type :: nat
  sf_max_length :: u64

record stmt_bind =
  sb_type :: nat
  sb_buffer :: mem
  sb_length :: u64
  sb_is_null :: bool
  sb_error :: bool

record stmt_result =
  sr_num_rows :: "u64 option"
  sr_num_fields :: u32
  sr_binds :: "stmt_bind list option"

text \<open>\<^verbatim>\<open>sizeof(MYSQL_TIME)\<close> of the build for x86-64.\<close>

definition SIZEOF_MYSQL_TIME :: u64 where "SIZEOF_MYSQL_TIME = 40"

definition stmt_bind_new :: "stmt_field \<Rightarrow> stmt_bind" where
  "stmt_bind_new f =
     (let max_length = (if sf_max_length f = 0 then SIZEOF_MYSQL_TIME else sf_max_length f)
      in \<lparr>sb_type = sf_type f, sb_buffer = mem_alloc (unat max_length), sb_length = 0, sb_is_null = False, sb_error = False\<rparr>)"

definition MysqlErrorReportStmt :: "u32 \<Rightarrow> mysql_handler \<Rightarrow> mysql_handler" where
  "MysqlErrorReportStmt err_no h = handler_OnError err_no h"

text \<open>The answer of \<^verbatim>\<open>mysql_stmt_bind_result\<close> (whether it failed) and the error number are arguments.\<close>

definition stmt_result_new :: "bool \<Rightarrow> u32 \<Rightarrow> stmt_field list \<Rightarrow> mysql_handler \<Rightarrow> stmt_result \<times> mysql_handler" where
  "stmt_result_new failed err_no fs h =
     (if fs \<noteq> []
      then let h1 = mysql_calls [CStmtBindResult] h;
               h2 = (if failed then MysqlErrorReportStmt err_no h1 else h1)
           in (\<lparr>sr_num_rows = None, sr_num_fields = word_of_nat (length fs), sr_binds = Some (map stmt_bind_new fs)\<rparr>, h2)
      else (\<lparr>sr_num_rows = None, sr_num_fields = 0, sr_binds = None\<rparr>, h))"

text \<open>The destructor deletes the arrays also when they were never made.\<close>

definition stmt_result_destroy :: "stmt_result \<Rightarrow> mysql_handler \<Rightarrow> mysql_handler option" where
  "stmt_result_destroy r h = (if sr_binds r = None then None else Some (mysql_calls [CStmtFreeResult] h))"

definition stmt_result_stored :: "u64 \<Rightarrow> stmt_result \<Rightarrow> stmt_result" where
  "stmt_result_stored rows r = r\<lparr>sr_num_rows := Some rows\<rparr>"

record fetch_column =
  fc_bytes :: "byte list"
  fc_length :: u64
  fc_null :: bool

record fetch_reply =
  fr_ret :: int
  fr_columns :: "fetch_column list"
  fr_errno :: u32

definition MYSQL_NO_DATA :: int where "MYSQL_NO_DATA = 100"
definition MYSQL_DATA_TRUNCATED :: int where "MYSQL_DATA_TRUNCATED = 101"

text \<open>What MySQL does to the bound columns when it has a row; it replies for all of them.\<close>

definition store_column :: "fetch_column \<Rightarrow> stmt_bind \<Rightarrow> stmt_bind option" where
  "store_column c b = do {
     buf \<leftarrow> mem_write 0 (map Some (fc_bytes c)) (sb_buffer b);
     Some (b\<lparr>sb_buffer := buf, sb_length := fc_length c, sb_is_null := fc_null c\<rparr>)
   }"

definition store_row :: "fetch_reply \<Rightarrow> stmt_result \<Rightarrow> stmt_result option" where
  "store_row f r =
     (if fr_ret f \<noteq> 0 \<and> fr_ret f \<noteq> MYSQL_DATA_TRUNCATED then Some r
      else case sr_binds r of
             None \<Rightarrow> Some r
           | Some bs \<Rightarrow>
               if length (fr_columns f) = length bs
               then do { bs1 \<leftarrow> those (map2 store_column (fr_columns f) bs); Some (r\<lparr>sr_binds := Some bs1\<rparr>) }
               else None)"

definition stmt_NextRow :: "fetch_reply \<Rightarrow> stmt_result \<Rightarrow> mysql_handler \<Rightarrow> (bool \<times> stmt_result \<times> mysql_handler) option" where
  "stmt_NextRow f r h = do {
     r1 \<leftarrow> store_row f r;
     let h1 = mysql_calls [CStmtFetch] h;
     Some (if fr_ret f = 0 then (True, r1, h1)
           else if fr_ret f = 1 then (False, r1, MysqlErrorReportStmt (fr_errno f) h1)
           else if fr_ret f = MYSQL_NO_DATA then (False, r1, h1)
           else if fr_ret f = MYSQL_DATA_TRUNCATED then (False, r1, h1)
           else (False, r1, h1))
   }"

definition stmt_bound :: "stmt_result \<Rightarrow> u32 \<Rightarrow> stmt_bind option" where
  "stmt_bound r idx = do { bs \<leftarrow> sr_binds r; (if unat idx < length bs then Some (bs ! unat idx) else None) }"

text \<open>The inner \<open>None\<close> of the readers of strings and binaries is the null pointer.\<close>

definition stmt_GetValue :: "stmt_result \<Rightarrow> u32 \<Rightarrow> mem option option" where
  "stmt_GetValue r idx = (if idx \<ge> sr_num_fields r then Some None else map_option (Some \<circ> sb_buffer) (stmt_bound r idx))"

definition stmt_GetLength :: "stmt_result \<Rightarrow> u32 \<Rightarrow> u64 option" where
  "stmt_GetLength r idx = (if idx \<ge> sr_num_fields r then Some 0 else map_option sb_length (stmt_bound r idx))"

text \<open>A number of type \<open>'a\<close> at the start of the buffer; null columns and those outside the row are zero.\<close>

definition read_number :: "mem \<Rightarrow> 'a::len word option" where
  "read_number m = do { cs \<leftarrow> mem_read 0 (LENGTH('a) div 8) m; bs \<leftarrow> those cs; Some (bytes_word bs) }"

definition stmt_number :: "stmt_result \<Rightarrow> u32 \<Rightarrow> 'a::len word option" where
  "stmt_number r idx =
     (if idx \<ge> sr_num_fields r then Some 0
      else do { b \<leftarrow> stmt_bound r idx; (if sb_is_null b then Some 0 else read_number (sb_buffer b)) })"

definition stmt_GetInt32 :: "stmt_result \<Rightarrow> u32 \<Rightarrow> u32 option" where "stmt_GetInt32 r idx = stmt_number r idx"
definition stmt_GetInt64 :: "stmt_result \<Rightarrow> u32 \<Rightarrow> u64 option" where "stmt_GetInt64 r idx = stmt_number r idx"

text \<open>Floating point numbers are their bits.\<close>

definition stmt_GetFloat :: "stmt_result \<Rightarrow> u32 \<Rightarrow> u32 option" where "stmt_GetFloat r idx = stmt_number r idx"
definition stmt_GetDouble :: "stmt_result \<Rightarrow> u32 \<Rightarrow> u64 option" where "stmt_GetDouble r idx = stmt_number r idx"

definition stmt_GetString :: "stmt_result \<Rightarrow> u32 \<Rightarrow> mem option option" where
  "stmt_GetString r idx =
     (if idx \<ge> sr_num_fields r then Some None
      else do { b \<leftarrow> stmt_bound r idx; Some (if sb_is_null b then None else Some (sb_buffer b)) })"

definition stmt_GetBinary :: "stmt_result \<Rightarrow> u32 \<Rightarrow> mem \<Rightarrow> u64 \<Rightarrow> mem option option" where
  "stmt_GetBinary r idx data n =
     (if idx \<ge> sr_num_fields r then Some None
      else do {
        b \<leftarrow> stmt_bound r idx;
        (if sb_is_null b then Some None
         else if sb_length b > n then Some None
         else do {
           d \<leftarrow> mem_read 0 (unat (sb_length b)) (sb_buffer b);
           data1 \<leftarrow> mem_write 0 d data;
           Some (Some data1)
         })
      })"

section \<open>Statements\<close>

text \<open>\<open>sh_arrays\<close> counts the arrays of bound parameters that were allocated and not deleted.\<close>

record stmt_handler =
  sh_stmt :: bool
  sh_meta :: bool
  sh_field_count :: u32
  sh_param_count :: u64
  sh_query :: "stmt_result option option"
  sh_arrays :: nat

definition stmt_new :: stmt_handler where
  "stmt_new = \<lparr>sh_stmt = False, sh_meta = False, sh_field_count = 0, sh_param_count = 0, sh_query = None, sh_arrays = 0\<rparr>"

definition stmt_release :: "stmt_handler \<Rightarrow> mysql_handler \<Rightarrow> (stmt_handler \<times> mysql_handler) option" where
  "stmt_release s h = do {
     query \<leftarrow> sh_query s;
     h1 \<leftarrow> (case query of None \<Rightarrow> Some h | Some r \<Rightarrow> stmt_result_destroy r h);
     let h2 = (if sh_meta s then mysql_calls [CFreeResult] h1 else h1);
     let h3 = (if sh_stmt s then mysql_calls [CStmtClose] h2 else h2);
     Some (s\<lparr>sh_query := Some None, sh_meta := False, sh_stmt := False\<rparr>, h3)
   }"

definition stmt_destroy :: "stmt_handler \<Rightarrow> mysql_handler \<Rightarrow> mysql_handler option" where
  "stmt_destroy s h = map_option snd (stmt_release s h)"

text \<open>What MySQL answers while a statement is prepared.\<close>

record prepare_io =
  pi_stmt :: bool
  pi_prepared :: bool
  pi_field_count :: u32
  pi_param_count :: u64
  pi_meta :: "stmt_field list option"
  pi_bind_failed :: bool
  pi_errno :: u32

definition stmt_init :: "prepare_io \<Rightarrow> byte list \<Rightarrow> stmt_handler \<Rightarrow> mysql_handler \<Rightarrow> (bool \<times> stmt_handler \<times> mysql_handler) option" where
  "stmt_init io sql s h =
     (let h1 = mysql_calls [CStmtInit] h; s1 = s\<lparr>sh_stmt := pi_stmt io\<rparr>
      in if \<not> pi_stmt io then None
         else let h2 = mysql_calls [CStmtPrepare sql] h1
              in if \<not> pi_prepared io then Some (False, s1, MysqlErrorReportStmt (pi_errno io) h2)
                 else let s2 = s1\<lparr>sh_field_count := pi_field_count io, sh_param_count := pi_param_count io,
                                  sh_meta := pi_meta io \<noteq> None\<rparr>;
                          h3 = mysql_calls [CStmtUpdateMaxLength, CStmtMetadata] h2
                      in case pi_meta io of
                           None \<Rightarrow> Some (True, s2, h3)
                         | Some fs \<Rightarrow>
                             let (r, h4) = stmt_result_new (pi_bind_failed io) (pi_errno io) fs h3
                             in Some (True, s2\<lparr>sh_query := Some (Some r)\<rparr>, h4))"

text \<open>The inner \<open>None\<close> is the null pointer: there is no connection.\<close>

definition CreateStmtHander :: "prepare_io \<Rightarrow> byte list \<Rightarrow> mysql_handler \<Rightarrow> (stmt_handler option \<times> mysql_handler) option" where
  "CreateStmtHander io sql h =
     (if \<not> mh_mysql h then Some (None, h)
      else do { (ok, s, h1) \<leftarrow> stmt_init io sql stmt_new h; Some (Some s, h1) })"

text \<open>Parameters; the type is an \<^verbatim>\<open>int\<close>, of which two values are meant.\<close>

definition MBT_String :: int where "MBT_String = 0"
definition MBT_Binary :: int where "MBT_Binary = 1"

record bind_param =
  bp_is_null :: bool
  bp_type :: int
  bp_buffer :: "mem option"
  bp_length :: u64

text \<open>
  The array for the first \<open>n\<close> parameters, of which there must be as many; an element that stays unset is \<open>None\<close>.
  The flag \<^verbatim>\<open>is_null\<close> of the caller's parameter, which is set on the way, is part of the element.
\<close>

definition bind_one :: "bind_param \<Rightarrow> mysql_bind option" where
  "bind_one p =
     (let is_null = (bp_buffer p = None)
      in if bp_type p = MBT_String then Some (MYSQL_TYPE_STRING (bp_buffer p) (bp_length p) is_null)
         else if bp_type p = MBT_Binary then Some (MYSQL_TYPE_BLOB (bp_buffer p) (bp_length p) is_null)
         else None)"

definition bind_params :: "nat \<Rightarrow> bind_param list option \<Rightarrow> mysql_bind option list option" where
  "bind_params n params = do { ps \<leftarrow> params; (if n \<le> length ps then Some (map bind_one (take n ps)) else None) }"

text \<open>What MySQL answers to the execution of a statement.\<close>

record execute_io =
  xi_bound :: bool
  xi_executed :: bool
  xi_stored :: bool
  xi_rows :: u64
  xi_errno :: u32

text \<open>
  From \<^verbatim>\<open>mysql_stmt_execute\<close> on; \<open>bound\<close> is whether there is an array of parameters.  The result is whether
  \<^verbatim>\<open>_query_result\<close> is returned.
\<close>

definition stmt_run :: "execute_io \<Rightarrow> bool \<Rightarrow> stmt_handler \<Rightarrow> mysql_handler \<Rightarrow> (bool \<times> stmt_handler \<times> mysql_handler) option" where
  "stmt_run io bound s h =
     (let h1 = mysql_calls [CStmtExecute] h
      in if \<not> xi_executed io then Some (False, s, MysqlErrorReportStmt (xi_errno io) h1)
         else if sh_meta s
         then let h2 = mysql_calls [CStmtStoreResult] h1
              in if \<not> xi_stored io
                 then Some (False, s, mysql_calls [CStmtFreeResult] (MysqlErrorReportStmt (xi_errno io) h2))
                 else do {
                   query \<leftarrow> sh_query s;
                   r \<leftarrow> query;
                   Some (True, s\<lparr>sh_query := Some (Some (stmt_result_stored (xi_rows io) r))\<rparr>, h2)
                 }
         else Some (False, if bound then s\<lparr>sh_arrays := sh_arrays s - 1\<rparr> else s, h1))"

text \<open>To hand MySQL an array with unset elements, or to use a null statement, is undefined.\<close>

definition stmt_Execute :: "execute_io \<Rightarrow> bind_param list option \<Rightarrow> stmt_handler \<Rightarrow> mysql_handler \<Rightarrow>
    (bool \<times> stmt_handler \<times> mysql_handler) option" where
  "stmt_Execute io params s h =
     (if \<not> sh_stmt s then None
      else if sh_param_count s \<noteq> 0
      then do {
        bs \<leftarrow> bind_params (unat (sh_param_count s)) params;
        cs \<leftarrow> those bs;
        let s1 = s\<lparr>sh_arrays := sh_arrays s + 1\<rparr>;
        let h1 = mysql_calls [CStmtBindParam cs] h;
        (if \<not> xi_bound io then Some (False, s1, MysqlErrorReportStmt (xi_errno io) h1)
         else stmt_run io True s1 h1)
      }
      else stmt_run io False s h)"

section \<open>Rows\<close>

text \<open>
  What MySQL documents of \<^verbatim>\<open>mysql_stmt_fetch\<close>: of a value that is not null it writes as much as the buffer holds, and
  the length is the one of the whole value.
\<close>

definition fits :: "fetch_column \<Rightarrow> stmt_bind \<Rightarrow> bool" where
  "fits c b \<longleftrightarrow> (if fc_null c then length (fc_bytes c) \<le> length (sb_buffer b)
                 else length (fc_bytes c) = min (unat (fc_length c)) (length (sb_buffer b)))"

definition reply_ok :: "stmt_result \<Rightarrow> fetch_reply \<Rightarrow> bool" where
  "reply_ok r f \<longleftrightarrow> (\<exists>bs. sr_binds r = Some bs \<and> list_all2 fits (fr_columns f) bs)"

text \<open>The value of a column: its whole length and what there is of it.\<close>

definition bound_value :: "stmt_bind \<Rightarrow> (u64 \<times> mem) option" where
  "bound_value b = (if sb_is_null b then None else Some (sb_length b, take (unat (sb_length b)) (sb_buffer b)))"

definition reply_value :: "fetch_column \<Rightarrow> (u64 \<times> mem) option" where
  "reply_value c = (if fc_null c then None else Some (fc_length c, map Some (fc_bytes c)))"

definition stored :: "fetch_column \<Rightarrow> stmt_bind \<Rightarrow> stmt_bind" where
  "stored c b = b\<lparr>sb_buffer := map Some (fc_bytes c) @ drop (length (fc_bytes c)) (sb_buffer b),
     sb_length := fc_length c, sb_is_null := fc_null c\<rparr>"

lemma store_column_eq: "fits c b \<Longrightarrow> store_column c b = Some (stored c b)"
  by (auto simp: fits_def store_column_def stored_def mem_write_def split: if_splits)

lemma bound_value_stored: "fits c b \<Longrightarrow> bound_value (stored c b) = reply_value c"
  by (auto simp: fits_def bound_value_def reply_value_def stored_def min_def split: if_splits)

lemma fits_stored: "fits c b \<Longrightarrow> fits d (stored c b) \<longleftrightarrow> fits d b"
  by (auto simp: fits_def stored_def min_def split: if_splits)

lemma store_columns:
  "list_all2 fits cs bs \<Longrightarrow> those (map2 store_column cs bs) = Some (map2 stored cs bs)"
  by (induction rule: list_all2_induct) (auto simp: store_column_eq)

lemma values_stored: "list_all2 fits cs bs \<Longrightarrow> map bound_value (map2 stored cs bs) = map reply_value cs"
  by (induction rule: list_all2_induct) (auto simp: bound_value_stored)

lemma list_fits_stored:
  "list_all2 fits cs bs \<Longrightarrow> list_all2 fits ds (map2 stored cs bs) \<longleftrightarrow> list_all2 fits ds bs"
proof (induction arbitrary: ds rule: list_all2_induct)
  case Nil
  then show ?case by simp
next
  case (Cons c cs b bs)
  then show ?case by (cases ds) (auto simp: fits_stored)
qed

lemma store_row_eq:
  assumes "reply_ok r f" and "fr_ret f = 0 \<or> fr_ret f = MYSQL_DATA_TRUNCATED"
  shows "store_row f r = Some (r\<lparr>sr_binds := map_option (map2 stored (fr_columns f)) (sr_binds r)\<rparr>)"
proof -
  obtain bs where "sr_binds r = Some bs" "list_all2 fits (fr_columns f) bs" using assms(1) by (auto simp: reply_ok_def)
  then show ?thesis using assms(2) by (auto simp: store_row_def store_columns list_all2_lengthD)
qed

lemma reply_ok_store:
  assumes "reply_ok r f" and "reply_ok r g"
  shows "reply_ok (r\<lparr>sr_binds := map_option (map2 stored (fr_columns f)) (sr_binds r)\<rparr>) g"
  using assms by (auto simp: reply_ok_def list_fits_stored)

text \<open>The result as a cursor: the replies to come, with the result and the handler.\<close>

type_synonym stmt_cursor = "fetch_reply list \<times> stmt_result \<times> mysql_handler"

fun stmt_advance :: "stmt_cursor \<Rightarrow> (bool \<times> stmt_cursor) option" where
  "stmt_advance ([], r, h) = None"
| "stmt_advance (f # fs, r, h) = do { (rows, r1, h1) \<leftarrow> stmt_NextRow f r h; Some (rows, fs, r1, h1) }"

definition cursor_ok :: "stmt_cursor \<Rightarrow> bool" where
  "cursor_ok = (\<lambda>(fs, r, h). (\<forall>f\<in>set fs. reply_ok r f) \<and> (\<exists>f\<in>set fs. fr_ret f \<noteq> 0))"

definition cursor_todo :: "stmt_cursor \<Rightarrow> (u64 \<times> mem) option list list" where
  "cursor_todo = (\<lambda>(fs, r, h). map (\<lambda>f. map reply_value (fr_columns f)) (takeWhile (\<lambda>f. fr_ret f = 0) fs))"

definition cursor_row :: "stmt_cursor \<Rightarrow> (u64 \<times> mem) option list option" where
  "cursor_row = (\<lambda>(fs, r, h). map_option (map bound_value) (sr_binds r))"

interpretation prepared: row_cursor stmt_advance cursor_ok cursor_todo cursor_row
proof unfold_locales
  fix c :: stmt_cursor and x xs
  assume ok: "cursor_ok c" and todo: "cursor_todo c = x # xs"
  obtain fs r h where c: "c = (fs, r, h)" by (cases c)
  obtain f gs where fs: "fs = f # gs" "fr_ret f = 0" "x = map reply_value (fr_columns f)"
    "xs = map (\<lambda>f. map reply_value (fr_columns f)) (takeWhile (\<lambda>f. fr_ret f = 0) gs)"
    using todo c by (cases fs) (auto simp: cursor_todo_def split: if_splits)
  have f: "reply_ok r f" and gs: "\<forall>g\<in>set gs. reply_ok r g" "\<exists>g\<in>set gs. fr_ret g \<noteq> 0"
    using ok c fs(1,2) by (auto simp: cursor_ok_def)
  obtain bs where bs: "sr_binds r = Some bs" "list_all2 fits (fr_columns f) bs" using f by (auto simp: reply_ok_def)
  let ?r = "r\<lparr>sr_binds := map_option (map2 stored (fr_columns f)) (sr_binds r)\<rparr>"
  have "stmt_advance c = Some (True, gs, ?r, mysql_calls [CStmtFetch] h)"
    using c fs store_row_eq [OF f] by (simp add: stmt_NextRow_def)
  moreover have "cursor_ok (gs, ?r, mysql_calls [CStmtFetch] h)"
    using gs reply_ok_store [OF f] by (auto simp: cursor_ok_def)
  moreover have "cursor_row (gs, ?r, mysql_calls [CStmtFetch] h) = Some x"
    using values_stored [OF bs(2)] bs(1) fs(3) by (simp add: cursor_row_def)
  moreover have "cursor_todo (gs, ?r, mysql_calls [CStmtFetch] h) = xs" using fs(4) by (simp add: cursor_todo_def)
  ultimately show "\<exists>c'. stmt_advance c = Some (True, c') \<and> cursor_ok c' \<and> cursor_row c' = Some x \<and> cursor_todo c' = xs"
    by blast
next
  fix c :: stmt_cursor
  assume ok: "cursor_ok c" and todo: "cursor_todo c = []"
  obtain fs r h where c: "c = (fs, r, h)" by (cases c)
  obtain f gs where fs: "fs = f # gs" "fr_ret f \<noteq> 0" using ok todo c
    by (cases fs) (auto simp: cursor_ok_def cursor_todo_def split: if_splits)
  have f: "reply_ok r f" using ok c fs by (simp add: cursor_ok_def)
  then obtain r1 where "store_row f r = Some r1" using store_row_eq [of r f] fs(2) by (fastforce simp: store_row_def)
  then show "\<exists>c'. stmt_advance c = Some (False, c')" using c fs by (auto simp: stmt_NextRow_def Let_def)
qed

section \<open>Properties\<close>

text \<open>A row that was fetched: its reply, and the result afterwards.\<close>

definition fetched :: "fetch_reply \<Rightarrow> stmt_result \<Rightarrow> stmt_result \<Rightarrow> bool" where
  "fetched f r r1 \<longleftrightarrow> reply_ok r f \<and> sr_num_fields r = word_of_nat (length (fr_columns f)) \<and>
     (\<exists>h h1. stmt_NextRow f r h = Some (True, r1, h1))"

lemma fetched_bound:
  assumes "fetched f r r1" and "idx < sr_num_fields r"
  obtains bs where "sr_binds r = Some bs" and "unat idx < length bs" and "fits (fr_columns f ! unat idx) (bs ! unat idx)"
    and "stmt_bound r1 idx = Some (stored (fr_columns f ! unat idx) (bs ! unat idx))"
    and "sr_num_fields r1 = sr_num_fields r"
proof -
  have ok: "reply_ok r f" and n: "sr_num_fields r = word_of_nat (length (fr_columns f))"
    using assms(1) by (simp_all add: fetched_def)
  have z: "fr_ret f = 0" and r1: "store_row f r = Some r1"
    using assms(1) by (auto simp: fetched_def stmt_NextRow_def Let_def bind_eq_Some_conv split: if_splits)
  obtain bs where bs: "sr_binds r = Some bs" "list_all2 fits (fr_columns f) bs" using ok by (auto simp: reply_ok_def)
  have r1: "r1 = r\<lparr>sr_binds := Some (map2 stored (fr_columns f) bs)\<rparr>"
    using store_row_eq [OF ok] r1 z bs(1) by simp
  have "unat (word_of_nat (length (fr_columns f)) :: u32) \<le> length (fr_columns f)"
    by (subst unat_of_nat) (rule mod_less_eq_dividend)
  then have "unat idx < length (fr_columns f)" using assms(2) by (simp add: n word_less_nat_alt)
  then show ?thesis
    using that [OF bs(1)] bs r1 by (auto simp: stmt_bound_def list_all2_conv_all_nth)
qed

lemma read_number_prefix:
  fixes w :: "'a::len word"
  assumes "LENGTH('a) = 8 * (LENGTH('a) div 8)"
  shows "read_number (map Some (word_bytes w) @ m) = Some w"
  using bytes_word_word_bytes [OF assms, of w] by (simp add: read_number_def mem_read_def comp_def)

text \<open>
  A number that MySQL wrote in the width that is asked for is read back, in all four types; a null column is zero.
\<close>

theorem number_columns:
  assumes "fetched f r r1" and "idx < sr_num_fields r"
  shows "(case fr_columns f ! unat idx of c \<Rightarrow>
      (\<forall>w. \<not> fc_null c \<and> fc_bytes c = word_bytes w \<longrightarrow> stmt_GetInt32 r1 idx = Some w \<and> stmt_GetFloat r1 idx = Some w) \<and>
      (\<forall>w. \<not> fc_null c \<and> fc_bytes c = word_bytes w \<longrightarrow> stmt_GetInt64 r1 idx = Some w \<and> stmt_GetDouble r1 idx = Some w) \<and>
      (fc_null c \<longrightarrow> stmt_GetInt32 r1 idx = Some 0 \<and> stmt_GetInt64 r1 idx = Some 0 \<and> stmt_GetString r1 idx = Some None))"
proof -
  note fb = fetched_bound [OF assms]
  obtain b where b: "stmt_bound r1 idx = Some (stored (fr_columns f ! unat idx) b)"
    and n: "sr_num_fields r1 = sr_num_fields r" by (rule fb) blast
  have l: "\<not> sr_num_fields r1 \<le> idx" using assms(2) n by simp
  show ?thesis
    using b l read_number_prefix [where 'a = 32] read_number_prefix [where 'a = 64]
    by (simp add: stmt_GetInt32_def stmt_GetFloat_def stmt_GetInt64_def stmt_GetDouble_def stmt_GetString_def
        stmt_number_def stored_def)
qed

definition one_column :: stmt_result where
  "one_column = fst (stmt_result_new False 0 [\<lparr>sf_type = 3, sf_max_length = 0\<rparr>] handler_new)"

definition int_reply :: fetch_reply where
  "int_reply = \<lparr>fr_ret = 0, fr_columns = [\<lparr>fc_bytes = word_bytes (7 :: u32), fc_length = 4, fc_null = False\<rparr>], fr_errno = 0\<rparr>"

lemma int_fetched: "\<exists>r1. fetched int_reply one_column r1"
proof -
  have ok: "reply_ok one_column int_reply"
    by (simp add: reply_ok_def one_column_def stmt_result_new_def int_reply_def fits_def stmt_bind_new_def SIZEOF_MYSQL_TIME_def)
  have "\<exists>r1 h1. stmt_NextRow int_reply one_column handler_new = Some (True, r1, h1)"
    using store_row_eq [OF ok] by (simp add: stmt_NextRow_def int_reply_def)
  then show ?thesis using ok
    by (auto simp: fetched_def one_column_def stmt_result_new_def int_reply_def)
qed

theorem number_columns_witness:
  "\<exists>r1. stmt_GetInt32 r1 0 = Some 7"
proof -
  obtain r1 where f: "fetched int_reply one_column r1" using int_fetched by blast
  have "0 < sr_num_fields one_column" by (simp add: one_column_def stmt_result_new_def)
  from number_columns [OF f this] show ?thesis by (auto simp: int_reply_def)
qed

text \<open>
  C40. The longest values are asked for when the statement is prepared, but MySQL only knows them once the result
  is stored; until then they are zero, so that every buffer has the 40 bytes of a time.  A longer value is cut off, its length is not:
  copying it reads past the end of the buffer.
\<close>

theorem prepared_binary:
  assumes "stmt_result_new failed e fs h = (r, h1)" and "list_all (\<lambda>g. sf_max_length g = 0) fs"
    and "fetched f r r1" and "idx < sr_num_fields r" and "fr_columns f ! unat idx = \<lparr>fc_bytes = bs, fc_length = len, fc_null = False\<rparr>"
    and "unat n \<le> length data"
  shows "stmt_GetBinary r1 idx data n =
    (if n < len then Some None
     else if len \<le> 40 then Some (Some (map Some bs @ drop (length bs) data))
     else None)"
proof -
  note fb = fetched_bound [OF assms(3,4)]
  obtain binds where b: "sr_binds r = Some binds" "unat idx < length binds" "fits (fr_columns f ! unat idx) (binds ! unat idx)"
    and s: "stmt_bound r1 idx = Some (stored (fr_columns f ! unat idx) (binds ! unat idx))"
    and n: "sr_num_fields r1 = sr_num_fields r" by (rule fb)
  have "binds = map stmt_bind_new fs" using assms(1) b(1) by (auto simp: stmt_result_new_def Let_def split: if_splits)
  then have "length (sb_buffer (binds ! unat idx)) = 40"
    using assms(2) b(2) by (auto simp: list_all_length stmt_bind_new_def SIZEOF_MYSQL_TIME_def)
  then have "length bs = min (unat len) 40" and buf: "sb_buffer (binds ! unat idx) = take 40 (sb_buffer (binds ! unat idx))"
    using b(3) assms(5) by (simp_all add: fits_def)
  moreover have "\<not> sr_num_fields r1 \<le> idx" using assms(4) n by simp
  ultimately show ?thesis
    using s assms(5,6) \<open>length (sb_buffer (binds ! unat idx)) = 40\<close>
    by (auto simp: stmt_GetBinary_def stored_def mem_read_def mem_write_def not_less word_less_nat_alt word_le_nat_alt min_def)
qed

definition long_reply :: fetch_reply where
  "long_reply = \<lparr>fr_ret = 0, fr_columns = [\<lparr>fc_bytes = replicate 40 7, fc_length = 100, fc_null = False\<rparr>], fr_errno = 0\<rparr>"

lemma long_fetched: "\<exists>r1. fetched long_reply one_column r1"
proof -
  have ok: "reply_ok one_column long_reply"
    by (simp add: reply_ok_def one_column_def stmt_result_new_def long_reply_def fits_def stmt_bind_new_def SIZEOF_MYSQL_TIME_def)
  have "\<exists>r1 h1. stmt_NextRow long_reply one_column handler_new = Some (True, r1, h1)"
    using store_row_eq [OF ok] by (simp add: stmt_NextRow_def long_reply_def)
  then show ?thesis using ok
    by (auto simp: fetched_def one_column_def stmt_result_new_def long_reply_def)
qed

theorem prepared_binary_witness:
  "\<exists>r1. stmt_GetBinary r1 0 (mem_alloc 100) 100 = None"
proof -
  obtain r1 where f: "fetched long_reply one_column r1" using long_fetched by blast
  have n: "stmt_result_new False 0 [\<lparr>sf_type = 3, sf_max_length = 0\<rparr>] handler_new =
      (one_column, snd (stmt_result_new False 0 [\<lparr>sf_type = 3, sf_max_length = 0\<rparr>] handler_new))"
    by (simp add: one_column_def)
  have m: "0 < sr_num_fields one_column" by (simp add: one_column_def stmt_result_new_def)
  from prepared_binary [OF n _ f m, of "replicate 40 7" 100 100 "mem_alloc 100"]
  show ?thesis by (auto simp: long_reply_def)
qed

section \<open>The life of a statement\<close>

text \<open>What is done with a statement between its creation and its deletion: it is executed and rows of its result are fetched.\<close>

datatype stmt_op = SExec execute_io "bind_param list option" | SFetch fetch_reply

fun op_step :: "stmt_op \<Rightarrow> stmt_handler \<times> mysql_handler \<Rightarrow> (stmt_handler \<times> mysql_handler) option" where
  "op_step (SExec io params) (s, h) = map_option snd (stmt_Execute io params s h)"
| "op_step (SFetch f) (s, h) = do {
     query \<leftarrow> sh_query s;
     r \<leftarrow> query;
     (ok, r1, h1) \<leftarrow> stmt_NextRow f r h;
     Some (s\<lparr>sh_query := Some (Some r1)\<rparr>, h1)
   }"

fun stmt_ops :: "stmt_op list \<Rightarrow> stmt_handler \<times> mysql_handler \<Rightarrow> (stmt_handler \<times> mysql_handler) option" where
  "stmt_ops [] sh = Some sh"
| "stmt_ops (x # xs) sh = do { sh1 \<leftarrow> op_step x sh; stmt_ops xs sh1 }"

text \<open>The calls that each of them stands for, for a statement with \<open>n\<close> parameters.\<close>

fun op_protocol :: "nat \<Rightarrow> stmt_op \<Rightarrow> mysql_call list" where
  "op_protocol n (SExec io params) =
     (if n = 0 then [] else [CStmtBindParam (map (\<lambda>p. the (bind_one p)) (take n (the params)))]) @
     (if n \<noteq> 0 \<and> \<not> xi_bound io then []
      else if \<not> xi_executed io then [CStmtExecute]
      else if xi_stored io then [CStmtExecute, CStmtStoreResult]
      else [CStmtExecute, CStmtStoreResult, CStmtFreeResult])"
| "op_protocol n (SFetch f) = [CStmtFetch]"

fun is_exec :: "stmt_op \<Rightarrow> bool" where
  "is_exec (SExec io params) \<longleftrightarrow> True"
| "is_exec (SFetch f) \<longleftrightarrow> False"

definition stmt_alive :: "u64 \<Rightarrow> stmt_handler \<Rightarrow> bool" where
  "stmt_alive n s \<longleftrightarrow> sh_stmt s \<and> sh_meta s \<and> sh_param_count s = n \<and> (\<exists>r. sh_query s = Some (Some r) \<and> sr_binds r \<noteq> None)"

lemma report_calls [simp]: "mh_calls (MysqlErrorReportStmt e h) = mh_calls h"
  by (simp add: MysqlErrorReportStmt_def handler_OnError_def)

lemma stmt_run_life:
  "stmt_run io bound s h = Some (rows, s1, h1) \<Longrightarrow> stmt_alive n s \<Longrightarrow> stmt_alive n s1 \<and> sh_arrays s1 = sh_arrays s
     \<and> mh_calls h1 = mh_calls h @ (if \<not> xi_executed io then [CStmtExecute]
         else if xi_stored io then [CStmtExecute, CStmtStoreResult] else [CStmtExecute, CStmtStoreResult, CStmtFreeResult])"
  by (auto simp: stmt_run_def stmt_alive_def stmt_result_stored_def mysql_calls_def Let_def split: if_split_asm)

lemma those_map: "those (map f xs) = Some ys \<Longrightarrow> ys = map (\<lambda>x. the (f x)) xs"
  by (induction xs arbitrary: ys) (auto split: option.splits)

lemma stmt_op_life:
  assumes "op_step x (s, h) = Some (s1, h1)" and "stmt_alive n s"
  shows "stmt_alive n s1 \<and> sh_arrays s1 = sh_arrays s + (if is_exec x \<and> n \<noteq> 0 then 1 else 0)
    \<and> mh_calls h1 = mh_calls h @ op_protocol (unat n) x"
proof (cases x)
  case (SFetch f)
  then show ?thesis using assms
    by (auto simp: stmt_alive_def bind_eq_Some_conv stmt_NextRow_def store_row_def mysql_calls_def Let_def
        split: if_split_asm option.splits)
next
  case (SExec io params)
  obtain rows where e: "stmt_Execute io params s h = Some (rows, s1, h1)" using assms(1) SExec by auto
  have st: "sh_stmt s" "sh_param_count s = n" using assms(2) by (simp_all add: stmt_alive_def)
  show ?thesis
  proof (cases "n = 0")
    case True
    then have "stmt_run io False s h = Some (rows, s1, h1)" using e st by (simp add: stmt_Execute_def)
    from stmt_run_life [OF this assms(2)] True show ?thesis by (simp add: SExec)
  next
    case False
    then have n: "unat n \<noteq> 0" by (simp add: unat_eq_0)
    obtain bs cs where b: "bind_params (unat n) params = Some bs" "those bs = Some cs"
      using e st False by (cases "bind_params (unat n) params") (auto simp: stmt_Execute_def bind_eq_Some_conv)
    obtain ps where "params = Some ps" "bs = map bind_one (take (unat n) ps)"
      using b(1) by (auto simp: bind_params_def bind_eq_Some_conv split: if_splits)
    then have cs: "cs = map (\<lambda>p. the (bind_one p)) (take (unat n) (the params))" using those_map b(2) by simp
    let ?s = "s\<lparr>sh_arrays := sh_arrays s + 1\<rparr>" and ?h = "mysql_calls [CStmtBindParam cs] h"
    have c: "(if \<not> xi_bound io then Some (False, ?s, MysqlErrorReportStmt (xi_errno io) ?h) else stmt_run io True ?s ?h)
        = Some (rows, s1, h1)"
      using e st b False by (cases "xi_bound io") (simp_all add: stmt_Execute_def Let_def)
    have al: "stmt_alive n ?s" using assms(2) by (simp add: stmt_alive_def)
    show ?thesis
    proof (cases "xi_bound io")
      case True
      then have "stmt_run io True ?s ?h = Some (rows, s1, h1)" using c by simp
      from stmt_run_life [OF this al] True False n show ?thesis by (simp add: SExec cs mysql_calls_def)
    next
      case unb: False
      then have "s1 = ?s" "h1 = MysqlErrorReportStmt (xi_errno io) ?h" using c by auto
      then show ?thesis using al unb False n by (simp add: SExec cs mysql_calls_def)
    qed
  qed
qed

lemma stmt_ops_life:
  assumes "stmt_ops xs (s, h) = Some (s1, h1)" and "stmt_alive n s"
  shows "stmt_alive n s1 \<and> sh_arrays s1 = sh_arrays s + (if n = 0 then 0 else length (filter is_exec xs))
    \<and> mh_calls h1 = mh_calls h @ concat (map (op_protocol (unat n)) xs)"
  using assms
proof (induction xs arbitrary: s h)
  case (Cons x xs)
  obtain s2 h2 where 1: "op_step x (s, h) = Some (s2, h2)" "stmt_ops xs (s2, h2) = Some (s1, h1)"
    using Cons.prems(1) by (auto simp: bind_eq_Some_conv)
  note l = stmt_op_life [OF 1(1) Cons.prems(2)]
  from Cons.IH [OF 1(2)] l show ?case by simp
qed simp

lemma Create_life:
  assumes "mh_mysql h" and "pi_stmt pio" and "pi_prepared pio" and "pi_meta pio = Some fs" and "fs \<noteq> []"
  shows "\<exists>s h1. CreateStmtHander pio sql h = Some (Some s, h1) \<and> stmt_alive (pi_param_count pio) s \<and> sh_arrays s = 0
    \<and> mh_calls h1 = mh_calls h @ [CStmtInit, CStmtPrepare sql, CStmtUpdateMaxLength, CStmtMetadata, CStmtBindResult]"
  using assms by (simp add: CreateStmtHander_def stmt_init_def stmt_new_def stmt_result_new_def stmt_alive_def Let_def mysql_calls_def)

lemma destroy_life:
  "stmt_alive n s \<Longrightarrow> \<exists>h1. stmt_destroy s h = Some h1 \<and> mh_calls h1 = mh_calls h @ [CStmtFreeResult, CFreeResult, CStmtClose]"
  by (auto simp: stmt_alive_def stmt_destroy_def stmt_release_def stmt_result_destroy_def mysql_calls_def Let_def)

text \<open>
  C35. The life of a statement that could be prepared and has result columns, with any number of parameters, however often it is executed and its
  rows are fetched and whatever MySQL answers to that, as long as the calls are defined (the parameters are those of the statement, the
  replies fit the bound buffers): it can always be deleted, the calls to MySQL are those of the protocol, in order, and what was made at
  the beginning is given back once at the end.  Every execution with parameters leaves an array of them behind.
\<close>

theorem statement_life:
  assumes "mh_mysql h" and "pi_stmt pio" and "pi_prepared pio" and "pi_meta pio = Some fs" and "fs \<noteq> []"
    and "CreateStmtHander pio sql h = Some (Some s, h1)" and "stmt_ops ops (s, h1) = Some (s2, h2)"
  shows "(\<exists>h3. stmt_destroy s2 h2 = Some h3 \<and> mh_calls h3 = mh_calls h
      @ [CStmtInit, CStmtPrepare sql, CStmtUpdateMaxLength, CStmtMetadata, CStmtBindResult]
      @ concat (map (op_protocol (unat (pi_param_count pio))) ops)
      @ [CStmtFreeResult, CFreeResult, CStmtClose])
    \<and> sh_arrays s2 = (if pi_param_count pio = 0 then 0 else length (filter is_exec ops))"
proof -
  have c: "stmt_alive (pi_param_count pio) s" "sh_arrays s = 0"
    "mh_calls h1 = mh_calls h @ [CStmtInit, CStmtPrepare sql, CStmtUpdateMaxLength, CStmtMetadata, CStmtBindResult]"
    using Create_life [OF assms(1-5), of sql] assms(6) by auto
  have o: "stmt_alive (pi_param_count pio) s2" "sh_arrays s2 = (if pi_param_count pio = 0 then 0 else length (filter is_exec ops))"
    "mh_calls h2 = mh_calls h1 @ concat (map (op_protocol (unat (pi_param_count pio))) ops)"
    using stmt_ops_life [OF assms(7) c(1)] c(2) by simp_all
  obtain h3 where "stmt_destroy s2 h2 = Some h3" "mh_calls h3 = mh_calls h2 @ [CStmtFreeResult, CFreeResult, CStmtClose]"
    using destroy_life [OF o(1)] by blast
  then show ?thesis using c(3) o(2,3) by simp
qed

definition select_io :: prepare_io where
  "select_io = \<lparr>pi_stmt = True, pi_prepared = True, pi_field_count = 1, pi_param_count = 0,
     pi_meta = Some [\<lparr>sf_type = 3, sf_max_length = 0\<rparr>], pi_bind_failed = False, pi_errno = 0\<rparr>"

definition run_io :: execute_io where
  "run_io = \<lparr>xi_bound = True, xi_executed = True, xi_stored = True, xi_rows = 1, xi_errno = 0\<rparr>"

definition two_params :: "bind_param list" where
  "two_params = [\<lparr>bp_is_null = False, bp_type = MBT_Binary, bp_buffer = Some [Some 1], bp_length = 1\<rparr>,
     \<lparr>bp_is_null = False, bp_type = MBT_String, bp_buffer = None, bp_length = 0\<rparr>]"

text \<open>A statement with two parameters: its first execution fails, the second one gives a row.\<close>

theorem statement_life_witness:
  "\<exists>s h1 s2 h2. CreateStmtHander (select_io\<lparr>pi_param_count := 2\<rparr>) [83, 81, 76] (handler_Init handler_new) = Some (Some s, h1)
     \<and> stmt_ops [SExec (run_io\<lparr>xi_executed := False\<rparr>) (Some two_params), SExec run_io (Some two_params), SFetch long_reply] (s, h1)
       = Some (s2, h2) \<and> stmt_destroy s2 h2 \<noteq> None \<and> sh_arrays s2 = 2"
proof -
  let ?pio = "select_io\<lparr>pi_param_count := 2\<rparr>" and ?h = "handler_Init handler_new"
  let ?ops = "[SExec (run_io\<lparr>xi_executed := False\<rparr>) (Some two_params), SExec run_io (Some two_params), SFetch long_reply]"
  have a: "mh_mysql ?h" "pi_stmt ?pio" "pi_prepared ?pio" "pi_meta ?pio = Some [\<lparr>sf_type = 3, sf_max_length = 0\<rparr>]"
    "[\<lparr>sf_type = 3, sf_max_length = 0\<rparr>] \<noteq> []"
    by (simp_all add: handler_Init_def select_io_def)
  have "\<exists>s h1. CreateStmtHander ?pio [83, 81, 76] ?h = Some (Some s, h1) \<and> stmt_ops ?ops (s, h1) \<noteq> None"
    by (simp add: CreateStmtHander_def stmt_init_def stmt_new_def stmt_result_new_def handler_Init_def select_io_def run_io_def
        stmt_Execute_def stmt_run_def bind_params_def two_params_def bind_one_def MBT_Binary_def MBT_String_def Let_def
        stmt_result_stored_def stmt_NextRow_def store_row_def long_reply_def store_column_def stmt_bind_new_def
        SIZEOF_MYSQL_TIME_def mem_alloc_def mem_write_def)
  then obtain s h1 s2 h2 where c: "CreateStmtHander ?pio [83, 81, 76] ?h = Some (Some s, h1)" and o: "stmt_ops ?ops (s, h1) = Some (s2, h2)"
    by auto
  have "pi_param_count ?pio = 2" by simp
  then show ?thesis using statement_life [OF a c o] c o by auto
qed

lemma Execute_cases:
  assumes "stmt_Execute io params s h = Some out"
  obtains (plain) "sh_param_count s = 0" and "stmt_run io False s h = Some out"
    | (unbound) h2 where "sh_param_count s \<noteq> 0" and "\<not> xi_bound io" and "out = (False, s\<lparr>sh_arrays := sh_arrays s + 1\<rparr>, h2)"
    | (bound) h2 where "sh_param_count s \<noteq> 0" and "xi_bound io"
        and "stmt_run io True (s\<lparr>sh_arrays := sh_arrays s + 1\<rparr>) h2 = Some out"
proof (cases "sh_param_count s = 0")
  case True
  then show ?thesis using assms plain by (auto simp: stmt_Execute_def split: if_split_asm)
next
  case False
  then obtain bs cs where st: "sh_stmt s" and b: "bind_params (unat (sh_param_count s)) params = Some bs" "those bs = Some cs"
    using assms by (cases "sh_stmt s"; cases "bind_params (unat (sh_param_count s)) params")
      (auto simp: stmt_Execute_def Let_def bind_eq_Some_conv simp del: if_split)
  have c: "(if \<not> xi_bound io
      then Some (False, s\<lparr>sh_arrays := sh_arrays s + 1\<rparr>, MysqlErrorReportStmt (xi_errno io) (mysql_calls [CStmtBindParam cs] h))
      else stmt_run io True (s\<lparr>sh_arrays := sh_arrays s + 1\<rparr>) (mysql_calls [CStmtBindParam cs] h)) = Some out"
    using assms st b False by (cases "xi_bound io") (simp_all add: stmt_Execute_def Let_def)
  show ?thesis
  proof (cases "xi_bound io")
    case True
    with c show ?thesis by (intro bound [OF False]) simp_all
  next
    case unb: False
    with c show ?thesis by (intro unbound [OF False]) auto
  qed
qed

lemma run_no_meta:
  "stmt_run io bound s h = Some out \<Longrightarrow> \<not> sh_meta s \<Longrightarrow> fst out = False \<and> sh_query (fst (snd out)) = sh_query s"
  by (auto simp: stmt_run_def Let_def split: if_split_asm)

lemma Execute_no_meta:
  assumes "stmt_Execute io params s h = Some out" and "\<not> sh_meta s"
  shows "fst out = False \<and> sh_query (fst (snd out)) = sh_query s"
  using assms(1)
proof (cases rule: Execute_cases)
  case plain
  then show ?thesis using run_no_meta assms(2) by blast
next
  case (unbound h2)
  then show ?thesis by simp
next
  case (bound h2)
  then show ?thesis using run_no_meta [OF bound(3)] assms(2) by simp
qed

lemma destroy_unset: "sh_query s = None \<Longrightarrow> stmt_destroy s h = None"
  by (simp add: stmt_destroy_def stmt_release_def)

lemma Create_no_meta:
  assumes "CreateStmtHander pio sql h = Some out" and "mh_mysql h" and "\<not> pi_prepared pio \<or> pi_meta pio = None"
  shows "\<exists>s h1. out = (Some s, h1) \<and> sh_query s = None \<and> \<not> sh_meta s"
  using assms
  by (cases "pi_prepared pio") (auto simp: CreateStmtHander_def stmt_init_def stmt_new_def Let_def bind_eq_Some_conv split: if_split_asm)

text \<open>
  A statement that gives no rows, such as an update, or that could not be prepared, cannot be deleted: the constructor
  leaves the pointer to its result unset and the destructor deletes what it points to.
\<close>

theorem statement_without_rows:
  assumes "mh_mysql h" and "pi_stmt pio" and "\<not> pi_prepared pio \<or> pi_meta pio = None"
    and "CreateStmtHander pio sql h = Some (hh, h1)"
  shows "\<exists>s. hh = Some s \<and> stmt_destroy s h1 = None \<and>
    (\<forall>xio params rows s1 h2. stmt_Execute xio params s h1 = Some (rows, s1, h2) \<longrightarrow> \<not> rows \<and> stmt_destroy s1 h2 = None)"
proof -
  obtain s where s: "hh = Some s" "sh_query s = None" "\<not> sh_meta s" using Create_no_meta [OF assms(4,1,3)] by auto
  have "\<not> rows \<and> stmt_destroy s1 h2 = None" if e: "stmt_Execute xio params s h1 = Some (rows, s1, h2)" for xio params rows s1 h2
    using Execute_no_meta [OF e s(3)] s(2) destroy_unset by simp
  then show ?thesis using s destroy_unset by blast
qed

definition update_prepare_io :: prepare_io where
  "update_prepare_io = select_io\<lparr>pi_meta := None, pi_param_count := 2\<rparr>"

theorem statement_without_rows_witness:
  "\<exists>s h1. CreateStmtHander update_prepare_io sql (handler_Init handler_new) = Some (Some s, h1) \<and> stmt_destroy s h1 = None"
proof -
  obtain hh h1 where c: "CreateStmtHander update_prepare_io sql (handler_Init handler_new) = Some (hh, h1)"
    by (auto simp: CreateStmtHander_def stmt_init_def handler_Init_def update_prepare_io_def select_io_def Let_def)
  have "mh_mysql (handler_Init handler_new)" "pi_stmt update_prepare_io" "\<not> pi_prepared update_prepare_io \<or> pi_meta update_prepare_io = None"
    by (simp_all add: handler_Init_def update_prepare_io_def select_io_def)
  from statement_without_rows [OF this c] c show ?thesis by blast
qed

text \<open>
  The array of parameters is deleted only when the statement ran and has no rows: it is leaked when an error
  occurs and when there is a result.
\<close>

theorem execute_arrays:
  assumes "stmt_Execute io params s h = Some (rows, s1, h1)" and "sh_param_count s \<noteq> 0"
  shows "sh_arrays s1 = sh_arrays s + (if xi_bound io \<and> xi_executed io \<and> \<not> sh_meta s then 0 else 1)"
  using assms(1)
proof (cases rule: Execute_cases)
  case (bound h2)
  then show ?thesis by (cases "xi_executed io"; cases "sh_meta s") (auto simp: stmt_run_def Let_def bind_eq_Some_conv split: if_split_asm)
qed (use assms(2) in auto)

theorem execute_arrays_witness:
  "\<exists>s1 h1. stmt_Execute (run_io\<lparr>xi_executed := False\<rparr>) (Some two_params) (stmt_new\<lparr>sh_stmt := True, sh_param_count := 2\<rparr>) handler_new
     = Some (False, s1, h1) \<and> sh_arrays s1 = 1"
proof -
  obtain s1 h1 where e: "stmt_Execute (run_io\<lparr>xi_executed := False\<rparr>) (Some two_params)
      (stmt_new\<lparr>sh_stmt := True, sh_param_count := 2\<rparr>) handler_new = Some (False, s1, h1)"
    by (simp add: stmt_Execute_def stmt_run_def bind_params_def two_params_def bind_one_def run_io_def Let_def
        MBT_Binary_def MBT_String_def)
  from execute_arrays [OF e] e show ?thesis by (simp add: run_io_def stmt_new_def)
qed

end
