(* ===== verification/DatabaseLink.thy ===== *)
theory DatabaseLink
  imports Database MysqlQuery
begin

text \<open>
  A database connection together with its handler: the \<open>Database\<close> of \<^verbatim>\<open>libcore/src/Database.cpp\<close> over the
  \<open>MysqlHandler\<close> of \<^verbatim>\<open>libcore/src/MysqlService.cpp\<close>.  It refines the connection of the theory \<open>Database\<close>,
  where the answers of the handler are arguments.
\<close>

section \<open>Operations\<close>

record db_link =
  lk_db :: database
  lk_handler :: mysql_handler
  lk_login :: db_login

text \<open>The character set is passed as a C string, which is never null.\<close>

definition link_new :: "db_login \<Rightarrow> db_link" where
  "link_new a = \<lparr>lk_db = database_new, lk_handler = handler_Init handler_new, lk_login = a\<rparr>"

definition login_ok :: "db_login \<Rightarrow> bool" where
  "login_ok a \<longleftrightarrow> dl_charset a \<noteq> None"

definition link_Connect :: "db_connect_io \<Rightarrow> db_link \<Rightarrow> (bool \<times> db_link) option" where
  "link_Connect io l = do {
     (ret, h) \<leftarrow> handler_Connect io (lk_login l) (lk_handler l);
     let (ok, d) = database_Connect ret (lk_db l);
     Some (ok, l\<lparr>lk_db := d, lk_handler := h\<rparr>)
   }"

definition probe_sql :: "byte list" where
  "probe_sql = map of_char ''select 1 from dual where 1 = 0''"

text \<open>\<^verbatim>\<open>Update\<close>: reconnect, and a query every thirty seconds, whose result is dropped.\<close>

definition link_Update :: "db_connect_io \<Rightarrow> query_io \<Rightarrow> int \<Rightarrow> db_link \<Rightarrow> db_link option" where
  "link_Update cio qio now l =
     (if \<not> db_free (lk_db l) then Some l
      else do {
        let l1 = l\<lparr>lk_db := db_log HandlerIsAlive (lk_db l)\<rparr>;
        l2 \<leftarrow> (if \<not> mh_alive (lk_handler l1) then map_option snd (link_Connect cio l1) else Some l1);
        (if now - db_last_travel_time (lk_db l2) > 30
         then do {
           (dropped, h) \<leftarrow> handler_ExecuteSql qio probe_sql (lk_handler l2);
           Some (l2\<lparr>lk_db := (db_log HandlerExecuteSql (lk_db l2))\<lparr>db_last_travel_time := now\<rparr>, lk_handler := h\<rparr>)
         }
         else Some l2)
      })"

definition link_destroy :: "bool list \<Rightarrow> db_link \<Rightarrow> db_link option" where
  "link_destroy readings l = do {
     d \<leftarrow> database_destroy readings (lk_db l);
     Some (l\<lparr>lk_db := d, lk_handler := handler_destroy (handler_Release (lk_handler l))\<rparr>)
   }"

text \<open>\<^verbatim>\<open>CDBMgr\<close> with real connections.\<close>

definition link_Start :: "db_connect_io \<Rightarrow> db_login \<Rightarrow> db_link list \<Rightarrow> db_link list option" where
  "link_Start io a links = do { (ok, l) \<leftarrow> link_Connect io (link_new a); Some (links @ [l]) }"

text \<open>\<open>Update\<close> of all of them, with the answers of MySQL for each, and \<^verbatim>\<open>Close\<close>, which waits for each in turn.\<close>

fun link_Update_all :: "(db_connect_io \<times> query_io) list \<Rightarrow> int \<Rightarrow> db_link list \<Rightarrow> db_link list option" where
  "link_Update_all ios now [] = Some []"
| "link_Update_all [] now (l # ls) = None"
| "link_Update_all ((c, q) # ios) now (l # ls) = do {
     l1 \<leftarrow> link_Update c q now l;
     ls1 \<leftarrow> link_Update_all ios now ls;
     Some (l1 # ls1)
   }"

fun link_Close :: "bool list list \<Rightarrow> db_link list \<Rightarrow> db_link list option" where
  "link_Close readings [] = Some []"
| "link_Close [] (l # ls) = None"
| "link_Close (r # rs) (l # ls) = do { l1 \<leftarrow> link_destroy r l; ls1 \<leftarrow> link_Close rs ls; Some (l1 # ls1) }"

section \<open>Refinement\<close>

lemma link_Connect_eq:
  "login_ok (lk_login l) \<Longrightarrow> mh_mysql (lk_handler l) \<Longrightarrow>
   \<exists>h. link_Connect io l = Some (cn_charset io \<and> cn_connected io,
         l\<lparr>lk_db := snd (database_Connect (cn_charset io \<and> cn_connected io) (lk_db l)), lk_handler := h\<rparr>)
     \<and> mh_mysql h
     \<and> (mh_alive h \<longleftrightarrow> cn_charset io \<and> cn_connected io \<or>
          mh_alive (lk_handler l) \<and> cn_errno io \<noteq> 2006 \<and> cn_errno io \<noteq> 2013 \<and> cn_errno io \<noteq> 2055)"
  by (auto simp: link_Connect_def handler_Connect_def login_ok_def Let_def database_Connect_def MysqlErrorReport_def
      handler_OnError_def mysql_calls_def)

lemma ExecuteSql_mysql:
  "mh_mysql h \<Longrightarrow> \<exists>r h1. handler_ExecuteSql io sql h = Some (r, h1) \<and> mh_mysql h1"
  by (auto simp: handler_ExecuteSql_def Let_def MysqlErrorReport_def handler_OnError_def mysql_calls_def split: option.splits)

lemma ExecuteSql_alive:
  "mh_mysql h \<Longrightarrow> mh_alive h \<Longrightarrow> qi_ok io \<Longrightarrow> qi_field_count io = 0 \<or> qi_result io \<noteq> None \<Longrightarrow>
   \<exists>r h1. handler_ExecuteSql io sql h = Some (r, h1) \<and> mh_alive h1"
  by (cases "qi_result io") (simp_all add: handler_ExecuteSql_def Let_def mysql_calls_def)

lemma link_Update_abs:
  assumes "login_ok (lk_login l)" and "mh_mysql (lk_handler l)"
  shows "\<exists>l1. link_Update cio qio now l = Some l1 \<and> mh_mysql (lk_handler l1) \<and> lk_login l1 = lk_login l
    \<and> lk_db l1 = database_Update (mh_alive (lk_handler l)) (cn_charset cio \<and> cn_connected cio) now (lk_db l)"
proof (cases "db_free (lk_db l)")
  case False
  then show ?thesis using assms by (simp add: link_Update_def database_Update_def)
next
  case True
  let ?l1 = "l\<lparr>lk_db := db_log HandlerIsAlive (lk_db l)\<rparr>"
  have "\<exists>l2. (if \<not> mh_alive (lk_handler ?l1) then map_option snd (link_Connect cio ?l1) else Some ?l1) = Some l2
      \<and> mh_mysql (lk_handler l2) \<and> lk_login l2 = lk_login l
      \<and> lk_db l2 = (if \<not> mh_alive (lk_handler l) then snd (database_Connect (cn_charset cio \<and> cn_connected cio) (lk_db ?l1)) else lk_db ?l1)"
    using link_Connect_eq [of ?l1 cio] assms by auto
  then obtain l2 where l2: "(if \<not> mh_alive (lk_handler ?l1) then map_option snd (link_Connect cio ?l1) else Some ?l1) = Some l2"
    "mh_mysql (lk_handler l2)" "lk_login l2 = lk_login l"
    "lk_db l2 = (if \<not> mh_alive (lk_handler l) then snd (database_Connect (cn_charset cio \<and> cn_connected cio) (lk_db ?l1)) else lk_db ?l1)"
    by blast
  obtain r h where "handler_ExecuteSql qio probe_sql (lk_handler l2) = Some (r, h)" "mh_mysql h"
    using ExecuteSql_mysql [OF l2(2)] by blast
  then show ?thesis
    using True l2 by (simp add: link_Update_def database_Update_def database_Update_use_def Let_def)
qed

text \<open>All connections refine the ones of the abstract manager.\<close>

lemma link_Update_all_refines:
  assumes "list_all (\<lambda>l. login_ok (lk_login l) \<and> mh_mysql (lk_handler l)) ls" and "length ios = length ls"
  shows "\<exists>ls1. link_Update_all ios now ls = Some ls1 \<and> map lk_db ls1 =
      map2 (\<lambda>io l. database_Update (mh_alive (lk_handler l)) (cn_charset (fst io) \<and> cn_connected (fst io)) now (lk_db l)) ios ls"
  using assms(2,1)
proof (induction ios ls rule: list_induct2)
  case Nil
  then show ?case by simp
next
  case (Cons io ios l ls)
  obtain c q where io: "io = (c, q)" by (cases io)
  obtain l1 where "link_Update c q now l = Some l1"
    "lk_db l1 = database_Update (mh_alive (lk_handler l)) (cn_charset c \<and> cn_connected c) now (lk_db l)"
    using link_Update_abs [of l c q now] Cons.prems by auto
  then show ?case using Cons io by auto
qed

lemma link_Close_released:
  "link_Close rs ls = Some ls1 \<Longrightarrow> list_all (\<lambda>l. \<not> mh_mysql (lk_handler l)) ls1 \<and> map lk_login ls1 = map lk_login ls"
  by (induction rs ls arbitrary: ls1 rule: link_Close.induct)
    (auto simp: bind_eq_Some_conv link_destroy_def handler_destroy_def handler_Release_def mysql_calls_def)

definition sample_login :: db_login where
  "sample_login = \<lparr>dl_host = [1], dl_user = [2], dl_passwd = [3], dl_db = [4], dl_port = 3306, dl_charset = Some [5]\<rparr>"

section \<open>Keeping the connection awake\<close>

text \<open>
  The updates of one connection over several frames while no worker occupies it, each with its time and the
  answers of MySQL.
\<close>

fun link_updates :: "(int \<times> db_connect_io \<times> query_io) list \<Rightarrow> db_link \<Rightarrow> db_link option" where
  "link_updates [] l = Some l"
| "link_updates ((now, cio, qio) # frames) l = do { l1 \<leftarrow> link_Update cio qio now l; link_updates frames l1 }"

definition all_well :: "int \<times> db_connect_io \<times> query_io \<Rightarrow> bool" where
  "all_well f \<longleftrightarrow> (case f of (now, cio, qio) \<Rightarrow>
     cn_charset cio \<and> cn_connected cio \<and> qi_ok qio \<and> (qi_field_count qio = 0 \<or> qi_result qio \<noteq> None))"

definition login_calls :: "byte list \<Rightarrow> db_login \<Rightarrow> mysql_call list" where
  "login_calls cs a = [CReportTruncation False, CSetCharset cs, CRealConnect (dl_host a) (dl_user a) (dl_passwd a) (dl_db a) (dl_port a)]"

lemma link_Connect_well:
  "dl_charset (lk_login l) = Some cs \<Longrightarrow> mh_mysql (lk_handler l) \<Longrightarrow> cn_charset cio \<Longrightarrow> cn_connected cio \<Longrightarrow>
   link_Connect cio l = Some (True, l\<lparr>lk_db := (db_log HandlerConnect (lk_db l))\<lparr>db_last_travel_time := 0\<rparr>,
     lk_handler := (mysql_calls (login_calls cs (lk_login l)) (lk_handler l))\<lparr>mh_alive := True\<rparr>\<rparr>)"
  by (simp add: link_Connect_def handler_Connect_def database_Connect_def mysql_calls_def login_calls_def Let_def)

lemma ExecuteSql_well:
  "mh_mysql h \<Longrightarrow> qi_ok io \<Longrightarrow> qi_field_count io = 0 \<or> qi_result io \<noteq> None \<Longrightarrow>
   \<exists>r. handler_ExecuteSql io sql h = Some (r, mysql_calls [CRealQuery sql, CStoreResult] h)"
  by (cases "qi_result io") (simp_all add: handler_ExecuteSql_def Let_def mysql_calls_def)

lemma link_Update_well:
  assumes "all_well (now, cio, qio)" and "dl_charset (lk_login l) = Some cs" and "mh_mysql (lk_handler l)" and "db_free (lk_db l)"
    and b: "b = (if mh_alive (lk_handler l) then db_last_travel_time (lk_db l) else 0)"
  shows "\<exists>l1. link_Update cio qio now l = Some l1 \<and> lk_login l1 = lk_login l \<and> mh_mysql (lk_handler l1) \<and> db_free (lk_db l1)
    \<and> mh_alive (lk_handler l1) \<and> db_last_travel_time (lk_db l1) = (if b + 30 < now then now else b)
    \<and> mh_calls (lk_handler l1) = mh_calls (lk_handler l)
        @ (if mh_alive (lk_handler l) then [] else login_calls cs (lk_login l))
        @ (if b + 30 < now then [CRealQuery probe_sql, CStoreResult] else [])"
proof -
  have w: "cn_charset cio" "cn_connected cio" "qi_ok qio" "qi_field_count qio = 0 \<or> qi_result qio \<noteq> None"
    using assms(1) by (simp_all add: all_well_def)
  obtain r0 where r0: "handler_ExecuteSql qio probe_sql (lk_handler l) = Some (r0, mysql_calls [CRealQuery probe_sql, CStoreResult] (lk_handler l))"
    using ExecuteSql_well [OF assms(3) w(3,4)] by blast
  let ?h = "(mysql_calls (login_calls cs (lk_login l)) (lk_handler l))\<lparr>mh_alive := True\<rparr>"
  have "mh_mysql ?h" using assms(3) by (simp add: mysql_calls_def)
  then obtain r1 where r1: "handler_ExecuteSql qio probe_sql ?h = Some (r1, mysql_calls [CRealQuery probe_sql, CStoreResult] ?h)"
    using ExecuteSql_well w(3,4) by blast
  show ?thesis
  proof (cases "mh_alive (lk_handler l)")
    case True
    then show ?thesis using assms(3,4) b r0 by (simp add: link_Update_def Let_def db_log_def mysql_calls_def)
  next
    case False
    then show ?thesis using assms(2-4) w(1,2) b r1
      by (simp add: link_Update_def link_Connect_well Let_def db_log_def mysql_calls_def)
  qed
qed

lemma awake_run:
  assumes "list_all all_well frames" and "dl_charset (lk_login l) = Some cs" and "mh_mysql (lk_handler l)" and "db_free (lk_db l)"
    and "mh_alive (lk_handler l)" and "sorted (db_last_travel_time (lk_db l) # map fst frames)"
  shows "\<exists>l1 asked. link_updates frames l = Some l1 \<and> mh_alive (lk_handler l1) \<and> db_free (lk_db l1)
    \<and> mh_calls (lk_handler l1) = mh_calls (lk_handler l) @ concat (map (\<lambda>q. [CRealQuery probe_sql, CStoreResult]) asked)
    \<and> set asked \<subseteq> fst ` set frames \<and> successively (\<lambda>q r. q + 30 < r) (db_last_travel_time (lk_db l) # asked)
    \<and> (\<forall>t\<in>fst ` set frames. \<exists>q\<in>set (db_last_travel_time (lk_db l) # asked). q \<le> t \<and> t \<le> q + 30)"
  using assms
proof (induction frames arbitrary: l)
  case Nil
  then show ?case by simp
next
  case (Cons f frames)
  obtain now cio qio where f: "f = (now, cio, qio)" by (rule prod_cases3)
  let ?b = "db_last_travel_time (lk_db l)"
  have w: "all_well (now, cio, qio)" "?b = (if mh_alive (lk_handler l) then ?b else 0)" using Cons.prems f by simp_all
  let ?next = "if ?b + 30 < now then now else ?b"
  obtain l1 where l1: "link_Update cio qio now l = Some l1" "lk_login l1 = lk_login l" "mh_mysql (lk_handler l1)" "db_free (lk_db l1)"
    "mh_alive (lk_handler l1)" "db_last_travel_time (lk_db l1) = ?next"
    "mh_calls (lk_handler l1) = mh_calls (lk_handler l) @ (if ?b + 30 < now then [CRealQuery probe_sql, CStoreResult] else [])"
    using link_Update_well [OF w(1) Cons.prems(2-4) w(2)] Cons.prems(5) by auto
  have "sorted (db_last_travel_time (lk_db l1) # map fst frames)" using Cons.prems(6) f l1(6) by auto
  then obtain l2 asked where l2: "link_updates frames l1 = Some l2" "mh_alive (lk_handler l2)" "db_free (lk_db l2)"
    "mh_calls (lk_handler l2) = mh_calls (lk_handler l1) @ concat (map (\<lambda>q. [CRealQuery probe_sql, CStoreResult]) asked)"
    "set asked \<subseteq> fst ` set frames" "successively (\<lambda>q r. q + 30 < r) (?next # asked)"
    "\<forall>t\<in>fst ` set frames. \<exists>q\<in>set (?next # asked). q \<le> t \<and> t \<le> q + 30"
    using Cons.IH [of l1] Cons.prems(1,2) l1 by (auto simp del: set_simps)
  let ?asked = "if ?b + 30 < now then now # asked else asked"
  have "?b \<le> now" using Cons.prems(6) f by simp
  then have near: "\<forall>t\<in>fst ` set (f # frames). \<exists>q\<in>set (?b # ?asked). q \<le> t \<and> t \<le> q + 30"
    using l2(7) f by (cases "?b + 30 < now") auto
  have "successively (\<lambda>q r. q + 30 < r) (?b # ?asked)" using l2(6) by (cases "?b + 30 < now") auto
  then show ?case using near l1 l2 f by (intro exI [of _ l2] exI [of _ ?asked]) auto
qed

lemma stays_awake:
  assumes "list_all all_well frames" and "frames \<noteq> []" and "dl_charset (lk_login l) = Some cs"
    and "mh_mysql (lk_handler l)" and "db_free (lk_db l)"
    and b: "b = (if mh_alive (lk_handler l) then db_last_travel_time (lk_db l) else 0)" and "sorted (b # map fst frames)"
  shows "\<exists>l1 asked. link_updates frames l = Some l1 \<and> mh_alive (lk_handler l1) \<and> db_free (lk_db l1)
    \<and> mh_calls (lk_handler l1) = mh_calls (lk_handler l)
        @ (if mh_alive (lk_handler l) then [] else login_calls cs (lk_login l))
        @ concat (map (\<lambda>q. [CRealQuery probe_sql, CStoreResult]) asked)
    \<and> set asked \<subseteq> fst ` set frames \<and> successively (\<lambda>q r. q + 30 < r) (b # asked)
    \<and> (\<forall>t\<in>fst ` set frames. \<exists>q\<in>set (b # asked). q \<le> t \<and> t \<le> q + 30)"
proof -
  obtain now cio qio fs where f: "frames = (now, cio, qio) # fs" using assms(2) by (metis list.exhaust prod_cases3)
  have w: "all_well (now, cio, qio)" using assms(1) f by simp
  let ?next = "if b + 30 < now then now else b"
  obtain l1 where l1: "link_Update cio qio now l = Some l1" "lk_login l1 = lk_login l" "mh_mysql (lk_handler l1)" "db_free (lk_db l1)"
    "mh_alive (lk_handler l1)" "db_last_travel_time (lk_db l1) = ?next"
    "mh_calls (lk_handler l1) = mh_calls (lk_handler l) @ (if mh_alive (lk_handler l) then [] else login_calls cs (lk_login l))
        @ (if b + 30 < now then [CRealQuery probe_sql, CStoreResult] else [])"
    using link_Update_well [OF w assms(3-5) b] by blast
  have "sorted (db_last_travel_time (lk_db l1) # map fst fs)" using assms(7) f l1(6) by auto
  then obtain l2 asked where l2: "link_updates fs l1 = Some l2" "mh_alive (lk_handler l2)" "db_free (lk_db l2)"
    "mh_calls (lk_handler l2) = mh_calls (lk_handler l1) @ concat (map (\<lambda>q. [CRealQuery probe_sql, CStoreResult]) asked)"
    "set asked \<subseteq> fst ` set fs" "successively (\<lambda>q r. q + 30 < r) (?next # asked)"
    "\<forall>t\<in>fst ` set fs. \<exists>q\<in>set (?next # asked). q \<le> t \<and> t \<le> q + 30"
    using awake_run [of fs l1] assms(1,3) f l1 by (auto simp del: set_simps)
  let ?asked = "if b + 30 < now then now # asked else asked"
  have "b \<le> now" using assms(7) f by simp
  then have near: "\<forall>t\<in>fst ` set frames. \<exists>q\<in>set (b # ?asked). q \<le> t \<and> t \<le> q + 30"
    using l2(7) f by (cases "b + 30 < now") auto
  have "successively (\<lambda>q r. q + 30 < r) (b # ?asked)" using l2(6) by (cases "b + 30 < now") auto
  then show ?thesis using near l1 l2 f by (intro exI [of _ l2] exI [of _ ?asked]) auto
qed

lemma apart:
  "successively (\<lambda>q r. q + 30 < r) qs \<Longrightarrow> q \<in> set qs \<Longrightarrow> r \<in> set qs \<Longrightarrow> q \<noteq> r \<Longrightarrow> q + 30 < r \<or> r + 30 < (q :: int)"
proof -
  assume s: "successively (\<lambda>q r. q + 30 < r) qs" and i: "q \<in> set qs" "r \<in> set qs" "q \<noteq> r"
  have "transp (\<lambda>q r. q + 30 < (r :: int))" by (auto intro: transpI)
  then have "sorted_wrt (\<lambda>q r. q + 30 < r) qs" using s by (simp add: successively_conv_sorted_wrt)
  then show ?thesis using i by (induction qs) auto
qed

text \<open>
  C30. Updates of a connection that no worker occupies, with answers of success, over any frames with
  non-decreasing times in seconds: a lost connection is first connected again, once and with the configured login, and a living
  one never; after that the only calls to MySQL are the query \<^verbatim>\<open>select 1 from dual where 1 = 0\<close> with the fetch of its result.
  It is asked at times of frames that are more than 30 seconds apart (the first one more than 30 seconds after the connection
  was last released or asked, or after time 0 when it was connected again), and no frame is more than 30 seconds after
  the latest of these times.
\<close>

theorem link_keeps_awake:
  assumes "list_all all_well frames" and "frames \<noteq> []" and "dl_charset (lk_login l) = Some cs"
    and "mh_mysql (lk_handler l)" and "db_free (lk_db l)"
    and "b = (if mh_alive (lk_handler l) then db_last_travel_time (lk_db l) else 0)" and "sorted (b # map fst frames)"
  shows "\<exists>l1 asked. link_updates frames l = Some l1 \<and> mh_alive (lk_handler l1) \<and> db_free (lk_db l1)
    \<and> mh_calls (lk_handler l1) = mh_calls (lk_handler l)
        @ (if mh_alive (lk_handler l) then []
           else [CReportTruncation False, CSetCharset cs, CRealConnect (dl_host (lk_login l)) (dl_user (lk_login l))
                   (dl_passwd (lk_login l)) (dl_db (lk_login l)) (dl_port (lk_login l))])
        @ concat (map (\<lambda>q. [CRealQuery (map of_char ''select 1 from dual where 1 = 0''), CStoreResult]) asked)
    \<and> set asked \<subseteq> fst ` set frames \<and> successively (\<lambda>q r. q + 30 < r) (b # asked)
    \<and> (\<forall>t\<in>fst ` set frames. \<exists>q\<in>set (b # asked). q \<le> t \<and> t \<le> q + 30)"
  using stays_awake [OF assms] by (simp only: login_calls_def probe_sql_def)

definition fine_io :: db_connect_io where
  "fine_io = \<lparr>cn_charset = True, cn_connected = True, cn_errno = 0\<rparr>"

definition empty_io :: query_io where
  "empty_io = \<lparr>qi_ok = True, qi_result = Some \<lparr>res_rows = [], res_fields = 1\<rparr>, qi_field_count = 1, qi_errno = 0\<rparr>"

text \<open>A connection that was never connected, in frames at 100, 110 and 131 seconds, is asked at 100 and 131.\<close>

theorem link_keeps_awake_witness:
  "\<exists>l1 asked. link_updates [(100, fine_io, empty_io), (110, fine_io, empty_io), (131, fine_io, empty_io)] (link_new sample_login) = Some l1
     \<and> mh_alive (lk_handler l1) \<and> 100 \<in> set asked \<and> 131 \<in> set asked \<and> (110 :: int) \<notin> set asked
     \<and> mh_calls (lk_handler l1) = CInit # login_calls [5] sample_login
         @ concat (map (\<lambda>q. [CRealQuery probe_sql, CStoreResult]) asked)"
proof -
  let ?fs = "[(100 :: int, fine_io, empty_io), (110, fine_io, empty_io), (131, fine_io, empty_io)]" and ?l = "link_new sample_login"
  have "list_all all_well ?fs" "?fs \<noteq> []" "dl_charset (lk_login ?l) = Some [5]" "mh_mysql (lk_handler ?l)" "db_free (lk_db ?l)"
    "0 = (if mh_alive (lk_handler ?l) then db_last_travel_time (lk_db ?l) else 0)" "sorted (0 # map fst ?fs)"
    by (simp_all add: all_well_def fine_io_def empty_io_def link_new_def sample_login_def handler_Init_def handler_new_def
        mysql_calls_def database_new_def)
  from link_keeps_awake [OF this] obtain l1 and asked :: "int list" where a: "link_updates ?fs ?l = Some l1" "mh_alive (lk_handler l1)"
    "set asked \<subseteq> fst ` set ?fs" "successively (\<lambda>q r. q + 30 < r) (0 # asked)"
    "\<forall>t\<in>fst ` set ?fs. \<exists>q\<in>set (0 # asked). q \<le> t \<and> t \<le> q + 30"
    and c: "mh_calls (lk_handler l1) = mh_calls (lk_handler ?l) @ (if mh_alive (lk_handler ?l) then [] else login_calls [5] (lk_login ?l))
        @ concat (map (\<lambda>q. [CRealQuery probe_sql, CStoreResult]) asked)"
    by (fold login_calls_def probe_sql_def) blast
  have "mh_calls (lk_handler ?l) = [CInit]" "\<not> mh_alive (lk_handler ?l)" "lk_login ?l = sample_login"
    by (simp_all add: link_new_def handler_Init_def handler_new_def mysql_calls_def)
  then have c: "mh_calls (lk_handler l1) = CInit # login_calls [5] sample_login
      @ concat (map (\<lambda>q. [CRealQuery probe_sql, CStoreResult]) asked)" using c by simp
  have s: "set asked \<subseteq> {100, 110, 131}" using a(3) by simp
  have "\<exists>q\<in>set asked. q \<le> 100 \<and> 100 \<le> q + 30" "\<exists>q\<in>set asked. q \<le> 131 \<and> 131 \<le> q + 30" using a(5) by auto
  moreover from this(1) have "100 \<in> set asked" using s by fastforce
  moreover from this have "110 \<notin> set asked" using apart [OF a(4), of 100 110] by auto
  ultimately have "100 \<in> set asked" "131 \<in> set asked" "110 \<notin> set asked" using s by fastforce+
  then show ?thesis using a(1,2) c by blast
qed

text \<open>
  A connection whose last query was answered with one of the errors of a lost connection is noticed and, when
  the server can be reached again, revived by the next \<^verbatim>\<open>Update\<close>, which also asks the first query.
\<close>

theorem lost_connection_revived:
  assumes "login_ok (lk_login l)" and "mh_mysql (lk_handler l)" and "db_free (lk_db l)"
    and "\<not> qi_ok io" and "qi_errno io \<in> {2006, 2013, 2055}"
    and "handler_ExecuteSql io sql (lk_handler l) = Some (r, h)"
    and "cn_charset cio" and "cn_connected cio" and "qi_ok qio" and "qi_field_count qio = 0 \<or> qi_result qio \<noteq> None" and "30 < now"
  shows "\<not> mh_alive h \<and>
    (\<exists>l1. link_Update cio qio now (l\<lparr>lk_handler := h\<rparr>) = Some l1 \<and> mh_alive (lk_handler l1)
       \<and> db_last_travel_time (lk_db l1) = now)"
proof -
  have h: "\<not> mh_alive h" "mh_mysql h"
    using assms(2,4-6) by (auto simp: handler_ExecuteSql_def MysqlErrorReport_def handler_OnError_def mysql_calls_def Let_def)
  let ?l1 = "l\<lparr>lk_handler := h, lk_db := db_log HandlerIsAlive (lk_db l)\<rparr>"
  obtain h2 where c: "link_Connect cio ?l1 = Some (True,
      ?l1\<lparr>lk_db := snd (database_Connect True (lk_db ?l1)), lk_handler := h2\<rparr>)" "mh_mysql h2" "mh_alive h2"
    using link_Connect_eq [of ?l1 cio] assms(1,7,8) h(2) by auto
  obtain r3 h3 where e: "handler_ExecuteSql qio probe_sql h2 = Some (r3, h3)" "mh_alive h3"
    using ExecuteSql_alive [OF c(2,3) assms(9,10)] by blast
  show ?thesis
    using h c e assms(3,11) by (simp add: link_Update_def Let_def database_Connect_def db_log_def)
qed

definition lost_io :: query_io where
  "lost_io = \<lparr>qi_ok = False, qi_result = None, qi_field_count = 0, qi_errno = 2006\<rparr>"

theorem lost_connection_revived_witness:
  "\<exists>h l1. link_Update fine_io empty_io 1000 ((link_new sample_login)\<lparr>lk_handler := h\<rparr>) = Some l1 \<and> mh_alive (lk_handler l1)"
proof -
  let ?l = "link_new sample_login"
  have a: "login_ok (lk_login ?l)" "mh_mysql (lk_handler ?l)" "db_free (lk_db ?l)" "\<not> qi_ok lost_io" "qi_errno lost_io \<in> {2006, 2013, 2055}"
    by (simp_all add: link_new_def login_ok_def sample_login_def handler_Init_def database_new_def lost_io_def)
  obtain r h where e: "handler_ExecuteSql lost_io [] (lk_handler ?l) = Some (r, h)" using ExecuteSql_mysql [OF a(2)] by blast
  have "cn_charset fine_io" "cn_connected fine_io" "qi_ok empty_io" "qi_field_count empty_io = 0 \<or> qi_result empty_io \<noteq> None" "(30 :: int) < 1000"
    by (simp_all add: fine_io_def empty_io_def)
  from lost_connection_revived [OF a e this] show ?thesis by blast
qed

text \<open>The results that MySQL stored for the handler and that were not freed.\<close>

definition unfreed :: "mysql_handler \<Rightarrow> int" where
  "unfreed h = int (count_list (mh_calls h) CStoreResult) - int (count_list (mh_calls h) CFreeResult)"

text \<open>Every query that keeps the connection awake leaks its result.\<close>

theorem probe_leaks:
  assumes "db_free (lk_db l)" and "mh_mysql (lk_handler l)" and "mh_alive (lk_handler l)"
    and "30 < now - db_last_travel_time (lk_db l)" and "qi_ok qio" and "qi_result qio \<noteq> None"
    and "link_Update cio qio now l = Some l1"
  shows "unfreed (lk_handler l1) = unfreed (lk_handler l) + 1"
  using assms by (auto simp: link_Update_def Let_def db_log_def handler_ExecuteSql_def mysql_calls_def unfreed_def
      bind_eq_Some_conv split: option.splits)

theorem probe_leaks_witness:
  "\<exists>l l1. link_Update fine_io empty_io 31 l = Some l1 \<and> unfreed (lk_handler l1) = 1"
proof -
  let ?l = "(link_new sample_login)\<lparr>lk_handler := (handler_Init handler_new)\<lparr>mh_alive := True\<rparr>\<rparr>"
  have a: "db_free (lk_db ?l)" "mh_mysql (lk_handler ?l)" "mh_alive (lk_handler ?l)" "30 < 31 - db_last_travel_time (lk_db ?l)"
    "qi_ok empty_io" "qi_result empty_io \<noteq> None"
    by (simp_all add: link_new_def handler_Init_def database_new_def empty_io_def)
  obtain l1 where u: "link_Update fine_io empty_io 31 ?l = Some l1"
    by (auto simp: link_Update_def link_new_def database_new_def Let_def db_log_def handler_ExecuteSql_def handler_Init_def mysql_calls_def empty_io_def)
  have "unfreed (lk_handler ?l) = 0" by (simp add: unfreed_def handler_Init_def handler_new_def mysql_calls_def)
  then show ?thesis using probe_leaks [OF a u] u by auto
qed

end
