(* ===== verification/GameCommands.thy ===== *)
theory GameCommands
  imports GameScripts NetMgr AsyncTasks Logger DatabaseLink MysqlStmt
begin

text \<open>
  The commands of the game server (\<^verbatim>\<open>gameserver/GameServerInput.cpp\<close>) and the database jobs that one of them
  gives to the workers: they run over the models of the network, the scripts, the worker pool, the logger and
  the database connections.
\<close>

section \<open>Database jobs\<close>

definition zero_buffer :: "u32 \<Rightarrow> mem" where
  "zero_buffer n = replicate (unat n) (Some 0)"

definition quote :: char where "quote = CHR 0x27"

definition select_sql :: "byte list" where
  "select_sql = bytes (''select id, bin1, bin2 from player_data where id = '' @ [quote] @ ''710485708'' @ [quote])"

text \<open>The body of the loop of \<^verbatim>\<open>on_thread_proc\<close>: the buffers are filled and forgotten.\<close>

definition read_row :: "query_result \<Rightarrow> nat \<Rightarrow> nat option" where
  "read_row rs n = do {
     id \<leftarrow> qr_GetInt32 rs 0;
     l1 \<leftarrow> qr_GetLength rs 1;
     l2 \<leftarrow> qr_GetLength rs 2;
     let len1 = (ucast l1 :: u32);
     let len2 = (ucast l2 :: u32);
     r1 \<leftarrow> qr_GetBinary rs 1 (zero_buffer len1) (ucast len1);
     r2 \<leftarrow> qr_GetBinary rs 2 (zero_buffer len2) (ucast len2);
     Some (n + 1)
   }"

text \<open>
  The connection is looked for among all of them and given back at the end, at the time \<open>now\<close>.  The result is the
  number of rows, when there was a connection and a result.
\<close>

definition on_thread_proc :: "query_io \<Rightarrow> int \<Rightarrow> db_link list \<Rightarrow> (nat option \<times> db_link list) option" where
  "on_thread_proc qio now links =
     (case GetFreeConnection (map lk_db links) of
        (None, dbs) \<Rightarrow> Some (None, links)
      | (Some i, dbs) \<Rightarrow> do {
          let l = (links ! i)\<lparr>lk_db := dbs ! i\<rparr>;
          (rs, h1) \<leftarrow> handler_ExecuteSql qio select_sql (lk_handler l);
          (n, h2) \<leftarrow> (case rs of
                       None \<Rightarrow> Some (None, h1)
                     | Some q \<Rightarrow> do { (q1, n) \<leftarrow> while_rows qr_NextRow read_row q 0; Some (Some n, qr_destroy q1 h1) });
          Some (n, links[i := l\<lparr>lk_handler := h2, lk_db := database_Release now (lk_db l)\<rparr>])
        })"

definition update_sql :: "byte list" where
  "update_sql = bytes (''update player_data set bin1=?, bin2=? where id = '' @ [quote] @ ''710485708'' @ [quote])"

definition update_params :: "bind_param list" where
  "update_params =
     [\<lparr>bp_is_null = False, bp_type = MBT_Binary, bp_buffer = Some (replicate 100 (Some 0)), bp_length = 100\<rparr>,
      \<lparr>bp_is_null = False, bp_type = MBT_Binary, bp_buffer = Some (replicate 200 (Some 3)), bp_length = 200\<rparr>]"

definition read_stmt_row :: "stmt_cursor \<Rightarrow> nat \<Rightarrow> nat option" where
  "read_stmt_row c n = do {
     let rs = fst (snd c);
     id \<leftarrow> stmt_GetInt32 rs 0;
     l1 \<leftarrow> stmt_GetLength rs 1;
     l2 \<leftarrow> stmt_GetLength rs 2;
     let len1 = (ucast l1 :: u32);
     let len2 = (ucast l2 :: u32);
     r1 \<leftarrow> stmt_GetBinary rs 1 (zero_buffer len1) (ucast len1);
     r2 \<leftarrow> stmt_GetBinary rs 2 (zero_buffer len2) (ucast len2);
     Some (n + 1)
   }"

text \<open>\<open>fetches\<close> are the replies to the rows that the statement is asked for.\<close>

definition on_thread_proc_stmt :: "prepare_io \<Rightarrow> execute_io \<Rightarrow> fetch_reply list \<Rightarrow> int \<Rightarrow> db_link list \<Rightarrow> db_link list option" where
  "on_thread_proc_stmt pio xio fetches now links =
     (case GetFreeConnection (map lk_db links) of
        (None, dbs) \<Rightarrow> Some links
      | (Some i, dbs) \<Rightarrow> do {
          let l = (links ! i)\<lparr>lk_db := dbs ! i\<rparr>;
          (hh, h1) \<leftarrow> CreateStmtHander pio update_sql (lk_handler l);
          h4 \<leftarrow> (case hh of
                   None \<Rightarrow> Some h1
                 | Some s \<Rightarrow> do {
                     (rows, s1, h2) \<leftarrow> stmt_Execute xio (Some update_params) s h1;
                     (if rows
                      then do {
                        query \<leftarrow> sh_query s1;
                        r \<leftarrow> query;
                        ((fs, r1, h3), n) \<leftarrow> while_rows stmt_advance read_stmt_row (fetches, r, h2) 0;
                        stmt_destroy (s1\<lparr>sh_query := Some (Some r1)\<rparr>) h3
                      }
                      else stmt_destroy s1 h2)
                   });
          Some (links[i := l\<lparr>lk_handler := h4, lk_db := database_Release now (lk_db l)\<rparr>])
        })"

section \<open>Commands\<close>

datatype game_command = OnZcg | OnTest | OnReload | OnTestDB | OnTestLua

text \<open>\<open>g_plr\<close> is the player that \<^verbatim>\<open>zcg\<close> creates, as scripts see it; \<open>g_task\<close> names the next task.\<close>

record game =
  g_log :: logger
  g_plr :: "lua_val option"
  g_world :: world
  g_sys :: sys
  g_lua :: lua_engine
  g_pool :: pool
  g_task :: nat

text \<open>What the surroundings give: the time of the log, the answers of the kernel, Lua and the file system.\<close>

record game_env =
  ge_time :: local_tm
  ge_connect :: Connector.connect_io
  ge_call :: "lua_val \<Rightarrow> lua_val list \<Rightarrow> lua_result"
  ge_loadfile :: "byte list \<Rightarrow> lua_val + lua_val"
  ge_opendir :: "string \<Rightarrow> (string \<times> fs_node) list"
  ge_globals :: lua_entries
  ge_player :: lua_val
  ge_null :: lua_val

text \<open>Three values through a byte buffer, as \<^verbatim>\<open>zcg\<close> tries it.\<close>

definition zcg_buffer :: "u8 \<Rightarrow> byte list \<Rightarrow> u64 \<Rightarrow> (u8 option \<times> byte list \<times> u64 option) option" where
  "zcg_buffer v1 v3 v2 = do {
     b1 \<leftarrow> bb_put (bb_new 22) v1;
     b2 \<leftarrow> bb_put_string b1 v3;
     b3 \<leftarrow> bb_put b2 v2;
     (aa, b4) \<leftarrow> bb_get b3 (Some 0);
     (str, b5) \<leftarrow> bb_get_string b4 [];
     (bb, b6) \<leftarrow> bb_get b5 (Some 0);
     Some (aa, str, bb)
   }"

text \<open>The comparison of a signed difference with an unsigned number is unsigned.\<close>

definition zcg_message :: "u32 \<Rightarrow> u32 \<Rightarrow> u32 \<Rightarrow> string" where
  "zcg_message a1 b1 c1 = (if a1 - b1 > c1 then ''>>>'' else '' error occurl'')"

definition game_OnZcg :: "game_env \<Rightarrow> game \<Rightarrow> game option" where
  "game_OnZcg ev g = do {
     l1 \<leftarrow> log_Debug (ge_time ev) ''ddddd'' (g_log g);
     l2 \<leftarrow> log_Info (ge_time ev) ''xxxxx'' l1;
     l3 \<leftarrow> log_Warning (ge_time ev) ''eeeee'' l2;
     l4 \<leftarrow> log_Error (ge_time ev) ''eeeeeee'' l3;
     l5 \<leftarrow> log_Fatal (ge_time ev) ''bbbbb'' l4;
     v \<leftarrow> zcg_buffer 34 (bytes ''fuck'') 10000333;
     l6 \<leftarrow> log_Fatal (ge_time ev) (zcg_message 100 200 50) l5;
     l7 \<leftarrow> SetColor (unat (lt_code LT_DEBUG)) l6;
     let l8 = l7\<lparr>lg_screen := lg_screen l7 @ ''this is preboy speaking!'' @ [newline]\<rparr>;
     let l9 = ResetColor l8;
     Some (g\<lparr>g_log := l9, g_plr := (case g_plr g of None \<Rightarrow> Some (ge_player ev) | Some p \<Rightarrow> Some p)\<rparr>)
   }"

definition game_OnTest :: "game_env \<Rightarrow> game \<Rightarrow> game option" where
  "game_OnTest ev g = do {
     (w, y) \<leftarrow> NetMgr_ConnTest (ge_connect ev) (g_world g) (g_sys g);
     Some (g\<lparr>g_world := w, g_sys := y\<rparr>)
   }"

text \<open>The second word is read from the array only when there is one.\<close>

definition game_OnReload :: "game_env \<Rightarrow> nat \<Rightarrow> string \<Rightarrow> game \<Rightarrow> game option" where
  "game_OnReload ev argc argv g =
     (if argc > 1
      then do {
        arg \<leftarrow> c_str argv PARAM_LEN;
        (if stricmp arg ''script''
         then do { s \<leftarrow> ReloadScripts (ge_call ev) (ge_loadfile ev) (ge_opendir ev) (g_lua g); Some (g\<lparr>g_lua := s\<rparr>) }
         else Some g)
      }
      else Some g)"

text \<open>The task is \<open>on_thread_proc_stmt\<close>; it has no completion callback.\<close>

definition game_OnTestDB :: "game \<Rightarrow> game" where
  "game_OnTestDB g = g\<lparr>g_pool := at_PushTask (g_task g) False (g_pool g), g_task := Suc (g_task g)\<rparr>"

text \<open>
  The player is pushed as a user datum, also when it is a null pointer; its metatable, when it has one, is pushed
  and popped again.
\<close>

definition game_OnTestLua :: "game_env \<Rightarrow> game \<Rightarrow> game option" where
  "game_OnTestLua ev g = do {
     (found, s1) \<leftarrow> PushFunction (ge_globals ev) (bytes ''on_s'') (g_lua g);
     let s2 = push_value (case g_plr g of None \<Rightarrow> ge_null ev | Some p \<Rightarrow> p) s1;
     (ok, s3) \<leftarrow> ExecFunction (ge_call ev) 1 0 s2;
     Some (g\<lparr>g_lua := s3\<rparr>)
   }"

definition game_on_quit :: "game \<Rightarrow> game option" where
  "game_on_quit g = do { (w, y) \<leftarrow> NetMgr_OnQuit (g_world g) (g_sys g); Some (g\<lparr>g_world := w, g_sys := y\<rparr>) }"

definition game_hooks :: "game_env \<Rightarrow> (game_command, game) cmd_hooks" where
  "game_hooks ev = \<lparr>ch_quit = game_on_quit,
     ch_user = (\<lambda>c argc argv g. case c of
        OnZcg \<Rightarrow> game_OnZcg ev g
      | OnTest \<Rightarrow> game_OnTest ev g
      | OnReload \<Rightarrow> game_OnReload ev argc argv g
      | OnTestDB \<Rightarrow> Some (game_OnTestDB g)
      | OnTestLua \<Rightarrow> game_OnTestLua ev g)\<rparr>"

text \<open>The constructor: the commands of the base class first.\<close>

definition game_input_new :: "game_command command_input option" where
  "game_input_new = do {
     s0 \<leftarrow> command_input_new;
     s1 \<leftarrow> add_command ''zcg'' (User OnZcg) ''print a message'' (''show color '' @ [newline] @ '' text'') s0;
     s2 \<leftarrow> add_command ''cc'' (User OnTest) ''test connection'' ''start to connect a server with param'' s1;
     s3 \<leftarrow> add_command ''reload'' (User OnReload) ''reload <param>'' (''reload script  '' @ [newline] @ '' print a message'') s2;
     s4 \<leftarrow> add_command ''db'' (User OnTestDB) ''db'' ''test db functional'' s3;
     add_command ''lua'' (User OnTestLua) ''lua'' ''teset lua serialize/deserialize'' s4
   }"

section \<open>Properties\<close>

lemma on_thread_proc_undefined:
  assumes "GetFreeConnection (map lk_db links) = (Some i, dbs)" and "mh_mysql (lk_handler (links ! i))"
    and "pi_meta pio = None"
  shows "on_thread_proc_stmt pio xio fetches now links = None"
proof -
  let ?l = "(links ! i)\<lparr>lk_db := dbs ! i\<rparr>"
  have m: "mh_mysql (lk_handler ?l)" using assms(2) by simp
  show ?thesis
  proof (cases "CreateStmtHander pio update_sql (lk_handler ?l)")
    case None
    then show ?thesis using assms(1) by (simp add: on_thread_proc_stmt_def)
  next
    case (Some out)
    then obtain s h1 where o: "out = (Some s, h1)" "sh_query s = None" "\<not> sh_meta s"
      using Create_no_meta [OF Some m] assms(3) by blast
    show ?thesis
    proof (cases "stmt_Execute xio (Some update_params) s h1")
      case None
      then show ?thesis using assms(1) Some o by (simp add: on_thread_proc_stmt_def)
    next
      case (Some x)
      then have "fst x = False" "sh_query (fst (snd x)) = None" using Execute_no_meta [OF Some o(3)] o(2) by simp_all
      then show ?thesis
        using assms(1) \<open>CreateStmtHander pio update_sql (lk_handler ?l) = Some out\<close> o Some
        by (cases x) (simp add: on_thread_proc_stmt_def destroy_unset)
    qed
  qed
qed

text \<open>
  The command \<^verbatim>\<open>db\<close> ends in undefined behaviour whenever a connection is free: its statement is an update, which has no
  result, and a statement without a result cannot be deleted.
\<close>

theorem db_command_undefined:
  assumes "GetFreeConnection (map lk_db links) = (Some i, dbs)" and "mh_mysql (lk_handler (links ! i))"
    and "pi_meta pio = None"
  shows "on_thread_proc_stmt pio xio fetches now links = None"
  using assms by (rule on_thread_proc_undefined)

theorem db_command_undefined_witness:
  "on_thread_proc_stmt update_prepare_io run_io [] 0 [link_new sample_login] = None"
proof -
  obtain dbs where "GetFreeConnection (map lk_db [link_new sample_login]) = (Some 0, dbs)"
    by (simp add: GetFreeConnection_eq link_new_def database_new_def)
  moreover have "mh_mysql (lk_handler ([link_new sample_login] ! 0))" by (simp add: link_new_def handler_Init_def)
  ultimately show ?thesis by (rule db_command_undefined) (simp add: update_prepare_io_def)
qed

lemma unat_ucast_up: "unat (ucast w :: u64) = unat w" for w :: u32
  using unat_bound [of w] by (simp add: unsigned_ucast_eq take_bit_nat_eq_self)

lemma read_row_ok:
  assumes "qr_ok q" and "qr_row q = Some row" and "3 \<le> qr_num_fields q"
    and "list_all (\<lambda>c. length (column_bytes c) < 2 ^ 32) row"
  shows "read_row q n = Some (n + 1)"
proof -
  have lt: "0 < qr_num_fields q" "1 < qr_num_fields q" "2 < qr_num_fields q"
    using assms(3) by (auto simp: word_less_nat_alt word_le_nat_alt)
  have u: "unat (ucast (column_length (row ! unat i)) :: u32) = length (column_bytes (row ! unat i))" if "i < qr_num_fields q" for i
  proof -
    have "unat i < length row" using that assms(1,2) by (auto simp: qr_ok_def row_ok_def word_less_nat_alt)
    then have "length (column_bytes (row ! unat i)) < 2 ^ 32" using assms(4) by (simp add: list_all_length)
    then show ?thesis using qr_column_ok(3) [OF assms(1,2) that] by (simp add: unsigned_ucast_eq take_bit_eq_mod)
  qed
  have b: "\<exists>r. qr_GetBinary q i (zero_buffer (ucast (column_length (row ! unat i)))) (ucast (ucast (column_length (row ! unat i)) :: u32)) = Some r"
    if "i < qr_num_fields q" for i
  proof -
    have "unat (ucast (ucast (column_length (row ! unat i)) :: u32) :: u64) = unat (ucast (column_length (row ! unat i)) :: u32)"
      by (rule unat_ucast_up)
    then have "unat (ucast (ucast (column_length (row ! unat i)) :: u32) :: u64) \<le>
        length (zero_buffer (ucast (column_length (row ! unat i))))" by (simp add: zero_buffer_def)
    from binary_column_written [OF assms(1) this, of i] assms(2) that show ?thesis by (auto simp: Let_def)
  qed
  have g: "qr_GetLength q i = Some (column_length (row ! unat i))" if "i < qr_num_fields q" for i
    using qr_column_ok(2) [OF assms(1,2) that] that assms(2) by (auto simp: qr_GetLength_def)
  have i: "\<exists>v. qr_GetInt32 q 0 = Some v" using qr_column_ok(1) [OF assms(1,2) lt(1)] lt(1) by (auto simp: qr_GetInt32_def)
  show ?thesis using i g [OF lt(2)] g [OF lt(3)] b [OF lt(2)] b [OF lt(3)] by (auto simp: read_row_def Let_def)
qed

text \<open>
  The query job counts the rows of its result and gives the connection back; it needs rows of at least three columns, each shorter
  than 4 gigabytes.  The connection it uses is the first free one.
\<close>

theorem on_thread_proc_rows:
  assumes "GetFreeConnection (map lk_db links) = (Some i, dbs)" and "mh_mysql (lk_handler (links ! i))"
    and "qi_ok qio" and "qi_result qio = Some res"
    and "list_all (row_ok (unat (res_fields res))) (res_rows res)" and "3 \<le> res_fields res"
    and "list_all (list_all (\<lambda>c. length (column_bytes c) < 2 ^ 32)) (res_rows res)"
  shows "\<exists>links1. on_thread_proc qio now links = Some (Some (length (res_rows res)), links1)
    \<and> length links1 = length links \<and> db_free (lk_db (links1 ! i)) \<and> (\<forall>j. j \<noteq> i \<longrightarrow> links1 ! j = links ! j)"
proof -
  let ?l = "(links ! i)\<lparr>lk_db := dbs ! i\<rparr>" and ?q = "qr_new res"
  have i: "i < length links" using free_connection_spec [OF assms(1)] by simp
  obtain h1 where e: "handler_ExecuteSql qio select_sql (lk_handler ?l) = Some (Some ?q, h1)"
    using assms(2-4) by (simp add: handler_ExecuteSql_def Let_def)
  have b: "read_row q n = Some (n + 1)" if q: "qr_ok q" "qr_row q = Some x" "x \<in> set (qr_todo ?q)" for q x n
  proof -
    have "length x = unat (qr_num_fields q)" using q(1,2) by (simp add: qr_ok_def row_ok_def)
    moreover have "length x = unat (res_fields res)" using q(3) assms(5) by (auto simp: list_all_iff row_ok_def)
    ultimately have "3 \<le> qr_num_fields q" using assms(6) by (simp add: word_le_nat_alt)
    then show ?thesis using q assms(7) by (intro read_row_ok) (auto simp: list_all_iff)
  qed
  have "\<exists>r'. while_rows qr_NextRow read_row ?q 0 = Some (r', length (qr_todo ?q))"
    by (rule plain.row_count [OF qr_ok_new [OF assms(5)]]) (rule b)
  then obtain q1 where w: "while_rows qr_NextRow read_row ?q 0 = Some (q1, length (res_rows res))" by auto
  have "on_thread_proc qio now links = Some (Some (length (res_rows res)),
      links[i := ?l\<lparr>lk_handler := qr_destroy q1 h1, lk_db := database_Release now (lk_db ?l)\<rparr>])"
    using assms(1) e w by (simp add: on_thread_proc_def)
  then show ?thesis using i by (simp add: database_Release_def)
qed

definition rows_io :: query_io where
  "rows_io = \<lparr>qi_ok = True, qi_result = Some \<lparr>res_rows = [[Some [55], Some [1, 2], None]], res_fields = 3\<rparr>, qi_field_count = 3, qi_errno = 0\<rparr>"

theorem on_thread_proc_rows_witness:
  "\<exists>links1. on_thread_proc rows_io 0 [link_new sample_login] = Some (Some 1, links1)"
proof -
  let ?res = "\<lparr>res_rows = [[Some [55], Some [1, 2], None]], res_fields = 3\<rparr>"
  obtain dbs where g: "GetFreeConnection (map lk_db [link_new sample_login]) = (Some 0, dbs)"
    by (simp add: GetFreeConnection_eq link_new_def database_new_def)
  have a: "mh_mysql (lk_handler ([link_new sample_login] ! 0))" "qi_ok rows_io" "qi_result rows_io = Some ?res"
    "list_all (row_ok (unat (res_fields ?res))) (res_rows ?res)" "3 \<le> res_fields ?res"
    "list_all (list_all (\<lambda>c. length (column_bytes c) < 2 ^ 32)) (res_rows ?res)"
    by (simp_all add: link_new_def handler_Init_def rows_io_def row_ok_def column_bytes_def)
  from on_thread_proc_rows [OF g a, of 0] show ?thesis by auto
qed

section \<open>The terminal\<close>

lemma game_commands_fit:
  "map_option (\<lambda>s. map cf_name (ci_config s)) game_input_new =
     Some [''quit'', ''help'', ''list'', ''?'', ''zcg'', ''cc'', ''reload'', ''db'', ''lua'']"
  by (simp add: game_input_new_def command_input_new_def add_command_def PARAM_LEN_def HELP_LEN_def DESC_LEN_def newline_def)

text \<open>All texts of the commands fit into their arrays; the names of the commands in the order of the table.\<close>

theorem game_commands:
  "map_option (\<lambda>s. map cf_name (ci_config s)) game_input_new =
     Some [''quit'', ''help'', ''list'', ''?'', ''zcg'', ''cc'', ''reload'', ''db'', ''lua'']"
  by (rule game_commands_fit)

definition game_input :: "game_command command_input" where
  "game_input = the game_input_new"

lemmas command_texts = game_input_def game_input_new_def command_input_new_eq add_command_def PARAM_LEN_def HELP_LEN_def
  DESC_LEN_def newline_def

lemma game_input_sel:
  "ci_queue game_input = []"
  "List.find (\<lambda>cc. stricmp ''reload'' (cf_name cc)) (ci_config game_input) =
     Some \<lparr>cf_name = ''reload'', cf_help = ''reload <param>'', cf_desc = ''reload script  '' @ [newline] @ '' print a message'', cf_func = User OnReload\<rparr>"
  by (simp_all add: command_texts stricmp_def to_lower_def)

text \<open>
  C33. The line \<^verbatim>\<open>reload script\<close> is queued by the terminal and, in the next frame, runs the script files again, and nothing else:
  the queue is empty and the rest of the game as before.
\<close>

theorem reload_command:
  "do { (queued, s1, g1) \<leftarrow> parse_command (game_hooks ev) (''reload script'' @ [newline]) game_input g;
        (s2, g2) \<leftarrow> input_Update (game_hooks ev) s1 g1;
        Some (queued, s2, g2) } =
   map_option (\<lambda>lua. (True, game_input, g\<lparr>g_lua := lua\<rparr>))
     (ReloadScripts (ge_call ev) (ge_loadfile ev) (ge_opendir ev) (g_lua g))"
proof -
  let ?ws = "[''reload'', ''script'']" and ?line = "''reload script''"
  have l: "strip_newline (?line @ [newline]) = ?line" by (simp add: strip_newline_def newline_def)
  have p: "parse_words ?line 0 empty_argv = (2, argv_of ?ws)" by (simp add: parse_line is_sep_def PARAM_CNT_def)
  have c0: "c_str (argv_of ?ws) 0 = Some ''reload''" and c1: "c_str (argv_of ?ws) PARAM_LEN = Some ''script''"
    using c_str_word [of 0 ?ws] c_str_word [of 1 ?ws] by (simp_all add: PARAM_LEN_def PARAM_CNT_def)
  have n: "\<not> stricmp ''quit'' ''reload''" "\<not> stricmp ''help'' ''reload''" "\<not> stricmp ''list'' ''reload''"
    by (simp_all add: stricmp_def to_lower_def)
  have s: "stricmp ''script'' ''script''" by (simp add: stricmp_def)
  let ?ci = "\<lparr>in_argc = 2, in_argv = argv_of ?ws, in_func = User OnReload\<rparr>"
  have "parse_command (game_hooks ev) (?line @ [newline]) game_input g = Some (True, game_input\<lparr>ci_queue := [?ci]\<rparr>, g)"
    by (simp only: parse_command_def l p Let_def prod.case) (simp add: c0 n game_input_sel)
  moreover have "input_Update (game_hooks ev) (game_input\<lparr>ci_queue := [?ci]\<rparr>) g =
      map_option (\<lambda>g1. (game_input\<lparr>ci_queue := []\<rparr>, g1)) (game_OnReload ev 2 (argv_of ?ws) g)"
    by (cases "game_OnReload ev 2 (argv_of ?ws) g") (simp_all add: input_Update_def game_hooks_def)
  moreover have "game_input\<lparr>ci_queue := []\<rparr> = game_input" by (simp add: game_input_sel(1) flip: game_input_sel(1))
  moreover have "game_OnReload ev 2 (argv_of ?ws) g =
      map_option (\<lambda>lua. g\<lparr>g_lua := lua\<rparr>) (ReloadScripts (ge_call ev) (ge_loadfile ev) (ge_opendir ev) (g_lua g))"
    by (cases "ReloadScripts (ge_call ev) (ge_loadfile ev) (ge_opendir ev) (g_lua g)") (simp_all add: game_OnReload_def c1 s)
  ultimately show ?thesis
    by (cases "ReloadScripts (ge_call ev) (ge_loadfile ev) (ge_opendir ev) (g_lua g)") simp_all
qed

text \<open>
  Three values of the sizes that \<^verbatim>\<open>zcg\<close> uses come back from its buffer of 22 bytes, whatever they are; and the difference
  of the numbers that it compares is taken for a large one.
\<close>

theorem zcg_values:
  assumes "0 \<notin> set str" and "length str \<le> 12"
  shows "zcg_buffer v1 str v2 = Some (Some v1, str, Some v2) \<and> zcg_message 100 200 50 = ''>>>''"
proof -
  let ?b = "bb_new 22"
  have b: "bb_wf ?b" "bb_content ?b = []" "bb_room ?b = 22" using bb_wf_new [of 22] by simp_all
  obtain b1 where b1: "bb_put ?b v1 = Some b1" "bb_wf b1" "bb_content b1 = map Some (word_bytes v1)" "bb_room b1 = 21"
    using bb_put_ok [OF b(1), of v1] b by auto
  obtain b2 where b2: "bb_put_string b1 str = Some b2" "bb_wf b2"
    "bb_content b2 = map Some (word_bytes v1) @ map Some (str @ [0])" "8 \<le> bb_room b2"
    using bb_put_string_ok [OF b1(2) assms(1)] b1(3,4) assms(2) by auto
  obtain b3 where b3: "bb_put b2 v2 = Some b3" "bb_wf b3"
    "bb_content b3 = map Some (word_bytes v1) @ map Some (str @ [0]) @ map Some (word_bytes v2)"
    using bb_put_ok [OF b2(2), of v2] b2(3,4) by auto
  obtain b4 where b4: "bb_get b3 (Some 0) = Some (Some v1, b4)" "bb_wf b4"
    "bb_content b4 = map Some (str @ [0]) @ map Some (word_bytes v2)"
    using bb_get_ok [OF b3(2,3), of "Some 0"] by auto
  obtain b5 where b5: "bb_get_string b4 [] = Some (str, b5)" "bb_wf b5" "bb_content b5 = map Some (word_bytes v2)"
    using bb_get_string_ok [OF b4(2) assms(1) b4(3)] by auto
  obtain b6 where "bb_get b5 (Some 0) = Some (Some v2, b6)"
    using bb_get_ok [of b5 v2 "[]" "Some 0"] b5(2,3) by auto
  then show ?thesis using b1(1) b2(1) b3(1) b4(1) b5(1) by (simp add: zcg_buffer_def zcg_message_def)
qed

theorem zcg_values_witness:
  "zcg_buffer 34 (bytes ''abc'') 10000333 = Some (Some 34, bytes ''abc'', Some 10000333)"
proof -
  have "0 \<notin> set (bytes ''abc'')" "length (bytes ''abc'') \<le> 12" by (simp_all add: bytes_def)
  from zcg_values [OF this] show ?thesis by blast
qed

text \<open>
  The command \<^verbatim>\<open>lua\<close> calls the script function \<^verbatim>\<open>on_s\<close> with the player and leaves the Lua stack empty, whether the function
  succeeds or not; when there is no such function it is undefined.
\<close>

theorem test_lua_command:
  assumes "lua_rawget (ge_globals ev) (str_key name_zcg) = LTab l p es" and "eg_stack (g_lua g) = []"
  shows "game_OnTestLua ev g =
    (if lua_rawget (ge_globals ev) (str_key (bytes ''on_s'')) = LNil then None
     else Some (g\<lparr>g_lua := (g_lua g)\<lparr>eg_fn := Some None\<rparr>\<rparr>))"
proof (cases "lua_rawget (ge_globals ev) (str_key (bytes ''on_s'')) = LNil")
  case True
  then show ?thesis
    using ExecFunction_empty [of "push_value v ((g_lua g)\<lparr>eg_fn := Some (Some (bytes ''on_s''))\<rparr>)" 1 v 1 "ge_call ev" 0 for v] assms(2)
    by (simp add: game_OnTestLua_def PushFunction_eq [OF assms(1)] push_value_def)
next
  case False
  let ?f = "lua_rawget (ge_globals ev) (str_key (bytes ''on_s''))" and ?h = "lua_rawget es (str_key name_dump_locals)"
  let ?v = "case g_plr g of None \<Rightarrow> ge_null ev | Some p \<Rightarrow> p"
  let ?s = "(g_lua g)\<lparr>eg_fn := Some (Some (bytes ''on_s'')), eg_stack := [?v, ?f, ?h]\<rparr>"
  have "ExecFunction (ge_call ev) (length [?v]) (int 0) ?s = Some (case ge_call ev ?f [?v] of
      Inl err \<Rightarrow> (False, ?s\<lparr>eg_stack := [], eg_fn := Some None\<rparr>)
    | Inr rs \<Rightarrow> (True, ?s\<lparr>eg_stack := rev (adjust_results 0 rs), eg_fn := Some None\<rparr>))"
    by (subst ExecFunction_eq [where h = ?h and f = ?f and st = "[]" and fn = "Some (bytes ''on_s'')"]) (simp_all split: sum.split)
  moreover have "adjust_results 0 rs = []" for rs using length_adjust [of 0 rs] by simp
  ultimately show ?thesis
    using False assms(2) by (simp add: game_OnTestLua_def PushFunction_eq [OF assms(1)] push_value_def split: sum.split)
qed

definition lua_globals :: lua_entries where
  "lua_globals = [(str_key name_zcg, LTab False False [(str_key name_dump_locals, LOther 1)]), (str_key (bytes ''on_s''), LOther 3)]"

definition quiet_env :: game_env where
  "quiet_env = \<lparr>ge_time = \<lparr>lt_year = 124, lt_mon = 0, lt_mday = 1, lt_hour = 0, lt_min = 0, lt_sec = 0\<rparr>,
     ge_connect = \<lparr>ci_socket = 5, ci_bind = 0, ci_pton = 1, ci_errno = 0, ci_replies = []\<rparr>,
     ge_call = (\<lambda>f args. Inr []), ge_loadfile = (\<lambda>f. Inl LNil), ge_opendir = (\<lambda>d. []), ge_globals = lua_globals,
     ge_player = LOther 7, ge_null = LOther 8\<rparr>"

definition new_game :: game where
  "new_game = \<lparr>g_log = logger_new, g_plr = None,
     g_world = \<lparr>w_mgr = netmgr_new, w_env = first_env, w_next = 1, w_lost = []\<rparr>, g_sys = first_sys,
     g_lua = engine_Init, g_pool = pool_new, g_task = 0\<rparr>"

lemma lua_globals_lookup:
  "lua_rawget lua_globals (str_key name_zcg) = LTab False False [(str_key name_dump_locals, LOther 1)]"
  "lua_rawget lua_globals (str_key (bytes ''on_s'')) = LOther 3"
  by (simp_all add: lua_globals_def lua_rawget_def str_key_def c_bytes_def name_zcg_def bytes_def)

theorem test_lua_command_witness:
  "game_OnTestLua quiet_env new_game = Some (new_game\<lparr>g_lua := (g_lua new_game)\<lparr>eg_fn := Some None\<rparr>\<rparr>)"
proof -
  have g: "lua_rawget (ge_globals quiet_env) (str_key name_zcg) = LTab False False [(str_key name_dump_locals, LOther 1)]"
    by (simp add: quiet_env_def lua_globals_lookup)
  have s: "eg_stack (g_lua new_game) = []" by (simp add: new_game_def engine_Init_def)
  show ?thesis unfolding test_lua_command [OF g s] by (simp add: quiet_env_def lua_globals_lookup)
qed

end
