(* ===== verification/GameServer.thy ===== *)
theory GameServer
  imports GameCommands GameObjects Timer Schedule Frame SessionStatus
begin

text \<open>
  The game server as a whole (\<^verbatim>\<open>gameserver/GameServerFrame.cpp\<close>): what its frame does at the start, in a frame
  and at the end, composed of the components, as the hooks of the frame loop of the theory \<open>Frame\<close>.

  The message queue is a member of the frame loop there and of the network world here; the hooks hand it over.
  What scripts and commands do to the tables of Lua is not modelled, so that the global variables are an argument.
\<close>

section \<open>State\<close>

record 'c server =
  sv_input :: "game_command command_input"
  sv_timers :: "'c timer_mgr"
  sv_game :: game
  sv_schedule :: schedule
  sv_links :: "db_link list"
  sv_config :: sys_config
  sv_api :: api_registry
  sv_frame :: nat

text \<open>
  What the surroundings give at the start, in the n-th frame, and at the end.  A timer's callback acts on the
  timers and the game.
\<close>

record start_env =
  st_game :: game_env
  st_conv :: lua_conv
  st_dofile :: "byte list \<Rightarrow> lua_val + lua_val list"
  st_connect :: db_connect_io
  st_listen :: listen_io

record 'c frame_env =
  fv_game :: game_env
  fv_runner :: "('c, game) runner"
  fv_tick :: u64
  fv_net :: mgr_io
  fv_localtime :: "int \<Rightarrow> calendar"
  fv_now :: int

record stop_env =
  sp_connector :: "nat \<Rightarrow> conn_update_io"
  sp_clients :: "nat \<Rightarrow> nat \<Rightarrow> update_io"
  sp_servers :: "nat \<Rightarrow> nat \<Rightarrow> update_io"
  sp_readings :: "bool list list"

section \<open>The hooks\<close>

definition login_of :: "sys_config \<Rightarrow> db_login" where
  "login_of sc = \<lparr>dl_host = sc_db_host sc, dl_user = sc_db_user sc, dl_passwd = sc_db_pwd sc, dl_db = sc_db_name sc,
     dl_port = sc_db_port sc, dl_charset = Some (sc_db_chat_set sc)\<rparr>"

definition server_on_start :: "start_env \<Rightarrow> 'c server \<Rightarrow> 'c server option" where
  "server_on_start ev sv = do {
     let g = sv_game sv;
     let ge = st_game ev;
     let lua0 = engine_Init;
     (sc, st) \<leftarrow> LoadSystemConfig (st_conv ev) (st_dofile ev) (LTab False False (ge_globals ge)) (sv_config sv) (eg_stack lua0);
     lua1 \<leftarrow> LoadScripts (ge_call ge) (ge_loadfile ge) (ge_opendir ge) (lua0\<lparr>eg_stack := st\<rparr>);
     lua2 \<leftarrow> start_scripts (ge_call ge) (ge_globals ge) lua1;
     let api = ScriptMgr_Init (sv_api sv);
     links \<leftarrow> link_Start (st_connect ev) (login_of sc) (sv_links sv);
     (w, y) \<leftarrow> NetMgr_Begin (st_listen ev) (sc_listen_pt sc) (g_world g) (g_sys g);
     Some (sv\<lparr>sv_game := g\<lparr>g_lua := lua2, g_world := w, g_sys := y\<rparr>, sv_config := sc, sv_api := api, sv_links := links\<rparr>)
   }"

definition server_on_stop :: "stop_env \<Rightarrow> 'c server \<Rightarrow> 'c server option" where
  "server_on_stop ev sv = do {
     (w, y) \<leftarrow> NetMgr_End (sp_connector ev) (sp_clients ev) (sp_servers ev) (g_world (sv_game sv)) (g_sys (sv_game sv));
     links \<leftarrow> link_Close (sp_readings ev) (sv_links sv);
     Some (sv\<lparr>sv_game := (sv_game sv)\<lparr>g_world := w, g_sys := y\<rparr>, sv_links := []\<rparr>)
   }"

text \<open>\<^verbatim>\<open>CMapMgr::Update\<close> calls the maps, which do nothing; there are none.\<close>

definition server_on_update :: "'c frame_env \<Rightarrow> 'c server \<Rightarrow> 'c server option" where
  "server_on_update ev sv = do {
     (input, g1) \<leftarrow> input_Update (game_hooks (fv_game ev)) (sv_input sv) (sv_game sv);
     let (timers, g2, ran) = timer_Update (fv_runner ev) (fv_tick ev) (sv_timers sv) g1;
     (w, y) \<leftarrow> NetMgr_Update (fv_net ev) (g_world g2) (g_sys g2);
     let (sched, hooks) = schedule_Update (fv_localtime ev) (fv_now ev) (sv_schedule sv);
     Some (sv\<lparr>sv_input := input, sv_timers := timers, sv_game := g2\<lparr>g_world := w, g_sys := y\<rparr>, sv_schedule := sched\<rparr>)
   }"

text \<open>The message queue in the network world of a server.\<close>

definition with_queue :: "mqueue \<Rightarrow> 'c server \<Rightarrow> 'c server" where
  "with_queue q sv = (let g = sv_game sv; w = g_world g
     in sv\<lparr>sv_game := g\<lparr>g_world := w\<lparr>w_env := (w_env w)\<lparr>ne_mq := q\<rparr>\<rparr>\<rparr>\<rparr>)"

definition queue_of :: "'c server \<Rightarrow> mqueue" where
  "queue_of sv = ne_mq (w_env (g_world (sv_game sv)))"

definition server_hooks :: "start_env \<Rightarrow> (nat \<Rightarrow> 'c frame_env) \<Rightarrow> stop_env \<Rightarrow> ('e, 'c server) callback_run \<Rightarrow>
    ('e, 'c server) frame_hooks" where
  "server_hooks a b c run =
     \<lparr>fh_start = (\<lambda>q sv. map_option (\<lambda>sv1. (queue_of sv1, sv1)) (server_on_start a (with_queue q sv))),
      fh_stop = (\<lambda>q sv. map_option (\<lambda>sv1. (queue_of sv1, sv1)) (server_on_stop c (with_queue q sv))),
      fh_update = (\<lambda>dt q sv. map_option (\<lambda>sv1. (queue_of sv1, sv1\<lparr>sv_frame := Suc (sv_frame sv1)\<rparr>))
                       (server_on_update (b (sv_frame sv)) (with_queue q sv))),
      fh_msg = (\<lambda>msg sv. map_option (\<lambda>w. sv\<lparr>sv_game := (sv_game sv)\<lparr>g_world := w\<rparr>\<rparr>) (server_on_msg msg (g_world (sv_game sv)))),
      fh_idle = id, fh_busy = id, fh_begin = id, fh_end = id, fh_run = run\<rparr>"

section \<open>Starting\<close>

text \<open>A script that loads, runs without an error and returns nothing.\<close>

definition clean_script :: "game_env \<Rightarrow> string \<Rightarrow> bool" where
  "clean_script ev f = (case ge_loadfile ev (bytes f) of Inl err \<Rightarrow> False | Inr fn \<Rightarrow> ge_call ev fn [] = Inr [])"

lemma exec_clean: "list_all (clean_script ev) fs \<Longrightarrow> exec_files (ge_call ev) (ge_loadfile ev) fs s = Some s"
proof (induction fs)
  case Nil
  then show ?case by simp
next
  case (Cons f fs)
  obtain fn where "ge_loadfile ev (bytes f) = Inr fn" "ge_call ev fn [] = Inr []"
    using Cons.prems by (auto simp: clean_script_def split: sum.splits)
  then have "ExecFile (ge_call ev) (ge_loadfile ev) (bytes f) s = Some (True, s)"
    by (simp add: ExecFile_def exec_loaded_def lua_pcall_def adjust_results_def MULTRET_def lua_remove_def Let_def)
  then show ?case using Cons by simp
qed

lemma start_scripts_ok:
  assumes "lua_rawget globals (str_key name_zcg) = LTab l p es" and "lua_rawget globals (str_key (bytes ''glof'')) \<noteq> LNil"
  shows "start_scripts call globals s = Some (s\<lparr>eg_fn := Some None\<rparr>)"
proof -
  let ?f = "lua_rawget globals (str_key (bytes ''glof''))" and ?h = "lua_rawget es (str_key name_dump_locals)"
  let ?s = "s\<lparr>eg_fn := Some (Some (bytes ''glof'')), eg_stack := ?f # ?h # eg_stack s\<rparr>"
  have "ExecFunction call (length ([] :: lua_val list)) (int 0) ?s = Some (case call ?f [] of
      Inl err \<Rightarrow> (False, ?s\<lparr>eg_stack := eg_stack s, eg_fn := Some None\<rparr>)
    | Inr rs \<Rightarrow> (True, ?s\<lparr>eg_stack := rev (adjust_results 0 rs) @ eg_stack s, eg_fn := Some None\<rparr>))"
    by (subst ExecFunction_eq [where h = ?h and f = ?f and st = "eg_stack s" and fn = "Some (bytes ''glof'')"]) (simp_all split: sum.split)
  moreover have "adjust_results 0 rs = []" for rs using length_adjust [of 0 rs] by simp
  ultimately show ?thesis
    using assms(2) by (simp add: start_scripts_def PushFunction_eq [OF assms(1)] split: sum.split)
qed

lemma RegisterHandler_log: "RegisterHandler fd key events y = (ok, k1, y1) \<Longrightarrow> set (sy_log y) \<subseteq> set (sy_log y1)"
  by (auto simp: RegisterHandler_def epoll_ctl_def sys_do_def Let_def split: if_splits)

lemma post_accept_log: "post_accept rs l y = Some (r, l', y', socks) \<Longrightarrow> set (sy_log y) \<subseteq> set (sy_log y')"
proof (induction rs arbitrary: socks)
  case Nil
  then show ?case by (auto simp: post_accept.simps split: if_splits)
next
  case (Cons x rs)
  obtain b k1 y1 where r: "RegisterHandler (l_socket l) (the (l_key l)) (or EPOLLIN EPOLLONESHOT) y = (b, k1, y1)"
    by (rule prod_cases3)
  show ?case
    using Cons RegisterHandler_log [OF r] r
    by (cases x) (auto simp: post_accept.simps [of "_ # _"] bind_eq_Some_conv split: if_splits)
qed

lemma accept_all_log: "accept_all socks w y = (w', y') \<Longrightarrow> set (sy_log y) \<subseteq> set (sy_log y')"
proof (induction socks arbitrary: w y)
  case Nil
  then show ?case by simp
next
  case (Cons sock socks)
  obtain w1 y1 where 1: "OnAccepted sock w y = (w1, y1)" by (rule prod.exhaust)
  then have "set (sy_log y) \<subseteq> set (sy_log y1)"
    by (auto simp: OnAccepted_def session_Attach_def sys_do_def Let_def split: prod.splits)
  then show ?case using Cons 1 by fastforce
qed

lemma listen_ok:
  assumes "li_socket io \<noteq> - 1" and "li_pton io = 1" and "li_bind io \<noteq> - 1" and "li_listen io \<noteq> - 1"
    and "first_stop (li_accepts io) = Some err"
  shows "\<exists>w' y' ss. NetMgr_Begin io port w y = Some (w', y') \<and> SysBind (li_socket io) port \<in> set (sy_log y')
    \<and> nm_clients (w_mgr w') = nm_clients (w_mgr w) @ ss \<and> map s_socket ss = accepted (li_accepts io)
    \<and> (\<exists>l. nm_listener (w_mgr w') = Some l \<and> l_status l = (if err = EAGAIN then LS_RUNNING else LS_ERROR))"
proof -
  let ?l = "(listener_new (w_next w))\<lparr>l_socket := li_socket io,
      l_key := Some \<lparr>ck_obj = l_id (listener_new (w_next w)), ck_func = ListenerCb, ck_status = IO_STATUS_COMPLETED\<rparr>,
      l_status := LS_RUNNING\<rparr>"
  let ?y = "sys_do (SysListen (li_socket io) 128) (sys_do (SysBind (li_socket io) port) y)"
  obtain ok l y1 where 1: "post_accept (li_accepts io) ?l ?y = Some (ok, l, y1, accepted (li_accepts io))"
    "l_status l = (if err = EAGAIN then LS_RUNNING else LS_ERROR)"
    using post_accept_spec [of ?l _ "li_accepts io" err ?y] assms(5)
    by (auto simp: listener_on_accept_error_def split: if_splits)
  let ?w = "w\<lparr>w_next := Suc (w_next w), w_mgr := (w_mgr w)\<lparr>nm_listener := Some l\<rparr>\<rparr>"
  obtain w' y' where 2: "accept_all (accepted (li_accepts io)) ?w y1 = (w', y')" by (rule prod.exhaust)
  have "listener_Init io port (listener_new (w_next w)) y = Some (ok, l, y1, accepted (li_accepts io))"
    using assms(1-4) 1(1) by (simp add: listener_Init_def Let_def)
  moreover have "SysBind (li_socket io) port \<in> set (sy_log y')"
    using post_accept_log [OF 1(1)] accept_all_log [OF 2] by (auto simp: sys_do_def)
  ultimately show ?thesis
    using accept_all_clients [where socks = "accepted (li_accepts io)" and w = ?w and y = y1] 1(2) 2
    by (auto simp: NetMgr_Begin_def Let_def)
qed

text \<open>
  C13. With a configuration that loads, scripts that run, a function \<^verbatim>\<open>glof\<close> and the answers of success from MySQL and the
  kernel, the server starts: it connects to the configured database, as the configured user, binds the configured port,
  and the connections that wait at the socket become clients.
\<close>

theorem server_start:
  assumes "LoadSystemConfig (st_conv ev) (st_dofile ev) (LTab False False (ge_globals (st_game ev))) (sv_config sv) [] = Some (sc, st)"
    and "list_all (clean_script (st_game ev)) (load_files (ge_opendir (st_game ev)))"
    and "lua_rawget (ge_globals (st_game ev)) (str_key name_zcg) = LTab l p es"
    and "lua_rawget (ge_globals (st_game ev)) (str_key (bytes ''glof'')) \<noteq> LNil"
    and "cn_charset (st_connect ev)" and "cn_connected (st_connect ev)"
    and "li_socket (st_listen ev) \<noteq> - 1" and "li_pton (st_listen ev) = 1" and "li_bind (st_listen ev) \<noteq> - 1"
    and "li_listen (st_listen ev) \<noteq> - 1" and "first_stop (li_accepts (st_listen ev)) = Some EAGAIN"
  shows "\<exists>sv1 k ss lst. server_on_start ev sv = Some sv1 \<and> sv_config sv1 = sc \<and> sv_links sv1 = sv_links sv @ [k]
    \<and> mh_alive (lk_handler k) \<and> mh_calls (lk_handler k) = [CInit, CReportTruncation False, CSetCharset (sc_db_chat_set sc),
         CRealConnect (sc_db_host sc) (sc_db_user sc) (sc_db_pwd sc) (sc_db_name sc) (sc_db_port sc)]
    \<and> nm_listener (w_mgr (g_world (sv_game sv1))) = Some lst \<and> l_status lst = LS_RUNNING
    \<and> SysBind (li_socket (st_listen ev)) (sc_listen_pt sc) \<in> set (sy_log (g_sys (sv_game sv1)))
    \<and> nm_clients (w_mgr (g_world (sv_game sv1))) = nm_clients (w_mgr (g_world (sv_game sv))) @ ss
    \<and> map s_socket ss = accepted (li_accepts (st_listen ev))"
proof -
  let ?lua = "engine_Init\<lparr>eg_stack := st\<rparr>"
  have c: "LoadSystemConfig (st_conv ev) (st_dofile ev) (LTab False False (ge_globals (st_game ev))) (sv_config sv) (eg_stack engine_Init)
      = Some (sc, st)" using assms(1) by (simp add: engine_Init_def)
  have s: "LoadScripts (ge_call (st_game ev)) (ge_loadfile (st_game ev)) (ge_opendir (st_game ev)) ?lua = Some ?lua"
    using exec_clean [OF assms(2)] by (simp add: LoadScripts_def)
  obtain k where k: "link_Start (st_connect ev) (login_of sc) (sv_links sv) = Some (sv_links sv @ [k])" "mh_alive (lk_handler k)"
    "mh_calls (lk_handler k) = [CInit, CReportTruncation False, CSetCharset (sc_db_chat_set sc),
       CRealConnect (sc_db_host sc) (sc_db_user sc) (sc_db_pwd sc) (sc_db_name sc) (sc_db_port sc)]"
    using assms(5,6) by (simp add: link_Start_def link_Connect_def link_new_def handler_Connect_def handler_Init_def handler_new_def
        mysql_calls_def login_of_def Let_def database_Connect_def)
  obtain w y ss lst where n: "NetMgr_Begin (st_listen ev) (sc_listen_pt sc) (g_world (sv_game sv)) (g_sys (sv_game sv)) = Some (w, y)"
    "SysBind (li_socket (st_listen ev)) (sc_listen_pt sc) \<in> set (sy_log y)"
    "nm_clients (w_mgr w) = nm_clients (w_mgr (g_world (sv_game sv))) @ ss" "map s_socket ss = accepted (li_accepts (st_listen ev))"
    "nm_listener (w_mgr w) = Some lst" "l_status lst = LS_RUNNING"
    using listen_ok [OF assms(7-11), of "sc_listen_pt sc" "g_world (sv_game sv)" "g_sys (sv_game sv)"] by auto
  show ?thesis
    using c s k n start_scripts_ok [OF assms(3,4)] by (simp add: server_on_start_def Let_def)
qed

section \<open>Stopping\<close>

text \<open>
  A session that its next calls of \<open>Update\<close> close: it is closing already, or it is drained and \<^verbatim>\<open>recv\<close> answers
  with the end of the stream.
\<close>

definition ending :: "(nat \<Rightarrow> update_io) \<Rightarrow> session \<Rightarrow> bool" where
  "ending ios s \<longleftrightarrow> s_events s = 0 \<and>
     (s_status s \<in> {SS_ERROR, SS_PRECLOSED, SS_CLOSED} \<or>
      s_status s = SS_RUNNING \<and> s_rd_ready s \<and> \<not> s_recv_over s \<and> \<not> s_send_over s \<and> s_msg_send s = None \<and> s_que_send s = []
        \<and> (\<exists>rs. io_recvs (ios 0) = RecvBytes [] # rs))"

lemma wait_closed: "s_status s = SS_CLOSED \<Longrightarrow> session_wait ios n s e y = Some (s, e, y)"
  by (subst session_wait.simps) (simp add: session_Disposable_def)

lemma wait_step:
  assumes "s_status s \<noteq> SS_CLOSED" and "session_Update (ios n) s e y = Some (s1, e1, y1)"
  shows "session_wait ios n s e y = session_wait ios (Suc n) s1 e1 y1"
  using assms by (subst session_wait.simps) (simp add: session_Disposable_def)

lemma Update_closing:
  assumes "io_lock io" and "s_status s \<in> {SS_ERROR, SS_PRECLOSED}" and "s_events s = 0"
  shows "\<exists>s1 e1 y1. session_Update io s e y = Some (s1, e1, y1) \<and> s_events s1 = 0
    \<and> s_status s1 = (if s_status s = SS_ERROR then SS_PRECLOSED else SS_CLOSED)"
proof -
  have 1: "update_events s (io_so_error io) = (s, False)" using assms(3) by (simp add: update_events_def)
  have ns: "s_status s \<noteq> SS_RUNNING" using assms(2) by auto
  show ?thesis
    using assms 1 ns post_send_idle [OF ns]
    by (auto simp: session_Update_def post_recv_def update_status_def session_set_socket_status_def update_register_def
        g_net_close_socket_def Let_def)
qed

lemma Update_peer_closed:
  assumes "io_lock io" and "s_status s = SS_RUNNING" and "s_events s = 0" and "s_rd_ready s" and "\<not> s_recv_over s"
    and "\<not> s_send_over s" and "s_msg_send s = None" and "s_que_send s = []" and "io_recvs io = RecvBytes [] # rs"
  shows "\<exists>s1 e1 y1. session_Update io s e y = Some (s1, e1, y1) \<and> s_events s1 = 0 \<and> s_status s1 = SS_PRECLOSED"
proof -
  let ?r = "session_Disconnect (s\<lparr>s_recv_over := True\<rparr>)"
  have 1: "update_events s (io_so_error io) = (s, False)" using assms(3) by (simp add: update_events_def)
  have 2: "post_recv (io_recvs io) s e = Some (?r, e)" using assms(2,4,5,9) by (simp add: post_recv_def)
  have r: "s_status ?r = SS_RUNNING" "s_recv_over ?r" "s_events ?r = 0" "s_disconnect ?r" "s_msg_send ?r = None" "s_que_send ?r = []"
    "\<not> s_send_over ?r" using assms by (simp_all add: session_Disconnect_def)
  have 3: "post_send (io_sends io) ?r e y = Some (?r\<lparr>s_send_over := True\<rparr>, e, sys_do (SysShutdown (s_socket ?r)) y)"
    using r by (simp add: post_send_def)
  obtain s5 e5 y5 where 5: "update_status (?r\<lparr>s_send_over := True\<rparr>) e (sys_do (SysShutdown (s_socket ?r)) y) = (s5, e5, y5)"
    by (rule prod_cases3)
  have 6: "s_status s5 = SS_PRECLOSED" "s_events s5 = 0"
    using 5 r by (auto simp: update_status_def session_set_socket_status_def session_Disconnect_def read_clock_def Let_def split: if_splits)
  then have "update_register s5 y5 = Some (s5, y5)" by (simp add: update_register_def)
  then show ?thesis using assms(1) 1 2 3 5 6 by (auto simp: session_Update_def)
qed

lemma ending_wait:
  assumes "ending ios s" and "\<And>n. io_lock (ios n)"
  shows "\<exists>s1 e1 y1. session_wait ios 0 s e y = Some (s1, e1, y1) \<and> s_status s1 = SS_CLOSED"
proof -
  have preclosed: "\<exists>s1 e1 y1. session_wait ios n s e y = Some (s1, e1, y1) \<and> s_status s1 = SS_CLOSED"
    if "s_status s = SS_PRECLOSED" "s_events s = 0" for n s e y
    using Update_closing [OF assms(2) [of n], of s e y] that wait_step [of s ios n e y] wait_closed by fastforce
  consider (closed) "s_status s = SS_CLOSED" | (pre) "s_status s = SS_PRECLOSED" "s_events s = 0"
    | (error) "s_status s = SS_ERROR" "s_events s = 0"
    | (run) rs where "s_status s = SS_RUNNING" "s_events s = 0" "s_rd_ready s" "\<not> s_recv_over s" "\<not> s_send_over s" "s_msg_send s = None"
        "s_que_send s = []" "io_recvs (ios 0) = RecvBytes [] # rs"
    using assms(1) by (auto simp: ending_def)
  then show ?thesis
  proof cases
    case closed
    then show ?thesis by (simp add: wait_closed)
  next
    case pre
    then show ?thesis by (rule preclosed)
  next
    case error
    then show ?thesis
      using Update_closing [OF assms(2) [of 0], of s e y] wait_step [of s ios 0 e y] preclosed by fastforce
  next
    case run
    then show ?thesis
      using Update_peer_closed [OF assms(2) [of 0] run, of e y] wait_step [of s ios 0 e y] preclosed by fastforce
  qed
qed

lemma ending_disconnect: "ending ios s \<Longrightarrow> ending ios (disconnect_active s)"
  by (auto simp: ending_def disconnect_active_def session_Disconnect_def)

lemma wait_sessions_ends:
  assumes "\<And>i. i < length ss \<Longrightarrow> ending (ios i) (ss ! i)" and "\<And>i n. io_lock (ios i n)"
  shows "\<exists>e1 y1. wait_sessions ios ss e y = Some (e1, y1)"
  using assms
proof (induction ss arbitrary: ios e y)
  case Nil
  then show ?case by simp
next
  case (Cons s ss)
  obtain s1 e1 y1 where 1: "session_wait (ios 0) 0 s e y = Some (s1, e1, y1)"
    using ending_wait [of "ios 0" s e y] Cons.prems(1) [of 0] Cons.prems(2) by auto
  obtain s2 e2 y2 where 2: "session_destroy s1 e1 y1 = (s2, e2, y2)" by (rule prod_cases3)
  have "\<exists>e3 y3. wait_sessions (\<lambda>i. ios (Suc i)) ss e2 y2 = Some (e3, y3)"
    by (rule Cons.IH) (use Cons.prems(1) [of "Suc i" for i] Cons.prems(2) in auto)
  then show ?case using 1 2 by simp
qed

lemma destroy_ends: "True \<in> set r \<Longrightarrow> \<exists>d1. database_destroy r d = Some d1"
  by (induction r) (auto split: if_splits)

lemma link_Close_ends:
  assumes "list_all (\<lambda>r. True \<in> set r) rs" and "length rs = length ls"
  shows "\<exists>ls1. link_Close rs ls = Some ls1"
  using assms(2,1)
proof (induction rs ls rule: list_induct2)
  case Nil
  then show ?case by simp
next
  case (Cons r rs l ls)
  then show ?case using destroy_ends [of r "lk_db l"] by (auto simp: link_destroy_def)
qed

lemma end_listener_parts:
  assumes "\<And>l. nm_listener (w_mgr w) = Some l \<Longrightarrow> l_status l \<noteq> LS_UNINIT"
  shows "\<exists>y1. end_listener w y = Some (w\<lparr>w_mgr := (w_mgr w)\<lparr>nm_listener := None\<rparr>\<rparr>, y1)"
proof (cases "nm_listener (w_mgr w)")
  case None
  then have "w_mgr w = (w_mgr w)\<lparr>nm_listener := None\<rparr>" by simp
  then have "w\<lparr>w_mgr := (w_mgr w)\<lparr>nm_listener := None\<rparr>\<rparr> = w" by (cases w) simp
  then show ?thesis using None by (simp add: end_listener_def)
next
  case (Some l)
  obtain l1 y1 where 1: "listener_Close l y = (l1, y1)" by (rule prod.exhaust)
  then have "l_status l1 \<noteq> LS_RUNNING" "l_status l1 \<noteq> LS_UNINIT"
    using assms [OF Some] by (auto simp: listener_Close_def Let_def split: if_splits prod.splits)
  from listener_wait_ends [OF this, of y1] show ?thesis using Some 1 by (auto simp: end_listener_def)
qed

text \<open>
  C14. The server stops, and all sessions and database connections are gone then, with the listener, under these conditions: no
  connection attempt is under way; no session has an event that its next \<open>Update\<close> would act on, and each is closing already or is drained and
  readable while its peer has closed, so that the first \<^verbatim>\<open>recv\<close> of the wait is the end of the stream; \<open>Update\<close> always gets the
  lock of a session and the poller calls nothing back during the waits; and every database connection is found free at some reading of its flag.
\<close>

theorem server_stops:
  assumes "\<And>l. nm_listener (w_mgr (g_world (sv_game sv))) = Some l \<Longrightarrow> l_status l \<noteq> LS_UNINIT"
    and "nm_connector (w_mgr (g_world (sv_game sv))) = NoConnector"
    and "\<And>i. i < length (nm_clients (w_mgr (g_world (sv_game sv)))) \<Longrightarrow>
          ending (sp_clients ev i) (nm_clients (w_mgr (g_world (sv_game sv))) ! i)"
    and "\<And>i. i < length (nm_servers (w_mgr (g_world (sv_game sv)))) \<Longrightarrow>
          ending (sp_servers ev i) (nm_servers (w_mgr (g_world (sv_game sv))) ! i)"
    and "\<And>i n. io_lock (sp_clients ev i n)" and "\<And>i n. io_lock (sp_servers ev i n)"
    and "list_all (\<lambda>r. True \<in> set r) (sp_readings ev)" and "length (sp_readings ev) = length (sv_links sv)"
  shows "\<exists>sv1. server_on_stop ev sv = Some sv1 \<and> sv_links sv1 = [] \<and> w_mgr (g_world (sv_game sv1)) = netmgr_new"
proof -
  let ?w = "g_world (sv_game sv)" and ?y = "g_sys (sv_game sv)"
  obtain y1 where 1: "end_listener ?w ?y = Some (?w\<lparr>w_mgr := (w_mgr ?w)\<lparr>nm_listener := None\<rparr>\<rparr>, y1)"
    using end_listener_parts [OF assms(1)] by blast
  let ?w1 = "?w\<lparr>w_mgr := (w_mgr ?w)\<lparr>nm_listener := None\<rparr>\<rparr>"
  let ?cs = "map disconnect_active (nm_clients (w_mgr ?w))" and ?ss = "map disconnect_active (nm_servers (w_mgr ?w))"
  have 2: "end_connector (sp_connector ev) ?w1 y1 = Some (?w1, y1)" using assms(2) by (simp add: end_connector_def)
  obtain e3 y3 where 3: "wait_sessions (sp_clients ev) ?cs (w_env ?w1) y1 = Some (e3, y3)"
    using wait_sessions_ends [of ?cs "sp_clients ev" "w_env ?w1" y1] assms(3,5) ending_disconnect by auto
  obtain e4 y4 where 4: "wait_sessions (sp_servers ev) ?ss e3 y3 = Some (e4, y4)"
    using wait_sessions_ends [of ?ss "sp_servers ev" e3 y3] assms(4,6) ending_disconnect by auto
  obtain ls where 5: "link_Close (sp_readings ev) (sv_links sv) = Some ls" using link_Close_ends [OF assms(7,8)] by blast
  show ?thesis
    using assms(2) 1 2 3 4 5 by (simp add: server_on_stop_def NetMgr_End_def netmgr_new_def Let_def)
qed

text \<open>A client that is connected, has sent nothing that is left to read and does not close its end.\<close>

definition silent_peer :: "session \<Rightarrow> bool" where
  "silent_peer s \<longleftrightarrow> s_status s = SS_RUNNING \<and> \<not> s_recv_over s \<and> s_events s = 0 \<and> s_msg_send s = None \<and> s_que_send s = []
     \<and> s_key s \<noteq> None"

definition nothing_comes :: "update_io \<Rightarrow> bool" where
  "nothing_comes io \<longleftrightarrow> io_lock io \<and> io_recvs io = [RecvErr EAGAIN]"

lemma post_send_silent: "silent_peer r \<Longrightarrow> \<exists>q y2. post_send rs r e y = Some (q, e, y2) \<and> silent_peer q"
  by (simp add: post_send_def silent_peer_def)

lemma register_silent:
  assumes "silent_peer r"
  shows "\<exists>r1 y1. update_register r y = Some (r1, y1) \<and> silent_peer r1"
proof -
  obtain k where k: "s_key r = Some k" using assms by (auto simp: silent_peer_def)
  obtain ok k1 y1 where "RegisterHandler (s_socket r) k (or (or (or EPOLLRDHUP EPOLLONESHOT) EPOLLIN) EPOLLOUT) y = (ok, k1, y1)"
    by (rule prod_cases3)
  then show ?thesis using assms k by (simp add: update_register_def silent_peer_def)
qed

lemma silent_Update:
  assumes "silent_peer s" and "nothing_comes io"
  shows "\<exists>s1 e1 y1. session_Update io s e y = Some (s1, e1, y1) \<and> silent_peer s1"
proof -
  let ?r = "if s_rd_ready s then s\<lparr>s_rd_ready := False\<rparr> else s"
  have 1: "update_events s (io_so_error io) = (s, False)" using assms(1) by (simp add: update_events_def silent_peer_def)
  have 2: "post_recv (io_recvs io) s e = Some (?r, e)"
    using assms by (simp add: post_recv_def silent_peer_def nothing_comes_def)
  have r: "silent_peer ?r" using assms(1) by (simp add: silent_peer_def)
  obtain q y2 where 3: "post_send (io_sends io) ?r e y = Some (q, e, y2)" and q: "silent_peer q"
    using post_send_silent [OF r] by blast
  obtain s5 e5 y5 where 5: "update_status q e y2 = (s5, e5, y5)" by (rule prod_cases3)
  have 6: "silent_peer s5" "y5 = y2"
    using 5 q by (auto simp: update_status_def silent_peer_def session_Disconnect_def read_clock_def Let_def split: if_splits)
  then obtain s6 y6 where "update_register s5 y5 = Some (s6, y6)" "silent_peer s6"
    using register_silent by blast
  then show ?thesis using assms(2) 1 2 3 5 by (simp add: session_Update_def nothing_comes_def)
qed

lemma silent_wait:
  assumes "silent_peer s" and "\<And>n. nothing_comes (ios n)"
  shows "session_wait ios n s e y = None"
proof (rule ccontr)
  assume "session_wait ios n s e y \<noteq> None"
  then obtain r where r: "session_wait ios n s e y = Some r" by blast
  have "\<not> (silent_peer s \<and> (\<forall>n. nothing_comes (ios n)))"
  proof (rule session_wait.raw_induct [where P = "\<lambda>ios n s e y r. \<not> (silent_peer s \<and> (\<forall>n. nothing_comes (ios n)))", OF _ r])
    fix rec :: "(nat \<Rightarrow> update_io) \<Rightarrow> nat \<Rightarrow> session \<Rightarrow> net_env \<Rightarrow> sys \<Rightarrow> (session \<times> net_env \<times> sys) option"
      and ios n s e y r
    assume IH: "\<And>ios n s e y r. rec ios n s e y = Some r \<Longrightarrow> \<not> (silent_peer s \<and> (\<forall>n. nothing_comes (ios n)))"
      and run: "(if session_Disposable s then Some (s, e, y)
        else do { (s1, e1, y1) \<leftarrow> session_Update (ios n) s e y; rec ios (Suc n) s1 e1 y1 }) = Some r"
    show "\<not> (silent_peer s \<and> (\<forall>n. nothing_comes (ios n)))"
    proof
      assume a: "silent_peer s \<and> (\<forall>n. nothing_comes (ios n))"
      then obtain s1 e1 y1 where u: "session_Update (ios n) s e y = Some (s1, e1, y1)" "silent_peer s1"
        using silent_Update [of s "ios n" e y] by blast
      have "rec ios (Suc n) s1 e1 y1 = Some r"
        using run a u by (simp add: session_Disposable_def silent_peer_def)
      from IH [OF this] a u(2) show False by simp
    qed
  qed
  then show False using assms by simp
qed

text \<open>
  A single client that stays connected and silent keeps the server from stopping: \<^verbatim>\<open>End\<close> asks the session to disconnect, which
  shuts the sending side down only, and then waits, without a limit, for the peer to close.  The check of inactivity does
  not help, since it asks for the same disconnection again.
\<close>

theorem silent_client_blocks_stop:
  assumes "\<And>l. nm_listener (w_mgr (g_world (sv_game sv))) = Some l \<Longrightarrow> l_status l \<noteq> LS_UNINIT"
    and "nm_connector (w_mgr (g_world (sv_game sv))) = NoConnector"
    and "nm_clients (w_mgr (g_world (sv_game sv))) = s # cs" and "silent_peer s" and "\<And>n. nothing_comes (sp_clients ev 0 n)"
  shows "server_on_stop ev sv = None"
proof -
  let ?w = "g_world (sv_game sv)" and ?y = "g_sys (sv_game sv)"
  obtain y1 where 1: "end_listener ?w ?y = Some (?w\<lparr>w_mgr := (w_mgr ?w)\<lparr>nm_listener := None\<rparr>\<rparr>, y1)"
    using end_listener_parts [OF assms(1)] by blast
  let ?w1 = "?w\<lparr>w_mgr := (w_mgr ?w)\<lparr>nm_listener := None\<rparr>\<rparr>"
  have 2: "end_connector (sp_connector ev) ?w1 y1 = Some (?w1, y1)" using assms(2) by (simp add: end_connector_def)
  have "silent_peer (disconnect_active s)" using assms(4) by (simp add: silent_peer_def disconnect_active_def session_Disconnect_def)
  from silent_wait [OF this assms(5)] show ?thesis
    using assms(3) 1 2 by (simp add: server_on_stop_def NetMgr_End_def Let_def)
qed

section \<open>A frame\<close>

text \<open>
  The frame updates neither the database connections nor the pool of tasks: a connection that was lost stays lost, and the
  tasks that are done stay in their queue, unless a command of the terminal touches the pool.
\<close>

lemma update_keeps_links:
  assumes "server_on_update ev sv = Some sv1"
  shows "sv_links sv1 = sv_links sv"
proof -
  obtain input g1 where i: "input_Update (game_hooks (fv_game ev)) (sv_input sv) (sv_game sv) = Some (input, g1)"
    using assms by (auto simp: server_on_update_def bind_eq_Some_conv)
  obtain timers g2 ran where t: "timer_Update (fv_runner ev) (fv_tick ev) (sv_timers sv) g1 = (timers, g2, ran)"
    by (rule prod_cases3)
  obtain sched hooks where "schedule_Update (fv_localtime ev) (fv_now ev) (sv_schedule sv) = (sched, hooks)" by (rule prod.exhaust)
  then show ?thesis using assms i t by (auto simp: server_on_update_def bind_eq_Some_conv)
qed

lemma frames_keep_links:
  "fh_update (server_hooks a b c run) dt q sv = Some (q1, sv1) \<Longrightarrow> sv_links sv1 = sv_links sv"
  "fh_msg (server_hooks a b c run) msg sv = Some sv1 \<Longrightarrow> sv_links sv1 = sv_links sv"
  by (auto simp: server_hooks_def with_queue_def Let_def dest!: update_keeps_links)

section \<open>Examples\<close>

text \<open>A server that is running, with a configuration that \<^verbatim>\<open>system_config.lua\<close> leaves in the global variables.\<close>

definition start_globals :: lua_entries where
  "start_globals = [(str_key name_zcg, LTab False False [(str_key name_dump_locals, LOther 1)]),
     (str_key (bytes ''glof''), LOther 3), (str_key (bytes ''SystemConfig''), lua_field sample_config (bytes ''SystemConfig''))]"

definition midnight :: calendar where
  "midnight = \<lparr>tm_hour = 0, tm_mday = 1, tm_mon = 0, tm_year = 126, tm_wday = 4, tm_yday = 0\<rparr>"

definition first_server :: "nat server" where
  "first_server = \<lparr>sv_input = game_input, sv_timers = timer_mgr_new, sv_game = new_game, sv_schedule = schedule_new (\<lambda>t. midnight) 0,
     sv_links = [], sv_config = blank_config, sv_api = Map.empty, sv_frame = 0\<rparr>"

definition first_start :: start_env where
  "first_start = \<lparr>st_game = quiet_env\<lparr>ge_globals := start_globals\<rparr>, st_conv = sample_conv, st_dofile = (\<lambda>f. Inr []),
     st_connect = fine_io, st_listen = \<lparr>li_socket = 3, li_pton = 1, li_bind = 0, li_listen = 0, li_errno = 0,
       li_accepts = [AcceptOk 5, AcceptErr EAGAIN]\<rparr>\<rparr>"

lemma first_start_sel:
  "st_conv first_start = sample_conv" "st_dofile first_start = (\<lambda>f. Inr [])" "st_connect first_start = fine_io"
  "ge_globals (st_game first_start) = start_globals" "ge_opendir (st_game first_start) = (\<lambda>d. [])"
  "li_accepts (st_listen first_start) = [AcceptOk 5, AcceptErr EAGAIN]" "li_socket (st_listen first_start) = 3"
  "li_pton (st_listen first_start) = 1" "li_bind (st_listen first_start) = 0" "li_listen (st_listen first_start) = 0"
  by (simp_all add: first_start_def quiet_env_def)

lemma start_globals_lookup:
  "lua_rawget start_globals (str_key name_zcg) = LTab False False [(str_key name_dump_locals, LOther 1)]"
  "lua_rawget start_globals (str_key (bytes ''glof'')) = LOther 3"
  "lua_rawget start_globals (str_key (bytes ''SystemConfig'')) = lua_field sample_config (bytes ''SystemConfig'')"
  by (simp_all add: start_globals_def lua_rawget_def str_key_def c_bytes_def name_zcg_def bytes_def)

lemma sample_config_loads:
  "\<exists>sc. LoadSystemConfig sample_conv (\<lambda>f. Inr []) (LTab False False start_globals) blank_config [] = Some (sc, [LTab False False start_globals])
     \<and> sc_listen_pt sc = 1 \<and> sc_db_host sc = [5]"
proof -
  let ?g = "LTab False False start_globals"
  let ?cfg = "lua_field ?g (bytes ''SystemConfig'')"
  let ?db = "lua_field ?cfg (bytes ''db'')"
  note look = sample_config_def lua_rawget_def key_eq
  have cfg: "?cfg = lua_field sample_config (bytes ''SystemConfig'')" using start_globals_lookup(3) by simp
  have ok: "is_table ?g" "cfg_ok sample_conv ?cfg" "is_table ?db"
    unfolding cfg by (simp_all add: look cfg_ok_def cfg_string_def sample_conv_def)
  have s: "cfg_string sample_conv ?cfg ''listen_ip'' = Some [2]" "cfg_string sample_conv ?cfg ''connect_ip'' = Some [3]"
    "cfg_string sample_conv ?db ''host'' = Some [5]" "cfg_string sample_conv ?db ''user'' = Some [6]"
    "cfg_string sample_conv ?db ''pwd'' = Some [7]" "cfg_string sample_conv ?db ''name'' = Some [8]"
    "cfg_string sample_conv ?db ''chat_set'' = Some [9]"
    unfolding cfg by (simp_all add: look cfg_string_def sample_conv_def c_bytes_def)
  have p: "cfg_port sample_conv ?cfg ''listen_pt'' = 1" unfolding cfg by (simp add: look cfg_port_def sample_conv_def num_of_def)
  have d: "(\<lambda>f :: byte list. Inr [] :: lua_result) (bytes ''./world/system_config.lua'') = Inr []" by simp
  show ?thesis
    using LoadSystemConfig_eq [OF d ok(1) HOL.refl ok(2) s(1,2) HOL.refl ok(3) s(3-7), of blank_config "[]"] p by auto
qed

theorem server_start_witness:
  "\<exists>sv1 k. server_on_start first_start first_server = Some sv1 \<and> sv_links sv1 = [k] \<and> mh_alive (lk_handler k)
    \<and> map s_socket (nm_clients (w_mgr (g_world (sv_game sv1)))) = [5]"
proof -
  obtain sc where c: "LoadSystemConfig sample_conv (\<lambda>f. Inr []) (LTab False False start_globals) blank_config [] =
      Some (sc, [LTab False False start_globals])" using sample_config_loads by blast
  have "scan_dir d [] = []" for d by simp
  then have l: "load_files (\<lambda>d. []) = []" by (simp add: load_files_def ScanDir_def)
  have o: "sv_links first_server = []" "nm_clients (w_mgr (g_world (sv_game first_server))) = []" "sv_config first_server = blank_config"
    by (simp_all add: first_server_def new_game_def netmgr_new_def)
  show ?thesis
    using server_start [of first_start first_server sc "[LTab False False start_globals]" False False
        "[(str_key name_dump_locals, LOther 1)]"] c l o
    by (auto simp: first_start_sel start_globals_lookup fine_io_def sys_consts)
qed

text \<open>A server with one client and one database connection.\<close>

definition busy_server :: "session \<Rightarrow> nat server" where
  "busy_server s = first_server\<lparr>sv_game := new_game\<lparr>g_world := first_world\<lparr>w_mgr := netmgr_new\<lparr>nm_clients := [s]\<rparr>\<rparr>\<rparr>,
     sv_links := [link_new sample_login]\<rparr>"

definition closed_by_peer :: update_io where
  "closed_by_peer = \<lparr>io_lock = True, io_so_error = 0, io_recvs = [RecvBytes []], io_sends = []\<rparr>"

definition silence :: update_io where
  "silence = \<lparr>io_lock = True, io_so_error = 0, io_recvs = [RecvErr EAGAIN], io_sends = []\<rparr>"

definition stop_with :: "update_io \<Rightarrow> stop_env" where
  "stop_with io = \<lparr>sp_connector = (\<lambda>n. \<lparr>cu_lock = True, cu_so_error = 0, cu_replies = []\<rparr>), sp_clients = (\<lambda>i n. io),
     sp_servers = (\<lambda>i n. io), sp_readings = [[False, True]]\<rparr>"

lemma busy_server_sel:
  "nm_listener (w_mgr (g_world (sv_game (busy_server s)))) = None"
  "nm_connector (w_mgr (g_world (sv_game (busy_server s)))) = NoConnector"
  "nm_clients (w_mgr (g_world (sv_game (busy_server s)))) = [s]" "nm_servers (w_mgr (g_world (sv_game (busy_server s)))) = []"
  "sv_links (busy_server s) = [link_new sample_login]"
  by (simp_all add: busy_server_def first_world_def netmgr_new_def)

theorem server_stops_witness:
  "\<exists>sv1. server_on_stop (stop_with closed_by_peer) (busy_server first_session) = Some sv1 \<and> sv_links sv1 = []"
proof -
  have "ending (\<lambda>n. closed_by_peer) first_session" by (simp add: ending_def first_session_sel closed_by_peer_def)
  then show ?thesis
    using server_stops [of "busy_server first_session" "stop_with closed_by_peer"]
    by (auto simp: busy_server_sel stop_with_def closed_by_peer_def)
qed

theorem silent_client_blocks_stop_witness:
  "server_on_stop (stop_with silence) (busy_server first_session) = None"
proof -
  have "silent_peer first_session" by (simp add: silent_peer_def first_session_sel)
  moreover have "nothing_comes (sp_clients (stop_with silence) 0 n)" for n by (simp add: nothing_comes_def stop_with_def silence_def)
  ultimately show ?thesis
    using silent_client_blocks_stop [of "busy_server first_session" first_session "[]" "stop_with silence"]
    by (simp add: busy_server_sel)
qed

end
