(* ===== verification/Iocp.thy ===== *)
theory Iocp
  imports Sockets
begin

text \<open>
  Overlapped input and output, as the Windows half of the network layer uses it: \<open>PerIoData\<close>
  (\<^verbatim>\<open>libcore/src/netbase.cpp\<close>) and the poller over a completion port (\<^verbatim>\<open>libcore/src/poller.cpp\<close>).

  A socket or a handle is an \<open>int\<close>, \<open>-1\<close> being \<^verbatim>\<open>INVALID_SOCKET\<close> and \<^verbatim>\<open>INVALID_HANDLE_VALUE\<close>, \<open>0\<close> the null handle.
  The calls made to Windows are a log; what it answers is an argument.  An operation that was started is reported
  by the port later, through the \<open>OVERLAPPED\<close> at the start of its \<open>PerIoData\<close>.
\<close>

definition WSA_IO_PENDING :: u32 where "WSA_IO_PENDING = 997"
definition ERROR_ABANDONED_WAIT_0 :: u32 where "ERROR_ABANDONED_WAIT_0 = 735"
definition ERROR_INVALID_HANDLE :: u32 where "ERROR_INVALID_HANDLE = 6"

declare WSA_IO_PENDING_def [sys_consts] ERROR_ABANDONED_WAIT_0_def [sys_consts] ERROR_INVALID_HANDLE_def [sys_consts]

record win_key =
  wk_obj :: nat
  wk_func :: io_callback

datatype win_call =
    WinSocket int
  | WinClose int
  | WinNonblocking int
  | WinLinger int
  | WinShutdown int
  | WinSend int "byte list"
  | WinRecv int
  | WinBind int u16
  | WinListen int
  | WinAccept int int
  | WinUpdateAccept int int
  | WinConnect int u16
  | WinRegister int win_key
  | WinPost win_key u32

type_synonym win_log = "win_call list"

text \<open>A call of Winsock that starts an operation: it succeeds, or gives an error.\<close>

datatype wsa_reply = WsaDone | WsaErr u32

definition wsa_started :: "wsa_reply \<Rightarrow> bool" where
  "wsa_started r \<longleftrightarrow> r = WsaDone \<or> r = WsaErr WSA_IO_PENDING"

text \<open>The socket is a reference argument.\<close>

definition win_close_socket :: "int \<Rightarrow> win_log \<Rightarrow> int \<times> win_log" where
  "win_close_socket sock y = (if sock \<noteq> - 1 then (- 1, y @ [WinClose sock]) else (sock, y))"

lemma win_close_socket_fst [simp]: "fst (win_close_socket sock y) = - 1"
  by (simp add: win_close_socket_def)

section \<open>PerIoData\<close>

record per_io =
  pio_status :: io_status
  pio_size :: u32
  pio_err :: u32
  pio_succ :: u32
  pio_bytes :: u32
  pio_data :: mem

definition per_io_new :: "u32 \<Rightarrow> per_io" where
  "per_io_new sz = \<lparr>pio_status = IO_STATUS_IDLE, pio_size = sz, pio_err = 0, pio_succ = 0, pio_bytes = 0,
     pio_data = (if sz \<noteq> 0 then mem_alloc (unat sz) else [])\<rparr>"

definition per_io_Reset :: "per_io \<Rightarrow> per_io" where
  "per_io_Reset d = d\<lparr>pio_status := IO_STATUS_PENDING, pio_err := 0, pio_succ := 0, pio_bytes := 0\<rparr>"

definition per_io_Error :: "u32 \<Rightarrow> per_io \<Rightarrow> per_io" where
  "per_io_Error err d = d\<lparr>pio_err := err, pio_status := IO_STATUS_ERROR\<rparr>"

lemma per_io_sel [simp]:
  "pio_status (per_io_Reset d) = IO_STATUS_PENDING" "pio_data (per_io_Reset d) = pio_data d"
  "pio_status (per_io_Error err d) = IO_STATUS_ERROR" "pio_data (per_io_Error err d) = pio_data d"
  by (simp_all add: per_io_Reset_def per_io_Error_def)

section \<open>The poller\<close>

record win_poller =
  wp_iocp :: int
  wp_threads :: nat
  wp_count :: u32

definition win_poller_new :: win_poller where
  "win_poller_new = \<lparr>wp_iocp = 0, wp_threads = 0, wp_count = 0\<rparr>"

text \<open>
  \<open>create i\<close> says whether the i-th \<^verbatim>\<open>CreateThread\<close> succeeds; \<open>wp_threads\<close> counts the threads that run.  A failure leaves the
  rest of the array uninitialised.
\<close>

fun create_threads :: "(nat \<Rightarrow> bool) \<Rightarrow> nat \<Rightarrow> nat \<Rightarrow> bool \<times> nat" where
  "create_threads create i 0 = (True, i)"
| "create_threads create i (Suc n) = (if create i then create_threads create (Suc i) n else (False, i))"

definition win_Poller_Init :: "u32 \<Rightarrow> int \<Rightarrow> (nat \<Rightarrow> bool) \<Rightarrow> u32 \<Rightarrow> win_poller \<Rightarrow> bool \<times> win_poller" where
  "win_Poller_Init processors iocp create threadCount p =
     (let n = (if threadCount = 0 then processors else threadCount)
      in if iocp = 0 then (False, p\<lparr>wp_iocp := iocp\<rparr>)
         else let (ok, k) = create_threads create 0 (unat n)
              in (ok, p\<lparr>wp_iocp := iocp, wp_count := n, wp_threads := k\<rparr>))"

text \<open>
  What \<^verbatim>\<open>GetQueuedCompletionStatus\<close> gives: a finished operation, named by the object it belongs to, with the number of bytes; a failed
  one with its error; or nothing but an error.
\<close>

datatype iocp_reply = IocpDone nat u32 | IocpFailed nat u32 u32 | IocpNothing u32

text \<open>The thread stores the result in the \<open>PerIoData\<close>; the callbacks of all classes do nothing.\<close>

fun iocp_store :: "iocp_reply \<Rightarrow> per_io \<Rightarrow> per_io" where
  "iocp_store (IocpDone i bytes) d = d\<lparr>pio_err := 0, pio_succ := 1, pio_bytes := bytes, pio_status := IO_STATUS_COMPLETED\<rparr>"
| "iocp_store (IocpFailed i err bytes) d =
     d\<lparr>pio_err := err, pio_succ := 0, pio_bytes := bytes, pio_status := IO_STATUS_COMPLETED\<rparr>"
| "iocp_store (IocpNothing err) d = d"

text \<open>
  The loop of the thread, with the results that it stored; \<open>None\<close>: the thread is still in its loop after all the replies.
\<close>

fun iocp_loop :: "iocp_reply list \<Rightarrow> iocp_reply list option" where
  "iocp_loop [] = None"
| "iocp_loop (IocpNothing err # rs) = (if err = ERROR_ABANDONED_WAIT_0 then Some [] else iocp_loop rs)"
| "iocp_loop (r # rs) = map_option ((#) r) (iocp_loop rs)"

text \<open>
  \<^verbatim>\<open>Release\<close> closes the port and waits for all threads; \<open>rss\<close> are the replies that each of them gets until it is left.  With threads that were
  not created it waits for handles that were never set.
\<close>

definition win_Poller_Release :: "iocp_reply list list \<Rightarrow> win_poller \<Rightarrow> win_log \<Rightarrow> (win_poller \<times> win_log) option" where
  "win_Poller_Release rss p y =
     (let (p1, y1) = (if wp_iocp p \<noteq> 0 then (p\<lparr>wp_iocp := - 1\<rparr>, y @ [WinClose (wp_iocp p)]) else (p, y))
      in if wp_threads p1 \<noteq> unat (wp_count p1) then None
         else if list_all (\<lambda>rs. iocp_loop rs \<noteq> None) (take (wp_threads p1) rss) \<and> wp_threads p1 \<le> length rss
              then Some (p1, y1) else None)"

definition win_RegisterHandler :: "bool \<Rightarrow> int \<Rightarrow> win_key \<Rightarrow> win_log \<Rightarrow> bool \<times> win_log" where
  "win_RegisterHandler ok handle key y = (ok, y @ [WinRegister handle key])"

definition win_PostCompletion :: "win_key \<Rightarrow> u32 \<Rightarrow> win_log \<Rightarrow> win_log" where
  "win_PostCompletion key bytes y = y @ [WinPost key bytes]"

declare win_close_socket_def [code_defs] per_io_new_def [code_defs] per_io_Reset_def [code_defs] per_io_Error_def [code_defs]
  win_RegisterHandler_def [code_defs] win_PostCompletion_def [code_defs] wsa_started_def [code_defs]

section \<open>Properties\<close>

text \<open>
  Every finished operation that the port reports before it is closed is stored, in order, and the thread ends exactly when it is told that the
  port was closed while it waited.
\<close>

lemma iocp_loop_stores:
  "iocp_loop rs = (if IocpNothing ERROR_ABANDONED_WAIT_0 \<in> set rs
     then Some (filter (\<lambda>r. \<forall>err. r \<noteq> IocpNothing err) (takeWhile (\<lambda>r. r \<noteq> IocpNothing ERROR_ABANDONED_WAIT_0) rs)) else None)"
  by (induction rs rule: iocp_loop.induct) auto

text \<open>
  A thread that is not waiting when the port is closed is told that the handle is invalid, on every later call; it never ends, and
  \<^verbatim>\<open>Release\<close> never returns.
\<close>

theorem iocp_busy_thread_never_ends:
  assumes "0 < wp_threads p" and "list_all (\<lambda>r. r = IocpNothing ERROR_INVALID_HANDLE) rs"
  shows "iocp_loop rs = None \<and> win_Poller_Release (rs # rss) p y = None"
proof -
  have n: "iocp_loop rs = None"
    using assms(2) by (auto simp: iocp_loop_stores list_all_iff sys_consts)
  then have "\<not> list_all (\<lambda>rs. iocp_loop rs \<noteq> None) (take (wp_threads p) (rs # rss))"
    using assms(1) by (cases "wp_threads p") auto
  then show ?thesis using n by (auto simp: win_Poller_Release_def Let_def)
qed

end
