(* ===== verification/SessionWin.thy ===== *)
theory SessionWin
  imports SessionWire Iocp
begin

text \<open>
  The Windows half of a session: \<^verbatim>\<open>libcore/src/session_win32.cpp\<close> and the Windows class in
  \<^verbatim>\<open>libcore/include/session.h\<close>.  One receive and one send are with the system at a time; the poller thread
  stores their results, and \<^verbatim>\<open>Update\<close> acts on them.  The half in \<^verbatim>\<open>session.cpp\<close> is the one of the theory
  \<open>Session\<close>: the members that both platforms have are those of its record, in \<open>wn_base\<close>, and the others of that record keep
  their first values.
\<close>

section \<open>State\<close>

record win_session =
  wn_base :: session
  wn_key :: "win_key option"
  wn_send :: per_io
  wn_recv :: per_io

definition win_session_new :: "nat \<Rightarrow> win_session" where
  "win_session_new i =
     \<lparr>wn_base = \<lparr>s_id = i, s_socket = - 1, s_status = SS_NONE, s_key = None, s_msg_header = message_new 4,
        s_msg_recv = None, s_que_send = [], s_msg_send = None, s_send_len = 0,
        s_send_error = 0, s_recv_error = 0, s_othe_error = 0, s_rd_ready = True, s_wr_ready = True,
        s_events = 0, s_disconnect = False, s_send_over = False, s_recv_over = False,
        s_in_epoll = False, s_last_active_t = 0\<rparr>,
      wn_key = None, wn_send = per_io_new 0, wn_recv = per_io_new MAX_BUFFER_SIZE\<rparr>"

definition win_on_base :: "(session \<Rightarrow> session) \<Rightarrow> win_session \<Rightarrow> win_session" where
  "win_on_base f s = s\<lparr>wn_base := f (wn_base s)\<rparr>"

definition win_set_status :: "sock_status \<Rightarrow> win_session \<Rightarrow> win_session" where
  "win_set_status st = win_on_base (\<lambda>b. session_set_socket_status b st)"

definition win_session_destroy :: "win_session \<Rightarrow> net_env \<Rightarrow> win_log \<Rightarrow> win_session \<times> net_env \<times> win_log" where
  "win_session_destroy s e y =
     (let b1 = (wn_base s)\<lparr>s_msg_recv := None\<rparr>;
          (b2, e2) = (case s_msg_send b1 of
                        Some m \<Rightarrow> (b1\<lparr>s_msg_send := None\<rparr>, e\<lparr>ne_mq2 := FreeMessage (ne_mq2 e) m\<rparr>)
                      | None \<Rightarrow> (b1, e));
          (sock, y3) = win_close_socket (s_socket b2) y
      in (s\<lparr>wn_base := b2\<lparr>s_socket := sock\<rparr>, wn_key := None\<rparr>, e2, y3))"

section \<open>Starting operations\<close>

definition win_post_recv :: "wsa_reply \<Rightarrow> win_session \<Rightarrow> win_log \<Rightarrow> bool \<times> win_session \<times> win_log" where
  "win_post_recv reply s y =
     (if pio_status (wn_recv s) \<noteq> IO_STATUS_IDLE then (False, s, y)
      else let s1 = s\<lparr>wn_recv := per_io_Reset (wn_recv s)\<rparr>;
               y1 = y @ [WinRecv (s_socket (wn_base s))]
           in case reply of
                WsaDone \<Rightarrow> (True, s1, y1)
              | WsaErr err \<Rightarrow>
                  if err \<noteq> WSA_IO_PENDING
                  then (False, win_set_status SS_ERROR (win_on_base (\<lambda>b. session_on_recv_error b err)
                          (s1\<lparr>wn_recv := per_io_Error err (wn_recv s1)\<rparr>)), y1)
                  else (True, s1, y1))"

text \<open>
  The whole first buffer of the queue is offered at once.  The front of an empty queue does not exist: \<open>None\<close>.
\<close>

definition win_post_send :: "wsa_reply \<Rightarrow> win_session \<Rightarrow> win_log \<Rightarrow> (win_session \<times> win_log) option" where
  "win_post_send reply s y =
     (let b = wn_base s
      in if pio_status (wn_send s) \<noteq> IO_STATUS_IDLE then Some (s, y)
         else if s_msg_send b = None \<and> s_que_send b = []
         then if s_disconnect b \<and> \<not> s_send_over b
              then Some (s\<lparr>wn_base := b\<lparr>s_send_over := True\<rparr>\<rparr>, y @ [WinShutdown (s_socket b)])
              else Some (s, y)
         else (case s_que_send b of
                 [] \<Rightarrow> None
               | m # ms \<Rightarrow>
                   if message_DataLength m = 0 then Some (s\<lparr>wn_base := b\<lparr>s_msg_send := None\<rparr>\<rparr>, y)
                   else do {
                     d \<leftarrow> mem_read 0 (unat (message_DataLength m)) (m_data m);
                     bs \<leftarrow> those d;
                     let s1 = s\<lparr>wn_base := b\<lparr>s_msg_send := Some m, s_que_send := ms\<rparr>, wn_send := per_io_Reset (wn_send s)\<rparr>;
                     let y1 = y @ [WinSend (s_socket b) bs];
                     (case reply of
                        WsaDone \<Rightarrow> Some (s1, y1)
                      | WsaErr err \<Rightarrow>
                          if err \<noteq> WSA_IO_PENDING
                          then Some (win_set_status SS_ERROR (win_on_base (\<lambda>b. session_on_send_error b err)
                                 (s1\<lparr>wn_send := per_io_Error err (wn_send s1)\<rparr>)), y1)
                          else Some (s1, y1))
                   }))"

definition win_session_Attach :: "bool \<Rightarrow> wsa_reply \<Rightarrow> int \<Rightarrow> win_key option \<Rightarrow> win_session \<Rightarrow> win_log \<Rightarrow> win_session \<times> win_log" where
  "win_session_Attach registered reply sock key s y =
     (let s1 = win_on_base (\<lambda>b. b\<lparr>s_msg_header := message_Reset (s_msg_header b) 4, s_socket := sock\<rparr>) s;
          y1 = y @ [WinNonblocking sock, WinLinger sock];
          k = \<lparr>wk_obj = s_id (wn_base s), wk_func = SessionCb\<rparr>;
          s2 = s1\<lparr>wn_key := Some k\<rparr>;
          (ok, y2) = (case key of Some _ \<Rightarrow> (True, y1) | None \<Rightarrow> win_RegisterHandler registered sock k y1)
      in if \<not> ok then (s2, y2)
         else let (_, s3, y3) = win_post_recv reply (win_set_status SS_RUNNING s2) y2 in (s3, y3))"

section \<open>Update\<close>

definition win_dispose_recv :: "wsa_reply \<Rightarrow> win_session \<Rightarrow> net_env \<Rightarrow> win_log \<Rightarrow> (win_session \<times> net_env \<times> win_log) option" where
  "win_dispose_recv reply s e y =
     (let b = wn_base s; d = wn_recv s
      in if s_status b \<noteq> SS_RUNNING \<or> s_recv_over b then Some (s, e, y)
         else if pio_status d = IO_STATUS_COMPLETED
         then let s1 = s\<lparr>wn_recv := d\<lparr>pio_status := IO_STATUS_IDLE\<rparr>\<rparr>
              in if pio_succ d \<noteq> 0
                 then if pio_bytes d \<noteq> 0
                      then do {
                        pdata \<leftarrow> mem_read 0 (unat (pio_bytes d)) (pio_data d);
                        (b1, e1) \<leftarrow> session_on_recv b e pdata (pio_bytes d);
                        let (_, s2, y1) = win_post_recv reply (s1\<lparr>wn_base := b1\<rparr>) y;
                        Some (s2, e1, y1)
                      }
                      else Some (s1\<lparr>wn_base := session_Disconnect (b\<lparr>s_recv_over := True\<rparr>)\<rparr>, e, y)
                 else Some (win_set_status SS_ERROR (s1\<lparr>wn_base := b\<lparr>s_recv_error := pio_err d\<rparr>\<rparr>), e, y)
         else Some (s, e, y))"

definition win_dispose_send :: "wsa_reply \<Rightarrow> win_session \<Rightarrow> net_env \<Rightarrow> win_log \<Rightarrow> (win_session \<times> net_env \<times> win_log) option" where
  "win_dispose_send reply s e y =
     (let b = wn_base s; d = wn_send s
      in if s_status b \<noteq> SS_RUNNING \<or> s_send_over b then Some (s, e, y)
         else if pio_status d = IO_STATUS_IDLE then map_option (\<lambda>(s1, y1). (s1, e, y1)) (win_post_send reply s y)
         else if pio_status d = IO_STATUS_COMPLETED
         then let s1 = s\<lparr>wn_send := d\<lparr>pio_status := IO_STATUS_IDLE\<rparr>\<rparr>
              in if pio_succ d \<noteq> 0
                 then (case s_msg_send b of
                         None \<Rightarrow> None
                       | Some m \<Rightarrow> Some (s1\<lparr>wn_base := b\<lparr>s_msg_send := None\<rparr>\<rparr>, e\<lparr>ne_mq2 := FreeMessage (ne_mq2 e) m\<rparr>, y))
                 else Some (win_set_status SS_ERROR (s1\<lparr>wn_base := b\<lparr>s_send_error := pio_err d\<rparr>\<rparr>), e, y)
         else Some (s, e, y))"

definition win_update_status :: "win_session \<Rightarrow> win_log \<Rightarrow> win_session \<times> win_log" where
  "win_update_status s y =
     (let b = wn_base s
      in case s_status b of
           SS_RUNNING \<Rightarrow> (if s_recv_over b \<and> s_send_over b then win_set_status SS_PRECLOSED s else s, y)
         | SS_ERROR \<Rightarrow>
             (if pio_status (wn_recv s) \<noteq> IO_STATUS_PENDING \<and> pio_status (wn_send s) \<noteq> IO_STATUS_PENDING
              then win_set_status SS_PRECLOSED s else s, y)
         | SS_PRECLOSED \<Rightarrow>
             let (sock, y1) = win_close_socket (s_socket b) y
             in (win_set_status SS_CLOSED (s\<lparr>wn_base := b\<lparr>s_socket := sock\<rparr>\<rparr>), y1)
         | _ \<Rightarrow> (s, y))"

definition win_session_Update :: "wsa_reply \<Rightarrow> wsa_reply \<Rightarrow> win_session \<Rightarrow> net_env \<Rightarrow> win_log \<Rightarrow>
    (win_session \<times> net_env \<times> win_log) option" where
  "win_session_Update recv_reply send_reply s e y = do {
     (s1, e1, y1) \<leftarrow> win_dispose_recv recv_reply s e y;
     (s2, e2, y2) \<leftarrow> win_dispose_send send_reply s1 e1 y1;
     let (s3, y3) = win_update_status s2 y2;
     Some (s3, e2, y3)
   }"

definition win_session_Send :: "win_session \<Rightarrow> net_env \<Rightarrow> mem \<Rightarrow> u32 \<Rightarrow> (win_session \<times> net_env) option" where
  "win_session_Send s e data sz = map_option (\<lambda>(b, e1). (s\<lparr>wn_base := b\<rparr>, e1)) (session_Send (wn_base s) e data sz)"

section \<open>What the system does meanwhile\<close>

text \<open>
  A receive that is with the system ends: bytes in its buffer, at most as many as it has room for, the end of the stream, or an error.
  A send ends with a number of bytes or an error.
\<close>

definition recv_ends_with :: "byte list \<Rightarrow> win_session \<Rightarrow> win_session" where
  "recv_ends_with bs s = (let d = wn_recv s
     in s\<lparr>wn_recv := iocp_store (IocpDone (s_id (wn_base s)) (word_of_nat (length bs)))
           (d\<lparr>pio_data := map Some bs @ drop (length bs) (pio_data d)\<rparr>)\<rparr>)"

definition recv_fails_with :: "u32 \<Rightarrow> u32 \<Rightarrow> win_session \<Rightarrow> win_session" where
  "recv_fails_with err bytes s = s\<lparr>wn_recv := iocp_store (IocpFailed (s_id (wn_base s)) err bytes) (wn_recv s)\<rparr>"

definition send_ends_with :: "iocp_reply \<Rightarrow> win_session \<Rightarrow> win_session" where
  "send_ends_with r s = s\<lparr>wn_send := iocp_store r (wn_send s)\<rparr>"

text \<open>The bytes that the next \<^verbatim>\<open>Update\<close> takes from a finished receive.\<close>

definition incoming :: "win_session \<Rightarrow> byte list" where
  "incoming s = (let d = wn_recv s
     in if s_status (wn_base s) = SS_RUNNING \<and> \<not> s_recv_over (wn_base s) \<and> pio_status d = IO_STATUS_COMPLETED \<and> pio_succ d \<noteq> 0
        then map the (take (unat (pio_bytes d)) (pio_data d)) else [])"

text \<open>The bytes that were handed to the system in one log.\<close>

fun handed :: "win_log \<Rightarrow> byte list" where
  "handed [] = []"
| "handed (WinSend sock bs # cs) = bs @ handed cs"
| "handed (c # cs) = handed cs"

lemma handed_append [simp]: "handed (cs @ ds) = handed cs @ handed ds"
  by (induction cs rule: handed.induct) simp_all

declare win_session_new_def [code_defs] win_on_base_def [code_defs] win_set_status_def [code_defs] win_post_recv_def [code_defs]
  win_post_send_def [code_defs] win_session_Attach_def [code_defs] win_dispose_recv_def [code_defs] win_dispose_send_def [code_defs]
  win_update_status_def [code_defs] win_session_Update_def [code_defs]

section \<open>Safety of the operations\<close>

text \<open>
  What the system holds and what it is given: a session that is about to be closed, or was, has nothing with the system; an operation whose direction is
  over is not with the system either; and while a send is, its message is kept.
\<close>

definition win_quiet :: "win_session \<Rightarrow> bool" where
  "win_quiet s \<longleftrightarrow> pio_status (wn_recv s) \<noteq> IO_STATUS_PENDING \<and> pio_status (wn_send s) \<noteq> IO_STATUS_PENDING"

definition win_out_safe :: "win_session \<Rightarrow> bool" where
  "win_out_safe s \<longleftrightarrow> (let b = wn_base s; st = pio_status (wn_send s) in
     (s_send_over b \<longrightarrow> st \<noteq> IO_STATUS_PENDING) \<and> (st = IO_STATUS_PENDING \<longrightarrow> s_msg_send b \<noteq> None) \<and>
     (s_status b = SS_RUNNING \<longrightarrow> st \<noteq> IO_STATUS_ERROR \<and> (st = IO_STATUS_IDLE \<longleftrightarrow> s_msg_send b = None)))"

definition win_in_safe :: "win_session \<Rightarrow> bool" where
  "win_in_safe s \<longleftrightarrow> (let b = wn_base s; d = wn_recv s in
     (s_recv_over b \<longrightarrow> pio_status d \<noteq> IO_STATUS_PENDING) \<and> length (pio_data d) = 4096 \<and>
     (pio_status d = IO_STATUS_COMPLETED \<and> pio_succ d \<noteq> 0 \<longrightarrow>
        unat (pio_bytes d) \<le> 4096 \<and> (\<exists>bs. take (unat (pio_bytes d)) (pio_data d) = map Some bs)))"

definition win_safe :: "win_session \<Rightarrow> bool" where
  "win_safe s \<longleftrightarrow> win_out_safe s \<and> win_in_safe s \<and> (s_status (wn_base s) \<in> {SS_PRECLOSED, SS_CLOSED} \<longrightarrow> win_quiet s)"

lemma win_base_sel [simp]:
  "wn_base (win_on_base f s) = f (wn_base s)" "wn_send (win_on_base f s) = wn_send s" "wn_recv (win_on_base f s) = wn_recv s"
  "wn_base (win_set_status st s) = (wn_base s)\<lparr>s_status := st\<rparr>" "wn_send (win_set_status st s) = wn_send s"
  "wn_recv (win_set_status st s) = wn_recv s"
  by (simp_all add: win_on_base_def win_set_status_def session_set_socket_status_def)

text \<open>The parts of a session that receiving leaves alone.\<close>

definition same_sending :: "win_session \<Rightarrow> win_session \<Rightarrow> bool" where
  "same_sending s s1 \<longleftrightarrow> wn_send s1 = wn_send s \<and> s_que_send (wn_base s1) = s_que_send (wn_base s)
     \<and> s_msg_send (wn_base s1) = s_msg_send (wn_base s) \<and> s_send_over (wn_base s1) = s_send_over (wn_base s)
     \<and> s_id (wn_base s1) = s_id (wn_base s) \<and> s_socket (wn_base s1) = s_socket (wn_base s)
     \<and> (s_status (wn_base s1) = s_status (wn_base s) \<or> s_status (wn_base s) = SS_RUNNING \<and> s_status (wn_base s1) = SS_ERROR)
     \<and> (s_status (wn_base s) \<noteq> SS_RUNNING \<longrightarrow> wn_recv s1 = wn_recv s)"

lemma post_recv_spec:
  assumes "win_post_recv r s y = (ok, s1, y1)" and "s_status (wn_base s) = SS_RUNNING" and "\<not> s_recv_over (wn_base s)"
    and "pio_status (wn_recv s) = IO_STATUS_IDLE" and "length (pio_data (wn_recv s)) = 4096"
  shows "same_sending s s1 \<and> handed y1 = handed y \<and> win_in_safe s1 \<and> s_status (wn_base s1) \<notin> {SS_PRECLOSED, SS_CLOSED}
    \<and> s_msg_header (wn_base s1) = s_msg_header (wn_base s) \<and> s_msg_recv (wn_base s1) = s_msg_recv (wn_base s)
    \<and> s_disconnect (wn_base s1) = s_disconnect (wn_base s)"
  using assms
  by (auto simp: win_post_recv_def Let_def same_sending_def win_in_safe_def session_on_recv_error_def
      split: wsa_reply.splits if_splits)

lemma dispose_bytes:
  assumes "win_safe s" and "recv_rel (wn_base s) d" and "pool_wf (ne_mq e)"
    and run: "s_status (wn_base s) = SS_RUNNING" "\<not> s_recv_over (wn_base s)" "pio_status (wn_recv s) = IO_STATUS_COMPLETED"
    and bytes: "pio_succ (wn_recv s) \<noteq> 0" "pio_bytes (wn_recv s) \<noteq> 0"
  shows "\<exists>s1 e1 y1. win_dispose_recv r s e y = Some (s1, e1, y1) \<and> same_sending s s1 \<and> handed y1 = handed y
    \<and> win_in_safe s1 \<and> recv_rel (wn_base s1) (fst (feeds d (incoming s)))
    \<and> delivers (s_id (wn_base s)) e e1 (snd (feeds d (incoming s)))"
proof -
  let ?b = "wn_base s" and ?d = "wn_recv s"
  let ?s1 = "s\<lparr>wn_recv := ?d\<lparr>pio_status := IO_STATUS_IDLE\<rparr>\<rparr>"
  have len: "length (pio_data ?d) = 4096" using assms(1) by (simp add: win_safe_def win_in_safe_def Let_def)
  obtain bs where bs: "unat (pio_bytes ?d) \<le> 4096" "take (unat (pio_bytes ?d)) (pio_data ?d) = map Some bs"
    using assms(1) run bytes by (auto simp: win_safe_def win_in_safe_def Let_def)
  have n: "unat (pio_bytes ?d) = length bs" using arg_cong [OF bs(2), of length] bs(1) len by simp
  have inc: "incoming s = bs" using run bytes bs(2) by (simp add: incoming_def comp_def Let_def)
  have rd: "mem_read 0 (unat (pio_bytes ?d)) (pio_data ?d) = Some (map Some bs)" using bs len by (simp add: mem_read_def)
  obtain b1 e1 where 1: "session_on_recv ?b e (map Some bs) (pio_bytes ?d) = Some (b1, e1)"
    "recv_rel b1 (fst (feeds d bs))" "delivers (s_id ?b) e e1 (snd (feeds d bs))"
    using on_recv_sim [OF assms(2,3) n] by blast
  have k: "keeps ?b e (b1, e1)" by (rule on_recv_keeps [OF 1(1)])
  obtain ok s2 y2 where 2: "win_post_recv r (?s1\<lparr>wn_base := b1\<rparr>) y = (ok, s2, y2)" by (rule prod_cases3)
  have 3: "same_sending (?s1\<lparr>wn_base := b1\<rparr>) s2 \<and> handed y2 = handed y \<and> win_in_safe s2
      \<and> s_status (wn_base s2) \<notin> {SS_PRECLOSED, SS_CLOSED}
      \<and> s_msg_header (wn_base s2) = s_msg_header b1 \<and> s_msg_recv (wn_base s2) = s_msg_recv b1
      \<and> s_disconnect (wn_base s2) = s_disconnect b1"
    using post_recv_spec [OF 2] run len k by (simp add: keeps_def keeps_out_def)
  have "same_sending s s2" using 3 k run by (simp add: same_sending_def keeps_def keeps_out_def)
  moreover have "recv_rel (wn_base s2) (fst (feeds d bs))"
    by (rule recv_rel_cong [OF _ _ _ 1(2)]) (use 3 in simp_all)
  moreover have "win_dispose_recv r s e y = Some (s2, e1, y2)"
    using run bytes rd 1(1) 2 by (simp add: win_dispose_recv_def Let_def)
  ultimately show ?thesis using inc 1(3) 3 by simp
qed

lemma dispose_recv_spec:
  assumes "win_safe s" and "recv_rel (wn_base s) d" and "pool_wf (ne_mq e)"
  shows "\<exists>s1 e1 y1. win_dispose_recv r s e y = Some (s1, e1, y1) \<and> same_sending s s1 \<and> handed y1 = handed y
    \<and> win_in_safe s1 \<and> recv_rel (wn_base s1) (fst (feeds d (incoming s)))
    \<and> delivers (s_id (wn_base s)) e e1 (snd (feeds d (incoming s)))"
proof -
  let ?b = "wn_base s" and ?d = "wn_recv s"
  let ?s1 = "s\<lparr>wn_recv := ?d\<lparr>pio_status := IO_STATUS_IDLE\<rparr>\<rparr>"
  have safe: "win_in_safe s" using assms(1) by (simp add: win_safe_def)
  then have len: "length (pio_data ?d) = 4096" by (simp add: win_in_safe_def Let_def)
  have none: "delivers i e e []" for i using assms(3) by (simp add: delivers_def)
  consider (idle) "\<not> (s_status ?b = SS_RUNNING \<and> \<not> s_recv_over ?b \<and> pio_status ?d = IO_STATUS_COMPLETED)"
    | (bytes) "s_status ?b = SS_RUNNING" "\<not> s_recv_over ?b" "pio_status ?d = IO_STATUS_COMPLETED" "pio_succ ?d \<noteq> 0" "pio_bytes ?d \<noteq> 0"
    | (eof) "s_status ?b = SS_RUNNING" "\<not> s_recv_over ?b" "pio_status ?d = IO_STATUS_COMPLETED" "pio_succ ?d \<noteq> 0" "pio_bytes ?d = 0"
    | (failed) "s_status ?b = SS_RUNNING" "\<not> s_recv_over ?b" "pio_status ?d = IO_STATUS_COMPLETED" "pio_succ ?d = 0"
    by blast
  then show ?thesis
  proof cases
    case idle
    then have "incoming s = []" "win_dispose_recv r s e y = Some (s, e, y)"
      by (auto simp: incoming_def win_dispose_recv_def Let_def)
    then show ?thesis using assms(2) none safe by (simp add: same_sending_def)
  next
    case bytes
    show ?thesis by (rule dispose_bytes [OF assms bytes])
  next
    case eof
    let ?s2 = "?s1\<lparr>wn_base := session_Disconnect (?b\<lparr>s_recv_over := True\<rparr>)\<rparr>"
    have "incoming s = []" "win_dispose_recv r s e y = Some (?s2, e, y)"
      using eof by (simp_all add: incoming_def win_dispose_recv_def Let_def)
    moreover have "recv_rel (wn_base ?s2) d" by (rule recv_rel_cong [OF _ _ _ assms(2)]) simp_all
    moreover have "same_sending s ?s2" "win_in_safe ?s2"
      using eof len by (simp_all add: same_sending_def win_in_safe_def session_Disconnect_def Let_def)
    ultimately show ?thesis using none by simp
  next
    case failed
    let ?s2 = "win_set_status SS_ERROR (?s1\<lparr>wn_base := ?b\<lparr>s_recv_error := pio_err ?d\<rparr>\<rparr>)"
    have "incoming s = []" "win_dispose_recv r s e y = Some (?s2, e, y)"
      using failed by (simp_all add: incoming_def win_dispose_recv_def Let_def)
    moreover have "recv_rel (wn_base ?s2) d" by (rule recv_rel_cong [OF _ _ _ assms(2)]) simp_all
    moreover have "same_sending s ?s2" "win_in_safe ?s2"
      using failed len by (simp_all add: same_sending_def win_in_safe_def Let_def)
    ultimately show ?thesis using none by simp
  qed
qed

text \<open>The parts that sending leaves alone.\<close>

definition same_receiving :: "win_session \<Rightarrow> win_session \<Rightarrow> bool" where
  "same_receiving s s1 \<longleftrightarrow> wn_recv s1 = wn_recv s \<and> s_msg_header (wn_base s1) = s_msg_header (wn_base s)
     \<and> s_msg_recv (wn_base s1) = s_msg_recv (wn_base s) \<and> s_disconnect (wn_base s1) = s_disconnect (wn_base s)
     \<and> s_recv_over (wn_base s1) = s_recv_over (wn_base s) \<and> s_id (wn_base s1) = s_id (wn_base s)
     \<and> (s_status (wn_base s1) = s_status (wn_base s) \<or> s_status (wn_base s) = SS_RUNNING \<and> s_status (wn_base s1) = SS_ERROR)
     \<and> (s_status (wn_base s) \<noteq> SS_RUNNING \<longrightarrow> wn_send s1 = wn_send s)"

text \<open>What is queued, as bytes, with buffers that can be given back.\<close>

definition win_out_ok :: "win_session \<Rightarrow> net_env \<Rightarrow> byte list \<Rightarrow> bool" where
  "win_out_ok s e bs \<longleftrightarrow> send_wf (wn_base s) e \<and> wire (wn_base s) = map Some bs
     \<and> (\<forall>m. s_msg_send (wn_base s) = Some m \<longrightarrow> msg_sized m)"

lemma front_bytes:
  assumes "win_out_ok s e bs" and "s_que_send (wn_base s) = m # ms"
  obtains ds where "msg_bytes m = map Some ds" "bs = ds @ drop (length ds) bs" "concat (map msg_bytes ms) = map Some (drop (length ds) bs)"
    "mem_read 0 (unat (message_DataLength m)) (m_data m) = Some (map Some ds)" "sendbuf_ok m"
proof -
  have w: "msg_bytes m @ concat (map msg_bytes ms) = map Some bs" and ok: "sendbuf_ok m"
    using assms by (simp_all add: win_out_ok_def wire_def send_wf_def)
  then obtain ds ws where "bs = ds @ ws" "msg_bytes m = map Some ds" "concat (map msg_bytes ms) = map Some ws"
    unfolding append_eq_map_conv by blast
  moreover have "mem_read 0 (unat (message_DataLength m)) (m_data m) = Some (msg_bytes m)"
    using msg_wf_le [of m] ok by (simp add: mem_simps sendbuf_ok_def message_DataLength_def msg_bytes_def)
  ultimately show thesis using that [of ds] ok by simp
qed

lemma post_send_spec:
  assumes "win_out_safe s" and "win_out_ok s e bs" and "s_status (wn_base s) = SS_RUNNING" and "\<not> s_send_over (wn_base s)"
    and "pio_status (wn_send s) = IO_STATUS_IDLE"
  shows "\<exists>s1 y1 bs1. win_post_send r s y = Some (s1, y1) \<and> win_out_safe s1 \<and> win_out_ok s1 e bs1
    \<and> handed y1 @ bs1 = handed y @ bs \<and> same_receiving s s1"
proof (cases "s_que_send (wn_base s)")
  case Nil
  have "s_msg_send (wn_base s) = None" using assms(1,3,5) by (simp add: win_out_safe_def Let_def)
  then show ?thesis
    using assms Nil by (auto simp: win_post_send_def win_out_safe_def win_out_ok_def same_receiving_def send_wf_def wire_def Let_def)
next
  case (Cons m ms)
  show ?thesis
  proof (cases "message_DataLength m = 0")
    case True
    then show ?thesis
      using assms Cons
      by (auto simp: win_post_send_def win_out_safe_def win_out_ok_def same_receiving_def send_wf_def wire_def Let_def)
  next
    case False
    note fb = front_bytes [OF assms(2) Cons]
    obtain ds where ds: "msg_bytes m = map Some ds" "bs = ds @ drop (length ds) bs"
      "concat (map msg_bytes ms) = map Some (drop (length ds) bs)"
      "mem_read 0 (unat (message_DataLength m)) (m_data m) = Some (map Some ds)" "sendbuf_ok m" by (rule fb)
    let ?rest = "drop (length ds) bs" and ?y1 = "y @ [WinSend (s_socket (wn_base s)) ds]"
    have h: "handed ?y1 @ ?rest = handed y @ bs" using ds(2) by simp
    define s1 where "s1 = s\<lparr>wn_base := (wn_base s)\<lparr>s_msg_send := Some m, s_que_send := ms\<rparr>, wn_send := per_io_Reset (wn_send s)\<rparr>"
    define s2 where "s2 err = win_set_status SS_ERROR (win_on_base (\<lambda>b. session_on_send_error b err)
        (s1\<lparr>wn_send := per_io_Error err (wn_send s1)\<rparr>))" for err
    have ok: "win_out_ok s1 e ?rest" "win_out_ok (s2 err) e ?rest" for err
      using assms(2) Cons ds(3,5)
      by (simp_all add: win_out_ok_def s1_def s2_def send_wf_def wire_def sendbuf_ok_def session_on_send_error_def)
    have safe: "win_out_safe s1" "win_out_safe (s2 err)" for err
      using assms(3,4) by (simp_all add: win_out_safe_def s1_def s2_def session_on_send_error_def Let_def)
    have same: "same_receiving s s1" "same_receiving s (s2 err)" for err
      using assms(3) by (simp_all add: same_receiving_def s1_def s2_def session_on_send_error_def)
    have "win_post_send r s y = (case r of WsaDone \<Rightarrow> Some (s1, ?y1)
        | WsaErr err \<Rightarrow> if err \<noteq> WSA_IO_PENDING then Some (s2 err, ?y1) else Some (s1, ?y1))"
      using assms(5) Cons False ds(4) by (cases r) (simp_all add: win_post_send_def s1_def s2_def Let_def)
    then show ?thesis using ok safe same h by (cases r) (auto split: if_splits)
  qed
qed

lemma dispose_send_spec:
  assumes "win_out_safe s" and "win_out_ok s e bs"
  shows "\<exists>s1 e1 y1 bs1. win_dispose_send r s e y = Some (s1, e1, y1) \<and> win_out_safe s1 \<and> win_out_ok s1 e1 bs1
    \<and> handed y1 @ bs1 = handed y @ bs \<and> same_receiving s s1 \<and> ne_mq e1 = ne_mq e"
proof -
  let ?b = "wn_base s" and ?d = "wn_send s"
  have same: "same_receiving s s" by (simp add: same_receiving_def)
  show ?thesis
  proof (cases "s_status ?b = SS_RUNNING \<and> \<not> s_send_over ?b")
    case False
    then have "win_dispose_send r s e y = Some (s, e, y)" by (auto simp: win_dispose_send_def Let_def)
    then show ?thesis using assms same by blast
  next
    case True
    have st: "pio_status ?d \<noteq> IO_STATUS_ERROR" "pio_status ?d = IO_STATUS_IDLE \<longleftrightarrow> s_msg_send ?b = None"
      using assms(1) True by (simp_all add: win_out_safe_def Let_def)
    show ?thesis
    proof (cases "pio_status ?d")
      case IO_STATUS_IDLE
      obtain s1 y1 bs1 where "win_post_send r s y = Some (s1, y1)" "win_out_safe s1" "win_out_ok s1 e bs1"
        "handed y1 @ bs1 = handed y @ bs" "same_receiving s s1"
        using post_send_spec [OF assms _ _ IO_STATUS_IDLE] True by blast
      then show ?thesis using True IO_STATUS_IDLE by (auto simp: win_dispose_send_def Let_def)
    next
      case IO_STATUS_PENDING
      then have "win_dispose_send r s e y = Some (s, e, y)" using True by (simp add: win_dispose_send_def Let_def)
      then show ?thesis using assms same by blast
    next
      case IO_STATUS_ERROR
      then show ?thesis using st by simp
    next
      case IO_STATUS_COMPLETED
      then obtain m where m: "s_msg_send ?b = Some m" using st(2) by auto
      have "msg_sized m" "pool_wf (ne_mq2 e)" using assms(2) m by (auto simp: win_out_ok_def send_wf_def)
      then have p: "pool_wf (FreeMessage (ne_mq2 e) m)" by (simp add: FreeMessage_wf)
      show ?thesis
      proof (cases "pio_succ ?d = 0")
        case False
        then show ?thesis
          using True IO_STATUS_COMPLETED m assms(2) p
          by (simp add: win_dispose_send_def win_out_safe_def win_out_ok_def send_wf_def wire_def same_receiving_def Let_def)
      next
        case eq: True
        then show ?thesis
          using True IO_STATUS_COMPLETED m assms(2)
          by (simp add: win_dispose_send_def win_out_safe_def win_out_ok_def send_wf_def wire_def same_receiving_def Let_def)
      qed
    qed
  qed
qed

lemma update_status_spec:
  assumes "win_update_status s y = (s1, y1)" and "win_safe s"
  shows "win_safe s1 \<and> handed y1 = handed y \<and> wn_send s1 = wn_send s \<and> wn_recv s1 = wn_recv s
    \<and> s_que_send (wn_base s1) = s_que_send (wn_base s) \<and> s_msg_send (wn_base s1) = s_msg_send (wn_base s)
    \<and> s_msg_header (wn_base s1) = s_msg_header (wn_base s) \<and> s_msg_recv (wn_base s1) = s_msg_recv (wn_base s)
    \<and> s_disconnect (wn_base s1) = s_disconnect (wn_base s) \<and> s_id (wn_base s1) = s_id (wn_base s)"
  using assms
  by (cases "s_status (wn_base s)")
    (auto simp: win_update_status_def Let_def win_safe_def win_out_safe_def win_in_safe_def win_quiet_def win_close_socket_def
      split: if_splits prod.splits)

section \<open>Histories\<close>

type_synonym win_state = "win_session \<times> net_env \<times> win_log"

text \<open>
  \<open>win_talk a ps cs b\<close>: from \<open>a\<close> a history of sends, updates, results of the system and disconnects leads to \<open>b\<close>; \<open>ps\<close> are the messages accepted
  for sending, each of which fitted into the buffer it started in, and \<open>cs\<close> the bytes that were taken from finished receives.
\<close>

inductive win_talk :: "win_state \<Rightarrow> byte list list \<Rightarrow> byte list \<Rightarrow> win_state \<Rightarrow> bool" where
  start: "win_talk a [] [] a"
| send: "win_talk a ps cs (s, e, y) \<Longrightarrow> session_Active (wn_base s) \<Longrightarrow> p \<noteq> [] \<Longrightarrow> 4 + length p \<le> free_room (send_room (wn_base s)) \<Longrightarrow>
    win_session_Send s e (map Some p) (word_of_nat (length p)) = Some (s1, e1) \<Longrightarrow> win_talk a (ps @ [p]) cs (s1, e1, y)"
| update: "win_talk a ps cs (s, e, y) \<Longrightarrow> win_session_Update r1 r2 s e y = Some (s1, e1, y1) \<Longrightarrow>
    win_talk a ps (cs @ incoming s) (s1, e1, y1)"
| received: "win_talk a ps cs (s, e, y) \<Longrightarrow> pio_status (wn_recv s) = IO_STATUS_PENDING \<Longrightarrow> length bs \<le> 4096 \<Longrightarrow>
    win_talk a ps cs (recv_ends_with bs s, e, y)"
| receive_failed: "win_talk a ps cs (s, e, y) \<Longrightarrow> pio_status (wn_recv s) = IO_STATUS_PENDING \<Longrightarrow>
    win_talk a ps cs (recv_fails_with err n s, e, y)"
| sent: "win_talk a ps cs (s, e, y) \<Longrightarrow> pio_status (wn_send s) = IO_STATUS_PENDING \<Longrightarrow> (\<And>err. r \<noteq> IocpNothing err) \<Longrightarrow>
    win_talk a ps cs (send_ends_with r s, e, y)"
| disconnect: "win_talk a ps cs (s, e, y) \<Longrightarrow> win_talk a ps cs (win_on_base session_Disconnect s, e, y)"

text \<open>What holds in every history: from the first state on, messages have been delivered as the decoder says.\<close>

definition win_inv :: "nat \<Rightarrow> net_env \<Rightarrow> byte list \<Rightarrow> byte list \<Rightarrow> win_session \<Rightarrow> net_env \<Rightarrow> win_log \<Rightarrow> bool" where
  "win_inv i e0 out cs s e y \<longleftrightarrow> win_safe s \<and> s_id (wn_base s) = i \<and> (\<exists>bs. win_out_ok s e bs \<and> handed y @ bs = out)
     \<and> recv_rel (wn_base s) (fst (feeds (Pending []) cs)) \<and> arrived i e0 e (snd (feeds (Pending []) cs))"

lemma Update_spec:
  assumes "win_inv i e0 out cs s e y"
  shows "\<exists>s1 e1 y1. win_session_Update r1 r2 s e y = Some (s1, e1, y1) \<and> win_inv i e0 out (cs @ incoming s) s1 e1 y1"
proof -
  let ?d = "fst (feeds (Pending []) cs)"
  have a: "win_safe s" "recv_rel (wn_base s) ?d" "pool_wf (ne_mq e)" "s_id (wn_base s) = i"
    "arrived i e0 e (snd (feeds (Pending []) cs))"
    using assms by (simp_all add: win_inv_def arrived_def delivers_def)
  obtain bs where bs: "win_out_ok s e bs" "handed y @ bs = out" using assms by (auto simp: win_inv_def)
  obtain s1 e1 y1 where 1: "win_dispose_recv r1 s e y = Some (s1, e1, y1)" "same_sending s s1" "handed y1 = handed y" "win_in_safe s1"
    "recv_rel (wn_base s1) (fst (feeds ?d (incoming s)))" "delivers i e e1 (snd (feeds ?d (incoming s)))"
    using dispose_recv_spec [OF a(1-3)] a(4) by blast
  have o1: "win_out_safe s1" using a(1) 1(2) by (auto simp: win_safe_def win_out_safe_def same_sending_def Let_def)
  have "win_out_ok s1 e1 bs"
    using bs(1) 1(2,6) by (simp add: win_out_ok_def same_sending_def send_wf_def wire_def delivers_def)
  then obtain s2 e2 y2 bs2 where 2: "win_dispose_send r2 s1 e1 y1 = Some (s2, e2, y2)" "win_out_safe s2" "win_out_ok s2 e2 bs2"
    "handed y2 @ bs2 = handed y1 @ bs" "same_receiving s1 s2" "ne_mq e2 = ne_mq e1"
    using dispose_send_spec [OF o1] by blast
  obtain s3 y3 where 3: "win_update_status s2 y2 = (s3, y3)" by (rule prod.exhaust)
  have "win_in_safe s2" using 1(4) 2(5) by (simp add: win_in_safe_def same_receiving_def)
  moreover have "win_quiet s2" if st: "s_status (wn_base s2) \<in> {SS_PRECLOSED, SS_CLOSED}"
  proof -
    have st1: "s_status (wn_base s1) \<in> {SS_PRECLOSED, SS_CLOSED}" "wn_send s2 = wn_send s1" "wn_recv s2 = wn_recv s1"
      using st 2(5) by (auto simp: same_receiving_def)
    have "s_status (wn_base s) \<in> {SS_PRECLOSED, SS_CLOSED}" "wn_send s1 = wn_send s" "wn_recv s1 = wn_recv s"
      using st1(1) 1(2) by (auto simp: same_sending_def)
    then show ?thesis using a(1) st1 by (auto simp: win_safe_def win_quiet_def)
  qed
  ultimately have safe: "win_safe s2" using 2(2) by (simp add: win_safe_def)
  note u = update_status_spec [OF 3 safe]
  have id: "s_id (wn_base s3) = i" using a(4) 1(2) 2(5) u by (simp add: same_sending_def same_receiving_def)
  have out: "win_out_ok s3 e2 bs2" "handed y3 @ bs2 = out"
    using 2(3,4) 1(3) bs(2) u by (simp_all add: win_out_ok_def send_wf_def wire_def)
  have rel: "recv_rel (wn_base s3) (fst (feeds (Pending []) (cs @ incoming s)))"
    unfolding feeds_append_sel by (rule recv_rel_cong [OF _ _ _ 1(5)]) (use 2(5) u in \<open>simp_all add: same_receiving_def\<close>)
  have "arrived i e0 e2 (snd (feeds (Pending []) (cs @ incoming s)))"
    unfolding feeds_append_sel by (rule arrived_cong [OF arrived_trans [OF a(5) 1(6)] 2(6)])
  then have "win_inv i e0 out (cs @ incoming s) s3 e2 y3" using u id out rel unfolding win_inv_def by blast
  then show ?thesis using 1(1) 2(1) 3 by (simp add: win_session_Update_def)
qed

lemma inv_step_recv:
  assumes "win_inv i e0 out cs s e y" and "pio_status (wn_recv s) = IO_STATUS_PENDING"
  shows "length bs \<le> 4096 \<Longrightarrow> win_inv i e0 out cs (recv_ends_with bs s) e y" and "win_inv i e0 out cs (recv_fails_with err n s) e y"
proof -
  have n: "unat (word_of_nat (length bs) :: u32) = length bs" if "length bs \<le> 4096" using that by (simp add: unat_of_nat)
  show "length bs \<le> 4096 \<Longrightarrow> win_inv i e0 out cs (recv_ends_with bs s) e y" and "win_inv i e0 out cs (recv_fails_with err n s) e y"
    using assms n
    by (auto simp: win_inv_def win_safe_def win_out_safe_def win_in_safe_def win_quiet_def win_out_ok_def recv_ends_with_def
        recv_fails_with_def Let_def)
qed

lemma inv_step_send:
  assumes "win_inv i e0 out cs s e y" and "pio_status (wn_send s) = IO_STATUS_PENDING" and "\<And>err. r \<noteq> IocpNothing err"
  shows "win_inv i e0 out cs (send_ends_with r s) e y"
  using assms
  by (cases r) (auto simp: win_inv_def win_safe_def win_out_safe_def win_in_safe_def win_quiet_def win_out_ok_def send_ends_with_def Let_def)

lemma inv_step_disconnect:
  assumes "win_inv i e0 out cs s e y"
  shows "win_inv i e0 out cs (win_on_base session_Disconnect s) e y"
proof -
  have rel: "recv_rel (wn_base s) (fst (feeds (Pending []) cs))" using assms by (simp add: win_inv_def)
  have "recv_rel (session_Disconnect (wn_base s)) (fst (feeds (Pending []) cs))" by (rule recv_rel_cong [OF _ _ _ rel]) simp_all
  moreover have "win_safe (win_on_base session_Disconnect s)"
    using assms
    by (simp add: win_inv_def win_safe_def win_out_safe_def win_in_safe_def win_quiet_def session_Disconnect_def Let_def)
  ultimately show ?thesis
    using assms by (simp add: win_inv_def win_out_ok_def session_Disconnect_def send_wf_def wire_def)
qed

lemma inv_step_Send:
  assumes "win_inv i e0 out cs s e y" and "session_Active (wn_base s)" and "p \<noteq> []" and "4 + length p \<le> free_room (send_room (wn_base s))"
    and "win_session_Send s e (map Some p) (word_of_nat (length p)) = Some (s1, e1)"
  shows "win_inv i e0 (out @ frame p) cs s1 e1 y"
proof -
  obtain bs where bs: "win_out_ok s e bs" "handed y @ bs = out" using assms(1) by (auto simp: win_inv_def)
  obtain b e2 where b: "session_Send (wn_base s) e (map Some p) (word_of_nat (length p)) = Some (b, e2)"
    "sends (wn_base s) e b e2 (map Some (frame p)) (free_room (send_room (wn_base s)) - 4 - length p)"
    using Send_appends_frame [OF assms(2) _ assms(3,4), of e] bs(1) by (auto simp: win_out_ok_def)
  then have s1: "s1 = s\<lparr>wn_base := b\<rparr>" "e1 = e2" using assms(5) by (auto simp: win_session_Send_def)
  obtain q q2 where q: "b = (wn_base s)\<lparr>s_que_send := q\<rparr>" "e2 = e\<lparr>ne_mq2 := q2\<rparr>" using b(2) by (auto simp: sends_def)
  have rel: "recv_rel (wn_base s) (fst (feeds (Pending []) cs))" using assms(1) by (simp add: win_inv_def)
  have "win_out_ok s1 e1 (bs @ frame p)" using b(2) bs(1) q s1 by (simp add: win_out_ok_def sends_def)
  moreover have "recv_rel (wn_base s1) (fst (feeds (Pending []) cs))"
    by (rule recv_rel_cong [OF _ _ _ rel]) (use q s1 in simp_all)
  moreover have "win_safe s1"
    using assms(1) q s1 by (simp add: win_inv_def win_safe_def win_out_safe_def win_in_safe_def win_quiet_def Let_def)
  moreover have "arrived i e0 e1 (snd (feeds (Pending []) cs))"
    by (rule arrived_cong [of i e0 e]) (use assms(1) q s1 in \<open>simp_all add: win_inv_def\<close>)
  moreover have "s_id (wn_base s1) = i" using assms(1) q s1 by (simp add: win_inv_def)
  moreover have "handed y @ bs @ frame p = out @ frame p" using bs(2) by simp
  ultimately show ?thesis unfolding win_inv_def by blast
qed

text \<open>A session right after its creation and its successful attachment; \<open>r\<close> is the answer to its first receive.\<close>

definition win_first :: "nat \<Rightarrow> wsa_reply \<Rightarrow> net_env \<Rightarrow> win_state" where
  "win_first i r e = (let (s, y) = win_session_Attach True r 7 None (win_session_new i) [] in (s, e, y))"

definition env_ok :: "net_env \<Rightarrow> bool" where
  "env_ok e \<longleftrightarrow> pool_wf (ne_mq e) \<and> pool_wf (ne_mq2 e)"

lemma first_inv:
  assumes "env_ok e"
  shows "\<exists>s y. win_first i r e = (s, e, y) \<and> win_inv i e [] [] s e y"
proof -
  have "msg_wf (message_Reset (message_new 4) 4)" by (rule msg_wf_Reset) (simp_all add: message_new_def)
  then show ?thesis
    using assms
    by (cases r) (auto simp: win_first_def win_session_Attach_def win_session_new_def win_RegisterHandler_def win_post_recv_def
        win_inv_def win_safe_def win_out_safe_def win_in_safe_def win_quiet_def win_out_ok_def send_wf_def wire_def per_io_new_def
        arrived_def delivers_def recv_rel.simps header_ok_def env_ok_def MAX_BUFFER_SIZE_def session_on_recv_error_def Let_def)
qed

lemma win_talk_inv:
  assumes "win_talk a ps cs b" and "b = (s, e, y)" and "a = (s0, e0, y0)" and "win_inv i e0 [] [] s0 e0 y0"
  shows "win_inv i e0 (concat (map frame ps)) cs s e y"
  using assms
proof (induction arbitrary: s e y rule: win_talk.induct)
  case (start a)
  then show ?case by simp
next
  case (send a ps cs s1 e1 y1 p s2 e2)
  then show ?case using inv_step_Send [of i e0 "concat (map frame ps)" cs s1 e1 y1 p s2 e2] by simp
next
  case (update a ps cs s1 e1 y1 r1 r2 s2 e2 y2)
  then show ?case using Update_spec [of i e0 "concat (map frame ps)" cs s1 e1 y1 r1 r2] by auto
next
  case (received a ps cs s1 e1 y1 bs)
  then show ?case by (auto intro: inv_step_recv)
next
  case (receive_failed a ps cs s1 e1 y1 err n)
  then show ?case by (auto intro: inv_step_recv)
next
  case (sent a ps cs s1 e1 y1 r)
  then show ?case by (auto intro: inv_step_send)
next
  case (disconnect a ps cs s1 e1 y1)
  then show ?case by (auto intro: inv_step_disconnect)
qed

section \<open>Properties\<close>

text \<open>
  C18. In every history \<^verbatim>\<open>Update\<close> is defined, and a session that may be deleted has nothing with the system, which would write to
  the deleted object; while a send is with the system its message is kept.
\<close>

theorem win_session_safe:
  assumes "win_talk (win_first i r e0) ps cs (s, e, y)" and "env_ok e0"
  shows "win_session_Update r1 r2 s e y \<noteq> None
    \<and> (session_Disposable (wn_base s) \<longrightarrow> pio_status (wn_recv s) \<noteq> IO_STATUS_PENDING \<and> pio_status (wn_send s) \<noteq> IO_STATUS_PENDING)
    \<and> (pio_status (wn_send s) = IO_STATUS_PENDING \<longrightarrow> s_msg_send (wn_base s) \<noteq> None)"
proof -
  obtain s0 y0 where a: "win_first i r e0 = (s0, e0, y0)" "win_inv i e0 [] [] s0 e0 y0" using first_inv [OF assms(2)] by blast
  have inv: "win_inv i e0 (concat (map frame ps)) cs s e y" by (rule win_talk_inv [OF assms(1) refl a])
  then have "win_safe s" by (simp add: win_inv_def)
  then show ?thesis
    using Update_spec [OF inv, of r1 r2] by (simp add: win_safe_def win_out_safe_def win_quiet_def session_Disposable_def Let_def) blast
qed

text \<open>
  In every history the bytes that were handed to the system, and those that are queued behind them, are the frames of the accepted
  messages, in order; and the messages that reached the logic thread are the ones that the decoder finds in the bytes received.
\<close>

theorem win_session_streams:
  assumes "win_talk (win_first i r e0) ps cs (s, e, y)" and "env_ok e0"
  shows "\<exists>bs. wire (wn_base s) = map Some bs \<and> handed y @ bs = concat (map frame ps)
    \<and> arrived i e0 e (snd (feeds (Pending []) cs))"
proof -
  obtain s0 y0 where a: "win_first i r e0 = (s0, e0, y0)" "win_inv i e0 [] [] s0 e0 y0" using first_inv [OF assms(2)] by blast
  have "win_inv i e0 (concat (map frame ps)) cs s e y" by (rule win_talk_inv [OF assms(1) refl a])
  then show ?thesis by (auto simp: win_inv_def win_out_ok_def)
qed

text \<open>
  When the system has sent only a part of a buffer, the rest is lost: the next \<^verbatim>\<open>Update\<close> gives the message back to the pool, and the one
  after it goes on with the next buffer.
\<close>

theorem partial_send_lost:
  assumes "s_status (wn_base s) = SS_RUNNING" and "\<not> s_send_over (wn_base s)" and "pio_status (wn_send s) = IO_STATUS_COMPLETED"
    and "pio_succ (wn_send s) \<noteq> 0" and "s_msg_send (wn_base s) = Some m"
  shows "win_dispose_send r s e y = Some (s\<lparr>wn_send := (wn_send s)\<lparr>pio_status := IO_STATUS_IDLE\<rparr>,
      wn_base := (wn_base s)\<lparr>s_msg_send := None\<rparr>\<rparr>, e\<lparr>ne_mq2 := FreeMessage (ne_mq2 e) m\<rparr>, y)"
  using assms by (simp add: win_dispose_send_def Let_def)

section \<open>A history\<close>

lemma first_env_ok: "env_ok first_env"
  by (simp add: env_ok_def first_env_def mqueue_new_def pool_wf_def)

lemma win_first_sel:
  assumes "win_first i WsaDone e = (s, e1, y)"
  shows "s_status (wn_base s) = SS_RUNNING" "\<not> s_recv_over (wn_base s)" "pio_status (wn_recv s) = IO_STATUS_PENDING" "e1 = e"
    "s_que_send (wn_base s) = []" "handed y = []"
  using assms
  by (simp_all add: win_first_def win_session_Attach_def win_session_new_def win_RegisterHandler_def win_post_recv_def
      per_io_new_def Let_def) auto

lemma incoming_received:
  assumes "s_status (wn_base s) = SS_RUNNING" and "\<not> s_recv_over (wn_base s)" and "length bs \<le> 4096"
  shows "incoming (recv_ends_with bs s) = bs"
proof -
  have "unat (word_of_nat (length bs) :: u32) = length bs" using assms(3) by (simp add: unat_of_nat)
  then show ?thesis using assms by (simp add: incoming_def recv_ends_with_def comp_def Let_def)
qed

text \<open>A new session that receives some bytes.\<close>

lemma hears_bytes:
  assumes "length bs \<le> 4096"
  shows "\<exists>s e y. win_talk (win_first 1 WsaDone first_env) [] bs (s, e, y)"
proof -
  obtain s y where 1: "win_first 1 WsaDone first_env = (s, first_env, y)" "win_inv 1 first_env [] [] s first_env y"
    using first_inv [OF first_env_ok] by blast
  note f = win_first_sel [OF 1(1)]
  have "win_talk (win_first 1 WsaDone first_env) [] [] (s, first_env, y)" using win_talk.start 1(1) by metis
  from win_talk.received [OF this f(3) assms]
  have 2: "win_talk (win_first 1 WsaDone first_env) [] [] (recv_ends_with bs s, first_env, y)" .
  obtain s1 e1 y1 where "win_session_Update WsaDone WsaDone (recv_ends_with bs s) first_env y = Some (s1, e1, y1)"
    using Update_spec [OF inv_step_recv(1) [OF 1(2) f(3) assms], of WsaDone WsaDone] by blast
  from win_talk.update [OF 2 this] show ?thesis
    using incoming_received [OF f(1,2) assms] by auto
qed

theorem win_session_safe_witness:
  "\<exists>s e y. win_talk (win_first 1 WsaDone first_env) [] (frame [7, 8]) (s, e, y) \<and> win_session_Update WsaDone WsaDone s e y \<noteq> None"
proof -
  have "length (frame [7, 8]) \<le> 4096" by (simp add: frame_def)
  then obtain s e y where "win_talk (win_first 1 WsaDone first_env) [] (frame [7, 8]) (s, e, y)" using hears_bytes by blast
  with win_session_safe [OF this first_env_ok] show ?thesis by blast
qed

theorem win_session_streams_witness:
  "\<exists>s e y. win_talk (win_first 1 WsaDone first_env) [] (frame [7, 8]) (s, e, y) \<and> arrived 1 first_env e [[7, 8]]"
proof -
  have "length (frame [7, 8]) \<le> 4096" by (simp add: frame_def)
  then obtain s e y where t: "win_talk (win_first 1 WsaDone first_env) [] (frame [7, 8]) (s, e, y)" using hears_bytes by blast
  have "snd (feeds (Pending []) (frame [7, 8])) = [[7, 8]]" by (simp add: feeds_frame len_ok_def)
  with t win_session_streams [OF t first_env_ok] show ?thesis by auto
qed

end
