(* ===== verification/WireWin.thy ===== *)
theory WireWin
  imports Wire SessionWin
begin

text \<open>A session on Linux and one on Windows at the two ends of a connection.\<close>

text \<open>
  C8. Whatever a session on Linux sends, as long as each message fits with its length field into the free room of the current send buffer, a session on Windows that receives an initial part of its
  bytes, in pieces of any sizes, delivers the first messages, unchanged and in order; and all of them when nothing is missing.
\<close>

theorem linux_to_windows:
  assumes "talk a ps (s, e, y)" and "silent a" and "\<forall>p\<in>set ps. 2 \<le> length p \<and> length p \<le> 0x4000"
    and "win_talk (win_first i r f0) qs heard (w, f, z)" and "env_ok f0" and "heard @ unread = taken (sy_log y)"
  shows "\<exists>ms. arrived i f0 f ms \<and> prefix ms ps \<and> (unread = [] \<longrightarrow> pending s = [] \<longrightarrow> ms = ps)"
proof -
  obtain bs where bs: "pending s = map Some bs" "taken (sy_log y) @ bs = concat (map frame ps)"
    using talk_stream [OF assms(1,2) HOL.refl] by blast
  have st: "heard @ unread @ bs = concat (map frame ps)" using bs(2) assms(6) by (metis append.assoc)
  obtain s0 z0 where a: "win_first i r f0 = (s0, f0, z0)" "win_inv i f0 [] [] s0 f0 z0" using first_inv [OF assms(5)] by blast
  have "win_inv i f0 (concat (map frame qs)) heard w f z" by (rule win_talk_inv [OF assms(4) HOL.refl a])
  then have "arrived i f0 f (snd (feeds (Pending []) heard))" by (simp add: win_inv_def)
  then show ?thesis using heard_prefix [OF st assms(3)] bs(1) by auto
qed

theorem linux_to_windows_witness:
  "\<exists>s e y w f z. talk (first_session, first_env, first_sys) [[7, 8]] (s, e, y)
    \<and> win_talk (win_first 1 WsaDone first_env) [] [2, 0, 0, 0, 7, 8] (w, f, z) \<and> arrived 1 first_env f [[7, 8]]"
proof -
  obtain s e y where t: "talk (first_session, first_env, first_sys) [[7, 8]] (s, e, y)" "pending s = []"
    "taken (sy_log y) = [2, 0, 0, 0, 7, 8]" using first_talk by blast
  have "length [2, 0, 0, 0, 7, 8 :: byte] \<le> 4096" by simp
  then obtain w f z where h: "win_talk (win_first 1 WsaDone first_env) [] [2, 0, 0, 0, 7, 8] (w, f, z)" using hears_bytes by blast
  have read: "[2, 0, 0, 0, 7, 8] @ [] = taken (sy_log y)" by (simp add: t(3))
  from linux_to_windows [OF t(1) first_session_ok(8) _ h first_env_ok read] show ?thesis using t h by auto
qed

text \<open>
  And the other way round, when Windows sends every buffer whole.
\<close>

theorem windows_to_linux:
  assumes "win_talk (win_first i r e0) ps cs (w, e, z)" and "env_ok e0" and "\<forall>p\<in>set ps. 2 \<le> length p \<and> length p \<le> 0x4000"
    and "recv_rel s (Pending [])" and "pool_wf (ne_mq f)" and "\<forall>rs\<in>set rss. \<exists>x\<in>set rs. recv_ends x"
    and "concat (map recv_stream rss) @ unread = handed z"
  shows "\<exists>s' f' ms. hear rss s f = Some (s', f') \<and> delivers (s_id s) f f' ms \<and> prefix ms ps
    \<and> (unread = [] \<longrightarrow> wire (wn_base w) = [] \<longrightarrow> ms = ps)"
proof -
  obtain s0 z0 where a: "win_first i r e0 = (s0, e0, z0)" "win_inv i e0 [] [] s0 e0 z0" using first_inv [OF assms(2)] by blast
  have "win_inv i e0 (concat (map frame ps)) cs w e z" by (rule win_talk_inv [OF assms(1) HOL.refl a])
  then obtain bs where bs: "wire (wn_base w) = map Some bs" "handed z @ bs = concat (map frame ps)"
    by (auto simp: win_inv_def win_out_ok_def)
  let ?heard = "concat (map recv_stream rss)"
  have st: "?heard @ unread @ bs = concat (map frame ps)" using bs(2) assms(7) by (metis append.assoc)
  obtain s' f' where "hear rss s f = Some (s', f')" "delivers (s_id s) f f' (snd (feeds (Pending []) ?heard))"
    using hear_sim [OF assms(4-6)] by blast
  then show ?thesis using heard_prefix [OF st assms(3)] bs(1) by auto
qed

end
