(* ===== verification/ListenerWin.thy ===== *)
theory ListenerWin
  imports Listener Iocp
begin

text \<open>
  The accepting socket on Windows: the Windows halves of \<^verbatim>\<open>libcore/include/listener.h\<close> and \<^verbatim>\<open>libcore/src/listener.cpp\<close>.
  One accept is with the system at a time, for a socket that is created for it.  The hook \<^verbatim>\<open>on_accept\<close> is left to
  the owner: the functions return the sockets it is called with.
\<close>

section \<open>State\<close>

definition ADDRESS_BUFFER_SIZE :: u32 where "ADDRESS_BUFFER_SIZE = 32"

record win_listener =
  wl_id :: nat
  wl_acceptor :: int
  wl_listener :: int
  wl_ext :: bool
  wl_key :: "win_key option"
  wl_error :: u32
  wl_io :: per_io
  wl_status :: listener_status

definition win_listener_new :: "nat \<Rightarrow> win_listener" where
  "win_listener_new i = \<lparr>wl_id = i, wl_acceptor = - 1, wl_listener = - 1, wl_ext = False, wl_key = None, wl_error = 0,
     wl_io = per_io_new (ADDRESS_BUFFER_SIZE * 2), wl_status = LS_UNINIT\<rparr>"

definition win_listener_Active :: "win_listener \<Rightarrow> bool" where
  "win_listener_Active l \<longleftrightarrow> wl_status l = LS_RUNNING"

definition win_listener_Disposable :: "win_listener \<Rightarrow> bool" where
  "win_listener_Disposable l \<longleftrightarrow> wl_status l = LS_CLOSED"

definition win_listener_on_accept_error :: "u32 \<Rightarrow> win_listener \<Rightarrow> win_listener" where
  "win_listener_on_accept_error err l = l\<lparr>wl_error := err, wl_status := LS_ERROR\<rparr>"

section \<open>Accepting\<close>

text \<open>
  The answers: the new socket, with the error when there is none, and what the start of the accept says.  A call through a null
  \<^verbatim>\<open>lpfnAcceptEx\<close> is \<open>None\<close>.
\<close>

record win_accept_io =
  wa_socket :: int
  wa_errno :: u32
  wa_reply :: wsa_reply

definition win_post_accept :: "win_accept_io \<Rightarrow> win_listener \<Rightarrow> win_log \<Rightarrow> (bool \<times> win_listener \<times> win_log) option" where
  "win_post_accept io l y =
     (let l1 = l\<lparr>wl_acceptor := wa_socket io\<rparr>
      in if wa_socket io = - 1 then Some (False, win_listener_on_accept_error (wa_errno io) l1, y)
         else if \<not> wl_ext l then None
         else let l2 = l1\<lparr>wl_io := per_io_Reset (wl_io l1)\<rparr>;
                  y2 = y @ [WinSocket (wa_socket io), WinAccept (wl_listener l) (wa_socket io)]
              in case wa_reply io of
                   WsaDone \<Rightarrow> Some (True, l2, y2)
                 | WsaErr err \<Rightarrow>
                     if err \<noteq> WSA_IO_PENDING
                     then Some (False, win_listener_on_accept_error err (l2\<lparr>wl_io := per_io_Error err (wl_io l2)\<rparr>), y2)
                     else Some (True, l2, y2))"

text \<open>\<^verbatim>\<open>_on_accept\<close>: the socket for which the hook is called.\<close>

definition win_on_accept :: "win_listener \<Rightarrow> win_log \<Rightarrow> int \<times> win_log" where
  "win_on_accept l y = (wl_acceptor l, y @ [WinUpdateAccept (wl_acceptor l) (wl_listener l)])"

definition win_listener_Update :: "win_accept_io \<Rightarrow> win_listener \<Rightarrow> win_log \<Rightarrow> (win_listener \<times> win_log \<times> int list) option" where
  "win_listener_Update io l y =
     (case wl_status l of
        LS_RUNNING \<Rightarrow>
          if pio_status (wl_io l) = IO_STATUS_COMPLETED
          then let l1 = l\<lparr>wl_io := (wl_io l)\<lparr>pio_status := IO_STATUS_IDLE\<rparr>\<rparr>;
                   (socks, y1) = (if pio_succ (wl_io l) \<noteq> 0 then (let (sock, y1) = win_on_accept l1 y in ([sock], y1)) else ([], y))
               in map_option (\<lambda>(ok, l2, y2). (l2, y2, socks)) (win_post_accept io l1 y1)
          else Some (l, y, [])
      | LS_ERROR \<Rightarrow> Some (l\<lparr>wl_status := LS_PRECLOSED\<rparr>, y, [])
      | LS_CLOSING \<Rightarrow>
          Some (if pio_status (wl_io l) \<noteq> IO_STATUS_PENDING then l\<lparr>wl_status := LS_PRECLOSED\<rparr> else l, y, [])
      | LS_PRECLOSED \<Rightarrow>
          let (sock, y1) = win_close_socket (wl_listener l) y;
              (acc, y2) = win_close_socket (wl_acceptor l) y1
          in Some (l\<lparr>wl_listener := sock, wl_acceptor := acc, wl_status := LS_CLOSED\<rparr>, y2, [])
      | _ \<Rightarrow> Some (l, y, []))"

section \<open>Opening and closing\<close>

record win_listen_io =
  wli_socket :: int
  wli_pton :: int
  wli_bind :: bool
  wli_listen :: bool
  wli_ioctl :: bool
  wli_registered :: bool
  wli_errno :: u32
  wli_accept :: win_accept_io

definition win_listener_Init :: "win_listen_io \<Rightarrow> u16 \<Rightarrow> win_listener \<Rightarrow> win_log \<Rightarrow> (bool \<times> win_listener \<times> win_log) option" where
  "win_listener_Init io port l y =
     (let l1 = l\<lparr>wl_status := LS_CLOSED, wl_listener := wli_socket io\<rparr>;
          fail = (\<lambda>l y. let (sock, y1) = win_close_socket (wl_listener l) y
                        in Some (False, l\<lparr>wl_error := wli_errno io, wl_listener := sock\<rparr>, y1))
      in if wli_socket io = - 1 then Some (False, l1\<lparr>wl_error := wli_errno io\<rparr>, y)
         else let y0 = y @ [WinSocket (wli_socket io)]
              in if wli_pton io \<noteq> 1 then fail l1 y0
                 else let y1 = y0 @ [WinBind (wl_listener l1) port]
                      in if \<not> wli_bind io then fail l1 y1
                         else let y2 = y1 @ [WinListen (wl_listener l1)]
                              in if \<not> wli_listen io then fail l1 y2
                                 else if \<not> wli_ioctl io then fail l1 y2
                                 else let k = \<lparr>wk_obj = wl_id l, wk_func = ListenerCb\<rparr>;
                                          l2 = l1\<lparr>wl_ext := True, wl_key := Some k\<rparr>;
                                          (ok, y3) = win_RegisterHandler (wli_registered io) (wl_listener l2) k y2
                                      in if \<not> ok then fail l2 y3
                                         else win_post_accept (wli_accept io) (l2\<lparr>wl_status := LS_RUNNING\<rparr>) y3)"

text \<open>A completion of its own is posted for the accept that is with the system; the key is there since \<^verbatim>\<open>Init\<close>.\<close>

definition win_listener_Close :: "win_listener \<Rightarrow> win_log \<Rightarrow> (win_listener \<times> win_log) option" where
  "win_listener_Close l y =
     (if wl_status l = LS_RUNNING
      then let l1 = l\<lparr>wl_status := LS_CLOSING\<rparr>
           in if pio_status (wl_io l) = IO_STATUS_PENDING
              then do { k \<leftarrow> wl_key l; Some (l1, win_PostCompletion k 0 y) }
              else Some (l1, y)
      else Some (l, y))"

text \<open>The poller reports the accept, or what was posted in its place.\<close>

definition accept_ends_with :: "iocp_reply \<Rightarrow> win_listener \<Rightarrow> win_listener" where
  "accept_ends_with r l = l\<lparr>wl_io := iocp_store r (wl_io l)\<rparr>"

section \<open>Properties\<close>

lemma post_accept_started:
  assumes "wa_socket io \<noteq> - 1" and "wl_ext l" and "wsa_started (wa_reply io)"
  shows "win_post_accept io l y = Some (True, l\<lparr>wl_acceptor := wa_socket io, wl_io := per_io_Reset (wl_io l)\<rparr>,
    y @ [WinSocket (wa_socket io), WinAccept (wl_listener l) (wa_socket io)])"
  using assms by (auto simp: win_post_accept_def wsa_started_def Let_def)

lemma Update_completed:
  assumes "wl_status l = LS_RUNNING" and "pio_status (wl_io l) = IO_STATUS_COMPLETED" and "wl_ext l"
    and "wa_socket io \<noteq> - 1" and "wsa_started (wa_reply io)"
  shows "\<exists>d. win_listener_Update io l y = Some (l\<lparr>wl_acceptor := wa_socket io, wl_io := d\<rparr>,
      (if pio_succ (wl_io l) \<noteq> 0 then y @ [WinUpdateAccept (wl_acceptor l) (wl_listener l)] else y)
        @ [WinSocket (wa_socket io), WinAccept (wl_listener l) (wa_socket io)],
      if pio_succ (wl_io l) \<noteq> 0 then [wl_acceptor l] else []) \<and> pio_status d = IO_STATUS_PENDING"
  using assms by (auto simp: win_listener_Update_def post_accept_started win_on_accept_def per_io_Reset_def Let_def)

text \<open>
  A history of a running listener: each accept ends, well or badly, and the next \<^verbatim>\<open>Update\<close> starts another one; the results are
  the sockets that the hook was called with.
\<close>

fun accept_rounds :: "(iocp_reply \<times> win_accept_io) list \<Rightarrow> win_listener \<Rightarrow> win_log \<Rightarrow> (win_listener \<times> win_log \<times> int list) option" where
  "accept_rounds [] l y = Some (l, y, [])"
| "accept_rounds ((r, io) # rs) l y = do {
     (l1, y1, socks) \<leftarrow> win_listener_Update io (accept_ends_with r l) y;
     (l2, y2, socks2) \<leftarrow> accept_rounds rs l1 y1;
     Some (l2, y2, socks @ socks2)
   }"

fun accept_good :: "iocp_reply \<Rightarrow> bool" where
  "accept_good (IocpDone i n) = True"
| "accept_good _ = False"

text \<open>The socket that each of the accepts was started for: the first one, then those created by the updates.\<close>

definition round_sockets :: "win_listener \<Rightarrow> (iocp_reply \<times> win_accept_io) list \<Rightarrow> int list" where
  "round_sockets l rs = butlast (wl_acceptor l # map (wa_socket \<circ> snd) rs)"

lemma round_sockets_Cons:
  "wl_acceptor l1 = wa_socket io \<Longrightarrow> round_sockets l ((r, io) # rs) = wl_acceptor l # round_sockets l1 rs"
  by (simp add: round_sockets_def)

lemma rounds_spec:
  assumes "wl_status l = LS_RUNNING" and "wl_ext l"
    and "\<forall>(r, io)\<in>set rs. (\<forall>err. r \<noteq> IocpNothing err) \<and> wa_socket io \<noteq> - 1 \<and> wsa_started (wa_reply io)"
  shows "\<exists>l1 y1. accept_rounds rs l y = Some (l1, y1, map snd (filter (\<lambda>x. accept_good (fst x)) (zip (map fst rs) (round_sockets l rs))))
    \<and> wl_status l1 = LS_RUNNING \<and> (\<forall>sock. WinClose sock \<in> set y1 \<longleftrightarrow> WinClose sock \<in> set y)"
  using assms
proof (induction rs arbitrary: l y)
  case Nil
  then show ?case by simp
next
  case (Cons x rs)
  obtain r io where x: "x = (r, io)" by (cases x)
  have io: "\<forall>err. r \<noteq> IocpNothing err" "wa_socket io \<noteq> - 1" "wsa_started (wa_reply io)" using Cons.prems(3) x by auto
  let ?l = "accept_ends_with r l"
  have c: "pio_status (wl_io ?l) = IO_STATUS_COMPLETED" "pio_succ (wl_io ?l) \<noteq> 0 \<longleftrightarrow> accept_good r" "wl_status ?l = LS_RUNNING"
    "wl_ext ?l" "wl_acceptor ?l = wl_acceptor l"
    using io(1) Cons.prems(1,2) by (cases r; simp add: accept_ends_with_def)+
  obtain d where "win_listener_Update io ?l y = Some (?l\<lparr>wl_acceptor := wa_socket io, wl_io := d\<rparr>,
      (if pio_succ (wl_io ?l) \<noteq> 0 then y @ [WinUpdateAccept (wl_acceptor ?l) (wl_listener ?l)] else y)
        @ [WinSocket (wa_socket io), WinAccept (wl_listener ?l) (wa_socket io)],
      if pio_succ (wl_io ?l) \<noteq> 0 then [wl_acceptor ?l] else [])"
    using Update_completed [OF c(3,1,4) io(2,3), of y] by blast
  note u = this [unfolded c(2,5)]
  let ?l1 = "?l\<lparr>wl_acceptor := wa_socket io, wl_io := d\<rparr>"
  let ?y1 = "(if accept_good r then y @ [WinUpdateAccept (wl_acceptor l) (wl_listener ?l)] else y)
        @ [WinSocket (wa_socket io), WinAccept (wl_listener ?l) (wa_socket io)]"
  obtain l2 y2 where "accept_rounds rs ?l1 ?y1 = Some (l2, y2, map snd (filter (\<lambda>x. accept_good (fst x)) (zip (map fst rs) (round_sockets ?l1 rs))))"
    "wl_status l2 = LS_RUNNING" "\<forall>sock. WinClose sock \<in> set y2 \<longleftrightarrow> WinClose sock \<in> set ?y1"
    using Cons.IH [of ?l1 ?y1] Cons.prems(3) c by auto
  moreover have "round_sockets l (x # rs) = wl_acceptor l # round_sockets ?l1 rs" unfolding x by (rule round_sockets_Cons) simp
  ultimately show ?case using u x by (simp split: if_splits)
qed

text \<open>
  C36. However the accepts of a running listener end, the hook gets the sockets of those that ended well, each once and in order; none of the
  others is closed, so that every accept that fails leaks its socket.
\<close>

theorem win_listener_accepts:
  assumes "wl_status l = LS_RUNNING" and "wl_ext l"
    and "\<forall>(r, io)\<in>set rs. (\<forall>err. r \<noteq> IocpNothing err) \<and> wa_socket io \<noteq> - 1 \<and> wsa_started (wa_reply io)"
  shows "\<exists>l1 y1. accept_rounds rs l y = Some (l1, y1, map snd (filter (\<lambda>x. accept_good (fst x)) (zip (map fst rs) (round_sockets l rs))))
    \<and> wl_status l1 = LS_RUNNING \<and> (\<forall>sock. WinClose sock \<in> set y1 \<longleftrightarrow> WinClose sock \<in> set y)"
  using assms by (rule rounds_spec)

definition running_listener :: win_listener where
  "running_listener = (win_listener_new 1)\<lparr>wl_status := LS_RUNNING, wl_ext := True, wl_listener := 3, wl_acceptor := 4,
     wl_key := Some \<lparr>wk_obj = 1, wk_func = ListenerCb\<rparr>\<rparr>"

theorem win_listener_accepts_witness:
  "\<exists>l1 y1. accept_rounds [(IocpDone 1 0, \<lparr>wa_socket = 5, wa_errno = 0, wa_reply = WsaDone\<rparr>),
      (IocpFailed 1 64 0, \<lparr>wa_socket = 6, wa_errno = 0, wa_reply = WsaErr 997\<rparr>),
      (IocpDone 1 0, \<lparr>wa_socket = 7, wa_errno = 0, wa_reply = WsaDone\<rparr>)] running_listener [] = Some (l1, y1, [4, 6])
    \<and> WinClose 5 \<notin> set y1"
proof -
  let ?rs = "[(IocpDone 1 0, \<lparr>wa_socket = 5, wa_errno = 0, wa_reply = WsaDone\<rparr>),
      (IocpFailed 1 64 0, \<lparr>wa_socket = 6, wa_errno = 0, wa_reply = WsaErr 997\<rparr>),
      (IocpDone 1 0, \<lparr>wa_socket = 7, wa_errno = 0, wa_reply = WsaDone\<rparr>)]"
  have a: "wl_status running_listener = LS_RUNNING" "wl_ext running_listener" by (simp_all add: running_listener_def)
  have b: "\<forall>(r, io)\<in>set ?rs. (\<forall>err. r \<noteq> IocpNothing err) \<and> wa_socket io \<noteq> - 1 \<and> wsa_started (wa_reply io)"
    by (simp add: wsa_started_def sys_consts)
  have "map snd (filter (\<lambda>x. accept_good (fst x)) (zip (map fst ?rs) (round_sockets running_listener ?rs))) = [4, 6]"
    by (simp add: round_sockets_def running_listener_def)
  then show ?thesis using win_listener_accepts [OF a b, of "[]"] by auto
qed

text \<open>
  Closing a listener posts a completion in place of the accept that is with the system: when the poller has reported it, two calls of \<open>Update\<close> close both
  sockets and make the listener disposable, but the accept itself was neither finished nor cancelled, and Windows still has the
  address of the structure inside the listener.
\<close>

theorem win_listener_closes_early:
  assumes "wl_status l = LS_RUNNING" and "pio_status (wl_io l) = IO_STATUS_PENDING" and "wl_key l = Some k"
    and "wl_listener l \<noteq> - 1" and "wl_acceptor l \<noteq> - 1"
  shows "\<exists>l1 l2 l3 y1. win_listener_Close l y = Some (l1, y1)
    \<and> win_listener_Update io (accept_ends_with (IocpDone (wl_id l) 0) l1) y1 = Some (l2, y1, [])
    \<and> win_listener_Update io l2 y1 = Some (l3, y @ [WinPost k 0, WinClose (wl_listener l), WinClose (wl_acceptor l)], [])
    \<and> win_listener_Disposable l3"
  using assms
  by (simp add: win_listener_Close_def win_PostCompletion_def win_listener_Update_def accept_ends_with_def win_close_socket_def
      win_listener_Disposable_def Let_def)

end
