(* ===== verification/ConnectorWin.thy ===== *)
theory ConnectorWin
  imports Connector Iocp
begin

text \<open>
  The connecting socket on Windows: the Windows halves of \<^verbatim>\<open>libcore/include/connector.h\<close> and
  \<^verbatim>\<open>libcore/src/connector.cpp\<close>.  The virtual hook \<^verbatim>\<open>on_connect\<close> is a parameter, as on Linux: when it deletes the
  connector it returns no object, and what the caller still does with it is undefined.
\<close>

section \<open>State\<close>

record win_connector =
  wc_id :: nat
  wc_socket :: int
  wc_ext :: bool
  wc_key :: "win_key option"
  wc_error :: u32
  wc_io :: per_io
  wc_status :: connector_status

type_synonym 'w win_connect_hook = "win_connector \<Rightarrow> win_log \<Rightarrow> 'w \<Rightarrow> win_connector option \<times> win_log \<times> 'w"

definition win_connector_new :: "nat \<Rightarrow> win_connector" where
  "win_connector_new i = \<lparr>wc_id = i, wc_socket = - 1, wc_ext = False, wc_key = None, wc_error = 0, wc_io = per_io_new 0,
     wc_status = CS_UNINIT\<rparr>"

definition win_connector_Disposable :: "win_connector \<Rightarrow> bool" where
  "win_connector_Disposable c \<longleftrightarrow> wc_status c = CS_CLOSED \<or> wc_status c = CS_UNINIT"

definition win_connector_DetachSocket :: "win_connector \<Rightarrow> win_connector" where
  "win_connector_DetachSocket c = c\<lparr>wc_socket := - 1, wc_key := None\<rparr>"

definition win_connector_destroy :: "win_connector \<Rightarrow> win_log \<Rightarrow> win_connector \<times> win_log" where
  "win_connector_destroy c y =
     (let (sock, y1) = win_close_socket (wc_socket c) y in (c\<lparr>wc_key := None, wc_socket := sock\<rparr>, y1))"

definition win_connector_on_connect_error :: "u32 \<Rightarrow> win_connector \<Rightarrow> win_connector" where
  "win_connector_on_connect_error err c = c\<lparr>wc_error := err, wc_status := CS_ERROR\<rparr>"

definition win_base_on_connect :: "'w win_connect_hook" where
  "win_base_on_connect c y w = (Some c, y, w)"

section \<open>Operations\<close>

record win_connect_io =
  wci_socket :: int
  wci_bind :: bool
  wci_pton :: int
  wci_ioctl :: bool
  wci_registered :: bool
  wci_errno :: u32
  wci_reply :: wsa_reply

text \<open>The result of \<^verbatim>\<open>RegisterHandler\<close> is tested without a negation.\<close>

definition win_connector_Connect :: "win_connect_io \<Rightarrow> u16 \<Rightarrow> win_connector \<Rightarrow> win_log \<Rightarrow> bool \<times> win_connector \<times> win_log" where
  "win_connector_Connect io port c y =
     (let c1 = c\<lparr>wc_status := CS_CLOSED, wc_socket := wci_socket io\<rparr>;
          fail = (\<lambda>c y. let (sock, y1) = win_close_socket (wc_socket c) y
                        in (False, c\<lparr>wc_error := wci_errno io, wc_socket := sock\<rparr>, y1))
      in if wci_socket io = - 1 then (False, c1\<lparr>wc_error := wci_errno io\<rparr>, y)
         else let y1 = y @ [WinSocket (wci_socket io), WinBind (wci_socket io) 0]
              in if \<not> wci_bind io then fail c1 y1
                 else if wci_pton io \<noteq> 1 then fail c1 y1
                 else if \<not> wci_ioctl io then fail c1 y1
                 else let k = \<lparr>wk_obj = wc_id c, wk_func = ConnectorCb\<rparr>;
                          c2 = c1\<lparr>wc_ext := True, wc_key := Some k\<rparr>;
                          (ok, y2) = win_RegisterHandler (wci_registered io) (wc_socket c2) k y1
                      in if ok then fail c2 y2
                         else let c3 = c2\<lparr>wc_status := CS_CONNECTING, wc_io := per_io_Reset (wc_io c2)\<rparr>;
                                  y3 = y2 @ [WinConnect (wc_socket c3) port]
                              in case wci_reply io of
                                   WsaDone \<Rightarrow> (True, c3, y3)
                                 | WsaErr err \<Rightarrow>
                                     if err \<noteq> WSA_IO_PENDING
                                     then (False, win_connector_on_connect_error err (c3\<lparr>wc_io := per_io_Error err (wc_io c3)\<rparr>), y3)
                                     else (True, c3, y3))"

text \<open>The key is there whenever an operation is with the system.\<close>

definition win_connector_Abort :: "win_connector \<Rightarrow> win_log \<Rightarrow> win_log option" where
  "win_connector_Abort c y =
     (if pio_status (wc_io c) = IO_STATUS_PENDING then map_option (\<lambda>k. win_PostCompletion k 0 y) (wc_key c) else Some y)"

definition connect_ends_with :: "iocp_reply \<Rightarrow> win_connector \<Rightarrow> win_connector" where
  "connect_ends_with r c = c\<lparr>wc_io := iocp_store r (wc_io c)\<rparr>"

definition win_connector_Update :: "'w win_connect_hook \<Rightarrow> win_connector \<Rightarrow> win_log \<Rightarrow> 'w \<Rightarrow> (win_connector \<times> win_log \<times> 'w) option" where
  "win_connector_Update hook c y w =
     (case wc_status c of
        CS_CONNECTING \<Rightarrow>
          if pio_status (wc_io c) = IO_STATUS_COMPLETED
          then if pio_succ (wc_io c) \<noteq> 0
               then do {
                 let (c1, y1, w1) = hook c y w;
                 c2 \<leftarrow> c1;
                 Some (c2\<lparr>wc_status := CS_CLOSED\<rparr>, y1, w1)
               }
               else Some (win_connector_on_connect_error (pio_err (wc_io c)) c, y, w)
          else Some (c, y, w)
      | CS_ERROR \<Rightarrow>
          let (sock, y1) = win_close_socket (wc_socket c) y in Some (c\<lparr>wc_socket := sock, wc_status := CS_CLOSED\<rparr>, y1, w)
      | _ \<Rightarrow> Some (c, y, w))"

section \<open>Properties\<close>

text \<open>
  No connection can be made: when the socket is registered with the poller, \<^verbatim>\<open>Connect\<close> closes it again and fails; when it reports
  success, the socket is not registered, so that the end of the attempt is never reported, and without a report
  \<open>Update\<close> changes nothing, for ever.
\<close>

theorem win_connect_inverted:
  assumes "wci_socket io \<noteq> - 1" and "wci_bind io" and "wci_pton io = 1" and "wci_ioctl io" and "wsa_started (wci_reply io)"
  shows "case win_connector_Connect io port c y of (ok, c1, y1) \<Rightarrow>
    if wci_registered io then \<not> ok \<and> wc_status c1 = CS_CLOSED \<and> wc_socket c1 = - 1 \<and> WinClose (wci_socket io) \<in> set y1
    else ok \<and> wc_status c1 = CS_CONNECTING \<and> (\<forall>hook w z. win_connector_Update hook c1 z (w :: 'w) = Some (c1, z, w))"
  using assms
  by (auto simp: win_connector_Connect_def win_RegisterHandler_def win_close_socket_def win_connector_Update_def wsa_started_def Let_def)

theorem win_connect_inverted_witness:
  "case win_connector_Connect \<lparr>wci_socket = 5, wci_bind = True, wci_pton = 1, wci_ioctl = True, wci_registered = True, wci_errno = 0,
      wci_reply = WsaErr 997\<rparr> 80 (win_connector_new 1) [] of (ok, c1, y1) \<Rightarrow> \<not> ok \<and> WinClose 5 \<in> set y1"
  using win_connect_inverted [where 'w = unit, of "\<lparr>wci_socket = 5, wci_bind = True, wci_pton = 1, wci_ioctl = True, wci_registered = True,
      wci_errno = 0, wci_reply = WsaErr 997\<rparr>" 80 "win_connector_new 1" "[]"]
  by (auto simp: wsa_started_def sys_consts split: prod.splits)

text \<open>
  An attempt that is aborted is reported as a success: the completion that \<^verbatim>\<open>Abort\<close> posts arrives as a finished operation, and \<open>Update\<close>
  calls \<^verbatim>\<open>on_connect\<close> for a socket that is not connected.
\<close>

theorem win_abort_reports_success:
  assumes "wc_status c = CS_CONNECTING" and "pio_status (wc_io c) = IO_STATUS_PENDING" and "wc_key c = Some k"
  shows "win_connector_Abort c y = Some (y @ [WinPost k 0])
    \<and> win_connector_Update hook (connect_ends_with (IocpDone (wc_id c) 0) c) y w =
       (case hook (connect_ends_with (IocpDone (wc_id c) 0) c) y w of
          (None, y1, w1) \<Rightarrow> None | (Some c1, y1, w1) \<Rightarrow> Some (c1\<lparr>wc_status := CS_CLOSED\<rparr>, y1, w1))"
  using assms
  by (simp add: win_connector_Abort_def win_PostCompletion_def win_connector_Update_def connect_ends_with_def split: option.split prod.split)

text \<open>An attempt that fails is closed by the second call of \<open>Update\<close>.\<close>

lemma win_connect_failed:
  assumes "wc_status c = CS_CONNECTING" and "pio_status (wc_io c) = IO_STATUS_COMPLETED" and "pio_succ (wc_io c) = 0"
  shows "\<exists>c1 c2 y2. win_connector_Update hook c y w = Some (c1, y, w) \<and> win_connector_Update hook c1 y w = Some (c2, y2, w)
    \<and> win_connector_Disposable c2 \<and> wc_socket c2 = - 1 \<and> wc_error c2 = pio_err (wc_io c)"
  using assms
  by (auto simp: win_connector_Update_def win_connector_on_connect_error_def win_connector_Disposable_def win_close_socket_def Let_def)

end
