(* ===== verification/Callbacks.thy ===== *)
theory Callbacks
  imports GameScripts Timer
begin

text \<open>
  Function objects: \<^verbatim>\<open>libcore/include/callback.h\<close>, and the timers of scripts that are built on them
  (\<^verbatim>\<open>libcore/src/ScriptTimer.cpp\<close> with \<^verbatim>\<open>libcore/src/timer.cpp\<close> and the script engine).

  The template has a class for every number of arguments from none to eight; the model has one record with the list
  of the arguments.  A method is a function from the values of its parameters to their values when it returns, which
  matters for the parameters that are references.
\<close>

section \<open>Callbacks\<close>

text \<open>How a method takes a parameter: by value or by reference.\<close>

datatype pass = ByValue | ByReference

record ('a, 'w) callback =
  cb_method :: "'a list \<Rightarrow> 'w \<Rightarrow> ('a list \<times> 'w) option"
  cb_modes :: "pass list"
  cb_args :: "'a list"

text \<open>
  Arguments are moved twice: from the parameters of \<^verbatim>\<open>Bind\<close> into those of the constructor and from there into the members.
  \<open>mv\<close> moves a value and gives the new one and what is left of the old one.  There is no class for more than eight arguments, and
  the number must be the one of the method: \<open>None\<close> is a call that does not compile.  Types are left out; the class with eight arguments
  compiles only when the last two have the same type.
\<close>

definition callback_new :: "('a \<Rightarrow> 'a \<times> 'a) \<Rightarrow> ('a list \<Rightarrow> 'w \<Rightarrow> ('a list \<times> 'w) option) \<Rightarrow> pass list \<Rightarrow> 'a list \<Rightarrow> ('a, 'w) callback" where
  "callback_new mv m modes args = \<lparr>cb_method = m, cb_modes = modes, cb_args = map (\<lambda>a. fst (mv a)) args\<rparr>"

definition callback_Bind :: "('a \<Rightarrow> 'a \<times> 'a) \<Rightarrow> ('a list \<Rightarrow> 'w \<Rightarrow> ('a list \<times> 'w) option) \<Rightarrow> pass list \<Rightarrow> 'a list \<Rightarrow>
    ('a, 'w) callback option" where
  "callback_Bind mv m modes args =
     (if length args = length modes \<and> length args \<le> 8 then Some (callback_new mv m modes (map (\<lambda>a. fst (mv a)) args)) else None)"

text \<open>The members themselves are the arguments of the call, so a method changes them through its references.\<close>

fun write_back :: "pass list \<Rightarrow> 'a list \<Rightarrow> 'a list \<Rightarrow> 'a list" where
  "write_back (ByReference # ms) (a # as) (b # bs) = b # write_back ms as bs"
| "write_back (ByValue # ms) (a # as) (b # bs) = a # write_back ms as bs"
| "write_back ms as bs = as"

definition callback_Run :: "('a, 'w) callback \<Rightarrow> 'w \<Rightarrow> (('a, 'w) callback \<times> 'w) option" where
  "callback_Run c w = do {
     (outs, w1) \<leftarrow> cb_method c (cb_args c) w;
     Some (c\<lparr>cb_args := write_back (cb_modes c) (cb_args c) outs\<rparr>, w1)
   }"

fun callback_Runs :: "nat \<Rightarrow> ('a, 'w) callback \<Rightarrow> 'w \<Rightarrow> (('a, 'w) callback \<times> 'w) option" where
  "callback_Runs 0 c w = Some (c, w)"
| "callback_Runs (Suc n) c w = do { (c1, w1) \<leftarrow> callback_Run c w; callback_Runs n c1 w1 }"

lemma write_back_values: "set ms \<subseteq> {ByValue} \<Longrightarrow> write_back ms as bs = as"
  by (induction ms as bs rule: write_back.induct) auto

lemma write_back_length [simp]: "length (write_back ms as bs) = length as"
  by (induction ms as bs rule: write_back.induct) auto

text \<open>
  A method without reference parameters gets the same arguments in every run.
\<close>

fun same_calls :: "nat \<Rightarrow> ('a list \<Rightarrow> 'w \<Rightarrow> ('a list \<times> 'w) option) \<Rightarrow> 'a list \<Rightarrow> 'w \<Rightarrow> 'w option" where
  "same_calls 0 m args w = Some w"
| "same_calls (Suc n) m args w = do { (_, w1) \<leftarrow> m args w; same_calls n m args w1 }"

lemma value_callback_keeps_arguments:
  assumes "set (cb_modes c) \<subseteq> {ByValue}"
  shows "callback_Runs n c w = map_option (Pair c) (same_calls n (cb_method c) (cb_args c) w)"
proof (induction n arbitrary: w)
  case (Suc n)
  show ?case
  proof (cases "cb_method c (cb_args c) w")
    case (Some r)
    have "callback_Run c w = Some (c, snd r)" using Some by (cases r) (simp add: callback_Run_def write_back_values [OF assms])
    then show ?thesis using Suc.IH Some by (cases r) simp
  qed (simp add: callback_Run_def)
qed simp

section \<open>Script timers\<close>

text \<open>
  The arguments of \<^verbatim>\<open>cb_script_timer\<close>.  A string that was moved from has some value; here it is empty.
\<close>

datatype timer_arg = TaName "byte list" | TaParam byte_buffer | TaLoop u32

fun timer_arg_move :: "timer_arg \<Rightarrow> timer_arg \<times> timer_arg" where
  "timer_arg_move (TaName s) = (TaName s, TaName [])"
| "timer_arg_move (TaParam p) = (let (q, r) = param_move_new p in (TaParam q, TaParam r))"
| "timer_arg_move (TaLoop n) = (TaLoop n, TaLoop n)"

text \<open>What the scripts see: the engine, and the calls they got from timers, each with the function and its arguments.\<close>

record script_world =
  sw_engine :: lua_engine
  sw_calls :: "(lua_val \<times> lua_val list) list"

definition script_timer_method :: "(lua_val \<Rightarrow> lua_val list \<Rightarrow> lua_result) \<Rightarrow> lua_entries \<Rightarrow> u64 \<Rightarrow> nat \<Rightarrow> timer_ctx \<Rightarrow>
    timer_arg list \<Rightarrow> script_world \<Rightarrow> (timer_arg list \<times> script_world) option" where
  "script_timer_method call globals junk fuel ctx args w =
     (case args of
        [TaName cb, TaParam sp, TaLoop loop] \<Rightarrow> do {
          (narg, s1, sp1) \<leftarrow> cb_script_timer_push globals junk fuel ctx cb sp (sw_engine w);
          given \<leftarrow> pcall_given narg (eg_stack s1);
          (ok, s2) \<leftarrow> ExecFunction call narg 0 s1;
          Some ([TaName cb, TaParam sp1, TaLoop loop], w\<lparr>sw_engine := s2, sw_calls := sw_calls w @ [given]\<rparr>)
        }
      | _ \<Rightarrow> None)"

text \<open>It is \<open>cb_script_timer\<close> with the call that Lua is given put on record.\<close>

lemma script_timer_method_eq:
  "script_timer_method call globals junk fuel ctx [TaName cb, TaParam sp, TaLoop loop] w = do {
     (narg, s1, _) \<leftarrow> cb_script_timer_push globals junk fuel ctx cb sp (sw_engine w);
     given \<leftarrow> pcall_given narg (eg_stack s1);
     (s2, sp1) \<leftarrow> cb_script_timer call globals junk fuel ctx cb sp (sw_engine w);
     Some ([TaName cb, TaParam sp1, TaLoop loop], w\<lparr>sw_engine := s2, sw_calls := sw_calls w @ [given]\<rparr>)
   }"
  by (cases "cb_script_timer_push globals junk fuel ctx cb sp (sw_engine w)")
    (auto simp: script_timer_method_def cb_script_timer_def split: prod.split intro!: Option.bind_cong)

text \<open>
  The call of \<^verbatim>\<open>Bind\<close> in \<^verbatim>\<open>ScriptTimer::Create\<close>, with the parameter that the caller is left with.
\<close>

definition script_timer_Bind :: "(lua_val \<Rightarrow> lua_val list \<Rightarrow> lua_result) \<Rightarrow> lua_entries \<Rightarrow> u64 \<Rightarrow> nat \<Rightarrow> timer_ctx \<Rightarrow>
    byte list \<Rightarrow> byte_buffer \<Rightarrow> u32 \<Rightarrow> ((timer_arg, script_world) callback \<times> byte_buffer) option" where
  "script_timer_Bind call globals junk fuel ctx cb sp loop =
     (let (p2, rest) = param_move_new sp
      in map_option (\<lambda>c. (c, rest)) (callback_Bind timer_arg_move (script_timer_method call globals junk fuel ctx)
           [ByReference, ByReference, ByValue] [TaName cb, TaParam p2, TaLoop loop]))"

text \<open>
  The callbacks on the heap and the scripts; \<open>None\<close> is what follows undefined behaviour.  The scripts of these timers do not call
  timer functions.
\<close>

record timer_world =
  tw_heap :: "nat \<rightharpoonup> (timer_arg, script_world) callback"
  tw_scripts :: script_world

definition run_script_timer :: "(nat, timer_world option) runner" where
  "run_script_timer i m w = ([], do {
     tw \<leftarrow> w;
     c \<leftarrow> tw_heap tw i;
     (c1, sw) \<leftarrow> callback_Run c (tw_scripts tw);
     Some (tw\<lparr>tw_heap := (tw_heap tw)(i \<mapsto> c1), tw_scripts := sw\<rparr>)
   })"

section \<open>A timer that repeats\<close>

text \<open>The times of the calls of \<^verbatim>\<open>Update\<close> are such that the timer is due in each of them.\<close>

fun prompt :: "u32 \<Rightarrow> u64 \<Rightarrow> u64 list \<Rightarrow> bool" where
  "prompt itv t [] = True"
| "prompt itv t (now # nows) = (now \<le> t + ucast itv \<and> prompt itv now nows)"

lemma lone_Update:
  assumes "tm_timers m = [t]" and "tm_new m = []" and "tm_in_process m = 0"
    and "t_canceled t = 0" and "t_once t = 0" and "t_func t = None" and "t_cb t = Some i" and "timer_due now t"
    and "\<And>m. run i m w = ([], w')"
  shows "timer_Update run now m w = (m\<lparr>tm_timers := [t\<lparr>t_count_time := now\<rparr>]\<rparr>, w', [t_tid t])"
proof -
  have f: "fire run now 0 (m\<lparr>tm_in_process := 1\<rparr>) w
      = (m\<lparr>tm_in_process := 1, tm_timers := [t\<lparr>t_count_time := now\<rparr>]\<rparr>, w')"
    using assms by (simp add: fire_def exec_cmds_def)
  show ?thesis using assms f by (simp add: timer_Update_def)
qed

lemma lone_Updates:
  assumes "tm_timers m = [t]" and "tm_new m = []" and "tm_in_process m = 0"
    and "t_canceled t = 0" and "t_once t = 0" and "t_func t = None" and "t_cb t = Some i"
    and "prompt (t_interval t) (t_count_time t) nows" and "\<And>m w. run i m w = ([], f w)"
  shows "\<exists>m1. timer_Updates run nows m w = (m1, (f ^^ length nows) w, replicate (length nows) (t_tid t))"
  using assms(1-8)
proof (induction nows arbitrary: m t w)
  case (Cons now nows)
  have "timer_due now t" using Cons.prems(8) by (simp add: timer_due_def)
  from lone_Update [where run = run and w' = "f w", OF Cons.prems(1-7) this assms(9)]
  have u: "timer_Update run now m w = (m\<lparr>tm_timers := [t\<lparr>t_count_time := now\<rparr>]\<rparr>, f w, [t_tid t])" .
  obtain m1 where "timer_Updates run nows (m\<lparr>tm_timers := [t\<lparr>t_count_time := now\<rparr>]\<rparr>) (f w)
      = (m1, (f ^^ length nows) (f w), replicate (length nows) (t_tid t))"
    using Cons.IH [of "m\<lparr>tm_timers := [t\<lparr>t_count_time := now\<rparr>]\<rparr>" "t\<lparr>t_count_time := now\<rparr>" "f w"] Cons.prems by auto
  then show ?case using u by (simp add: funpow_swap1)
qed simp

text \<open>A timer on the heap runs its callback again and again.\<close>

definition timer_world_step :: "nat \<Rightarrow> timer_world option \<Rightarrow> timer_world option" where
  "timer_world_step i w = snd (run_script_timer i timer_mgr_new w)"

lemma run_step: "run_script_timer i m w = ([], timer_world_step i w)"
  by (simp add: run_script_timer_def timer_world_step_def)

lemma steps_are_Runs:
  assumes "tw_heap tw i = Some c" and "callback_Runs n c (tw_scripts tw) = Some (c1, sw)"
  shows "(timer_world_step i ^^ n) (Some tw) = Some (tw\<lparr>tw_heap := (tw_heap tw)(i \<mapsto> c1), tw_scripts := sw\<rparr>)"
  using assms
proof (induction n arbitrary: tw c)
  case 0
  then show ?case by (simp add: fun_upd_idem)
next
  case (Suc n)
  obtain c2 sw2 where r: "callback_Run c (tw_scripts tw) = Some (c2, sw2)" "callback_Runs n c2 sw2 = Some (c1, sw)"
    using Suc.prems(2) by (auto simp: bind_eq_Some_conv)
  let ?tw = "tw\<lparr>tw_heap := (tw_heap tw)(i \<mapsto> c2), tw_scripts := sw2\<rparr>"
  have "timer_world_step i (Some tw) = Some ?tw"
    using Suc.prems(1) r(1) by (simp add: timer_world_step_def run_script_timer_def)
  moreover have "(timer_world_step i ^^ n) (Some ?tw) = Some (?tw\<lparr>tw_heap := (tw_heap ?tw)(i \<mapsto> c1), tw_scripts := sw\<rparr>)"
    using r(2) by (intro Suc.IH) simp_all
  moreover have "(tw_heap ?tw)(i \<mapsto> c1) = (tw_heap tw)(i \<mapsto> c1)" by simp
  ultimately show ?case by (simp add: funpow_swap1 del: fun_upd_apply)
qed

section \<open>What a script timer passes\<close>

text \<open>The arguments that a script gets from a timer: the object that is the context, if there is one, and the value.\<close>

fun script_args :: "timer_ctx \<Rightarrow> lua_val \<Rightarrow> lua_val list" where
  "script_args (CT_Object ob) v = [ob, v]"
| "script_args ctx v = [v]"

lemma script_run:
  assumes "lua_rawget globals (str_key name_zcg) = LTab l p es" and "lua_rawget globals (str_key cb) \<noteq> LNil"
    and "\<And>m. ctx \<noteq> CT_Map m" and "param_Push junk fuel sp = Some (v, sp1)"
    and "cb_method c = script_timer_method call globals junk fuel ctx" and "cb_modes c = [ByReference, ByReference, ByValue]"
    and "cb_args c = [TaName cb, TaParam sp, TaLoop loop]"
  shows "callback_Run c w = Some (c\<lparr>cb_args := [TaName cb, TaParam sp1, TaLoop loop]\<rparr>,
      w\<lparr>sw_engine := (sw_engine w)\<lparr>eg_fn := Some None\<rparr>, sw_calls := sw_calls w @ [(lua_rawget globals (str_key cb), script_args ctx v)]\<rparr>)"
proof -
  have "\<exists>n s1. cb_script_timer_push globals junk fuel ctx cb sp (sw_engine w) = Some (n, s1, sp1)
      \<and> pcall_given n (eg_stack s1) = Some (lua_rawget globals (str_key cb), script_args ctx v)"
  proof (cases ctx)
    case (CT_Map m)
    then show ?thesis using assms(3) by blast
  qed (use assms(2,4) in \<open>simp_all add: cb_script_timer_push_def PushFunction_eq [OF assms(1)] push_ctx_def push_value_def pcall_given_def\<close>)
  then show ?thesis using timer_callback_balanced [OF assms(1,2,4,3)] assms(5-7)
    by (auto simp: callback_Run_def script_timer_method_eq)
qed

lemma used_up_runs:
  assumes "lua_rawget globals (str_key name_zcg) = LTab l p es" and "lua_rawget globals (str_key cb) \<noteq> LNil"
    and "\<And>m. ctx \<noteq> CT_Map m" and "param_Push junk fuel sp = Some (v, sp)"
    and "cb_method c = script_timer_method call globals junk fuel ctx" and "cb_modes c = [ByReference, ByReference, ByValue]"
    and "cb_args c = [TaName cb, TaParam sp, TaLoop loop]"
  shows "\<exists>w1. callback_Runs n c w = Some (c, w1) \<and> sw_calls w1 = sw_calls w @ replicate n (lua_rawget globals (str_key cb), script_args ctx v)
    \<and> eg_stack (sw_engine w1) = eg_stack (sw_engine w)"
proof (induction n arbitrary: w)
  case (Suc n)
  have "callback_Run c w = Some (c, w\<lparr>sw_engine := (sw_engine w)\<lparr>eg_fn := Some None\<rparr>, sw_calls := sw_calls w @ [(lua_rawget globals (str_key cb), script_args ctx v)]\<rparr>)"
    using script_run [OF assms] assms(7) by simp
  then show ?case using Suc.IH [of "w\<lparr>sw_engine := (sw_engine w)\<lparr>eg_fn := Some None\<rparr>, sw_calls := sw_calls w @ [(lua_rawget globals (str_key cb), script_args ctx v)]\<rparr>"] by auto
qed simp

lemma moved_param: "bb_wf p \<Longrightarrow> bb_wf (fst (param_move_new p))" "bb_content (fst (param_move_new p)) = bb_content p"
  by (simp_all add: param_move_new_def bb_move_assign_def bb_wf_def bb_content_def)

text \<open>The caller's parameter keeps its size and its pointers but no block, so that it can not be pushed any more.\<close>

lemma moved_from_undefined:
  assumes "bb_wf p" and "bb_content p \<noteq> []"
  shows "param_Push junk fuel (snd (param_move_new p)) = None"
proof -
  let ?r = "p\<lparr>buffer := []\<rparr>"
  have "unat (bb_Avail p) \<noteq> 0" using unat_bb_Avail [OF assms(1)] assms(2) by simp
  then have "1 \<le> unat (bb_Avail p)" by simp
  then have a: "bb_Avail ?r \<noteq> 0" "1 \<le> bb_Avail ?r" by (auto simp: bb_Avail_def word_le_nat_alt)
  then have "bb_Out ?r (scalar_size TYPE(8)) = None" by (simp add: bb_Out_def scalar_size_def mem_read_def)
  then show ?thesis using a(1)
    by (simp add: param_move_new_def bb_move_assign_def param_Push_def Deserialize_def get_local_def bb_get_def)
qed

text \<open>
  C38. A script timer that repeats passes the table it was created with in its first run only: it calls the script's function, first with what
  a reload of the table gives and in every later run with an empty table, each time after the object that is its context, if it has one.  The Lua
  stack is the same after all of them.  This is for a function that exists, a context that is no map (see \<open>timer_map_context\<close>), a sound table
  that fits into the parameter, and calls of \<^verbatim>\<open>Update\<close> that come early enough for the timer to run in each of them.
\<close>

theorem repeating_timer_passes_once:
  assumes "lua_rawget globals (str_key name_zcg) = LTab l0 q0 zs" and "lua_rawget globals (str_key cb) \<noteq> LNil"
    and "\<And>m. ctx \<noteq> CT_Map m"
    and "stack (-1) = LTab l p es" and "sound bd 15 (LTab l p es)"
    and "bb_wf p0" and "\<not> attach p0" and "saved_size bd 15 (LTab l p es) + 1 \<le> param_capacity p0"
    and "(ucast loop :: u16) = 0" and "prompt itv tick (now # nows)"
    and "script_timer_Create tick itv i loop tids timer_mgr_new = (tid, tids1, m)"
  shows "\<exists>p1 fuel c rest m1 tw. param_Init bd stack idx p0 = Some (True, p1)
    \<and> script_timer_Bind call globals junk fuel ctx cb p1 loop = Some (c, rest)
    \<and> timer_Updates run_script_timer (now # nows) m (Some \<lparr>tw_heap = [i \<mapsto> c], tw_scripts = \<lparr>sw_engine = s, sw_calls = []\<rparr>\<rparr>)
        = (m1, Some tw, replicate (Suc (length nows)) (ucast tid))
    \<and> sw_calls (tw_scripts tw) = (lua_rawget globals (str_key cb), script_args ctx (reload bd 15 (LTab l p es)))
        # replicate (length nows) (lua_rawget globals (str_key cb), script_args ctx (LTab False False []))
    \<and> eg_stack (sw_engine (tw_scripts tw)) = eg_stack s"
proof -
  obtain p1 bs where p1: "param_Init bd stack idx p0 = Some (True, p1)" "bb_wf p1" "bb_content p1 = map Some bs"
    and bs: "length bs = saved_size bd 15 (LTab l p es) + 1" "loads (Deserialize junk) bs (Some (reload bd 15 (LTab l p es)))"
    by (rule param_Init_stream [where stack = stack, OF assms(4-8)])
  let ?mv = "\<lambda>p. fst (param_move_new p)"
  let ?sp = "?mv (?mv (?mv p1))"
  have sp: "bb_wf ?sp" "bb_content ?sp = map Some bs" using p1(2,3) by (simp_all add: moved_param)
  have "bs \<noteq> []" using bs(1) by auto
  from param_Push_stream [OF bs(2) this sp] obtain fuel q2
    where q2: "param_Push junk fuel ?sp = Some (reload bd 15 (LTab l p es), q2)"
      "\<forall>n. param_Push junk n q2 = Some (LTab False False [], q2)" by metis
  define c where "c = \<lparr>cb_method = script_timer_method call globals junk fuel ctx, cb_modes = [ByReference, ByReference, ByValue],
    cb_args = [TaName cb, TaParam ?sp, TaLoop loop]\<rparr>"
  have b: "script_timer_Bind call globals junk fuel ctx cb p1 loop = Some (c, snd (param_move_new p1))"
    by (simp add: script_timer_Bind_def callback_Bind_def callback_new_def c_def split: prod.split)
  let ?sw = "\<lparr>sw_engine = s, sw_calls = []\<rparr>"
  let ?f = "lua_rawget globals (str_key cb)"
  let ?sw1 = "\<lparr>sw_engine = s\<lparr>eg_fn := Some None\<rparr>, sw_calls = [(?f, script_args ctx (reload bd 15 (LTab l p es)))]\<rparr>"
  let ?c1 = "c\<lparr>cb_args := [TaName cb, TaParam q2, TaLoop loop]\<rparr>"
  have r1: "callback_Run c ?sw = Some (?c1, ?sw1)"
    using script_run [where c = c and call = call and loop = loop and w = ?sw, OF assms(1-3) q2(1)] by (simp add: c_def)
  obtain w1 where r2: "callback_Runs (length nows) ?c1 ?sw1 = Some (?c1, w1)"
    "sw_calls w1 = (?f, script_args ctx (reload bd 15 (LTab l p es))) # replicate (length nows) (?f, script_args ctx (LTab False False []))" "eg_stack (sw_engine w1) = eg_stack s"
    using used_up_runs [where c = ?c1 and call = call and loop = loop and n = "length nows" and w = ?sw1, OF assms(1-3) q2(2) [rule_format]] by (auto simp: c_def)
  have rs: "callback_Runs (length (now # nows)) c ?sw = Some (?c1, w1)" using r1 r2(1) by simp
  let ?tw = "\<lparr>tw_heap = [i \<mapsto> c], tw_scripts = ?sw\<rparr>"
  have steps: "(timer_world_step i ^^ length (now # nows)) (Some ?tw)
      = Some (?tw\<lparr>tw_heap := (tw_heap ?tw)(i \<mapsto> ?c1), tw_scripts := w1\<rparr>)"
    using rs by (intro steps_are_Runs) simp_all
  have t: "tm_timers m = [\<lparr>t_count_time = tick, t_interval = itv, t_tid = ucast tid, t_once = 0, t_canceled = 0, t_func = None, t_cb = Some i\<rparr>]"
    "tm_new m = []" "tm_in_process m = 0"
    using assms(9,11) by (auto simp: script_timer_Create_def CreateTimer_cb_def timer_mgr_new_def add_timer_def
        timer_SetOnce_def timer_SetInteval_def new_id_def id_maker_new_def Let_def)
  obtain m1 where "timer_Updates run_script_timer (now # nows) m (Some ?tw)
      = (m1, (timer_world_step i ^^ length (now # nows)) (Some ?tw), replicate (length (now # nows)) (ucast tid))"
    using lone_Updates [OF t, where nows = "now # nows" and f = "timer_world_step i" and w = "Some ?tw" and run = run_script_timer]
      assms(10) run_step by auto
  then have u: "timer_Updates run_script_timer (now # nows) m (Some ?tw)
      = (m1, Some (?tw\<lparr>tw_heap := (tw_heap ?tw)(i \<mapsto> ?c1), tw_scripts := w1\<rparr>), replicate (Suc (length nows)) (ucast tid))"
    unfolding steps by (simp del: timer_Updates.simps)
  show ?thesis
    by (rule exI [of _ p1], rule exI [of _ fuel], rule exI [of _ c], intro exI conjI, rule p1(1), rule b, rule u)
      (simp_all add: r2(2,3))
qed

theorem repeating_timer_passes_once_witness:
  "\<exists>c m1 tw. timer_Updates run_script_timer [1010, 1050, 1100] (snd (snd (script_timer_Create 1000 50 7 0 [] timer_mgr_new)))
       (Some \<lparr>tw_heap = [7 \<mapsto> c], tw_scripts = \<lparr>sw_engine = engine_Init, sw_calls = []\<rparr>\<rparr>) = (m1, Some tw, [1, 1, 1])
    \<and> sw_calls (tw_scripts tw) = [(LOther 3, [LOther 5, reload seq_len 15 (LTab False False first_table)]),
        (LOther 3, [LOther 5, LTab False False []]), (LOther 3, [LOther 5, LTab False False []])]"
proof -
  note f = first_table_facts [of 13]
  obtain tids1 m where m: "script_timer_Create 1000 50 7 0 [] timer_mgr_new = (1, tids1, m :: nat timer_mgr)"
    by (simp add: script_timer_Create_def CreateTimer_cb_def timer_mgr_new_def new_id_def id_maker_new_def Let_def)
  have g: "lua_rawget sample_globals (str_key [0x66]) \<noteq> LNil" by (simp add: sample_lookup)
  have p: "prompt 50 1000 [1010, 1050, 1100]" by simp
  have w: "bb_wf (param_new 0)" "\<not> attach (param_new 0)"
    by (simp_all add: param_new_def bb_wf_new) (simp add: bb_new_def)
  have c: "saved_size seq_len 15 (LTab False False first_table) + 1 \<le> param_capacity (param_new 0)"
    using f by (simp add: param_capacity_def param_new_def bb_new_def)
  have so: "sound seq_len 15 (LTab False False first_table)" using f by simp
  from repeating_timer_passes_once [where stack = "\<lambda>i. LTab False False first_table" and ctx = "CT_Object (LOther 5)" and call = "\<lambda>f args. Inr []"
      and junk = 0 and s = engine_Init and idx = "-1", OF sample_lookup(1) g _ HOL.refl so w c _ p m]
  show ?thesis using m by (auto simp: sample_lookup numeral_2_eq_2 simp del: timer_Updates.simps)
qed

end
