(* ===== verification/Process.thy ===== *)
theory Process
  imports GameScripts
begin

text \<open>
  The process: \<^verbatim>\<open>main\<close> in \<^verbatim>\<open>gameserver/gameserver.cpp\<close>, the instances of \<^verbatim>\<open>libcore/include/singleton.h\<close> and the thread for signals in
  \<^verbatim>\<open>libcore/src/SignalHander.cpp\<close>, which runs beside \<^verbatim>\<open>main\<close> and uses one of the instances.

  A step of \<^verbatim>\<open>main\<close> is one of its statements; what the statement does inside its component is modelled there, here only which instance
  it is called on.  \<open>None\<close> is a call through the null pointer of a missing instance.
\<close>

section \<open>Instances\<close>

text \<open>The classes that have an instance, with the second instance of a class under a name of its own.\<close>

definition CreateInstance :: "string \<Rightarrow> string list \<Rightarrow> string list" where
  "CreateInstance c live = (if c \<in> set live then live else c # live)"

definition DestroyInstance :: "string \<Rightarrow> string list \<Rightarrow> string list" where
  "DestroyInstance c live = (if c \<in> set live then removeAll c live else live)"

definition GetInstance :: "string \<Rightarrow> string list \<Rightarrow> string option" where
  "GetInstance c live = (if c \<in> set live then Some c else None)"

lemma instance_life:
  "GetInstance c (CreateInstance c live) = Some c" "GetInstance c (DestroyInstance c live) = None"
  "d \<noteq> c \<Longrightarrow> GetInstance d (CreateInstance c live) = GetInstance d live"
  "d \<noteq> c \<Longrightarrow> GetInstance d (DestroyInstance c live) = GetInstance d live"
  "CreateInstance c (CreateInstance c live) = CreateInstance c live"
  "DestroyInstance c (DestroyInstance c live) = DestroyInstance c live"
  by (simp_all add: CreateInstance_def DestroyInstance_def GetInstance_def)

section \<open>The thread for signals\<close>

datatype sig_thread = SigNone | SigWaiting | SigEnded | SigJoined

definition SIGUSR1 :: int where "SIGUSR1 = 10"

text \<open>
  \<^verbatim>\<open>Init\<close> blocks the signals and starts the thread, when the mask could be set.
\<close>

definition sig_Init :: "bool \<Rightarrow> bool \<times> sig_thread" where
  "sig_Init masked = (if masked then (True, SigWaiting) else (False, SigNone))"

text \<open>One round of the thread: the result of \<^verbatim>\<open>sigwait\<close> and the signal.  Both messages go to the logger.\<close>

definition sig_round :: "int \<Rightarrow> int \<Rightarrow> string list \<Rightarrow> sig_thread option" where
  "sig_round ret sig live =
     (if ret \<noteq> 0 then map_option (\<lambda>_. SigEnded) (GetInstance ''Logger'' live)
      else if sig = SIGUSR1 then Some SigEnded
      else map_option (\<lambda>_. SigWaiting) (GetInstance ''Logger'' live))"

text \<open>\<^verbatim>\<open>Release\<close> of a thread that can be joined sends it the signal that ends it and waits.\<close>

definition sig_joinable :: "sig_thread \<Rightarrow> bool" where
  "sig_joinable t \<longleftrightarrow> t = SigWaiting \<or> t = SigEnded"

definition sig_Release :: "sig_thread \<Rightarrow> sig_thread" where
  "sig_Release t = (if sig_joinable t then SigJoined else t)"

section \<open>The main thread\<close>

datatype main_op =
    OpSigInit bool
  | OpCreate string
  | OpCall string string
  | OpNet string
  | OpDestroy string
  | OpSigRelease

text \<open>Whether the functions that may fail succeed.\<close>

record main_env =
  me_masked :: bool
  me_net :: bool
  me_poller :: bool
  me_frame :: bool

definition main_begin :: "main_env \<Rightarrow> main_op list" where
  "main_begin v = OpSigInit (me_masked v) # map OpCreate main_created
     @ [OpCall ''AsyncTask'' ''Init'', OpCall ''Logger'' ''Init'', OpNet ''g_net_init'']"

definition main_end :: "main_op list" where
  "main_end = [OpCall ''CGameServerInput'' ''Run'', OpCall ''CGameServerFrame'' ''Stop'', OpCall ''Poll::Poller'' ''Release'',
     OpNet ''g_net_release'', OpCall ''Logger'' ''Release'', OpCall ''AsyncTask'' ''Release'']
     @ map OpDestroy main_destroyed @ [OpSigRelease]"

text \<open>The statements that \<^verbatim>\<open>main\<close> runs, and the value it returns.\<close>

definition main_ops :: "main_env \<Rightarrow> main_op list \<times> int" where
  "main_ops v =
     (if \<not> me_net v then (main_begin v @ [OpCall ''Logger'' ''Fatal''], 1)
      else if \<not> me_poller v then (main_begin v @ [OpCall ''Poll::Poller'' ''Init'', OpCall ''Logger'' ''Fatal''], 2)
      else if \<not> me_frame v
      then (main_begin v @ [OpCall ''Poll::Poller'' ''Init'', OpCall ''CGameServerFrame'' ''Start'', OpCall ''Logger'' ''Fatal''], 3)
      else (main_begin v @ [OpCall ''Poll::Poller'' ''Init'', OpCall ''CGameServerFrame'' ''Start''] @ main_end, 0))"

fun main_live :: "main_op \<Rightarrow> string list \<Rightarrow> string list option" where
  "main_live (OpCreate c) live = Some (CreateInstance c live)"
| "main_live (OpCall c f) live = map_option (\<lambda>_. live) (GetInstance c live)"
| "main_live (OpDestroy c) live = Some (DestroyInstance c live)"
| "main_live op live = Some live"

fun main_thread :: "main_op \<Rightarrow> sig_thread \<Rightarrow> sig_thread" where
  "main_thread (OpSigInit masked) t = snd (sig_Init masked)"
| "main_thread OpSigRelease t = sig_Release t"
| "main_thread op t = t"

text \<open>
  At the end of \<^verbatim>\<open>main\<close> the object for the signals is destroyed; destroying a thread that can be joined terminates the
  process, and there is no exit code: \<open>None\<close>.
\<close>

definition main_exit :: "int \<Rightarrow> sig_thread \<Rightarrow> int option" where
  "main_exit code t = (if sig_joinable t then None else Some code)"

section \<open>Both threads\<close>

text \<open>
  A state has the statements that are left, the instances and the thread; it is reached by steps of \<^verbatim>\<open>main\<close> and rounds of the thread in any order.
\<close>

type_synonym process = "main_op list \<times> string list \<times> sig_thread"

inductive runs :: "main_env \<Rightarrow> process \<Rightarrow> bool" for v where
  begin_main: "runs v (fst (main_ops v), [], SigNone)"
| step_main: "runs v (op # ops, live, t) \<Longrightarrow> main_live op live = Some live1 \<Longrightarrow> runs v (ops, live1, main_thread op t)"
| step_signal: "runs v (ops, live, SigWaiting) \<Longrightarrow> sig_round ret sig live = Some t \<Longrightarrow> runs v (ops, live, t)"

inductive_cases runs_emptyE: "runs v ([], live, t)"

fun all_live :: "main_op list \<Rightarrow> string list \<Rightarrow> string list option" where
  "all_live [] live = Some live"
| "all_live (op # ops) live = do { live1 \<leftarrow> main_live op live; all_live ops live1 }"

lemma all_live_append [simp]: "all_live (xs @ ys) live = do { live1 \<leftarrow> all_live xs live; all_live ys live1 }"
  by (induction xs live rule: all_live.induct) (auto simp: Option.bind_assoc split: Option.bind_splits)

definition created :: "string list" where "created = rev main_created"

lemma live_begin: "all_live (main_begin v) [] = Some created"
  by (simp add: main_begin_def main_created_def created_def CreateInstance_def GetInstance_def)

lemma live_end: "all_live main_end created = Some []"
  by (simp add: main_end_def created_def main_created_def main_destroyed_def GetInstance_def DestroyInstance_def)

definition live_at_end :: "main_env \<Rightarrow> string list" where
  "live_at_end v = (if me_net v \<and> me_poller v \<and> me_frame v then [] else created)"

lemma live_main: "all_live (fst (main_ops v)) [] = Some (live_at_end v)"
proof -
  have "GetInstance ''Logger'' created = Some ''Logger''" "GetInstance ''Poll::Poller'' created = Some ''Poll::Poller''"
    "GetInstance ''CGameServerFrame'' created = Some ''CGameServerFrame''"
    by (simp_all add: GetInstance_def created_def main_created_def)
  then show ?thesis by (simp add: main_ops_def live_begin live_end live_at_end_def)
qed

text \<open>The main thread never meets a missing instance, whatever the other thread does.\<close>

lemma runs_live: "runs v (ops, live, t) \<Longrightarrow> all_live ops live = Some (live_at_end v)"
proof (induction "(ops, live, t)" arbitrary: ops live t rule: runs.induct)
  case begin_main
  then show ?case using live_main by simp
qed simp_all

section \<open>The thread beside the main thread\<close>

definition main_ok :: "main_env \<Rightarrow> bool" where
  "main_ok v \<longleftrightarrow> me_net v \<and> me_poller v \<and> me_frame v"

fun sig_free :: "main_op \<Rightarrow> bool" where
  "sig_free (OpSigInit b) = False"
| "sig_free OpSigRelease = False"
| "sig_free op = True"

lemma sig_free_thread: "sig_free op \<Longrightarrow> main_thread op t = t"
  by (cases op) simp_all

definition middle :: "main_env \<Rightarrow> main_op list" where
  "middle v = filter sig_free (fst (main_ops v))"

definition last_op :: "main_env \<Rightarrow> main_op list" where
  "last_op v = (if main_ok v then [OpSigRelease] else [])"

lemma main_shape: "fst (main_ops v) = OpSigInit (me_masked v) # middle v @ last_op v"
  by (simp add: main_ops_def middle_def last_op_def main_ok_def main_begin_def main_end_def main_created_def main_destroyed_def)

definition thread_middle :: "main_env \<Rightarrow> sig_thread \<Rightarrow> bool" where
  "thread_middle v t \<longleftrightarrow> (if me_masked v then sig_joinable t else t = SigNone)"

definition thread_end :: "main_env \<Rightarrow> sig_thread \<Rightarrow> bool" where
  "thread_end v t \<longleftrightarrow> t = (if me_masked v then SigJoined else SigNone)"

definition thread_inv :: "main_env \<Rightarrow> main_op list \<Rightarrow> sig_thread \<Rightarrow> bool" where
  "thread_inv v ops t \<longleftrightarrow>
     ops = fst (main_ops v) \<and> t = SigNone
     \<or> (\<exists>xs ys. middle v = xs @ ys \<and> ops = ys @ last_op v \<and> thread_middle v t)
     \<or> ops = [] \<and> main_ok v \<and> thread_end v t"

lemma thread_first: "thread_middle v (main_thread (OpSigInit (me_masked v)) t)"
  by (simp add: thread_middle_def sig_Init_def sig_joinable_def)

lemma thread_last: "thread_middle v t \<Longrightarrow> thread_end v (main_thread OpSigRelease t)"
  by (auto simp: thread_middle_def thread_end_def sig_Release_def sig_joinable_def split: if_splits)

lemma thread_inv_main:
  assumes "thread_inv v (op # ops) t"
  shows "thread_inv v ops (main_thread op t)"
proof -
  consider (first) "op # ops = fst (main_ops v)"
    | (mid) xs ys where "middle v = xs @ ys" "op # ops = ys @ last_op v" "thread_middle v t"
    using assms by (auto simp: thread_inv_def)
  then show ?thesis
  proof cases
    case first
    then have "op = OpSigInit (me_masked v)" "ops = middle v @ last_op v" by (simp_all add: main_shape)
    then show ?thesis using thread_first by (simp add: thread_inv_def)
  next
    case mid
    show ?thesis
    proof (cases ys)
      case Nil
      then have "op = OpSigRelease" "ops = []" "main_ok v" using mid(2) by (auto simp: last_op_def split: if_splits)
      then show ?thesis using thread_last [OF mid(3)] by (simp add: thread_inv_def)
    next
      case (Cons y zs)
      then have "op = y" "ops = zs @ last_op v" "middle v = (xs @ [y]) @ zs" using mid(1,2) by simp_all
      moreover have "sig_free y" proof -
        have "y \<in> set (middle v)" using mid(1) Cons by simp
        then show ?thesis by (simp add: middle_def)
      qed
      ultimately show ?thesis using mid(3) sig_free_thread unfolding thread_inv_def by metis
    qed
  qed
qed

lemma thread_inv_signal:
  assumes "thread_inv v ops SigWaiting" and "t = SigWaiting \<or> t = SigEnded"
  shows "thread_inv v ops t"
proof -
  have m: "thread_middle v t" if "thread_middle v SigWaiting"
    using that assms(2) by (auto simp: thread_middle_def sig_joinable_def split: if_splits)
  have "\<not> thread_end v SigWaiting" by (simp add: thread_end_def)
  then obtain xs ys where "middle v = xs @ ys" "ops = ys @ last_op v" "thread_middle v SigWaiting"
    using assms(1) unfolding thread_inv_def by blast
  with m show ?thesis unfolding thread_inv_def by blast
qed

lemma sig_round_cases: "sig_round ret sig live = Some t \<Longrightarrow> t = SigWaiting \<or> t = SigEnded"
  by (auto simp: sig_round_def split: if_splits)

lemma runs_thread: "runs v (ops, live, t) \<Longrightarrow> thread_inv v ops t"
proof (induction "(ops, live, t)" arbitrary: ops live t rule: runs.induct)
  case begin_main
  then show ?case by (simp add: thread_inv_def)
next
  case (step_main op ops live t live1)
  then show ?case using thread_inv_main by blast
next
  case (step_signal ops live ret sig t)
  then show ?case using thread_inv_signal sig_round_cases by blast
qed

text \<open>The instances are those that the statements run so far have left.\<close>

lemma runs_prefix: "runs v (ops, live, t) \<Longrightarrow> \<exists>past. fst (main_ops v) = past @ ops \<and> all_live past [] = Some live"
proof (induction "(ops, live, t)" arbitrary: ops live t rule: runs.induct)
  case begin_main
  then show ?case by (intro exI [of _ "[]"]) simp
next
  case (step_main op ops live t live1)
  then obtain past where "fst (main_ops v) = past @ op # ops" "all_live past [] = Some live" by blast
  then show ?case using step_main.hyps(3) by (intro exI [of _ "past @ [op]"]) simp
qed

lemma created_live:
  "all_live past [] = Some live \<Longrightarrow> c \<in> set live \<longleftrightarrow> (\<exists>a b. past = a @ OpCreate c # b \<and> OpDestroy c \<notin> set b)"
proof (induction "past" arbitrary: live rule: rev_induct)
  case (snoc op ops)
  then obtain live0 where l: "all_live ops [] = Some live0" "main_live op live0 = Some live" by (auto simp: bind_eq_Some_conv)
  have "(\<exists>a b. ops @ [op] = a @ OpCreate c # b \<and> OpDestroy c \<notin> set b)
    \<longleftrightarrow> op = OpCreate c \<or> op \<noteq> OpDestroy c \<and> (\<exists>a b. ops = a @ OpCreate c # b \<and> OpDestroy c \<notin> set b)"
    (is "?l \<longleftrightarrow> ?r")
  proof
    assume ?l
    then obtain a b where "ops @ [op] = a @ OpCreate c # b" "OpDestroy c \<notin> set b" by blast
    then show ?r by (cases b rule: rev_cases) auto
  next
    assume ?r
    then show ?l
    proof
      assume "op = OpCreate c"
      then have "ops @ [op] = ops @ OpCreate c # [] \<and> OpDestroy c \<notin> set []" by simp
      then show ?l by blast
    next
      assume "op \<noteq> OpDestroy c \<and> (\<exists>a b. ops = a @ OpCreate c # b \<and> OpDestroy c \<notin> set b)"
      then obtain a b where "ops @ [op] = a @ OpCreate c # (b @ [op])" "OpDestroy c \<notin> set (b @ [op])" by auto
      then show ?l by blast
    qed
  qed
  moreover have "c \<in> set live \<longleftrightarrow> op = OpCreate c \<or> op \<noteq> OpDestroy c \<and> c \<in> set live0"
    using l(2) by (cases op) (auto simp: CreateInstance_def DestroyInstance_def split: if_splits)
  ultimately show ?case using snoc.IH [OF l(1)] by simp
qed simp

lemma main_distinct: "distinct (fst (main_ops v))"
  by (simp add: main_ops_def main_begin_def main_end_def main_created_def main_destroyed_def)

lemma logger_ops:
  "OpCreate ''Logger'' \<in> set (fst (main_ops v))"
  "OpDestroy ''Logger'' \<in> set (fst (main_ops v)) \<longleftrightarrow> main_ok v"
  by (simp_all add: main_ops_def main_ok_def main_begin_def main_end_def main_created_def main_destroyed_def)

lemma logger_first: "fst (main_ops v) = [OpSigInit (me_masked v)] @ OpCreate ''Logger'' # tl (tl (fst (main_ops v)))"
  by (simp add: main_ops_def main_begin_def main_created_def)

lemma logger_live:
  assumes "runs v (ops, live, t)"
  shows "''Logger'' \<in> set live \<longleftrightarrow> OpCreate ''Logger'' \<notin> set ops \<and> (OpDestroy ''Logger'' \<in> set ops \<or> \<not> main_ok v)"
proof -
  let ?c = "OpCreate ''Logger''" and ?d = "OpDestroy ''Logger''"
  obtain past where d: "fst (main_ops v) = past @ ops" "all_live past [] = Some live" using runs_prefix [OF assms] by blast
  have dist: "distinct (past @ ops)" using main_distinct [of v] d(1) by simp
  obtain x y where xy: "past @ ops = x @ ?c # y" "?d \<notin> set x"
    by (rule that [OF trans [OF d(1) [symmetric] logger_first]]) simp
  have mem: "?c \<in> set past \<longleftrightarrow> ?c \<notin> set ops" using logger_ops(1) [of v] d(1) dist by auto
  have memd: "?d \<in> set past \<longleftrightarrow> main_ok v \<and> ?d \<notin> set ops" using logger_ops(2) [of v] d(1) dist by auto
  have "''Logger'' \<in> set live \<longleftrightarrow> ?c \<in> set past \<and> ?d \<notin> set past" unfolding created_live [OF d(2)]
  proof
    assume "\<exists>a b. past = a @ ?c # b \<and> ?d \<notin> set b"
    then obtain a b where ab: "past = a @ ?c # b" "?d \<notin> set b" by blast
    then have eq: "a @ ?c # (b @ ops) = x @ ?c # y" using ab(1) xy(1) by simp
    moreover have "?c \<notin> set a" "?c \<notin> set (b @ ops)" using dist ab(1) by auto
    ultimately have "a = x" using append_Cons_eq_iff by metis
    then show "?c \<in> set past \<and> ?d \<notin> set past" using ab xy(2) by simp
  next
    assume r: "?c \<in> set past \<and> ?d \<notin> set past"
    then obtain a b where "past = a @ ?c # b" by (meson in_set_conv_decomp)
    then show "\<exists>a b. past = a @ ?c # b \<and> ?d \<notin> set b"
      using r by (intro exI [of _ a] exI [of _ b]) simp
  qed
  with mem memd show ?thesis by blast
qed

section \<open>Properties\<close>

text \<open>
  Whatever signals arrive and however the threads are interleaved, \<^verbatim>\<open>main\<close> never calls through a missing instance.
\<close>

theorem main_defined:
  assumes "runs v (op # ops, live, t)"
  shows "main_live op live \<noteq> None"
  using runs_live [OF assms] by (auto simp: bind_eq_Some_conv)

text \<open>
  C37. When \<^verbatim>\<open>main\<close> is over, it returns 0 with every instance deleted and the thread joined if everything could be started; but where it means
  to return an error code, the instances are still there and, as the thread was not joined, the process is terminated.
\<close>

theorem main_returns:
  assumes "runs v ([], live, t)"
  shows "live = live_at_end v \<and>
    main_exit (snd (main_ops v)) t = (if main_ok v then Some 0 else if me_masked v then None else Some (snd (main_ops v)))"
proof -
  have "thread_middle v t" if "\<not> main_ok v"
    using runs_thread [OF assms] that main_shape [of v] by (auto simp: thread_inv_def last_op_def)
  moreover have "thread_end v t" if "main_ok v"
    using runs_thread [OF assms] that main_shape [of v] by (auto simp: thread_inv_def last_op_def)
  moreover have "snd (main_ops v) = 0" if "main_ok v" using that by (simp add: main_ops_def main_ok_def)
  moreover have "live = live_at_end v" using runs_live [OF assms] by simp
  ultimately show ?thesis
    by (cases "main_ok v"; cases "me_masked v") (auto simp: main_exit_def thread_middle_def thread_end_def sig_joinable_def)
qed

text \<open>
  The thread for signals runs before the logger exists and after it has been deleted.  A signal other than the one that ends
  the thread is followed by a call through a null pointer exactly then.
\<close>

theorem signal_window:
  assumes "runs v (ops, live, SigWaiting)" and "sig \<noteq> SIGUSR1"
  shows "sig_round 0 sig live = None \<longleftrightarrow>
    OpCreate ''Logger'' \<in> set ops \<or> main_ok v \<and> OpDestroy ''Logger'' \<notin> set ops"
  using logger_live [OF assms(1)] assms(2) by (auto simp: sig_round_def GetInstance_def)

text \<open>A whole run, without signals.\<close>

lemma main_alone: "runs v (ops, live, t) \<Longrightarrow> \<exists>live1 t1. runs v ([], live1, t1)"
proof (induction ops arbitrary: live t)
  case (Cons op ops)
  obtain live1 where "main_live op live = Some live1" using runs_live [OF Cons.prems] by (auto simp: bind_eq_Some_conv)
  from Cons.IH [OF runs.step_main [OF Cons.prems this]] show ?case .
qed blast

definition all_fine :: main_env where
  "all_fine = \<lparr>me_masked = True, me_net = True, me_poller = True, me_frame = True\<rparr>"

theorem main_returns_witness:
  "\<exists>t. runs all_fine ([], [], t) \<and> main_exit (snd (main_ops all_fine)) t = Some 0"
proof -
  obtain live t where r: "runs all_fine ([], live, t)" using main_alone runs.begin_main by metis
  from main_returns [OF r] r show ?thesis by (auto simp: all_fine_def live_at_end_def main_ok_def)
qed

lemma first_step: "runs all_fine (middle all_fine @ last_op all_fine, [], SigWaiting)"
proof -
  have "runs all_fine (OpSigInit (me_masked all_fine) # middle all_fine @ last_op all_fine, [], SigNone)"
    using runs.begin_main [of all_fine] unfolding main_shape .
  from runs.step_main [OF this] show ?thesis by (simp add: all_fine_def sig_Init_def)
qed

theorem main_defined_witness: "main_live (hd (middle all_fine)) [] \<noteq> None"
proof -
  have "middle all_fine \<noteq> []" using main_shape [of all_fine] logger_ops(1) [of all_fine] by (auto simp: last_op_def)
  then have "runs all_fine (hd (middle all_fine) # tl (middle all_fine) @ last_op all_fine, [], SigWaiting)"
    using first_step by (metis append_Cons list.collapse)
  from main_defined [OF this] show ?thesis .
qed

theorem signal_window_witness: "sig_round 0 15 [] = None"
proof -
  have "OpCreate ''Logger'' \<in> set (middle all_fine @ last_op all_fine)"
    using logger_ops(1) [of all_fine] unfolding main_shape by simp
  then show ?thesis using signal_window [OF first_step, of 15] by (simp add: SIGUSR1_def)
qed

end
