(* ===== verification/MemoryPool.thy ===== *)
theory MemoryPool
  imports Prelude "HOL-Library.Multiset"
begin

text \<open>
  The pool of blocks of one size: \<^verbatim>\<open>libcore/include/MemoryPoll.h\<close>.  Blocks are identities; the block that \<^verbatim>\<open>malloc\<close> returns
  is an argument.  The mutex makes both operations atomic.
\<close>

section \<open>Operations\<close>

record memory_poll =
  mp_free :: "nat list"

definition poll_new :: memory_poll where "poll_new = \<lparr>mp_free = []\<rparr>"

text \<open>The block, whether it came from \<^verbatim>\<open>malloc\<close>, and the pool.\<close>

definition poll_Alloc :: "nat \<Rightarrow> memory_poll \<Rightarrow> nat \<times> bool \<times> memory_poll" where
  "poll_Alloc fresh p = (case mp_free p of [] \<Rightarrow> (fresh, True, p) | b # bs \<Rightarrow> (b, False, p\<lparr>mp_free := bs\<rparr>))"

definition poll_Free :: "nat \<Rightarrow> memory_poll \<Rightarrow> memory_poll" where
  "poll_Free b p = p\<lparr>mp_free := mp_free p @ [b]\<rparr>"

text \<open>The blocks that the destructor gives to \<^verbatim>\<open>free\<close>.\<close>

definition poll_destroy :: "memory_poll \<Rightarrow> nat list" where
  "poll_destroy p = mp_free p"

section \<open>Clients\<close>

text \<open>
  The blocks that clients hold, and all blocks that \<^verbatim>\<open>malloc\<close> has returned.  A client returns a block that it holds; \<^verbatim>\<open>malloc\<close> returns
  one that it has not returned before.
\<close>

record pool_state =
  ps_pool :: memory_poll
  ps_held :: "nat list"
  ps_blocks :: "nat list"

definition pool_alloc :: "nat \<Rightarrow> pool_state \<Rightarrow> pool_state" where
  "pool_alloc fresh s =
     (let (b, new, p) = poll_Alloc fresh (ps_pool s)
      in s\<lparr>ps_pool := p, ps_held := b # ps_held s, ps_blocks := (if new then b # ps_blocks s else ps_blocks s)\<rparr>)"

definition pool_free :: "nat \<Rightarrow> pool_state \<Rightarrow> pool_state" where
  "pool_free b s = s\<lparr>ps_pool := poll_Free b (ps_pool s), ps_held := remove1 b (ps_held s)\<rparr>"

inductive pool_run :: "pool_state \<Rightarrow> bool" where
  pool_start: "pool_run \<lparr>ps_pool = poll_new, ps_held = [], ps_blocks = []\<rparr>"
| pool_get: "pool_run s \<Longrightarrow> fresh \<notin> set (ps_blocks s) \<Longrightarrow> pool_run (pool_alloc fresh s)"
| pool_put: "pool_run s \<Longrightarrow> b \<in> set (ps_held s) \<Longrightarrow> pool_run (pool_free b s)"

section \<open>Properties\<close>

text \<open>Every block has one owner: a client or the pool.\<close>

lemma pool_owners:
  assumes "pool_run s"
  shows "distinct (ps_held s @ mp_free (ps_pool s)) \<and> set (ps_held s @ mp_free (ps_pool s)) = set (ps_blocks s)"
  using assms
proof (induction rule: pool_run.induct)
  case pool_start
  then show ?case by (simp add: poll_new_def)
next
  case (pool_get s fresh)
  then show ?case
    by (cases "mp_free (ps_pool s)") (auto simp add: pool_alloc_def poll_Alloc_def)
next
  case (pool_put s b)
  have "mset (ps_held (pool_free b s) @ mp_free (ps_pool (pool_free b s))) = mset (ps_held s @ mp_free (ps_pool s))"
    using pool_put.hyps(2) by (simp add: pool_free_def poll_Free_def)
  from mset_eq_imp_distinct_iff [OF this] mset_eq_setD [OF this] pool_put.IH
  have "distinct (ps_held (pool_free b s) @ mp_free (ps_pool (pool_free b s)))"
    "set (ps_held (pool_free b s) @ mp_free (ps_pool (pool_free b s))) = set (ps_blocks s)" by argo+
  moreover have "ps_blocks (pool_free b s) = ps_blocks s" by (simp add: pool_free_def)
  ultimately show ?case by simp
qed

text \<open>
  As long as clients return only blocks that they hold, and once, \<^verbatim>\<open>Alloc\<close> gives out a block that nobody holds; and the destructor frees every
  block of the pool when none is held.
\<close>

theorem pool_exclusive:
  assumes "pool_run s" and "fresh \<notin> set (ps_blocks s)" and "poll_Alloc fresh (ps_pool s) = (b, new, p)"
  shows "b \<notin> set (ps_held s) \<and> (ps_held s = [] \<longrightarrow> distinct (poll_destroy (ps_pool s)) \<and> set (poll_destroy (ps_pool s)) = set (ps_blocks s))"
proof -
  note o = pool_owners [OF assms(1)]
  have "b = fresh \<or> b \<in> set (mp_free (ps_pool s))"
    using assms(3) by (cases "mp_free (ps_pool s)") (simp_all add: poll_Alloc_def)
  then have "b \<notin> set (ps_held s)" using o assms(2) by (metis Un_iff distinct_append disjoint_iff set_append)
  moreover have "set (mp_free (ps_pool s)) = set (ps_blocks s)" if "ps_held s = []" using o that by simp
  ultimately show ?thesis using o by (auto simp: poll_destroy_def)
qed

theorem pool_exclusive_witness:
  "pool_run (pool_free 5 (pool_alloc 5 \<lparr>ps_pool = poll_new, ps_held = [], ps_blocks = []\<rparr>)) \<and>
   (5 :: nat) \<notin> set (ps_held (pool_free 5 (pool_alloc 5 \<lparr>ps_pool = poll_new, ps_held = [], ps_blocks = []\<rparr>)))"
proof -
  let ?s1 = "pool_alloc 5 \<lparr>ps_pool = poll_new, ps_held = [], ps_blocks = []\<rparr>"
  have "pool_run ?s1" by (rule pool_get [OF pool_start]) simp
  then have r: "pool_run (pool_free 5 ?s1)"
    by (rule pool_put) (simp add: pool_alloc_def poll_Alloc_def poll_new_def)
  have "poll_Alloc 9 (ps_pool (pool_free 5 ?s1)) = (5, False, poll_new)" "(9 :: nat) \<notin> set (ps_blocks (pool_free 5 ?s1))"
    by (simp_all add: pool_free_def poll_Free_def pool_alloc_def poll_Alloc_def poll_new_def)
  from pool_exclusive [OF r this(2,1)] r show ?thesis by blast
qed

text \<open>A block that is returned twice is given to the next two clients.\<close>

lemma double_free_shared:
  assumes "mp_free p = []"
  shows "fst (poll_Alloc x (poll_Free b (poll_Free b p))) = b"
    and "fst (poll_Alloc y (snd (snd (poll_Alloc x (poll_Free b (poll_Free b p)))))) = b"
  using assms by (simp_all add: poll_Alloc_def poll_Free_def)

end
