(* ===== verification/Echo.thy ===== *)
theory Echo
  imports Wire SessionStatus Frame
begin

text \<open>
  The echo service end to end: a client session, the session that the server has for it, the queue
  of received messages, the handler of the server's frame loop, and the way back.  A session
  reads and writes in the same calls of \<^verbatim>\<open>Update\<close>; the handler runs between them.
\<close>

section \<open>What an Update does to the incoming half\<close>

definition same_in :: "session \<Rightarrow> session \<Rightarrow> bool" where
  "same_in s s' \<longleftrightarrow> s_msg_header s' = s_msg_header s \<and> s_msg_recv s' = s_msg_recv s
     \<and> (s_disconnect s \<longrightarrow> s_disconnect s') \<and> s_id s' = s_id s"

lemma same_in_trans: "same_in s s1 \<Longrightarrow> same_in s1 s2 \<Longrightarrow> same_in s s2"
  by (simp add: same_in_def)

lemma same_in_rel: "same_in s s' \<Longrightarrow> recv_rel s d \<Longrightarrow> recv_rel s' d"
  by (rule recv_rel_cong [of s' s]) (simp_all add: same_in_def)

lemma update_events_in: "same_in s (fst (update_events s err))"
  by (simp add: update_events_def same_in_def Let_def)

lemma post_send_loop_in:
  assumes "post_send_loop rs s e y = Some (s', e', y')"
  shows "same_in s s'"
  by (rule post_send_loop_invariant [OF assms, where P = "same_in s"])
    (auto simp: same_in_def post_send_pick_def session_set_socket_status_def session_on_send_error_def
      split: option.splits list.splits if_splits)

lemma post_send_in:
  "post_send rs s e y = Some (s', e', y') \<Longrightarrow> same_in s s' \<and> ne_mq e' = ne_mq e"
  using post_send_loop_in [of rs s e y s' e' y'] post_send_loop_effects [of rs s e y s' e' y']
  by (auto simp: post_send_def same_in_def split: if_splits)

lemma update_status_in:
  "update_status s e y = (s', e', y') \<Longrightarrow> same_in s s' \<and> ne_mq e' = ne_mq e"
  by (auto simp: update_status_def same_in_def session_set_socket_status_def session_Disconnect_def read_clock_def
      g_net_close_socket_def Let_def split: sock_status.splits if_splits prod.splits)

lemma update_register_in: "update_register s y = Some (s', y') \<Longrightarrow> same_in s s'"
  by (auto simp: update_register_def same_in_def RegisterHandler_def epoll_ctl_def Let_def Option.bind_eq_Some_conv split: if_splits prod.splits)

text \<open>A loop of \<^verbatim>\<open>recv\<close> that returned was given an answer that ends it.\<close>

lemma post_recv_loop_ended: "post_recv_loop rs s e = Some r \<Longrightarrow> \<exists>x\<in>set rs. recv_ends x"
proof (induction rs s e rule: post_recv_loop.induct)
  case (2 bs rs s e)
  show ?case
  proof (cases "length bs < 4096")
    case False
    then have "take (unat MAX_BUFFER_SIZE) bs \<noteq> []" "length (take (unat MAX_BUFFER_SIZE) bs) = unat MAX_BUFFER_SIZE"
      by (auto simp: MAX_BUFFER_SIZE_def)
    with 2(2) obtain s1 e1 where
      "session_on_recv s e (map Some (take (unat MAX_BUFFER_SIZE) bs)) (word_of_nat (unat MAX_BUFFER_SIZE)) = Some (s1, e1)"
      "post_recv_loop rs s1 e1 = Some r"
      by (auto simp: Let_def Option.bind_eq_Some_conv)
    with 2(1) False show ?thesis
      by (auto simp: MAX_BUFFER_SIZE_def)
  qed simp
qed (auto simp: EAGAIN_def EINTR_def split: if_splits)

text \<open>The bytes that one call of \<^verbatim>\<open>Update\<close> reads.\<close>

definition update_reads :: "update_io \<Rightarrow> session \<Rightarrow> byte list" where
  "update_reads io s =
     (let s1 = fst (update_events s (io_so_error io))
      in if io_lock io \<and> \<not> s_recv_over s1 \<and> s_status s1 = SS_RUNNING \<and> s_rd_ready s1
         then recv_stream (io_recvs io) else [])"

lemma Update_receives:
  assumes "session_Update io s e y = Some (s', e', y')" and "recv_rel s d" and "pool_wf (ne_mq e)"
  shows "s_id s' = s_id s" and "recv_rel s' (fst (feeds d (update_reads io s)))"
    and "arrived (s_id s) e e' (snd (feeds d (update_reads io s)))"
proof -
  have "s_id s' = s_id s \<and> recv_rel s' (fst (feeds d (update_reads io s)))
    \<and> arrived (s_id s) e e' (snd (feeds d (update_reads io s)))"
  proof (cases "io_lock io")
    case False
    then show ?thesis using assms
      by (simp add: session_Update_def update_reads_def arrived_def delivers_def)
  next
    case True
    obtain s1 s2 e2 s3 e3 y3 s5 e5 y5 where p: "s1 = fst (update_events s (io_so_error io))"
      "post_recv (io_recvs io) s1 e = Some (s2, e2)" "post_send (io_sends io) s2 e2 y = Some (s3, e3, y3)"
      "update_status (if closing (s_events s) then session_set_socket_status s3 SS_ERROR else s3) e3 y3 = (s5, e5, y5)"
      "update_register s5 y5 = Some (s', y')" "e' = e5" by (rule Update_parts [OF assms(1) True])
    have s1: "recv_rel s1 d" "s_id s1 = s_id s"
      using update_events_in [of s "io_so_error io"] same_in_rel [OF _ assms(2)] p(1) by (auto simp: same_in_def)
    have 2: "follows s1 e d (update_reads io s) (Some (s2, e2))"
    proof (cases "post_recv (io_recvs io) s1 e = Some (s1, e) \<and> update_reads io s = []")
      case True
      then show ?thesis using p(2) follows_none [OF s1(1) assms(3)] by simp
    next
      case False
      then have l: "post_recv_loop (io_recvs io) s1 e = Some (s2, e2)" "update_reads io s = recv_stream (io_recvs io)"
        using p(1,2) \<open>io_lock io\<close> by (auto simp: post_recv_def update_reads_def Let_def split: if_splits)
      show ?thesis using post_recv_loop_follows [OF s1(1) assms(3) post_recv_loop_ended [OF l(1)]] l by simp
    qed
    have "same_in s3 (if closing (s_events s) then session_set_socket_status s3 SS_ERROR else s3)"
      by (simp add: same_in_def session_set_socket_status_def)
    then have "same_in s2 s'" "ne_mq e' = ne_mq e2"
      using post_send_in [OF p(3)] update_status_in [OF p(4)] update_register_in [OF p(5)] p(6)
      by (auto intro: same_in_trans)
    then show ?thesis
      using 2 same_in_rel [of s2 s'] s1(2) by (auto simp: follows_def arrived_def delivers_def same_in_def)
  qed
  then show "s_id s' = s_id s" "recv_rel s' (fst (feeds d (update_reads io s)))"
    "arrived (s_id s) e e' (snd (feeds d (update_reads io s)))" by simp_all
qed

section \<open>The history of a served session\<close>

text \<open>A payload whose first two bytes, the opcode, are not zero: the handler answers it.\<close>

definition has_opcode :: "byte list \<Rightarrow> bool" where
  "has_opcode p \<longleftrightarrow> bytes_word (take 2 p) \<noteq> (0 :: u16)"

text \<open>One round of the message loop of a frame: a message is taken, handled and given back.\<close>

definition handle_next :: "world \<Rightarrow> world option" where
  "handle_next w =
     (case PopMessage (ne_mq (w_env w)) of
        (None, q) \<Rightarrow> Some w
      | (Some m, q) \<Rightarrow> do {
          w1 \<leftarrow> server_on_msg m w;
          Some (w1\<lparr>w_env := (w_env w1)\<lparr>ne_mq := FreeMessage q m\<rparr>\<rparr>)
        })"

text \<open>
  \<open>serving a x cs hs z\<close>: from \<open>x\<close> a history leads to \<open>z\<close> in which the session \<open>a\<close> read the bytes \<open>cs\<close>, and
  \<open>hs\<close> are the messages that were handled, each while the session was running and its buffer had room.
\<close>

inductive serving :: "nat \<Rightarrow> world \<times> sys \<Rightarrow> byte list \<Rightarrow> byte list list \<Rightarrow> world \<times> sys \<Rightarrow> bool" for a x where
  start: "serving a x [] [] x"
| update: "serving a x cs hs (w, y) \<Longrightarrow> session_at a w = Some s \<Longrightarrow>
    session_Update io s (w_env w) y = Some (s', e', y') \<Longrightarrow>
    serving a x (cs @ update_reads io s) hs (put_session s' (w\<lparr>w_env := e'\<rparr>), y')"
| handled: "serving a x cs hs (w, y) \<Longrightarrow> session_at a w = Some s \<Longrightarrow> session_Active s \<Longrightarrow>
    msg_waiting (ne_mq (w_env w)) = m # ms \<Longrightarrow> msg_bytes m = map Some p \<Longrightarrow>
    4 + length p \<le> free_room (send_room s) \<Longrightarrow> handle_next w = Some w' \<Longrightarrow> serving a x cs (hs @ [p]) (w', y)"
| polled: "serving a x cs hs (w, y) \<Longrightarrow> session_at a w = Some s \<Longrightarrow>
    serving a x cs hs (put_session (session_callback s events) w, y)"
| disconnect: "serving a x cs hs (w, y) \<Longrightarrow> session_at a w = Some s \<Longrightarrow>
    serving a x cs hs (put_session (session_Disconnect s) w, y)"

text \<open>
  What holds of the session in every history: the bytes that left and those still to leave are the frames of the
  answered messages; the decoder's output on what was read is what was handled, then what waits.
\<close>

definition served :: "nat \<Rightarrow> byte list \<Rightarrow> byte list list \<Rightarrow> byte list list \<Rightarrow> byte list \<Rightarrow> world \<Rightarrow> sys \<Rightarrow> session \<Rightarrow> bool" where
  "served a cs hs ms bs w y s \<longleftrightarrow> session_at a w = Some s
     \<and> out_ok s (w_env w) \<and> pending s = map Some bs \<and> taken (sy_log y) @ bs = concat (map frame (filter has_opcode hs))
     \<and> recv_rel s (fst (feeds (Pending []) cs)) \<and> pool_wf (ne_mq (w_env w))
     \<and> list_all2 (\<lambda>m p. msg_wf m \<and> msg_bytes m = map Some p \<and> m_ptr m = Some a) (msg_waiting (ne_mq (w_env w))) ms
     \<and> snd (feeds (Pending []) cs) = hs @ ms"

text \<open>Every payload that the decoder completes has a valid length.\<close>

lemma feed_len_ok: "p \<in> set (snd (feed d b)) \<Longrightarrow> len_ok (length p)"
  by (cases d) (auto simp: Let_def len_ok_def split: if_splits)

lemma feeds_len_ok: "p \<in> set (snd (feeds d bs)) \<Longrightarrow> len_ok (length p)"
  by (induction bs arbitrary: d) (auto simp: case_prod_beta dest: feed_len_ok)

lemma payload_opcode:
  assumes "msg_wf m" and "msg_bytes m = map Some p" and "2 \<le> length p"
  shows "packet_Opcode m = Some (bytes_word (take 2 p))"
proof -
  have n: "unat (m_curr_len m) = length p"
    using length_msg_bytes [OF assms(1)] assms(2) by simp
  have "take 2 (take (length p) (m_data m)) = map Some (take 2 p)"
    using assms(2) n by (simp add: msg_bytes_def take_map)
  then have "take 2 (m_data m) = map Some (take 2 p)" using assms(3) by (simp add: min_def)
  moreover have "2 \<le> length (m_data m)" using msg_wf_le [OF assms(1)] n assms(3) by linarith
  ultimately show ?thesis by (simp add: packet_Opcode_def mem_read_def)
qed

lemma served_cong:
  assumes "served a cs hs ms bs w y s" and "same_out s s'" and "same_in s s'"
  shows "served a cs hs ms bs (put_session s' w) y s'"
proof -
  have "s_id s' = a" using assms(1,3) session_at_id by (auto simp: served_def same_in_def)
  then show ?thesis
    using assms same_outD [OF assms(2), of "w_env w" "w_env w"] same_in_rel [OF assms(3)]
    by (simp add: served_def session_at_put [where s = s])
qed

text \<open>What the round of the message loop does to the served session.\<close>

lemma served_quiet:
  assumes "served a cs hs (p # ms) bs w y s" and "\<not> has_opcode p" and "handle_next w = Some w'"
  shows "served a cs (hs @ [p]) ms bs w' y s"
proof -
  obtain m q where q: "msg_waiting (ne_mq (w_env w)) = m # q" "msg_wf m" "msg_bytes m = map Some p"
    using assms(1) by (auto simp: served_def list_all2_Cons2)
  have "len_ok (length p)" using assms(1) feeds_len_ok [of p "Pending []" cs] by (simp add: served_def)
  then have "packet_Opcode m = Some 0"
    using payload_opcode [OF q(2,3)] assms(2) by (simp add: len_ok_def has_opcode_def)
  then have w': "w' = w\<lparr>w_env := (w_env w)\<lparr>ne_mq := FreeMessage ((ne_mq (w_env w))\<lparr>msg_waiting := q\<rparr>) m\<rparr>\<rparr>"
    using assms(3) q(1) by (simp add: handle_next_def PopMessage_def server_on_msg_def)
  then have "session_at a w' = session_at a w" "ne_mq2 (w_env w') = ne_mq2 (w_env w)" by (simp_all add: session_at_def)
  moreover have "pool_wf (FreeMessage ((ne_mq (w_env w))\<lparr>msg_waiting := q\<rparr>) m)"
    using assms(1) q(2) by (intro FreeMessage_wf) (simp_all add: served_def pool_wf_def)
  ultimately show ?thesis
    using assms(1,2) q(1) w' out_cong [of s s "w_env w'" "w_env w"] by (simp add: served_def)
qed

lemma served_answer:
  assumes "served a cs hs (p # ms) bs w y s" and "has_opcode p" and "session_Active s"
    and "4 + length p \<le> free_room (send_room s)"
  shows "\<exists>w' s'. handle_next w = Some w' \<and> served a cs (hs @ [p]) ms (bs @ frame p) w' y s'
    \<and> (\<exists>r. s' = s\<lparr>s_que_send := r\<rparr>) \<and> (filled s \<longrightarrow> filled s')
    \<and> length (s_que_send s') \<le> length (s_que_send s) + 4 + length p"
proof -
  obtain m q where q: "msg_waiting (ne_mq (w_env w)) = m # q" "msg_wf m" "msg_bytes m = map Some p" "m_ptr m = Some a"
    using assms(1) by (auto simp: served_def list_all2_Cons2)
  have "len_ok (length p)" using assms(1) feeds_len_ok [of p "Pending []" cs] by (simp add: served_def)
  then have p: "packet_Opcode m = Some (bytes_word (take 2 p))" "p \<noteq> []" "bytes_word (take 2 p) \<noteq> (0 :: u16)"
    using payload_opcode [OF q(2,3)] assms(2) by (auto simp: len_ok_def has_opcode_def)
  have s: "session_at a w = Some s" "out_ok s (w_env w)" "send_wf s (w_env w)" using assms(1) by (auto simp: served_def out_ok_def)
  obtain s' e' where 1: "server_on_msg m w = Some (put_session s' (w\<lparr>w_env := e'\<rparr>))"
    "session_at a (put_session s' (w\<lparr>w_env := e'\<rparr>)) = Some s'"
    "sends s (w_env w) s' e' (map Some (frame p)) (free_room (send_room s) - 4 - length p)"
    by (rule server_echoes [OF q(2,3) p(2,1,3) q(4) s(1) assms(3) s(3) assms(4)])
  obtain r k where s': "s' = s\<lparr>s_que_send := r\<rparr>" "e' = (w_env w)\<lparr>ne_mq2 := k\<rparr>" using 1(3) by (auto simp: sends_def)
  let ?w = "(put_session s' (w\<lparr>w_env := e'\<rparr>))\<lparr>w_env := e'\<lparr>ne_mq := FreeMessage ((ne_mq (w_env w))\<lparr>msg_waiting := q\<rparr>) m\<rparr>\<rparr>"
  have "handle_next w = Some ?w" using q(1) 1(1) by (simp add: handle_next_def PopMessage_def)
  moreover have "session_at a ?w = Some s'" using 1(2) by (simp add: session_at_def)
  moreover have "pool_wf (FreeMessage ((ne_mq (w_env w))\<lparr>msg_waiting := q\<rparr>) m)"
    using assms(1) q(2) by (intro FreeMessage_wf) (simp_all add: served_def pool_wf_def)
  moreover have "recv_rel s' d" if "recv_rel s d" for d
    using that by (rule recv_rel_cong [rotated 3]) (simp_all add: s')
  ultimately have "served a cs (hs @ [p]) ms (bs @ frame p) ?w y s'"
    using assms(1,2) q(1) sends_pending [OF s(2) 1(3)] out_cong [of s' s' "w_env ?w" e'] s'
    by (auto simp: served_def)
  moreover have "length (s_que_send s') \<le> length (s_que_send s) + 4 + length p" using 1(3) by (simp add: sends_def frame_def)
  moreover have "filled s \<longrightarrow> filled s'" using 1(3) by (simp add: sends_def)
  ultimately show ?thesis using \<open>handle_next w = Some ?w\<close> s'(1) by blast
qed

lemma served_handle:
  assumes "served a cs hs (p # ms) bs w y s" and "session_Active s"
    and "4 + length p \<le> free_room (send_room s)" and "handle_next w = Some w'"
  shows "\<exists>bs' s'. served a cs (hs @ [p]) ms bs' w' y s'"
proof (cases "has_opcode p")
  case True
  from served_answer [OF assms(1) this assms(2,3)] show ?thesis using assms(4) by auto
next
  case False
  from served_quiet [OF assms(1) this assms(4)] show ?thesis by blast
qed

lemma served_update:
  assumes "served a cs hs ms bs w y s" and "session_Update io s (w_env w) y = Some (s', e', y')"
  shows "\<exists>ms' bs'. served a (cs @ update_reads io s) hs (ms @ ms') bs' (put_session s' (w\<lparr>w_env := e'\<rparr>)) y' s'"
proof -
  have s: "session_at a w = Some s" "s_id s = a" "out_ok s (w_env w)" "pending s = map Some bs"
    using assms(1) session_at_id by (auto simp: served_def)
  obtain bs' where out: "out_ok s' e'" "pending s' = map Some bs'" "taken (sy_log y') @ bs' = taken (sy_log y) @ bs"
    using Update_stream [OF s(3,4) assms(2)] by blast
  let ?d = "fst (feeds (Pending []) cs)" let ?new = "snd (feeds ?d (update_reads io s))"
  have "recv_rel s ?d" "pool_wf (ne_mq (w_env w))" using assms(1) by (simp_all add: served_def)
  note inc = Update_receives [OF assms(2) this]
  obtain q where q: "pool_wf (ne_mq e')" "msg_waiting (ne_mq e') = msg_waiting (ne_mq (w_env w)) @ q"
    "list_all2 (\<lambda>m p. msg_wf m \<and> msg_bytes m = map Some p \<and> m_ptr m = Some a) q ?new"
    using inc(3) s(2) by (auto simp: arrived_def delivers_def)
  have "session_at a (put_session s' (w\<lparr>w_env := e'\<rparr>)) = Some s'"
    using s(1,2) inc(1) by (intro session_at_put [where s = s]) (simp_all add: session_at_def)
  then have "served a (cs @ update_reads io s) hs (ms @ ?new) bs' (put_session s' (w\<lparr>w_env := e'\<rparr>)) y' s'"
    using assms(1) out inc(2) q by (auto simp: served_def feeds_append_sel intro: list_all2_appendI)
  then show ?thesis by blast
qed

lemma served_at: "served a cs hs ms bs w y s \<Longrightarrow> session_at a w = Some s' \<Longrightarrow> s' = s"
  by (simp add: served_def)

lemma served_next:
  assumes "served a cs hs ms bs w y s" and "msg_waiting (ne_mq (w_env w)) = m # q" and "msg_bytes m = map Some p"
  obtains ms' where "ms = p # ms'"
  using assms by (auto simp: served_def list_all2_Cons1 inj_map_eq_map)

text \<open>The session is idle to begin with: nothing queued, nothing half read, nothing waiting.\<close>

definition idle :: "nat \<Rightarrow> world \<times> sys \<Rightarrow> bool" where
  "idle a x \<longleftrightarrow> (\<exists>s bs. served a [] [] [] bs (fst x) (snd x) s)"

lemma serving_served:
  assumes "serving a x cs hs z" and "idle a x"
  shows "\<exists>s ms bs. served a cs hs ms bs (fst z) (snd z) s"
  using assms
proof (induction rule: serving.induct)
  case start
  then show ?case by (auto simp: idle_def)
next
  case (update cs hs w y s io s' e' y')
  then obtain ms bs where "served a cs hs ms bs w y s" using served_at by fastforce
  from served_update [OF this update.hyps(3)] show ?case by auto
next
  case (handled cs hs w y s m q p w')
  then obtain ms bs where 1: "served a cs hs ms bs w y s" using served_at by fastforce
  obtain ms' where "ms = p # ms'" by (rule served_next [OF 1 handled.hyps(4,5)])
  then have "served a cs hs (p # ms') bs w y s" using 1 by simp
  from served_handle [OF this handled.hyps(3,6,7)] show ?case by auto
next
  case (polled cs hs w y s events)
  then obtain ms bs where "served a cs hs ms bs w y s" using served_at by fastforce
  then have "served a cs hs ms bs (put_session (session_callback s events) w) y (session_callback s events)"
    by (rule served_cong) (simp_all add: session_callback_def same_out_def same_in_def)
  then show ?case by auto
next
  case (disconnect cs hs w y s)
  then obtain ms bs where "served a cs hs ms bs w y s" using served_at by fastforce
  then have "served a cs hs ms bs (put_session (session_Disconnect s) w) y (session_Disconnect s)"
    by (rule served_cong) (simp_all add: session_Disconnect_def same_out_def same_in_def)
  then show ?case by auto
qed

section \<open>There and back\<close>

text \<open>
  C2. The echo service, for messages that fit into the buffers: a client sends \<open>ps\<close>, each of which fits with its length field into the
  free room of the client's current send buffer, as each does into that of the server's session, which is running, when it is handled (\<open>talk\<close>, \<open>serving\<close>).  The server's session \<open>a\<close> reads an initial part of the
  client's bytes and the frame loop handles what arrives, and the client's session reads an initial part of what the
  server sent, all in pieces of any sizes and in any order of updates.  Then what comes back are the
  first of the messages of \<open>ps\<close> that have an opcode, unchanged and in order; and all of them
  when nothing is under way any more.
\<close>

theorem echo_service:
  assumes "talk c ps (s, e, y)" and "silent c" and "\<forall>p\<in>set ps. 2 \<le> length p \<and> length p \<le> 0x4000"
    and "serving a x cs hs (w, z)" and "idle a x" and "cs @ unread = taken (sy_log y)"
    and "recv_rel r (Pending [])" and "pool_wf (ne_mq f)" and "\<forall>rs\<in>set rss. \<exists>x\<in>set rs. recv_ends x"
    and "concat (map recv_stream rss) @ unheard = taken (sy_log z)"
  shows "\<exists>r' f' qs. hear rss r f = Some (r', f') \<and> delivers (s_id r) f f' qs \<and> prefix qs (filter has_opcode ps)
    \<and> (pending s = [] \<longrightarrow> unread = [] \<longrightarrow> msg_waiting (ne_mq (w_env w)) = [] \<longrightarrow>
       map_option pending (session_at a w) = Some [] \<longrightarrow> unheard = [] \<longrightarrow> qs = filter has_opcode ps)"
proof -
  obtain bs where bs: "pending s = map Some bs" "taken (sy_log y) @ bs = concat (map frame ps)"
    using talk_stream [OF assms(1,2) HOL.refl] by blast
  have there: "cs @ unread @ bs = concat (map frame ps)" using bs(2) assms(6) by (metis append.assoc)
  obtain t ms os where t: "served a cs hs ms os w z t" using serving_served [OF assms(4,5)] by auto
  then have got: "snd (feeds (Pending []) cs) = hs @ ms" "taken (sy_log z) @ os = concat (map frame (filter has_opcode hs))"
    "list_all2 (\<lambda>m p. msg_wf m \<and> msg_bytes m = map Some p \<and> m_ptr m = Some a) (msg_waiting (ne_mq (w_env w))) ms"
    by (simp_all add: served_def)
  have "prefix (hs @ ms) ps" using heard_prefix(1) [OF there assms(3)] got(1) by simp
  then have hs: "prefix hs ps" by (rule append_prefixD)
  have all: "hs = ps" if "pending s = []" "unread = []" "msg_waiting (ne_mq (w_env w)) = []"
    using heard_prefix(2) [OF there assms(3)] that bs(1) got(1,3) by simp
  let ?heard = "concat (map recv_stream rss)"
  have home: "?heard @ unheard @ os = concat (map frame (filter has_opcode hs))" using got(2) assms(10) by (metis append.assoc)
  have sizes: "\<forall>p\<in>set (filter has_opcode hs). 2 \<le> length p \<and> length p \<le> 0x4000"
    using assms(3) set_mono_prefix [OF hs] by auto
  obtain r' f' where "hear rss r f = Some (r', f')" "delivers (s_id r) f f' (snd (feeds (Pending []) ?heard))"
    using hear_sim [OF assms(7-9)] by blast
  moreover have "prefix (snd (feeds (Pending []) ?heard)) (filter has_opcode ps)"
    using heard_prefix(1) [OF home sizes] filter_mono_prefix [OF hs] by (rule prefix_order.trans)
  moreover have "snd (feeds (Pending []) ?heard) = filter has_opcode ps"
    if "pending s = []" "unread = []" "msg_waiting (ne_mq (w_env w)) = []"
      "map_option pending (session_at a w) = Some []" "unheard = []"
    using heard_prefix(2) [OF home sizes] all that t by (simp add: served_def)
  ultimately show ?thesis by blast
qed

text \<open>The first session of a server reads a message of two bytes.\<close>

lemma first_read:
  "\<exists>s e y. session_Update \<lparr>io_lock = True, io_so_error = 0, io_recvs = [RecvBytes [2, 0, 0, 0, 7, 8]], io_sends = []\<rparr>
      first_session first_env first_sys = Some (s, e, y) \<and> s_status s = SS_RUNNING \<and> s_que_send s = [] \<and> s_msg_send s = None
    \<and> s_wr_ready s \<and> \<not> s_send_over s \<and> s_events s = 0 \<and> s_key s \<noteq> None \<and> taken (sy_log y) = []"
  by (simp add: session_Update_def update_events_def post_recv_def post_send_def update_status_def update_register_def
      RegisterHandler_def epoll_ctl_def first_sys_def session_on_recv.simps fill_while.simps message_Fill_def
      message_Fill_loop.simps first_session_sel message_Reset_def message_new_def message_Full_def session_begin_def
      session_finish_def Let_def read_clock_def sys_do_def sys_consts
      mem_read_def mem_write_def mem_alloc_def bytes_word_def first_env_def mqueue_new_def ApplyMessage_def PushMessage_def
      MEMORY_UNIT_SIZE_def MAX_PACKET_SIZE_def MAX_BUFFER_SIZE_def)

text \<open>It arrives, is handled, and the answer is sent.\<close>

lemma first_idle: "idle 1 (served_world first_session, first_sys)"
  using served_session [of first_session] first_session_ok
  by (auto simp: idle_def served_def served_world_def first_world_def first_session_sel first_sys_def first_env_def mqueue_new_def)

lemma first_heard: "snd (feeds (Pending []) [2, 0, 0, 0, 7, 8]) = [[7, 8]]" "has_opcode [7, 8]"
  by (simp_all add: Let_def frame_len_def len_ok_def has_opcode_def bytes_word_def)

lemma first_arrival:
  "\<exists>w y s. serving 1 (served_world first_session, first_sys) [2, 0, 0, 0, 7, 8] [] (w, y)
    \<and> served 1 [2, 0, 0, 0, 7, 8] [] [[7, 8]] [] w y s \<and> s_status s = SS_RUNNING \<and> s_que_send s = []
    \<and> s_msg_send s = None \<and> s_wr_ready s \<and> \<not> s_send_over s \<and> s_events s = 0 \<and> s_key s \<noteq> None \<and> taken (sy_log y) = []"
proof -
  let ?x = "(served_world first_session, first_sys)"
  let ?io = "\<lparr>io_lock = True, io_so_error = 0, io_recvs = [RecvBytes [2, 0, 0, 0, 7, 8]], io_sends = []\<rparr>"
  have at: "session_at 1 (served_world first_session) = Some first_session" by (rule served_session) (simp add: first_session_sel)
  obtain s e y where 1: "session_Update ?io first_session first_env first_sys = Some (s, e, y)" "s_status s = SS_RUNNING"
    "s_que_send s = []" "s_msg_send s = None" "s_wr_ready s" "\<not> s_send_over s" "s_events s = 0" "s_key s \<noteq> None"
    "taken (sy_log y) = []" using first_read by blast
  let ?w = "put_session s ((served_world first_session)\<lparr>w_env := e\<rparr>)"
  have "session_Update ?io first_session (w_env (served_world first_session)) first_sys = Some (s, e, y)"
    using 1(1) by (simp add: served_world_def first_world_def)
  from serving.update [OF serving.start at this] have h: "serving 1 ?x [2, 0, 0, 0, 7, 8] [] (?w, y)"
    by (simp add: update_reads_def update_events_def first_session_sel)
  obtain t ms bs where v: "served 1 [2, 0, 0, 0, 7, 8] [] ms bs ?w y t" using serving_served [OF h first_idle] by auto
  have "s_id s = 1" using Update_receives(1) [OF 1(1) first_session_ok(7,6)] by (simp add: first_session_sel)
  then have "session_at 1 ?w = Some s" using at by (intro session_at_put [where s = first_session]) (simp_all add: session_at_def)
  then have "t = s" using served_at [OF v] by simp
  moreover have "ms = [[7, 8]]" "bs = []" using v first_heard(1) 1(9) by (auto simp: served_def)
  ultimately show ?thesis using h v 1 by blast
qed

lemma first_service:
  "\<exists>w z. serving 1 (served_world first_session, first_sys) [2, 0, 0, 0, 7, 8] [[7, 8]] (w, z)
    \<and> taken (sy_log z) = [2, 0, 0, 0, 7, 8] \<and> msg_waiting (ne_mq (w_env w)) = []
    \<and> map_option pending (session_at 1 w) = Some []"
proof -
  let ?x = "(served_world first_session, first_sys)" let ?cs = "[2, 0, 0, 0, 7, 8] :: byte list"
  obtain w1 y s where 1: "serving 1 ?x ?cs [] (w1, y)" "served 1 ?cs [] [[7, 8]] [] w1 y s" "s_status s = SS_RUNNING"
    "s_que_send s = []" "s_msg_send s = None" "s_wr_ready s" "\<not> s_send_over s" "s_events s = 0" "s_key s \<noteq> None"
    "taken (sy_log y) = []" using first_arrival by blast
  have act: "session_Active s" using 1(3) by (simp add: session_Active_def)
  have room: "4 + length [7, 8 :: byte] \<le> free_room (send_room s)" using 1(4) by (simp add: send_room_def free_room_def)
  obtain w2 s2 q where 2: "handle_next w1 = Some w2" "served 1 ?cs [[7, 8]] [] ?cs w2 y s2"
    "s2 = s\<lparr>s_que_send := q\<rparr>" "filled s2" "length q \<le> 6"
    using served_answer [OF 1(2) first_heard(2) act room] 1(4) by (auto simp: frame_78 filled_def)
  then have "q \<noteq> []" using 1(5) by (auto simp: served_def pending_def wire_def)
  obtain m where m: "msg_waiting (ne_mq (w_env w1)) = [m]" "msg_bytes m = map Some [7, 8]" "session_at 1 w1 = Some s"
    using 1(2) by (auto simp: served_def list_all2_Cons2)
  have h2: "serving 1 ?x ?cs [[7, 8]] (w2, y)"
    using serving.handled [OF 1(1) m(3) act m(1,2) room 2(1)] by simp
  let ?io2 = "\<lparr>io_lock = True, io_so_error = 0, io_recvs = [RecvErr EAGAIN], io_sends = replicate 7 (SendOk 4096)\<rparr>"
  have "list_all takes_all (replicate 7 (SendOk 4096))" by (simp add: takes_all_def list_all_iff)
  then obtain s3 e3 z where 3: "session_Update ?io2 s2 (w_env w2) y = Some (s3, e3, z)" "taken (sy_log z) = ?cs"
    using Update_drains [of s2 "w_env w2" ?cs "replicate 7 (SendOk 4096)" 0 y] 2(2-5) 1(3-10) \<open>q \<noteq> []\<close>
    by (auto simp: served_def)
  let ?w = "put_session s3 (w2\<lparr>w_env := e3\<rparr>)"
  have "update_reads ?io2 s2 = []" by (simp add: update_reads_def Let_def EAGAIN_def EINTR_def)
  moreover have "session_at 1 w2 = Some s2" using 2(2) by (simp add: served_def)
  ultimately have h3: "serving 1 ?x ?cs [[7, 8]] (?w, z)"
    using serving.update [OF h2 _ 3(1)] by simp
  obtain t ms bs where t: "served 1 ?cs [[7, 8]] ms bs ?w z t" using serving_served [OF h3 first_idle] by auto
  then have "ms = []" "bs = []" using first_heard 3(2) by (simp_all add: served_def frame_78)
  then have "msg_waiting (ne_mq (w_env ?w)) = []" "map_option pending (session_at 1 ?w) = Some []"
    using t by (simp_all add: served_def)
  then show ?thesis using h3 3(2) by blast
qed

theorem echo_service_witness:
  "\<exists>s e y w z r' f'. talk (first_session, first_env, first_sys) [[7, 8]] (s, e, y)
    \<and> serving 1 (served_world first_session, first_sys) [2, 0, 0, 0, 7, 8] [[7, 8]] (w, z)
    \<and> hear [[RecvBytes [2, 0, 0]], [RecvErr EINTR, RecvBytes [0, 7, 8]]] first_session first_env = Some (r', f')
    \<and> delivers 1 first_env f' [[7, 8]]"
proof -
  obtain s e y where t: "talk (first_session, first_env, first_sys) [[7, 8]] (s, e, y)" "pending s = []"
    "taken (sy_log y) = [2, 0, 0, 0, 7, 8]" using first_talk by blast
  obtain w z where h: "serving 1 (served_world first_session, first_sys) [2, 0, 0, 0, 7, 8] [[7, 8]] (w, z)"
    "taken (sy_log z) = [2, 0, 0, 0, 7, 8]" "msg_waiting (ne_mq (w_env w)) = []"
    "map_option pending (session_at 1 w) = Some []" using first_service by blast
  let ?rss = "[[RecvBytes [2, 0, 0]], [RecvErr EINTR, RecvBytes [0, 7, 8]]]"
  have ends: "\<forall>rs\<in>set ?rss. \<exists>x\<in>set rs. recv_ends x" by simp
  have there: "[2, 0, 0, 0, 7, 8] @ [] = taken (sy_log y)" by (simp add: t(3))
  have home: "concat (map recv_stream ?rss) @ [] = taken (sy_log z)" by (simp add: h(2))
  from echo_service [OF t(1) first_session_ok(8) _ h(1) first_idle there first_session_ok(7,6) ends home] show ?thesis
    using t(1,2) h first_heard(2) by (auto simp: first_session_sel)
qed

end
