(* ===== verification/ObjectMethods.thy ===== *)
theory ObjectMethods
  imports GameObjects ScriptData
begin

text \<open>
  What the methods of game objects do when a script calls them: \<^verbatim>\<open>ObjectApi.cpp\<close>, \<^verbatim>\<open>SceneObjectApi.cpp\<close>,
  \<^verbatim>\<open>UnitApi.cpp\<close>, \<^verbatim>\<open>CreatureApi.cpp\<close>, \<^verbatim>\<open>PlayerApi.cpp\<close>, and the table that a script can attach to an object.

  A method sees the arguments after the object on its own Lua stack, and returns how many of the topmost
  values are its results.  The reference that \<^verbatim>\<open>luaL_ref\<close> gives next is an input, as is the text that
  Lua makes of a number.
\<close>

section \<open>The methods\<close>

text \<open>A body: the number of results, the script table of the object, the Lua world, and whether an error was logged.\<close>

type_synonym method_result = "nat \<times> script_table \<times> lua_world \<times> bool"

definition lw_push :: "lua_val \<Rightarrow> lua_world \<Rightarrow> lua_world" where
  "lw_push v w = w\<lparr>lw_stack := Plain v # lw_stack w\<rparr>"

definition text_bytes :: "string \<Rightarrow> byte list" where
  "text_bytes s = map of_char s"

definition object_name :: "script_table \<Rightarrow> lua_world \<Rightarrow> method_result" where
  "object_name t w = (1, t, lw_push (LStr (text_bytes ''Not Defined'')) w, False)"

definition object_type :: "obj_class \<Rightarrow> script_table \<Rightarrow> lua_world \<Rightarrow> method_result" where
  "object_type c t w = (1, t, lw_push (LInt (ucast (ptr_ObjectType c))) w, False)"

text \<open>
  The index \<open>-1\<close> is not acceptable when there are no arguments, so that the branch that pushes the table
  of the object is entered by undefined behaviour only.
\<close>

definition object_table :: "nat \<Rightarrow> script_table \<Rightarrow> lua_world \<Rightarrow> method_result option" where
  "object_table fresh t w =
     (case lw_stack w of
        [] \<Rightarrow> None
      | Plain LNil # _ \<Rightarrow> (let (t1, w1) = table_Destroy t w in Some (0, t1, w1, False))
      | Plain v # _ \<Rightarrow> Some (0, t, w, True)
      | Tab i # _ \<Rightarrow> (let (t1, w1) = table_Create fresh 0 t w in Some (0, t1, w1, False)))"

text \<open>The numbers \<^verbatim>\<open>100.2\<close>, \<^verbatim>\<open>200.1\<close> and \<^verbatim>\<open>0.021\<close> as doubles.\<close>

definition scene_object_pos :: "script_table \<Rightarrow> lua_world \<Rightarrow> method_result" where
  "scene_object_pos t w =
     (3, t, lw_push (LFlt 0x3F95810624DD2F1B) (lw_push (LFlt 0x4069033333333333) (lw_push (LFlt 0x40590CCCCCCCCCCD) w)), False)"

text \<open>\<^verbatim>\<open>lua_tostring\<close> makes a text of a number in its place.\<close>

definition unit_level :: "(lua_val \<Rightarrow> byte list) \<Rightarrow> script_table \<Rightarrow> lua_world \<Rightarrow> method_result" where
  "unit_level fmt t w =
     (let k = length (lw_stack w) - 5;
          conv = (\<lambda>sl. case sl of Plain (LInt n) \<Rightarrow> Plain (LStr (fmt (LInt n)))
                         | Plain (LFlt f) \<Rightarrow> Plain (LStr (fmt (LFlt f))) | _ \<Rightarrow> sl)
      in (0, t, if length (lw_stack w) < 5 then w else w\<lparr>lw_stack := (lw_stack w)[k := conv (lw_stack w ! k)]\<rparr>, False))"

definition creature_attackable :: "script_table \<Rightarrow> lua_world \<Rightarrow> method_result" where
  "creature_attackable t w = (0, t, w, False)"

definition player_sex :: "script_table \<Rightarrow> lua_world \<Rightarrow> method_result" where
  "player_sex t w = (1, t, lw_push (LInt 32) w, False)"

section \<open>Calls\<close>

text \<open>The method behind a name in the table of a class.\<close>

definition method_body :: "(lua_val \<Rightarrow> byte list) \<Rightarrow> nat \<Rightarrow> obj_class \<Rightarrow> string \<Rightarrow> script_table \<Rightarrow> lua_world \<Rightarrow> method_result option" where
  "method_body fmt fresh c name t w =
     (case c of
        CObject \<Rightarrow>
          if name = ''Name'' then Some (object_name t w)
          else if name = ''Type'' then Some (object_type c t w)
          else if name = ''Table'' then object_table fresh t w
          else None
      | CSceneObject \<Rightarrow> if name = ''Pos'' then Some (scene_object_pos t w) else None
      | CUnit \<Rightarrow> if name = ''Level'' then Some (unit_level fmt t w) else None
      | CCreature \<Rightarrow> if name = ''Attackable'' then Some (creature_attackable t w) else None
      | CPlayer \<Rightarrow> if name = ''Sex'' then Some (player_sex t w) else None)"

text \<open>
  A script calls the method \<open>name\<close> of an object with arguments: Lua finds the dispatcher, which takes the
  object off the stack and calls the method.  \<open>Some None\<close> is a Lua error.  The results are in their order.
\<close>

definition object_call :: "(lua_val \<Rightarrow> byte list) \<Rightarrow> nat \<Rightarrow> api_registry \<Rightarrow> string \<Rightarrow> obj_class option \<times> 'o \<Rightarrow> lua_slot list \<Rightarrow>
    ('o \<Rightarrow> script_table) \<Rightarrow> lua_world \<Rightarrow> (lua_slot list \<times> ('o \<Rightarrow> script_table) \<times> lua_world \<times> bool) option option" where
  "object_call fmt fresh reg name arg args tabs w = do {
     r \<leftarrow> api_call reg name arg;
     (case r of
        None \<Rightarrow> Some None
      | Some (c, ob) \<Rightarrow> do {
          (n, t, w1, err) \<leftarrow> method_body fmt fresh c name (tabs ob) (w\<lparr>lw_stack := rev args\<rparr>);
          Some (Some (rev (take n (lw_stack w1)), tabs(ob := t), w1\<lparr>lw_stack := lw_stack w\<rparr>, err))
        })
   }"

declare lw_push_def [code_defs] object_name_def [code_defs] object_type_def [code_defs] object_table_def [code_defs]
  scene_object_pos_def [code_defs] unit_level_def [code_defs] creature_attackable_def [code_defs]
  player_sex_def [code_defs] method_body_def [code_defs] object_call_def [code_defs]

section \<open>The tables of objects\<close>

text \<open>Every object that has a table has a reference of its own, which leads to a table.\<close>

definition tables_ok :: "('o \<Rightarrow> script_table) \<Rightarrow> lua_world \<Rightarrow> bool" where
  "tables_ok tabs w \<longleftrightarrow> (\<forall>ob r. tabs ob = Some r \<longrightarrow> (\<exists>i. lw_reg w r = Some (Tab i)))
     \<and> (\<forall>a b r. tabs a = Some r \<longrightarrow> tabs b = Some r \<longrightarrow> a = b)"

text \<open>What a method can do to the table of its object: nothing, give it up, or replace it by one with a fresh reference.\<close>

definition released :: "script_table \<Rightarrow> lua_world \<Rightarrow> nat \<rightharpoonup> lua_slot" where
  "released t w = (case t of None \<Rightarrow> lw_reg w | Some r \<Rightarrow> (lw_reg w)(r := None))"

definition table_step :: "nat \<Rightarrow> script_table \<Rightarrow> lua_world \<Rightarrow> script_table \<Rightarrow> lua_world \<Rightarrow> bool" where
  "table_step fresh t w t' w' \<longleftrightarrow> lw_tabs w' = lw_tabs w \<and>
     (t' = t \<and> lw_reg w' = lw_reg w \<or> t' = None \<and> lw_reg w' = released t w
      \<or> t' = Some fresh \<and> (\<exists>i. lw_reg w' = (released t w)(fresh \<mapsto> Tab i)))"

lemma object_table_step: "object_table fresh t w = Some (n, t', w', err) \<Longrightarrow> table_step fresh t w t' w'"
  by (auto simp: object_table_def table_Destroy_def table_Create_def table_step_def released_def Let_def
      split: list.splits lua_slot.splits lua_val.splits option.splits)

lemma method_body_step: "method_body fmt fresh c name t w = Some (n, t', w', err) \<Longrightarrow> table_step fresh t w t' w'"
  using object_table_step [of fresh t w n t' w' err]
  by (auto simp: method_body_def object_name_def object_type_def scene_object_pos_def unit_level_def lw_push_def
      creature_attackable_def player_sex_def table_step_def Let_def split: obj_class.splits if_splits)

text \<open>
  \<^verbatim>\<open>luaL_ref\<close> gives a reference that nobody holds when it is called, which is after \<open>table_Destroy\<close>: usually
  the one that the object has just given up.
\<close>

lemma released_other:
  "tables_ok tabs w \<Longrightarrow> b \<noteq> ob \<Longrightarrow> tabs b = Some r \<Longrightarrow> released (tabs ob) w r = lw_reg w r \<and> (\<exists>i. lw_reg w r = Some (Tab i))"
  by (auto simp: tables_ok_def released_def split: option.split)

lemma table_step_ok:
  assumes st: "table_step fresh (tabs ob) w t w'" and ok: "tables_ok tabs w" and free: "released (tabs ob) w fresh = None"
  shows "tables_ok (tabs(ob := t)) w'"
proof -
  have o: "released (tabs ob) w r = lw_reg w r" "\<exists>i. lw_reg w r = Some (Tab i)" "r \<noteq> fresh" if "b \<noteq> ob" "tabs b = Some r" for b r
    using released_other [OF ok that] free by auto
  consider (same) "t = tabs ob" "lw_reg w' = lw_reg w" | (gone) "t = None" "lw_reg w' = released (tabs ob) w"
    | (new) i where "t = Some fresh" "lw_reg w' = (released (tabs ob) w)(fresh \<mapsto> Tab i)"
    using st by (auto simp: table_step_def)
  then show ?thesis
  proof cases
    case same
    then show ?thesis using ok by (simp add: tables_ok_def)
  next
    case gone
    then show ?thesis using ok o by (auto simp: tables_ok_def split: if_splits)
  next
    case new
    then show ?thesis using ok o unfolding tables_ok_def fun_upd_apply by (simp split: if_splits) metis
  qed
qed

text \<open>A call through the start-up registry reaches the method of the class that has it.\<close>

lemma object_call_eq:
  assumes "name \<in> set (class_mapping d)"
  shows "object_call fmt fresh (ScriptMgr_Init Map.empty) name (PushObject c ob (ScriptMgr_Init Map.empty)) args tabs w =
    (if derives c d
     then map_option (\<lambda>(n, t, w1, err). Some (rev (take n (lw_stack w1)), tabs(ob := t), w1\<lparr>lw_stack := lw_stack w\<rparr>, err))
       (method_body fmt fresh d name (tabs ob) (w\<lparr>lw_stack := rev args\<rparr>))
     else Some None)"
  using api_call_inherited [OF assms, of c ob]
  by (cases "method_body fmt fresh d name (tabs ob) (w\<lparr>lw_stack := rev args\<rparr>)") (auto simp: object_call_def)

lemma method_Table:
  assumes "args \<noteq> []" and "last args = Tab i"
  shows "object_call fmt fresh (ScriptMgr_Init Map.empty) ''Table'' (PushObject c ob (ScriptMgr_Init Map.empty)) args tabs w
    = Some (Some ([], tabs(ob := Some fresh), w\<lparr>lw_reg := (released (tabs ob) w)(fresh \<mapsto> Tab i)\<rparr>, False))"
proof -
  obtain st where st: "rev args = Tab i # st" using assms by (cases args rule: rev_cases) auto
  have n: "''Table'' \<in> set (class_mapping CObject)" by simp
  show ?thesis unfolding object_call_eq [OF n] st
    by (auto simp: method_body_def object_table_def table_Create_def table_Destroy_def released_def Let_def split: option.split)
qed

lemma method_Table_nil:
  assumes "args \<noteq> []" and "last args = Plain LNil"
  shows "object_call fmt fresh (ScriptMgr_Init Map.empty) ''Table'' (PushObject c ob (ScriptMgr_Init Map.empty)) args tabs w
    = Some (Some ([], tabs(ob := None), w\<lparr>lw_reg := released (tabs ob) w\<rparr>, False))"
proof -
  obtain st where st: "rev args = Plain LNil # st" using assms by (cases args rule: rev_cases) auto
  have n: "''Table'' \<in> set (class_mapping CObject)" by simp
  show ?thesis unfolding object_call_eq [OF n] st
    by (auto simp: method_body_def object_table_def table_Destroy_def released_def Let_def split: option.split)
qed

text \<open>
  C39. Whatever methods scripts call on objects, with whatever arguments, when \<^verbatim>\<open>luaL_ref\<close> gives a reference that is free at
  that moment (it can be the one that the object has just given up): objects keep tables of their own, the other references
  of the registry stay as they are, and a reference that an object gave up for another one, or for none, is free.  After \<open>Table\<close> with a
  table the object leads to that table, also when it had one before, and after \<open>Table\<close> with nil it has none.
\<close>

theorem object_calls_keep_tables:
  assumes "object_call fmt fresh (ScriptMgr_Init Map.empty) name (PushObject c ob (ScriptMgr_Init Map.empty)) args tabs w
      = Some (Some (rs, tabs', w', err))"
    and "tables_ok tabs w" and "released (tabs ob) w fresh = None"
  shows "tables_ok tabs' w' \<and> lw_stack w' = lw_stack w \<and> (\<forall>b. b \<noteq> ob \<longrightarrow> tabs' b = tabs b)
    \<and> (\<forall>r. tabs ob \<noteq> Some r \<longrightarrow> tabs' ob \<noteq> Some r \<longrightarrow> lw_reg w' r = lw_reg w r)
    \<and> (\<forall>r. tabs ob = Some r \<longrightarrow> tabs' ob \<noteq> Some r \<longrightarrow> lw_reg w' r = None)
    \<and> (\<forall>i. name = ''Table'' \<and> args \<noteq> [] \<and> last args = Tab i \<longrightarrow> (\<exists>r. tabs' ob = Some r \<and> lw_reg w' r = Some (Tab i)))
    \<and> (name = ''Table'' \<and> args \<noteq> [] \<and> last args = Plain LNil \<longrightarrow> tabs' ob = None)"
proof -
  let ?arg = "PushObject c ob (ScriptMgr_Init Map.empty)" and ?w = "w\<lparr>lw_stack := rev args\<rparr>"
  obtain d o2 where d: "api_call (ScriptMgr_Init Map.empty) name ?arg = Some (Some (d, o2))"
    using assms(1) by (auto simp: object_call_def Option.bind_eq_Some_conv split: option.splits)
  then have "o2 = ob" by (auto simp: api_call_def GetObject_def PushObject_def Option.bind_eq_Some_conv split: option.splits if_splits)
  then obtain n t w1 where b: "method_body fmt fresh d name (tabs ob) ?w = Some (n, t, w1, err)"
    "tabs' = tabs(ob := t)" "w' = w1\<lparr>lw_stack := lw_stack w\<rparr>"
    using assms(1) d by (auto simp: object_call_def Option.bind_eq_Some_conv)
  have st: "table_step fresh (tabs ob) w t w'" using method_body_step [OF b(1)] b(3) by (simp add: table_step_def released_def split: option.splits)
  note ok = table_step_ok [OF st assms(2,3)]
  have "\<forall>r. tabs ob \<noteq> Some r \<longrightarrow> t \<noteq> Some r \<longrightarrow> lw_reg w' r = lw_reg w r"
    "\<forall>r. tabs ob = Some r \<longrightarrow> t \<noteq> Some r \<longrightarrow> lw_reg w' r = None"
    using st assms(2,3) by (auto simp: table_step_def released_def tables_ok_def split: option.splits if_splits)
  moreover have "\<exists>r. tabs' ob = Some r \<and> lw_reg w' r = Some (Tab i)" if "name = ''Table''" "args \<noteq> []" "last args = Tab i" for i
    using assms(1) method_Table [OF that(2,3), of fmt fresh c ob tabs w] that(1) by auto
  moreover have "tabs' ob = None" if "name = ''Table''" "args \<noteq> []" "last args = Plain LNil"
    using assms(1) method_Table_nil [OF that(2,3), of fmt fresh c ob tabs w] that(1) by auto
  ultimately show ?thesis using ok b by simp
qed

text \<open>
  An object whose table is replaced by another one, for which Lua uses the same reference again, beside an object that has one, too.
\<close>

definition full_world :: lua_world where
  "full_world = \<lparr>lw_stack = [], lw_reg = [3 \<mapsto> Tab 8, 4 \<mapsto> Tab 9], lw_tabs = [6 \<mapsto> LTab False False [], 8 \<mapsto> LTab False False [], 9 \<mapsto> LTab False False []]\<rparr>"

definition full_tabs :: "nat \<Rightarrow> script_table" where
  "full_tabs = (\<lambda>ob. if ob = 7 then Some 3 else if ob = 5 then Some 4 else None)"

theorem object_calls_keep_tables_witness:
  "\<exists>tabs' w'. object_call (\<lambda>v. []) 3 (ScriptMgr_Init Map.empty) ''Table'' (PushObject CPlayer (7 :: nat) (ScriptMgr_Init Map.empty))
      [Tab 6] full_tabs full_world = Some (Some ([], tabs', w', False))
    \<and> tables_ok tabs' w' \<and> tabs' 7 = Some 3 \<and> lw_reg w' 3 = Some (Tab 6) \<and> tabs' 5 = Some 4 \<and> lw_reg w' 4 = Some (Tab 9)"
proof -
  let ?w' = "full_world\<lparr>lw_reg := (released (full_tabs 7) full_world)(3 \<mapsto> Tab 6)\<rparr>"
  have c: "object_call (\<lambda>v. []) 3 (ScriptMgr_Init Map.empty) ''Table'' (PushObject CPlayer 7 (ScriptMgr_Init Map.empty))
      [Tab 6] full_tabs full_world = Some (Some ([], full_tabs(7 := Some 3), ?w', False))"
    by (rule method_Table) simp_all
  have ok: "tables_ok full_tabs full_world" "released (full_tabs 7) full_world 3 = None"
    by (auto simp: tables_ok_def full_world_def full_tabs_def released_def split: if_splits)
  from object_calls_keep_tables [OF c ok] have "tables_ok (full_tabs(7 := Some 3)) ?w'" "lw_reg ?w' 4 = lw_reg full_world 4"
    by (blast, simp add: full_tabs_def)
  then show ?thesis using c by (intro exI [of _ "full_tabs(7 := Some 3)"] exI [of _ ?w']) (simp add: full_tabs_def full_world_def)
qed

text \<open>The first object of a script: it has no table yet.\<close>

definition bare_world :: lua_world where
  "bare_world = \<lparr>lw_stack = [], lw_reg = Map.empty, lw_tabs = [8 \<mapsto> LTab False False []]\<rparr>"

text \<open>
  A table that a script attaches to an object with \<open>Table\<close> is the one that the server's own
  requests get from then on, whichever class the object has; the tables of other objects stay.
\<close>

theorem table_attached:
  assumes "args \<noteq> []" and "last args = Tab i" and "tables_ok tabs w" and "released (tabs ob) w fresh = None"
  shows "\<exists>tabs' w'. object_call fmt fresh (ScriptMgr_Init Map.empty) ''Table'' (PushObject c ob (ScriptMgr_Init Map.empty)) args tabs w
      = Some (Some ([], tabs', w', False))
    \<and> table_GetTable f2 i2 (tabs' ob) w' = (tabs' ob, w'\<lparr>lw_stack := Tab i # lw_stack w\<rparr>)
    \<and> (\<forall>b r. b \<noteq> ob \<longrightarrow> tabs b = Some r \<longrightarrow> tabs' b = Some r \<and> lw_ref r w' = lw_ref r w)"
proof -
  have "lw_ref r (w\<lparr>lw_reg := (released (tabs ob) w)(fresh \<mapsto> Tab i)\<rparr>) = lw_ref r w" if "b \<noteq> ob" "tabs b = Some r" for b r
    using released_other [OF assms(3) that] assms(4) by (auto simp: lw_ref_def)
  then show ?thesis using method_Table [OF assms(1,2), of fmt fresh c ob tabs w]
    by (auto simp: table_GetTable_def lw_ref_def)
qed

theorem table_attached_witness:
  "\<exists>tabs' w'. object_call (\<lambda>v. []) 3 (ScriptMgr_Init Map.empty) ''Table'' (PushObject CPlayer (7 :: nat) (ScriptMgr_Init Map.empty))
      [Plain LNil, Tab 8] (\<lambda>ob. None) bare_world = Some (Some ([], tabs', w', False))
    \<and> lw_stack (snd (table_GetTable 4 5 (tabs' 7) w')) = [Tab 8]"
proof -
  have "tables_ok (\<lambda>ob :: nat. None) bare_world" "released ((\<lambda>ob :: nat. None) 7) bare_world 3 = None"
    by (simp_all add: tables_ok_def bare_world_def released_def)
  from table_attached [OF _ _ this, of "[Plain LNil, Tab 8]" 8 "\<lambda>v. []" CPlayer 7 4 5] show ?thesis
    by (auto simp: bare_world_def)
qed

text \<open>
  Asking for the table without an argument, which is what the method means to answer with the table of the
  object, is undefined behaviour for every object: the test for a missing argument looks at the top of an empty stack.
\<close>

theorem table_getter_undefined:
  "object_call fmt fresh (ScriptMgr_Init Map.empty) ''Table'' (PushObject c ob (ScriptMgr_Init Map.empty)) [] tabs w = None"
proof -
  have n: "''Table'' \<in> set (class_mapping CObject)" by simp
  show ?thesis unfolding object_call_eq [OF n] by (simp add: method_body_def object_table_def)
qed

text \<open>
  What scripts get from the other methods of an object of class \<open>c\<close>, with whatever arguments: the type is that of a plain
  object for every class, and a method of a class that the object does not derive from is a Lua error.
\<close>

definition answers :: "obj_class \<Rightarrow> string \<Rightarrow> lua_val list option \<Rightarrow> bool" where
  "answers c name vs \<longleftrightarrow> (\<forall>fmt fresh (ob :: nat) args tabs w.
     map_option (map_option fst) (object_call fmt fresh (ScriptMgr_Init Map.empty) name (PushObject c ob (ScriptMgr_Init Map.empty)) args tabs w)
       = Some (map_option (map Plain) vs))"

lemmas method_bodies = method_body_def object_name_def object_type_def scene_object_pos_def unit_level_def lw_push_def
  creature_attackable_def player_sex_def

theorem method_answers:
  "answers c ''Name'' (Some [LStr (text_bytes ''Not Defined'')])
   \<and> answers c ''Type'' (Some [LInt 1])
   \<and> answers c ''Pos'' (if derives c CSceneObject then Some [LFlt 0x40590CCCCCCCCCCD, LFlt 0x4069033333333333, LFlt 0x3F95810624DD2F1B] else None)
   \<and> answers c ''Level'' (if derives c CUnit then Some [] else None)
   \<and> answers c ''Attackable'' (if derives c CCreature then Some [] else None)
   \<and> answers c ''Sex'' (if derives c CPlayer then Some [LInt 32] else None)"
proof (intro conjI)
  have m: "''Name'' \<in> set (class_mapping CObject)" "''Type'' \<in> set (class_mapping CObject)"
    "''Pos'' \<in> set (class_mapping CSceneObject)" "''Level'' \<in> set (class_mapping CUnit)"
    "''Attackable'' \<in> set (class_mapping CCreature)" "''Sex'' \<in> set (class_mapping CPlayer)" by simp_all
  show "answers c ''Name'' (Some [LStr (text_bytes ''Not Defined'')])"
    by (simp add: answers_def object_call_eq [OF m(1)] method_bodies)
  show "answers c ''Type'' (Some [LInt 1])"
    by (simp add: answers_def object_call_eq [OF m(2)] method_bodies ptr_ObjectType_def object_codes)
  show "answers c ''Pos'' (if derives c CSceneObject then Some [LFlt 0x40590CCCCCCCCCCD, LFlt 0x4069033333333333, LFlt 0x3F95810624DD2F1B] else None)"
    by (simp add: answers_def object_call_eq [OF m(3)] method_bodies numeral_eq_Suc split: if_splits) auto
  show "answers c ''Level'' (if derives c CUnit then Some [] else None)"
    by (auto simp: answers_def object_call_eq [OF m(4)] method_bodies Let_def)
  show "answers c ''Attackable'' (if derives c CCreature then Some [] else None)"
    by (auto simp: answers_def object_call_eq [OF m(5)] method_bodies)
  show "answers c ''Sex'' (if derives c CPlayer then Some [LInt 32] else None)"
    by (auto simp: answers_def object_call_eq [OF m(6)] method_bodies)
qed

end
