(* ===== verification/Polling.thy ===== *)
theory Polling
  imports SessionStatus Connector
begin

text \<open>
  The poller thread and the logic thread on one object that both use (\<^verbatim>\<open>poller.cpp\<close>), as interleavings of their
  atomic steps.  The contract of such an object is a locale; sessions (\<^verbatim>\<open>session_linux.cpp\<close>) and connectors
  (\<^verbatim>\<open>connector.cpp\<close>) fulfil it.  The mutex of the object makes its callback and its \<^verbatim>\<open>Update\<close> exclude each
  other; between \<^verbatim>\<open>epoll_wait\<close> and the callback the poller thread holds no lock.
\<close>

section \<open>Interleavings\<close>

text \<open>The registrations that the calls of the kernel contain so far.\<close>

fun is_registration :: "sys_call \<Rightarrow> bool" where
  "is_registration (SysEpollCtl op fd events key) \<longleftrightarrow> op \<noteq> CtlDel"
| "is_registration _ \<longleftrightarrow> False"

definition registrations :: "sys \<Rightarrow> nat" where
  "registrations y = length (filter is_registration (sy_log y))"

text \<open>
  \<open>pl_armed\<close>: the kernel may report an event of the socket, once (\<^verbatim>\<open>EPOLLONESHOT\<close>).  \<open>pl_flight\<close>: an event that
  \<^verbatim>\<open>epoll_wait\<close> has returned and whose callback has not run.  \<open>pl_alive\<close>: the object has not been deleted.
\<close>

record 'o polled =
  pl_obj :: 'o
  pl_sys :: sys
  pl_armed :: bool
  pl_flight :: "u32 option"
  pl_alive :: bool

text \<open>
  \<open>polled_run event callback step disposable x rep act z\<close>: from \<open>x\<close> an interleaving leads to \<open>z\<close> in which the
  kernel reported \<open>rep\<close> and the logic thread took \<open>act\<close>.  \<open>event\<close> is the event that the object holds, 0 if none,
  and \<open>step\<close> a call of the logic thread.  The kernel is armed only by a registration, which can fail.
\<close>

inductive polled_run :: "('o \<Rightarrow> u32) \<Rightarrow> ('o \<Rightarrow> u32 \<Rightarrow> 'o) \<Rightarrow> ('o \<Rightarrow> sys \<Rightarrow> 'o \<Rightarrow> sys \<Rightarrow> bool) \<Rightarrow> ('o \<Rightarrow> bool) \<Rightarrow>
    'o polled \<Rightarrow> u32 list \<Rightarrow> u32 list \<Rightarrow> 'o polled \<Rightarrow> bool" for event callback step disposable x where
  start: "polled_run event callback step disposable x [] [] x"
| report: "polled_run event callback step disposable x rep act z \<Longrightarrow> pl_armed z \<Longrightarrow> pl_flight z = None \<Longrightarrow> ev \<noteq> 0 \<Longrightarrow>
    polled_run event callback step disposable x (rep @ [ev]) act (z\<lparr>pl_armed := False, pl_flight := Some ev\<rparr>)"
| called: "polled_run event callback step disposable x rep act z \<Longrightarrow> pl_flight z = Some ev \<Longrightarrow> pl_alive z \<Longrightarrow>
    polled_run event callback step disposable x rep act (z\<lparr>pl_obj := callback (pl_obj z) ev, pl_flight := None\<rparr>)"
| step: "polled_run event callback step disposable x rep act z \<Longrightarrow> pl_alive z \<Longrightarrow> step (pl_obj z) (pl_sys z) ob y \<Longrightarrow>
    (armed \<Longrightarrow> pl_armed z \<or> registrations (pl_sys z) < registrations y) \<Longrightarrow>
    polled_run event callback step disposable x rep
      (act @ (if event (pl_obj z) \<noteq> 0 \<and> event ob = 0 then [event (pl_obj z)] else []))
      (z\<lparr>pl_obj := ob, pl_sys := y, pl_armed := armed\<rparr>)"
| delete: "polled_run event callback step disposable x rep act z \<Longrightarrow> disposable (pl_obj z) \<Longrightarrow>
    polled_run event callback step disposable x rep act (z\<lparr>pl_armed := False, pl_alive := False\<rparr>)"

section \<open>The contract\<close>

text \<open>
  An object that is registered for one event at a time.  While it expects an event it holds none; it registers only
  when it does not expect one; and what it holds is taken by a step, not changed.
\<close>

locale oneshot_client =
  fixes event :: "'o \<Rightarrow> u32"
    and expecting :: "'o \<Rightarrow> bool"
    and callback :: "'o \<Rightarrow> u32 \<Rightarrow> 'o"
    and step :: "'o \<Rightarrow> sys \<Rightarrow> 'o \<Rightarrow> sys \<Rightarrow> bool"
    and disposable :: "'o \<Rightarrow> bool"
  assumes called_event: "event (callback ob ev) = ev"
    and called_expecting: "ev \<noteq> 0 \<Longrightarrow> \<not> expecting (callback ob ev)"
    and step_event: "step ob y ob' y' \<Longrightarrow> event ob' = event ob \<or> event ob' = 0"
    and step_keeps: "step ob y ob' y' \<Longrightarrow> expecting ob \<Longrightarrow> event ob = 0 \<Longrightarrow> expecting ob'"
    and step_holds: "step ob y ob' y' \<Longrightarrow> expecting ob \<longrightarrow> event ob = 0 \<Longrightarrow> expecting ob' \<Longrightarrow> event ob' = 0"
    and step_registers: "step ob y ob' y' \<Longrightarrow> registrations y < registrations y' \<Longrightarrow> \<not> expecting ob \<and> expecting ob'"
begin

text \<open>
  The kernel is armed, or an event is on its way, only while the object expects one; what was reported is what was taken,
  then what the object holds, then what is on its way.
\<close>

definition quiet_start :: "'o polled \<Rightarrow> bool" where
  "quiet_start x \<longleftrightarrow> (pl_armed x \<longrightarrow> expecting (pl_obj x)) \<and> pl_flight x = None \<and> event (pl_obj x) = 0"

definition run_ok :: "u32 list \<Rightarrow> u32 list \<Rightarrow> 'o polled \<Rightarrow> bool" where
  "run_ok rep act z \<longleftrightarrow> (pl_armed z \<longrightarrow> expecting (pl_obj z) \<and> pl_flight z = None)
     \<and> (pl_flight z \<noteq> None \<and> pl_alive z \<longrightarrow> expecting (pl_obj z)) \<and> pl_flight z \<noteq> Some 0
     \<and> (expecting (pl_obj z) \<longrightarrow> event (pl_obj z) = 0)
     \<and> rep = act @ (if event (pl_obj z) = 0 then [] else [event (pl_obj z)])
         @ (case pl_flight z of None \<Rightarrow> [] | Some ev \<Rightarrow> [ev])"

lemma run_ok_start: "quiet_start x \<Longrightarrow> run_ok [] [] x"
  by (simp add: quiet_start_def run_ok_def)

lemma run_ok_called: "run_ok rep act z \<Longrightarrow> pl_flight z = Some ev \<Longrightarrow> pl_alive z \<Longrightarrow>
    run_ok rep act (z\<lparr>pl_obj := callback (pl_obj z) ev, pl_flight := None\<rparr>)"
  using called_expecting [of ev "pl_obj z"] by (auto simp: run_ok_def called_event)

lemma run_ok_step:
  assumes "run_ok rep act z" and "pl_alive z" and "step (pl_obj z) (pl_sys z) ob y"
    and "armed \<Longrightarrow> pl_armed z \<or> registrations (pl_sys z) < registrations y"
  shows "run_ok rep (act @ (if event (pl_obj z) \<noteq> 0 \<and> event ob = 0 then [event (pl_obj z)] else []))
    (z\<lparr>pl_obj := ob, pl_sys := y, pl_armed := armed\<rparr>)"
proof -
  note ok = assms(1) [unfolded run_ok_def]
  have kept: "expecting (pl_obj z) \<longrightarrow> expecting ob" using ok step_keeps [OF assms(3)] by blast
  have "armed \<longrightarrow> expecting ob \<and> pl_flight z = None"
    using ok kept assms(2,4) step_registers [OF assms(3)] by blast
  moreover have "pl_flight z \<noteq> None \<and> pl_alive z \<longrightarrow> expecting ob" using ok kept by blast
  moreover have "expecting ob \<longrightarrow> event ob = 0" using ok step_holds [OF assms(3)] by blast
  moreover have "rep = (act @ (if event (pl_obj z) \<noteq> 0 \<and> event ob = 0 then [event (pl_obj z)] else []))
      @ (if event ob = 0 then [] else [event ob]) @ (case pl_flight z of None \<Rightarrow> [] | Some ev \<Rightarrow> [ev])"
  proof -
    have "rep = act @ (if event (pl_obj z) = 0 then [] else [event (pl_obj z)])
      @ (case pl_flight z of None \<Rightarrow> [] | Some ev \<Rightarrow> [ev])" using ok by blast
    then show ?thesis using step_event [OF assms(3)] by auto
  qed
  ultimately show ?thesis using ok unfolding run_ok_def by simp
qed

lemma run_ok_delete: "run_ok rep act z \<Longrightarrow> run_ok rep act (z\<lparr>pl_armed := False, pl_alive := False\<rparr>)"
  unfolding run_ok_def by simp

lemma run_ok_report: "run_ok rep act z \<Longrightarrow> pl_armed z \<Longrightarrow> pl_flight z = None \<Longrightarrow> ev \<noteq> 0 \<Longrightarrow>
    run_ok (rep @ [ev]) act (z\<lparr>pl_armed := False, pl_flight := Some ev\<rparr>)"
  by (simp add: run_ok_def)

lemma run_invariant:
  assumes "polled_run event callback step disposable x rep act z" and "quiet_start x"
  shows "run_ok rep act z"
  using assms(1)
  by (induction rule: polled_run.induct)
    (use run_ok_start [OF assms(2)] in \<open>blast intro: run_ok_report run_ok_called run_ok_step run_ok_delete\<close>)+

lemma taken_once:
  assumes "polled_run event callback step disposable x rep act z" and "quiet_start x"
  shows "rep = act @ (if event (pl_obj z) = 0 then [] else [event (pl_obj z)])
    @ (case pl_flight z of None \<Rightarrow> [] | Some ev \<Rightarrow> [ev])"
  using run_invariant [OF assms] by (simp add: run_ok_def)

text \<open>An object that expects an event but is not registered never gets one.\<close>

lemma unarmed_silent:
  assumes "polled_run event callback step disposable x rep act z" and "quiet_start x" and "\<not> pl_armed x" and "expecting (pl_obj x)"
  shows "rep = [] \<and> act = [] \<and> expecting (pl_obj z) \<and> \<not> pl_armed z \<and> pl_flight z = None \<and> event (pl_obj z) = 0"
  using assms(1)
proof (induction rule: polled_run.induct)
  case (step rep act z ob y armed)
  then show ?case using step_keeps step_holds step_registers by fastforce
qed (use assms(2-4) in \<open>auto simp: quiet_start_def\<close>)

end

section \<open>Sessions\<close>

lemma session_send_keeps:
  assumes "session_send s e d n = Some r"
  shows "\<exists>q. fst r = s\<lparr>s_que_send := q\<rparr>"
proof (rule session_send.raw_induct [where P = "\<lambda>s e d n r. \<exists>q. fst r = s\<lparr>s_que_send := q\<rparr>", OF _ assms])
  fix rec s e d n r
  assume 1: "\<And>s e d n r. rec s e d n = Some r \<Longrightarrow> \<exists>q. fst r = s\<lparr>s_que_send := q\<rparr>"
    and 2: "(if n \<noteq> 0 then let (s1, e1) = session_writer s e in do {
      (m, pdata, n1) \<leftarrow> message_Fill (last (s_que_send s1)) d n;
      rec (s1\<lparr>s_que_send := butlast (s_que_send s1) @ [m]\<rparr>) e1 d n1 } else Some (s, e)) = Some r"
  obtain s1 e1 where w: "session_writer s e = (s1, e1)" by (rule prod.exhaust)
  then have "\<exists>q. s1 = s\<lparr>s_que_send := q\<rparr>"
    by (auto simp: session_writer_def Let_def split: if_splits prod.splits intro: exI [of _ "s_que_send s"])
  then obtain q where q: "s1 = s\<lparr>s_que_send := q\<rparr>" by blast
  show "\<exists>q. fst r = s\<lparr>s_que_send := q\<rparr>"
  proof (cases "n = 0")
    case True
    then show ?thesis using 2 by (auto intro: exI [of _ "s_que_send s"])
  next
    case False
    then obtain m p n1 where "rec (s1\<lparr>s_que_send := butlast (s_que_send s1) @ [m]\<rparr>) e1 d n1 = Some r"
      using 2 w by (auto simp: Option.bind_eq_Some_conv)
    from 1 [OF this] show ?thesis by (simp add: q)
  qed
qed

lemma Send_events:
  assumes "session_Send s e d n = Some (s', e')"
  shows "s_events s' = s_events s" and "s_in_epoll s' = s_in_epoll s"
proof -
  have "s_events s' = s_events s \<and> s_in_epoll s' = s_in_epoll s"
  proof (cases "session_Active s")
    case True
    then obtain s1 e1 where 1: "session_send s e (map Some (word_bytes n)) 4 = Some (s1, e1)" "session_send s1 e1 d n = Some (s', e')"
      using assms by (auto simp: session_Send_def Option.bind_eq_Some_conv)
    show ?thesis using session_send_keeps [OF 1(1)] session_send_keeps [OF 1(2)] by auto
  qed (use assms in \<open>simp add: session_Send_def\<close>)
  then show "s_events s' = s_events s" "s_in_epoll s' = s_in_epoll s" by simp_all
qed

lemma post_recv_loop_in_epoll:
  assumes "post_recv_loop rs s e = Some (s', e')"
  shows "s_in_epoll s' = s_in_epoll s"
  by (rule post_recv_loop_invariant [OF assms, where P = "\<lambda>r f. s_in_epoll r = s_in_epoll s"])
    (auto simp: keeps_def keeps_out_def session_set_socket_status_def session_on_recv_error_def session_Disconnect_def)

lemma post_send_loop_in_epoll:
  assumes "post_send_loop rs s e y = Some (s', e', y')"
  shows "s_in_epoll s' = s_in_epoll s"
  by (rule post_send_loop_invariant [OF assms, where P = "\<lambda>r. s_in_epoll r = s_in_epoll s"])
    (auto simp: post_send_pick_def session_set_socket_status_def session_on_send_error_def
      split: option.splits list.splits if_splits)

lemma Update_in_epoll_parts:
  assumes "s1 = fst (update_events s err)" and "post_recv rs s1 e = Some (s2, e2)" and "post_send ss s2 e2 y = Some (s3, e3, y3)"
    and "update_status (if c then session_set_socket_status s3 SS_ERROR else s3) e3 y3 = (s5, e5, y5)"
  shows "s_in_epoll s5 = s_in_epoll s"
proof -
  have "s_in_epoll s1 = s_in_epoll s" using assms(1) by (simp add: update_events_sel)
  moreover have "s_in_epoll s2 = s_in_epoll s1"
    using assms(2) post_recv_loop_in_epoll by (auto simp: post_recv_def split: if_splits)
  moreover have "s_in_epoll s3 = s_in_epoll s2"
    using assms(3) post_send_loop_in_epoll by (auto simp: post_send_def split: if_splits)
  moreover have "s_in_epoll s5 = s_in_epoll s3"
    using assms(4) by (auto simp: update_status_def session_set_socket_status_def session_Disconnect_def read_clock_def
        Let_def split: sock_status.splits if_splits prod.splits)
  ultimately show ?thesis by simp
qed

lemma Update_events:
  assumes "session_Update io s e y = Some (s', e', y')"
  shows "s_events s' = (if io_lock io then 0 else s_events s)" and "s_in_epoll s \<Longrightarrow> s_in_epoll s'"
proof -
  have "s_events s' = (if io_lock io then 0 else s_events s) \<and> (s_in_epoll s \<longrightarrow> s_in_epoll s')"
  proof (cases "io_lock io")
    case False
    then show ?thesis using assms by (simp add: session_Update_def)
  next
    case True
    obtain s1 s2 e2 s3 e3 y3 s5 e5 y5 where p: "s1 = fst (update_events s (io_so_error io))"
      "post_recv (io_recvs io) s1 e = Some (s2, e2)" "post_send (io_sends io) s2 e2 y = Some (s3, e3, y3)"
      "update_status (if closing (s_events s) then session_set_socket_status s3 SS_ERROR else s3) e3 y3 = (s5, e5, y5)"
      "update_register s5 y5 = Some (s', y')" "e' = e5" by (rule Update_parts [OF assms True])
    have "s_events s' = 0"
      using p(1) post_recv_status [OF p(2)] post_send_status [OF p(3)] update_status_settled [OF p(4)]
        update_register_status [OF p(5)] update_events_sel(3) [of s "io_so_error io"]
      by (simp add: session_set_socket_status_def split: if_splits)
    moreover have "s_in_epoll s5 = s_in_epoll s" using Update_in_epoll_parts [OF p(1-4)] .
    moreover have "s_in_epoll s5 \<longrightarrow> s_in_epoll s'"
      using p(5) by (auto simp: update_register_def split: if_splits)
    ultimately show ?thesis using True by simp
  qed
  then show "s_events s' = (if io_lock io then 0 else s_events s)" "s_in_epoll s \<Longrightarrow> s_in_epoll s'" by simp_all
qed

text \<open>Only a session that is not registered is registered, and remembers it.\<close>

lemma post_send_loop_registrations:
  assumes "post_send_loop rs s e y = Some (s', e', y')"
  shows "registrations y' = registrations y"
proof -
  obtain c where c: "sy_log y' = sy_log y @ c" "\<forall>x\<in>set c. \<exists>k d. x = SysSend k d"
    using post_send_loop_effects [OF assms] by blast
  have "filter is_registration c = []" using c(2) by (auto simp: filter_empty_conv)
  then show ?thesis by (simp add: registrations_def c(1))
qed

lemma Update_registers:
  assumes "session_Update io s e y = Some (s', e', y')" and "registrations y < registrations y'"
  shows "\<not> s_in_epoll s" and "s_in_epoll s'"
proof -
  have "io_lock io" using assms by (auto simp: session_Update_def split: if_splits)
  obtain s1 s2 e2 s3 e3 y3 s5 e5 y5 where p: "s1 = fst (update_events s (io_so_error io))"
    "post_recv (io_recvs io) s1 e = Some (s2, e2)" "post_send (io_sends io) s2 e2 y = Some (s3, e3, y3)"
    "update_status (if closing (s_events s) then session_set_socket_status s3 SS_ERROR else s3) e3 y3 = (s5, e5, y5)"
    "update_register s5 y5 = Some (s', y')" "e' = e5" by (rule Update_parts [OF assms(1) \<open>io_lock io\<close>])
  have "registrations y3 = registrations y"
    using p(3) post_send_loop_registrations
    by (auto simp: post_send_def registrations_def sys_do_def split: if_splits)
  moreover have "registrations y5 = registrations y3"
    using p(4) by (auto simp: update_status_def g_net_close_socket_def UnregisterHandler_def epoll_ctl_def sys_do_def
        registrations_def read_clock_def Let_def split: sock_status.splits if_splits prod.splits)
  ultimately have "y' \<noteq> y5" using assms(2) by auto
  then have "\<not> s_in_epoll s5 \<and> s_in_epoll s'"
    using p(5) by (auto simp: update_register_def Option.bind_eq_Some_conv case_prod_beta split: if_splits)
  moreover have "s_in_epoll s5 = s_in_epoll s" using Update_in_epoll_parts [OF p(1-4)] .
  ultimately show "\<not> s_in_epoll s" "s_in_epoll s'" by simp_all
qed

section \<open>Sessions fulfil the contract\<close>

text \<open>The calls of the logic thread on a session, with the environment that it changes.\<close>

definition session_step :: "session \<times> net_env \<Rightarrow> sys \<Rightarrow> session \<times> net_env \<Rightarrow> sys \<Rightarrow> bool" where
  "session_step a y b y' \<longleftrightarrow> (\<exists>io. session_Update io (fst a) (snd a) y = Some (fst b, snd b, y'))
     \<or> (\<exists>d n. session_Send (fst a) (snd a) d n = Some b) \<and> y' = y
     \<or> b = (session_Disconnect (fst a), snd a) \<and> y' = y"

definition session_called :: "session \<times> net_env \<Rightarrow> u32 \<Rightarrow> session \<times> net_env" where
  "session_called a ev = (session_callback (fst a) ev, snd a)"

abbreviation session_run :: "(session \<times> net_env) polled \<Rightarrow> u32 list \<Rightarrow> u32 list \<Rightarrow> (session \<times> net_env) polled \<Rightarrow> bool" where
  "session_run \<equiv> polled_run (s_events \<circ> fst) session_called session_step (session_Disposable \<circ> fst)"

lemma session_step_spec:
  assumes "session_step a y b y'"
  shows "s_events (fst b) = s_events (fst a) \<and> s_in_epoll (fst b) = s_in_epoll (fst a) \<and> y' = y
    \<or> s_events (fst b) = 0 \<and> (s_in_epoll (fst a) \<longrightarrow> s_in_epoll (fst b))
      \<and> (registrations y < registrations y' \<longrightarrow> \<not> s_in_epoll (fst a) \<and> s_in_epoll (fst b))"
  using assms unfolding session_step_def
proof (elim disjE exE conjE)
  fix io assume u: "session_Update io (fst a) (snd a) y = Some (fst b, snd b, y')"
  show ?thesis
  proof (cases "io_lock io")
    case True
    then show ?thesis using Update_events [OF u] Update_registers [OF u] by simp
  next
    case False
    then show ?thesis using u by (simp add: session_Update_def)
  qed
next
  fix d n assume "session_Send (fst a) (snd a) d n = Some b" and "y' = y"
  then show ?thesis using Send_events [of "fst a" "snd a" d n "fst b" "snd b"] by simp
qed (simp add: session_Disconnect_def)

interpretation sp: oneshot_client "s_events \<circ> fst" "s_in_epoll \<circ> fst" session_called session_step "session_Disposable \<circ> fst"
proof unfold_locales
  fix a b :: "session \<times> net_env" and y y' :: sys and ev :: u32
  show "(s_events \<circ> fst) (session_called a ev) = ev" "ev \<noteq> 0 \<Longrightarrow> \<not> (s_in_epoll \<circ> fst) (session_called a ev)"
    by (simp_all add: session_called_def session_callback_def)
  assume st: "session_step a y b y'"
  show "(s_events \<circ> fst) b = (s_events \<circ> fst) a \<or> (s_events \<circ> fst) b = 0" using session_step_spec [OF st] by auto
  show "(s_in_epoll \<circ> fst) a \<Longrightarrow> (s_events \<circ> fst) a = 0 \<Longrightarrow> (s_in_epoll \<circ> fst) b" using session_step_spec [OF st] by auto
  show "(s_in_epoll \<circ> fst) a \<longrightarrow> (s_events \<circ> fst) a = 0 \<Longrightarrow> (s_in_epoll \<circ> fst) b \<Longrightarrow> (s_events \<circ> fst) b = 0"
    using session_step_spec [OF st] by auto
  show "registrations y < registrations y' \<Longrightarrow> \<not> (s_in_epoll \<circ> fst) a \<and> (s_in_epoll \<circ> fst) b"
    using session_step_spec [OF st] by auto
qed

definition session_start :: "session \<Rightarrow> net_env \<Rightarrow> sys \<Rightarrow> (session \<times> net_env) polled" where
  "session_start s e y = \<lparr>pl_obj = (s, e), pl_sys = y, pl_armed = False, pl_flight = None, pl_alive = True\<rparr>"

text \<open>
  C19. No event is lost, repeated or reordered between the two threads: what the kernel reported for a session
  is what the calls of \<^verbatim>\<open>Update\<close> acted on, then the event that the session holds, then the one on its way to
  the callback.
\<close>

theorem events_acted_once:
  assumes "session_run (session_start s e y) rep act z" and "s_events s = 0"
  shows "rep = act @ (if s_events (fst (pl_obj z)) = 0 then [] else [s_events (fst (pl_obj z))])
    @ (case pl_flight z of None \<Rightarrow> [] | Some ev \<Rightarrow> [ev])"
  using sp.taken_once [OF assms(1)] assms(2) by (simp add: sp.quiet_start_def session_start_def)

section \<open>A session that receives\<close>

definition one_byte :: update_io where
  "one_byte = \<lparr>io_lock = True, io_so_error = 0, io_recvs = [RecvBytes [9]], io_sends = []\<rparr>"

definition reset_by_peer :: update_io where
  "reset_by_peer = \<lparr>io_lock = True, io_so_error = 0, io_recvs = [RecvErr 104], io_sends = []\<rparr>"

text \<open>The first call reads a byte and registers the session.\<close>

lemma first_registered:
  "\<exists>s e y. session_Update one_byte first_session first_env first_sys = Some (s, e, y)
    \<and> s_status s = SS_RUNNING \<and> s_in_epoll s \<and> s_rd_ready s \<and> \<not> s_recv_over s \<and> s_que_send s = []
    \<and> s_msg_send s = None \<and> \<not> s_disconnect s \<and> s_events s = 0 \<and> registrations first_sys < registrations y"
  by (simp add: one_byte_def registrations_def session_Update_def update_events_def post_recv_def post_send_def update_status_def update_register_def
      RegisterHandler_def epoll_ctl_def first_sys_def session_on_recv.simps fill_while.simps message_Fill_def
      message_Fill_loop.simps first_session_sel message_Reset_def message_new_def message_Full_def
      Let_def read_clock_def sys_do_def sys_consts
      mem_read_def mem_write_def mem_alloc_def first_env_def MAX_BUFFER_SIZE_def)

text \<open>A reset connection: the session is closed by the next two calls.\<close>

lemma reset_closes:
  assumes "s_status s = SS_RUNNING" and "s_rd_ready s" and "\<not> s_recv_over s" and "s_que_send s = []" and "s_msg_send s = None"
    and "\<not> s_disconnect s" and "s_events s = 0"
  shows "\<exists>s1 y1 s2 y2. session_Update reset_by_peer s e y = Some (s1, e, y1)
    \<and> session_Update reset_by_peer s1 e y1 = Some (s2, e, y2) \<and> session_Disposable s2"
  using assms
  by (simp add: reset_by_peer_def session_Update_def update_events_def post_recv_def post_send_def update_status_def
      update_register_def session_set_socket_status_def session_on_recv_error_def session_Disposable_def EAGAIN_def EINTR_def
      g_net_close_socket_def Let_def split: prod.split)

lemma first_start: "s_events (fst (pl_obj (session_start first_session first_env first_sys))) = 0"
  by (simp add: session_start_def first_session_sel)

text \<open>The history of both threads up to an event that is on its way.\<close>

definition reported :: "session \<Rightarrow> net_env \<Rightarrow> sys \<Rightarrow> (session \<times> net_env) polled" where
  "reported s e y = \<lparr>pl_obj = (s, e), pl_sys = y, pl_armed = False, pl_flight = Some EPOLLIN, pl_alive = True\<rparr>"

lemma Update_step: "session_Update io s e y = Some (s', e', y') \<Longrightarrow> session_step (s, e) y (s', e') y'"
  by (auto simp: session_step_def)

lemma first_report:
  assumes "session_Update one_byte first_session first_env first_sys = Some (s, e, y)" and "registrations first_sys < registrations y"
  shows "session_run (session_start first_session first_env first_sys) [EPOLLIN] [] (reported s e y)"
proof -
  let ?x = "session_start first_session first_env first_sys"
  let ?z = "?x\<lparr>pl_obj := (s, e), pl_sys := y, pl_armed := True\<rparr>"
  have "session_run ?x [] ([] @ (if (s_events \<circ> fst) (pl_obj ?x) \<noteq> 0 \<and> (s_events \<circ> fst) (s, e) = 0
      then [(s_events \<circ> fst) (pl_obj ?x)] else [])) ?z"
    by (rule polled_run.step [OF polled_run.start])
      (use assms Update_step [OF assms(1)] in \<open>simp_all add: session_start_def\<close>)
  then have "session_run ?x [] [] ?z" using first_start by simp
  from polled_run.report [OF this, of EPOLLIN] show ?thesis by (simp add: session_start_def reported_def EPOLLIN_def)
qed

theorem events_acted_once_witness:
  "\<exists>z. session_run (session_start first_session first_env first_sys) [EPOLLIN] [] z \<and> pl_flight z = None
    \<and> s_events (fst (pl_obj z)) = EPOLLIN"
proof -
  let ?x = "session_start first_session first_env first_sys"
  obtain s e y where 1: "session_Update one_byte first_session first_env first_sys = Some (s, e, y)"
    "registrations first_sys < registrations y" using first_registered by blast
  let ?z = "(reported s e y)\<lparr>pl_obj := session_called (s, e) EPOLLIN, pl_flight := None\<rparr>"
  have z: "session_run ?x [EPOLLIN] [] ?z"
    using polled_run.called [OF first_report [OF 1], of EPOLLIN] by (simp add: reported_def)
  moreover have "s_events (fst (pl_obj ?z)) = EPOLLIN"
    using events_acted_once [OF z] by (auto simp: first_session_sel reported_def split: if_splits)
  ultimately show ?thesis by fastforce
qed

text \<open>
  Nothing keeps a session alive while an event of it is on its way: the logic thread can close and delete it between
  \<^verbatim>\<open>epoll_wait\<close> and the callback, which then works on a deleted object.
\<close>

theorem callback_of_deleted_session:
  "\<exists>rep act z. session_run (session_start first_session first_env first_sys) rep act z \<and> pl_flight z = Some EPOLLIN \<and> \<not> pl_alive z"
proof -
  let ?x = "session_start first_session first_env first_sys"
  obtain s e y where 1: "session_Update one_byte first_session first_env first_sys = Some (s, e, y)"
    "s_status s = SS_RUNNING" "s_in_epoll s" "s_rd_ready s" "\<not> s_recv_over s" "s_que_send s = []"
    "s_msg_send s = None" "\<not> s_disconnect s" "s_events s = 0"
    "registrations first_sys < registrations y" using first_registered by blast
  obtain s1 y1 s2 y2 where 2: "session_Update reset_by_peer s e y = Some (s1, e, y1)"
    "session_Update reset_by_peer s1 e y1 = Some (s2, e, y2)" "session_Disposable s2"
    using reset_closes [OF 1(2,4-9)] by blast
  let ?z = "reported s e y"
  have "\<exists>act. session_run ?x [EPOLLIN] act (?z\<lparr>pl_obj := (s1, e), pl_sys := y1, pl_armed := False\<rparr>)"
    using polled_run.step [OF first_report [OF 1(1,10)], of "(s1, e)" y1 False] Update_step [OF 2(1)]
    by (auto simp: reported_def)
  then obtain act where "session_run ?x [EPOLLIN] act (?z\<lparr>pl_obj := (s1, e), pl_sys := y1, pl_armed := False\<rparr>)" ..
  from polled_run.step [OF this, of "(s2, e)" y2 False] Update_step [OF 2(2)]
  have "\<exists>act. session_run ?x [EPOLLIN] act (?z\<lparr>pl_obj := (s2, e), pl_sys := y2, pl_armed := False\<rparr>)"
    by (auto simp: reported_def)
  then obtain act where "session_run ?x [EPOLLIN] act (?z\<lparr>pl_obj := (s2, e), pl_sys := y2, pl_armed := False\<rparr>)" ..
  from polled_run.delete [OF this] 2(3) show ?thesis by (intro exI conjI) (auto simp: reported_def)
qed

section \<open>A registration that failed\<close>

text \<open>When \<^verbatim>\<open>epoll_ctl\<close> refuses the socket, the session counts as registered all the same.\<close>

lemma failed_registration:
  assumes "RegisterHandler (s_socket s) k (or (or (or EPOLLRDHUP EPOLLONESHOT) EPOLLIN) EPOLLOUT) y = (False, k1, y1)"
    and "s_key s = Some k" and "s_status s = SS_RUNNING" and "\<not> s_in_epoll s"
  shows "update_register s y = Some (s\<lparr>s_key := Some k1, s_in_epoll := True\<rparr>, y1)"
  using assms by (simp add: update_register_def)

text \<open>
  From then on no event of the session is ever reported, whatever the threads do: it is not registered again.
\<close>

theorem unarmed_session_silent:
  assumes "session_run (session_start s e y) rep act z" and "s_in_epoll s" and "s_events s = 0"
  shows "rep = [] \<and> act = [] \<and> s_in_epoll (fst (pl_obj z)) \<and> \<not> pl_armed z"
  using sp.unarmed_silent [OF assms(1)] assms(2,3) by (simp add: sp.quiet_start_def session_start_def)

theorem unarmed_session_silent_witness:
  "\<exists>s e y. session_Update quiet_io first_session first_env (first_sys\<lparr>sy_ctl := (\<lambda>n. 12)\<rparr>) = Some (s, e, y)
    \<and> (\<forall>rep act z. session_run (session_start s e y) rep act z \<longrightarrow> rep = [])"
proof -
  obtain s e y where 1: "session_Update quiet_io first_session first_env (first_sys\<lparr>sy_ctl := (\<lambda>n. 12)\<rparr>) = Some (s, e, y)"
    "s_in_epoll s" "s_events s = 0"
    by (simp add: quiet_io_def session_Update_def update_events_def post_recv_def post_send_def update_status_def update_register_def
        RegisterHandler_def epoll_ctl_def first_sys_def first_session_sel Let_def read_clock_def sys_do_def sys_consts first_env_def)
  have "rep = []" if "session_run (session_start s e y) rep act z" for rep act z
    using unarmed_session_silent [OF that 1(2,3)] by simp
  then show ?thesis using 1(1) by blast
qed

section \<open>Connectors fulfil it too\<close>

text \<open>
  The calls of the logic thread on a connector whose hook is that of the base class.  A connector
  expects an event as long as it holds none; the poller's callback is the first to write \<^verbatim>\<open>_events\<close>.
\<close>

definition connector_event :: "connector \<Rightarrow> u32" where
  "connector_event c = (case c_events c of None \<Rightarrow> 0 | Some ev \<Rightarrow> ev)"

definition connector_step :: "connector \<Rightarrow> sys \<Rightarrow> connector \<Rightarrow> sys \<Rightarrow> bool" where
  "connector_step c y c' y' \<longleftrightarrow> (\<exists>io. connector_Update base_on_connect io c y () = Some (c', y', ())) \<or> connector_Abort c y = (c', y')"

lemma connector_step_spec:
  assumes "connector_step c y c' y'"
  shows "connector_event c' = connector_event c \<and> registrations y' = registrations y
    \<or> connector_event c \<noteq> 0 \<and> connector_event c' = 0"
  using assms unfolding connector_step_def
proof (elim disjE exE)
  fix io assume u: "connector_Update base_on_connect io c y () = Some (c', y', ())"
  show ?thesis
    using u by (cases "cu_lock io")
      (auto simp: connector_Update_def connector_events_def connector_event_def Option.bind_eq_Some_conv split: if_splits)
next
  assume "connector_Abort c y = (c', y')"
  then show ?thesis
    by (auto simp: connector_Abort_def g_net_close_socket_def sys_do_def registrations_def connector_event_def Let_def split: if_splits)
qed

interpretation cp: oneshot_client connector_event "\<lambda>c. connector_event c = 0" connector_callback connector_step connector_Disposable
proof unfold_locales
  fix c c' :: connector and y y' :: sys and ev :: u32
  show "connector_event (connector_callback c ev) = ev" by (simp add: connector_event_def connector_callback_def)
  then show "ev \<noteq> 0 \<Longrightarrow> connector_event (connector_callback c ev) \<noteq> 0" by simp
  assume st: "connector_step c y c' y'"
  show "connector_event c' = connector_event c \<or> connector_event c' = 0" using connector_step_spec [OF st] by auto
  show "connector_event c = 0 \<Longrightarrow> connector_event c = 0 \<Longrightarrow> connector_event c' = 0" using connector_step_spec [OF st] by auto
  show "registrations y < registrations y' \<Longrightarrow> connector_event c \<noteq> 0 \<and> connector_event c' = 0"
    using connector_step_spec [OF st] by auto
qed

text \<open>
  A connection attempt that is in progress, and registered, gets every event that is reported for it exactly once.
\<close>

theorem connect_events_once:
  assumes "polled_run connector_event connector_callback connector_step connector_Disposable
      \<lparr>pl_obj = c, pl_sys = y, pl_armed = True, pl_flight = None, pl_alive = True\<rparr> rep act z"
    and "c_events c = None"
  shows "rep = act @ (if connector_event (pl_obj z) = 0 then [] else [connector_event (pl_obj z)])
    @ (case pl_flight z of None \<Rightarrow> [] | Some ev \<Rightarrow> [ev])"
proof (rule cp.taken_once [OF assms(1)])
  have "connector_event c = 0" by (simp add: connector_event_def assms(2))
  then show "cp.quiet_start \<lparr>pl_obj = c, pl_sys = y, pl_armed = True, pl_flight = None, pl_alive = True\<rparr>"
    by (simp add: cp.quiet_start_def)
qed

theorem connect_events_once_witness:
  "\<exists>z. polled_run connector_event connector_callback connector_step connector_Disposable
      \<lparr>pl_obj = connector_new 1, pl_sys = first_sys, pl_armed = True, pl_flight = None, pl_alive = True\<rparr> [EPOLLOUT] [] z
    \<and> connector_event (pl_obj z) = EPOLLOUT"
proof -
  let ?x = "\<lparr>pl_obj = connector_new 1, pl_sys = first_sys, pl_armed = True, pl_flight = None, pl_alive = True\<rparr>"
  have "polled_run connector_event connector_callback connector_step connector_Disposable ?x ([] @ [EPOLLOUT]) []
      (?x\<lparr>pl_armed := False, pl_flight := Some EPOLLOUT\<rparr>)"
    by (rule polled_run.report [OF polled_run.start]) (simp_all add: EPOLLOUT_def)
  then have z: "polled_run connector_event connector_callback connector_step connector_Disposable ?x ([] @ [EPOLLOUT]) []
      (?x\<lparr>pl_armed := False, pl_flight := None, pl_obj := connector_callback (connector_new 1) EPOLLOUT\<rparr>)"
    using polled_run.called [where ev = EPOLLOUT] by fastforce
  have "c_events (connector_new 1) = None" by (simp add: connector_new_def)
  from connect_events_once [OF z this] z show ?thesis by (auto split: if_splits)
qed

end
