(* ===== verification/Spec2Isabelle.thy ===== *)
theory Spec2Isabelle
  imports Wire SessionStatus Frame Timer Schedule AsyncTasks LuaRoundTrip ScriptData LuaEngine LuaReader
    GameScripts GameObjects ObjRef CommandInput Strings Logger Database
    MysqlQuery MysqlStmt DatabaseLink GameCommands GameServer WireWin ListenerWin ConnectorWin
    Callbacks Process MemoryPool Echo ObjectMethods Polling
begin

text \<open>
  A model of the game server in \<^verbatim>\<open>src/server/src/gameserver\<close> and of the library \<^verbatim>\<open>src/public/libcore\<close> it is
  built from, on Linux, with the network on Windows beside it.  Files are named without these directories.

  \<^bold>\<open>The program.\<close>  The main thread (\<^verbatim>\<open>gameserver.cpp\<close>) creates the managers, starts the logic thread and then
  reads commands from the terminal.  The logic thread runs frames (\<^verbatim>\<open>ServerFrame\<close>): in a frame it handles the
  messages that sessions received, updates the network objects, the timers, the worker pool, the schedule
  and the database, runs the callbacks that were put off to the end of the frame, and sleeps for what is left
  of it.  A poller thread waits for events of the sockets and stores them in the objects they belong to;
  the objects act on them when the logic thread updates them.  Scripts in Lua are called by name
  from the frame and call back through registered functions and methods.

  \<^bold>\<open>Conventions.\<close>  A class is a \<open>record\<close>, a method a function on it that carries its name, a member that is a
  pointer to another object is an \<open>option\<close> or an identity.  Integers that the code keeps in fixed width are words of
  that width.  Undefined behaviour (a null pointer followed, a read outside a buffer, a deleted object), a
  call that never returns, and a Lua error outside a protected call are \<open>None\<close>; the comments of the
  theories say which of these apply.  Memory that was never written is \<open>None\<close> in a list of optional bytes.
  The kernel, Lua, MySQL and the C library's clocks are not in the repository: their answers are arguments
  (lists of replies, functions), the calls made to them are logs.  Loops of the code are recursive functions;
  those that the code does not bound are \<open>partial_function\<close>, so that \<open>None\<close> also stands for a loop that never ends,
  and their theorems say that a value results.  Only reading a saved table uses fuel (the nesting and
  the number of entries come from the data): the theorems say that some fuel gives the result, and
  \<open>Deserialize_fuel\<close> that all larger amounts give the same.    Loops over answers of the kernel end with the list of answers.

  \<^bold>\<open>Theories.\<close>

  \<^item> \<open>Prelude\<close>: words as little endian bytes, memory as optional bytes, option combinators, shared lemmas.

  \<^item> \<open>Messages\<close>, \<open>MessageQueue\<close> (\<^verbatim>\<open>messagequeue.h\<close>, \<^verbatim>\<open>messagequeue.cpp\<close>): blocks with a fill level, the loop that fills them, the
    queue with its free list.  The locale \<open>fifo_queue\<close> is the contract of the queue; it is interpreted on the
    code's operations, and the queue's order is derived from it.

  \<^item> \<open>ByteBuffer\<close> (\<^verbatim>\<open>byteBuffer.h\<close>, \<^verbatim>\<open>byteBuffer.cpp\<close>): typed reading and writing.  The locale \<open>typed_stream\<close>
    states what a writer and a reader of typed values promise each other; round trips of sequences are proved in it.

  \<^item> \<open>Session\<close>, \<open>Framing\<close>, \<open>Sending\<close> (\<^verbatim>\<open>session.h\<close>, \<^verbatim>\<open>session.cpp\<close>): length-prefixed frames.  Receiving refines an
    abstract decoder that takes the stream byte by byte, for every division of the stream into pieces.

  \<^item> \<open>Sockets\<close> (\<^verbatim>\<open>netbase.cpp\<close>, \<^verbatim>\<open>poller.cpp\<close>), \<open>SessionLinux\<close>, \<open>SessionWire\<close>, \<open>SessionStatus\<close> (\<^verbatim>\<open>session_linux.cpp\<close>): the loops
    over \<^verbatim>\<open>send\<close> and \<^verbatim>\<open>recv\<close>, the status machine of a session, how it closes.  \<open>Wire\<close>: two sessions end to end.
    \<open>Polling\<close>: an object between the poller thread and the logic thread, under every interleaving.  The locale
    \<open>oneshot_client\<close> is the contract of such an object; it is interpreted for sessions and for connectors.

  \<^item> \<open>Listener\<close>, \<open>Connector\<close>, \<open>NetMgr\<close> (\<^verbatim>\<open>listener.cpp\<close>, \<^verbatim>\<open>connector.cpp\<close>, \<^verbatim>\<open>netmgr.cpp\<close>): accepting, connecting, the owner of
    all network objects and its shutdown.

  \<^item> \<open>Iocp\<close> (\<^verbatim>\<open>netbase.cpp\<close>, \<^verbatim>\<open>poller.cpp\<close>), \<open>SessionWin\<close> (\<^verbatim>\<open>session_win32.cpp\<close>), \<open>ListenerWin\<close>, \<open>ConnectorWin\<close>: the same on
    Windows, with overlapped operations that a completion port ends.  \<open>WireWin\<close>: a session of either platform understands the other.

  \<^item> \<open>Timer\<close> (\<^verbatim>\<open>timer.cpp\<close>, \<^verbatim>\<open>idmaker.cpp\<close>), \<open>Schedule\<close> (\<^verbatim>\<open>ScheduleBase.cpp\<close>), \<open>FrameEvents\<close> (\<^verbatim>\<open>FrameEvent.cpp\<close>,
    \<^verbatim>\<open>SystemEvent.cpp\<close>), \<open>AsyncTasks\<close> (\<^verbatim>\<open>AsyncTask.cpp\<close>), \<open>Frame\<close> (\<^verbatim>\<open>serverframe.cpp\<close>, \<^verbatim>\<open>servertime.cpp\<close>,
    \<^verbatim>\<open>GameServerFrame.cpp\<close>): what a frame does and in which order.  The workers are an inductive set of histories over
    their atomic steps.

  \<^item> \<open>Echo\<close>: a client, the server's session, the queue, the handler of the frame and the way back, composed into one
    statement about what the client gets.

  \<^item> \<open>LuaTable\<close>, \<open>LuaRoundTrip\<close> (\<^verbatim>\<open>LuaTable.cpp\<close>): saving Lua values; which of them come back unchanged.
    \<open>ScriptData\<close> (\<^verbatim>\<open>ScriptParam.cpp\<close>, \<^verbatim>\<open>ScriptTable.cpp\<close>): parameters and script tables on top of it.

  \<^item> \<open>Strings\<close>, \<open>LuaReader\<close>, \<open>LuaEngine\<close>: splitting strings, reading tables and calling functions on the Lua stack.
    The locale \<open>field_getter\<close> is what the reader of a field promises; the lookup of paths is proved in it
    and interpreted for numbers and for strings.

  \<^item> \<open>GameObjects\<close> (\<^verbatim>\<open>Object.cpp\<close>, \<^verbatim>\<open>LuaHelper.h\<close>), \<open>ObjectMethods\<close> (the \<^verbatim>\<open>*Api.cpp\<close> files), \<open>GameScripts\<close> (\<^verbatim>\<open>ScriptResource.cpp\<close>, \<^verbatim>\<open>SystemConfig.cpp\<close>,
    \<^verbatim>\<open>ScriptMgr.cpp\<close>, \<^verbatim>\<open>ScriptTimer.cpp\<close> and others): what the game server does with scripts.

  \<^item> \<open>CommandInput\<close>, \<open>Logger\<close>, \<open>ObjRef\<close>, \<open>Database\<close>: the command line, the log, weak references, the
    connections to the database.

  \<^item> \<open>MysqlQuery\<close>, \<open>MysqlStmt\<close> (\<^verbatim>\<open>MysqlService.cpp\<close>): the handler of a connection, results of queries and prepared statements.
    The locale \<open>row_cursor\<close> is what a reader of rows promises; it is interpreted for both kinds of results.
    \<open>DatabaseLink\<close>: a connection with its handler, when it is connected again and when it is asked to keep it awake.

  \<^item> \<open>GameCommands\<close> (\<^verbatim>\<open>GameServerInput.cpp\<close>): the commands of the terminal and the database jobs.
    \<open>GameServer\<close> (\<^verbatim>\<open>GameServerFrame.cpp\<close>): what the frame does at its start, in each round and at its end.

  \<^item> \<open>Callbacks\<close> (\<^verbatim>\<open>callback.h\<close>, \<^verbatim>\<open>ScriptTimer.cpp\<close>): methods bound to arguments, and the timers of scripts over them.
    \<open>Process\<close> (\<^verbatim>\<open>gameserver.cpp\<close>, \<^verbatim>\<open>singleton.h\<close>, \<^verbatim>\<open>SignalHander.cpp\<close>): \<^verbatim>\<open>main\<close> on all its paths with the thread for signals
    beside it.  \<open>MemoryPool\<close> (\<^verbatim>\<open>MemoryPoll.h\<close>): who owns the blocks of the pool.

  \<^bold>\<open>What is shown.\<close>  Each component has lemmas for its invariant and for every branch of its operations.  Across
  components: the messages that one session sends, as long as each fits into the free room of the current send buffer, are the ones that the other session delivers, in order,
  unchanged and each once, however the kernel cuts the stream; what a client sends to the server comes back to it, under the same condition for both of them; a queued message is handled once, in
  order; saved tables of the kinds that the format has (\<open>sound\<close>) load as \<open>reload\<close> says; a pushed task runs at most once under every interleaving; an event
  that the kernel reports for a session is acted upon once; no two workers hold one database connection, although they test the connections one by one; weak references never
  point to deleted objects while fewer than \<open>65536\<close> of them exist.  Where the code does not do what it means to do, the theorem says
  what it does: messages that cross a send buffer, overdue timers, negative integers of 32 bits in saved tables,
  type tests of objects, shutdown during a connection attempt, and others.

  \<^bold>\<open>Not modelled.\<close>  The parts under \<^verbatim>\<open>PLAT_WIN32\<close> outside the network (directories, clocks, locks); \<^verbatim>\<open>binder.h\<close>, which the program does not use, and \<^verbatim>\<open>variant.h\<close>, which no
  type can instantiate; locks, random numbers and the debug helper, which only forward to the
  platform; game objects beyond their types and methods, as their hooks are empty; the vendored libraries in \<^verbatim>\<open>src/public/depends\<close>.
  The mutexes are modelled by the atomicity of the operations they protect, failure of memory allocation not at all.
  At the start of the server \<^verbatim>\<open>CScriptMgr::Init\<close> is called through the null pointer of an instance that nobody creates; it uses no member of it, and the
  model takes this call to work (\<open>ScriptMgr_Init\<close>, see \<open>script_mgr_missing\<close>).
  In the waits of \<^verbatim>\<open>CNetMgr::End\<close> the poller calls nothing back.  Members that a constructor leaves unset and that are written before
  they are read (\<^verbatim>\<open>_running\<close>) start with some value; \<^verbatim>\<open>_task_cnt\<close> of the worker pool, which nothing sets, starts at zero.
\<close>

end
